(* ===== verification/Rust_Str.thy ===== *)
theory Rust_Str
  imports Prelude
begin

text \<open>
  Rust's \<open>str\<close>. A Rust string is a sequence of bytes that is valid UTF-8; it is modelled as
  HOL's \<open>string\<close>, a list of 8-bit \<open>char\<close>s, so \<open>length\<close> is \<open>str::len\<close> (bytes) and string literals
  are written as they are. Validity is the predicate \<open>utf8\<close>; operations that Rust defines on
  characters (\<open>trim\<close>, \<open>char::is_control\<close>, \<open>char::is_whitespace\<close>) are given by the byte sequences
  that encode those characters. The splitting and replacing operations of the source only ever use
  ASCII separators, for which the byte view and the character view agree on valid UTF-8.
\<close>

definition code :: "char \<Rightarrow> nat" where
  "code c = of_char c"

lemma code_less: "code c < 256"
  by (simp add: code_def)

abbreviation CR :: char where "CR \<equiv> CHR 0x0D"
abbreviation LF :: char where "LF \<equiv> CHR 0x0A"
abbreviation TAB :: char where "TAB \<equiv> CHR 0x09"
abbreviation SPC :: char where "SPC \<equiv> CHR 0x20"
abbreviation BSL :: char where "BSL \<equiv> CHR 0x5C"
abbreviation QUOT :: char where "QUOT \<equiv> CHR 0x22"
abbreviation APOS :: char where "APOS \<equiv> CHR 0x27"

subsection \<open>UTF-8\<close>

text \<open>Continuation bytes are \<open>0x80..0xBF\<close>; every other byte starts a character.\<close>

definition cont :: "char \<Rightarrow> bool" where
  "cont c \<longleftrightarrow> 0x80 \<le> code c \<and> code c < 0xC0"

text \<open>
  Well-formed UTF-8 (the table of RFC 3629 that Rust's validation implements: no overlong
  forms, no surrogates, nothing above U+10FFFF), as one encoded character and the rest.
\<close>

definition utf8_two :: "char \<Rightarrow> char \<Rightarrow> bool" where
  "utf8_two a b \<longleftrightarrow> 0xC2 \<le> code a \<and> code a \<le> 0xDF \<and> cont b"

definition utf8_three :: "char \<Rightarrow> char \<Rightarrow> char \<Rightarrow> bool" where
  "utf8_three a b c \<longleftrightarrow> cont b \<and> cont c \<and>
     (code a = 0xE0 \<and> 0xA0 \<le> code b
      \<or> 0xE1 \<le> code a \<and> code a \<le> 0xEC
      \<or> code a = 0xED \<and> code b \<le> 0x9F
      \<or> 0xEE \<le> code a \<and> code a \<le> 0xEF)"

definition utf8_four :: "char \<Rightarrow> char \<Rightarrow> char \<Rightarrow> char \<Rightarrow> bool" where
  "utf8_four a b c d \<longleftrightarrow> cont b \<and> cont c \<and> cont d \<and>
     (code a = 0xF0 \<and> 0x90 \<le> code b
      \<or> 0xF1 \<le> code a \<and> code a \<le> 0xF3
      \<or> code a = 0xF4 \<and> code b \<le> 0x8F)"

inductive utf8 :: "string \<Rightarrow> bool" where
  utf8_nil: "utf8 []"
| utf8_1: "code a < 0x80 \<Longrightarrow> utf8 r \<Longrightarrow> utf8 (a # r)"
| utf8_2: "utf8_two a b \<Longrightarrow> utf8 r \<Longrightarrow> utf8 (a # b # r)"
| utf8_3: "utf8_three a b c \<Longrightarrow> utf8 r \<Longrightarrow> utf8 (a # b # c # r)"
| utf8_4: "utf8_four a b c d \<Longrightarrow> utf8 r \<Longrightarrow> utf8 (a # b # c # d # r)"

code_pred utf8 .

declare utf8_nil [simp]

lemma utf8_lead_cont:
  "utf8_two a b \<Longrightarrow> \<not> cont a \<and> cont b"
  "utf8_three a b c \<Longrightarrow> \<not> cont a \<and> cont b \<and> cont c"
  "utf8_four a b c d \<Longrightarrow> \<not> cont a \<and> cont b \<and> cont c \<and> cont d"
  by (auto simp: utf8_two_def utf8_three_def utf8_four_def cont_def)

definition ascii :: "string \<Rightarrow> bool" where
  "ascii s \<longleftrightarrow> list_all (\<lambda>c. code c < 0x80) s"

lemma ascii_Nil [simp]: "ascii []"
  by (simp add: ascii_def)

lemma ascii_Cons [simp]: "ascii (c # s) \<longleftrightarrow> code c < 0x80 \<and> ascii s"
  by (simp add: ascii_def)

lemma ascii_append [simp]: "ascii (s @ t) \<longleftrightarrow> ascii s \<and> ascii t"
  by (simp add: ascii_def)

lemma utf8_append: "utf8 s \<Longrightarrow> utf8 t \<Longrightarrow> utf8 (s @ t)"
  by (induction rule: utf8.induct) (auto intro: utf8.intros)

lemma ascii_utf8: "ascii s \<Longrightarrow> utf8 s"
  by (induction s) (auto intro: utf8.intros)

lemma cont_not_ascii: "cont c \<Longrightarrow> \<not> code c < 0x80"
  by (simp add: cont_def)

text \<open>\<open>str::is_char_boundary\<close>.\<close>

definition is_char_boundary :: "string \<Rightarrow> nat \<Rightarrow> bool" where
  "is_char_boundary s k \<longleftrightarrow>
     (k = 0 \<or> k = length s \<or> (k < length s \<and> \<not> cont (s ! k)))"

lemma is_char_boundary_ends [simp]:
  "is_char_boundary s 0" "is_char_boundary s (length s)"
  by (simp_all add: is_char_boundary_def)

lemma utf8_boundary:
  "utf8 s \<Longrightarrow> is_char_boundary s k \<Longrightarrow> utf8 (take k s) \<and> utf8 (drop k s)"
proof (induction arbitrary: k rule: utf8.induct)
  case utf8_nil
  then show ?case by simp
next
  case (utf8_1 a r)
  show ?case
  proof (cases k)
    case 0
    with utf8_1 show ?thesis by (simp add: utf8.utf8_1)
  next
    case (Suc j)
    with utf8_1.prems have "is_char_boundary r j" by (auto simp: is_char_boundary_def)
    from utf8_1.IH [OF this] utf8_1.hyps(1) Suc show ?thesis by (simp add: utf8.utf8_1)
  qed
next
  case (utf8_2 a b r)
  note lead = utf8_lead_cont(1) [OF utf8_2.hyps(1)]
  consider "k = 0" | "k = 1" | j where "k = Suc (Suc j)"
    by (metis One_nat_def not0_implies_Suc)
  then show ?case
  proof cases
    case 3
    with utf8_2.prems have "is_char_boundary r j" by (auto simp: is_char_boundary_def)
    from utf8_2.IH [OF this] utf8_2.hyps(1) 3 show ?thesis by (simp add: utf8.utf8_2)
  qed (use utf8_2.prems utf8_2.hyps lead in \<open>auto simp: is_char_boundary_def intro: utf8.utf8_2\<close>)
next
  case (utf8_3 a b c r)
  note lead = utf8_lead_cont(2) [OF utf8_3.hyps(1)]
  consider "k = 0" | "k = Suc 0" | "k = Suc (Suc 0)" | j where "k = Suc (Suc (Suc j))"
    by (metis not0_implies_Suc)
  then show ?case
  proof cases
    case 4
    with utf8_3.prems have "is_char_boundary r j" by (auto simp: is_char_boundary_def)
    from utf8_3.IH [OF this] utf8_3.hyps(1) 4 show ?thesis by (simp add: utf8.utf8_3)
  qed (use utf8_3.prems utf8_3.hyps lead in \<open>auto simp: is_char_boundary_def intro: utf8.utf8_3\<close>)
next
  case (utf8_4 a b c d r)
  note lead = utf8_lead_cont(3) [OF utf8_4.hyps(1)]
  consider "k = 0" | "k = Suc 0" | "k = Suc (Suc 0)" | "k = Suc (Suc (Suc 0))"
    | j where "k = Suc (Suc (Suc (Suc j)))"
    by (metis not0_implies_Suc)
  then show ?case
  proof cases
    case 5
    with utf8_4.prems have "is_char_boundary r j" by (auto simp: is_char_boundary_def)
    from utf8_4.IH [OF this] utf8_4.hyps(1) 5 show ?thesis by (simp add: utf8.utf8_4)
  qed (use utf8_4.prems utf8_4.hyps lead in \<open>auto simp: is_char_boundary_def intro: utf8.utf8_4\<close>)
qed

text \<open>
  Walking back from any position reaches a boundary within three bytes: no character is longer
  than four.
\<close>

lemma utf8_head_not_cont: "utf8 (c # s) \<Longrightarrow> \<not> cont c"
  by (erule utf8.cases) (auto simp: cont_def dest: utf8_lead_cont)

lemma utf8_boundary_shift:
  "utf8 r \<Longrightarrow> is_char_boundary r j \<Longrightarrow> is_char_boundary (cs @ r) (length cs + j)"
  by (cases r) (auto simp: is_char_boundary_def nth_append dest: utf8_head_not_cont)

lemma utf8_boundary_near:
  "utf8 s \<Longrightarrow> k \<le> length s \<Longrightarrow> \<exists>j. is_char_boundary s j \<and> j \<le> k \<and> k \<le> j + 3"
proof (induction arbitrary: k rule: utf8.induct)
  case utf8_nil
  then show ?case by (intro exI [of _ 0]) simp
next
  case (utf8_1 a r)
  show ?case
  proof (cases "1 \<le> k")
    case False
    then show ?thesis by (intro exI [of _ 0]) simp
  next
    case True
    then obtain m where k: "k = 1 + m" using le_Suc_ex by blast
    with utf8_1.prems have "m \<le> length r" by simp
    from utf8_1.IH [OF this] obtain j where j: "is_char_boundary r j" "j \<le> m" "m \<le> j + 3" by blast
    from utf8_boundary_shift [OF utf8_1.hyps(2) j(1), of "[a]"] j(2,3) k
    show ?thesis by (intro exI [of _ "1 + j"]) simp
  qed
next
  case (utf8_2 a b r)
  show ?case
  proof (cases "2 \<le> k")
    case False
    then show ?thesis by (intro exI [of _ 0]) simp
  next
    case True
    then obtain m where k: "k = 2 + m" using le_Suc_ex by blast
    with utf8_2.prems have "m \<le> length r" by simp
    from utf8_2.IH [OF this] obtain j where j: "is_char_boundary r j" "j \<le> m" "m \<le> j + 3" by blast
    from utf8_boundary_shift [OF utf8_2.hyps(2) j(1), of "[a, b]"] j(2,3) k
    show ?thesis by (intro exI [of _ "2 + j"]) simp
  qed
next
  case (utf8_3 a b c r)
  show ?case
  proof (cases "3 \<le> k")
    case False
    then show ?thesis by (intro exI [of _ 0]) simp
  next
    case True
    then obtain m where k: "k = 3 + m" using le_Suc_ex by blast
    with utf8_3.prems have "m \<le> length r" by simp
    from utf8_3.IH [OF this] obtain j where j: "is_char_boundary r j" "j \<le> m" "m \<le> j + 3" by blast
    from utf8_boundary_shift [OF utf8_3.hyps(2) j(1), of "[a, b, c]"] j(2,3) k
    show ?thesis by (intro exI [of _ "Suc (Suc (Suc j))"]) simp
  qed
next
  case (utf8_4 a b c d r)
  show ?case
  proof (cases "4 \<le> k")
    case False
    then show ?thesis by (intro exI [of _ 0]) simp
  next
    case True
    then obtain m where k: "k = 4 + m" using le_Suc_ex by blast
    with utf8_4.prems have "m \<le> length r" by simp
    from utf8_4.IH [OF this] obtain j where j: "is_char_boundary r j" "j \<le> m" "m \<le> j + 3" by blast
    from utf8_boundary_shift [OF utf8_4.hyps(2) j(1), of "[a, b, c, d]"] j(2,3) k
    show ?thesis by (intro exI [of _ "Suc (Suc (Suc (Suc j)))"]) simp
  qed
qed

subsection \<open>Splitting, stripping and replacing\<close>

text \<open>\<open>str::split(c)\<close>: always at least one piece, empty pieces kept.\<close>

fun split_on :: "char \<Rightarrow> string \<Rightarrow> string list" where
  "split_on c [] = [[]]"
| "split_on c (x # xs) =
     (if x = c then [] # split_on c xs
      else (case split_on c xs of p # ps \<Rightarrow> (x # p) # ps | [] \<Rightarrow> [[x]]))"

text \<open>\<open>str::split_once(c)\<close>: at the first occurrence.\<close>

fun split_once :: "char \<Rightarrow> string \<Rightarrow> (string \<times> string) option" where
  "split_once c [] = None"
| "split_once c (x # xs) =
     (if x = c then Some ([], xs)
      else (case split_once c xs of None \<Rightarrow> None | Some (a, b) \<Rightarrow> Some (x # a, b)))"

fun starts_with :: "string \<Rightarrow> string \<Rightarrow> bool" where
  "starts_with [] s = True"
| "starts_with (p # ps) [] = False"
| "starts_with (p # ps) (x # xs) = (p = x \<and> starts_with ps xs)"

definition ends_with :: "string \<Rightarrow> string \<Rightarrow> bool" where
  "ends_with p s = starts_with (rev p) (rev s)"

definition strip_prefix :: "string \<Rightarrow> string \<Rightarrow> string option" where
  "strip_prefix p s = (if starts_with p s then Some (drop (length p) s) else None)"

text \<open>\<open>str::trim_start_matches(c)\<close> and \<open>str::trim_end_matches(c)\<close>.\<close>

definition trim_start_matches :: "char \<Rightarrow> string \<Rightarrow> string" where
  "trim_start_matches c s = dropWhile (\<lambda>x. x = c) s"

definition trim_end_matches :: "char \<Rightarrow> string \<Rightarrow> string" where
  "trim_end_matches c s = rev (dropWhile (\<lambda>x. x = c) (rev s))"

text \<open>\<open>str::replace(c, r)\<close> for a one-byte pattern.\<close>

definition replace_char :: "char \<Rightarrow> string \<Rightarrow> string \<Rightarrow> string" where
  "replace_char c r s = concat (map (\<lambda>x. if x = c then r else [x]) s)"

lemma split_on_not_Nil [simp]: "split_on c s \<noteq> []"
  by (cases s) (auto split: list.splits)

lemma split_on_no_sep [simp]: "c \<notin> set s \<Longrightarrow> split_on c s = [s]"
  by (induction s) auto

lemma split_on_append_sep:
  "c \<notin> set a \<Longrightarrow> split_on c (a @ c # b) = a # split_on c b"
  by (induction a) auto

lemma split_on_sep_free: "p \<in> set (split_on c s) \<Longrightarrow> c \<notin> set p"
  by (induction s arbitrary: p) (force split: if_splits list.splits)+

lemma split_on_join: "split_on c (a @ c # b) = split_on c a @ split_on c b"
  by (induction a) (auto split: list.splits)

lemma split_once_append [simp]: "c \<notin> set a \<Longrightarrow> split_once c (a @ c # b) = Some (a, b)"
  by (induction a) auto

lemma split_once_None: "split_once c s = None \<longleftrightarrow> c \<notin> set s"
  by (induction s) (auto split: option.splits)

lemma split_once_Some: "split_once c s = Some (a, b) \<Longrightarrow> s = a @ c # b \<and> c \<notin> set a"
  by (induction s arbitrary: a b) (auto split: if_splits option.splits)

lemma starts_with_append [simp]: "starts_with p (p @ s)"
  by (induction p) auto

lemma starts_with_iff: "starts_with p s \<longleftrightarrow> (\<exists>t. s = p @ t)"
  by (induction p s rule: starts_with.induct) auto

lemma strip_prefix_append [simp]: "strip_prefix p (p @ s) = Some s"
  by (simp add: strip_prefix_def)

lemma replace_char_simps [simp]:
  "replace_char c r [] = []"
  "replace_char c r (x # xs) = (if x = c then r else [x]) @ replace_char c r xs"
  by (simp_all add: replace_char_def)

lemma replace_char_append [simp]:
  "replace_char c r (a @ b) = replace_char c r a @ replace_char c r b"
  by (induction a) auto

lemma replace_char_absent [simp]: "c \<notin> set s \<Longrightarrow> replace_char c r s = s"
  by (induction s) auto

lemma set_replace_char: "set (replace_char c r s) \<subseteq> (set s - {c}) \<union> set r"
  by (induction s) auto

lemma utf8_replace_char:
  "code c < 0x80 \<Longrightarrow> ascii r \<Longrightarrow> utf8 s \<Longrightarrow> utf8 (replace_char c r s)"
proof (rotate_tac 2, induction rule: utf8.induct)
  case (utf8_1 a t)
  then show ?case by (auto intro: utf8.utf8_1 utf8_append ascii_utf8)
next
  case (utf8_2 a b t)
  then have "a \<noteq> c" "b \<noteq> c" by (auto simp: utf8_two_def cont_def)
  with utf8_2 show ?case by (auto intro: utf8.utf8_2)
next
  case (utf8_3 a b d t)
  then have "a \<noteq> c" "b \<noteq> c" "d \<noteq> c" by (auto simp: utf8_three_def cont_def)
  with utf8_3 show ?case by (auto intro: utf8.utf8_3)
next
  case (utf8_4 a b d e t)
  then have "a \<noteq> c" "b \<noteq> c" "d \<noteq> c" "e \<noteq> c" by (auto simp: utf8_four_def cont_def)
  with utf8_4 show ?case by (auto intro: utf8.utf8_4)
qed simp

lemma trim_end_matches_absent [simp]: "c \<notin> set s \<Longrightarrow> trim_end_matches c s = s"
proof -
  assume "c \<notin> set s"
  then have "dropWhile (\<lambda>x. x = c) (rev s) = rev s"
    by (cases "rev s") (auto dest: arg_cong [where f = set])
  then show ?thesis by (simp add: trim_end_matches_def)
qed

lemma trim_end_matches_idle: "s = [] \<or> last s \<noteq> c \<Longrightarrow> trim_end_matches c s = s"
  by (cases s rule: rev_cases) (auto simp: trim_end_matches_def)

lemma trim_end_matches_last: "trim_end_matches c s = [] \<or> last (trim_end_matches c s) \<noteq> c"
proof (cases "dropWhile (\<lambda>x. x = c) (rev s)")
  case (Cons a l)
  then have "a \<noteq> c" using hd_dropWhile [of "\<lambda>x. x = c" "rev s"] by auto
  with Cons show ?thesis by (simp add: trim_end_matches_def)
qed (simp add: trim_end_matches_def)

subsection \<open>White space, control characters, case\<close>

text \<open>
  \<open>char::is_whitespace\<close> is the Unicode property \<open>White_Space\<close>: U+0009..U+000D, U+0020, U+0085,
  U+00A0, U+1680, U+2000..U+200A, U+2028, U+2029, U+202F, U+205F and U+3000. \<open>ws_len s\<close> is the
  length of the white-space character \<open>s\<close> starts with, 0 if it starts with another one.
\<close>

definition ws1 :: "char \<Rightarrow> bool" where
  "ws1 a \<longleftrightarrow> 0x09 \<le> code a \<and> code a \<le> 0x0D \<or> code a = 0x20"

definition ws2 :: "char \<Rightarrow> char \<Rightarrow> bool" where
  "ws2 a b \<longleftrightarrow> code a = 0xC2 \<and> (code b = 0x85 \<or> code b = 0xA0)"

definition ws3 :: "char \<Rightarrow> char \<Rightarrow> char \<Rightarrow> bool" where
  "ws3 a b c \<longleftrightarrow>
     code a = 0xE1 \<and> code b = 0x9A \<and> code c = 0x80
     \<or> code a = 0xE2 \<and> code b = 0x80 \<and>
         (0x80 \<le> code c \<and> code c \<le> 0x8A \<or> code c = 0xA8 \<or> code c = 0xA9 \<or> code c = 0xAF)
     \<or> code a = 0xE2 \<and> code b = 0x81 \<and> code c = 0x9F
     \<or> code a = 0xE3 \<and> code b = 0x80 \<and> code c = 0x80"

fun trim_start :: "string \<Rightarrow> string" where
  "trim_start [] = []"
| "trim_start (a # s) =
     (if ws1 a then trim_start s
      else (case s of
          b # t \<Rightarrow> (if ws2 a b then trim_start t
                    else (case t of
                        c # u \<Rightarrow> (if ws3 a b c then trim_start u else a # s)
                      | [] \<Rightarrow> a # s))
        | [] \<Rightarrow> a # s))"

text \<open>The same from the other end, on the reversed string.\<close>

fun trim_end_rev :: "string \<Rightarrow> string" where
  "trim_end_rev [] = []"
| "trim_end_rev (a # s) =
     (if ws1 a then trim_end_rev s
      else (case s of
          b # t \<Rightarrow> (if ws2 b a then trim_end_rev t
                    else (case t of
                        c # u \<Rightarrow> (if ws3 c b a then trim_end_rev u else a # s)
                      | [] \<Rightarrow> a # s))
        | [] \<Rightarrow> a # s))"

definition trim_end :: "string \<Rightarrow> string" where
  "trim_end s = rev (trim_end_rev (rev s))"

definition trim :: "string \<Rightarrow> string" where
  "trim s = trim_end (trim_start s)"

text \<open>\<open>s.chars().any(char::is_whitespace)\<close>.\<close>

fun has_whitespace :: "string \<Rightarrow> bool" where
  "has_whitespace [] = False"
| "has_whitespace (a # s) =
     (ws1 a
      \<or> (case s of b # t \<Rightarrow> ws2 a b \<or> (case t of c # u \<Rightarrow> ws3 a b c | [] \<Rightarrow> False) | [] \<Rightarrow> False)
      \<or> has_whitespace s)"

text \<open>\<open>s.chars().any(char::is_control)\<close>: category Cc, U+0000..U+001F and U+007F..U+009F.\<close>

fun has_control :: "string \<Rightarrow> bool" where
  "has_control [] = False"
| "has_control (a # s) =
     (code a < 0x20 \<or> code a = 0x7F
      \<or> (case s of b # t \<Rightarrow> code a = 0xC2 \<and> 0x80 \<le> code b \<and> code b \<le> 0x9F | [] \<Rightarrow> False)
      \<or> has_control s)"

lemma has_control_absent: "\<not> has_control s \<Longrightarrow> c \<in> set s \<Longrightarrow> 0x20 \<le> code c \<and> code c \<noteq> 0x7F"
  by (induction s) (auto simp: not_less)

lemma no_control_no_newline: "\<not> has_control s \<Longrightarrow> CR \<notin> set s \<and> LF \<notin> set s"
  using has_control_absent [of s CR] has_control_absent [of s LF] by (auto simp: code_def)

definition to_ascii_uppercase :: "string \<Rightarrow> string" where
  "to_ascii_uppercase s =
     map (\<lambda>c. if 97 \<le> code c \<and> code c \<le> 122 then char_of (code c - 32) else c) s"

definition is_ascii_digit :: "char \<Rightarrow> bool" where
  "is_ascii_digit c \<longleftrightarrow> 48 \<le> code c \<and> code c \<le> 57"

definition is_ascii_alphanumeric :: "char \<Rightarrow> bool" where
  "is_ascii_alphanumeric c \<longleftrightarrow>
     is_ascii_digit c \<or> 65 \<le> code c \<and> code c \<le> 90 \<or> 97 \<le> code c \<and> code c \<le> 122"

text \<open>Reading and writing decimal numbers: \<open>str::parse::<u32>\<close> and \<open>format!("{:0w}")\<close>.\<close>

definition digit_val :: "char \<Rightarrow> nat" where
  "digit_val c = code c - 48"

definition digits_val :: "string \<Rightarrow> nat" where
  "digits_val s = foldl (\<lambda>n c. 10 * n + digit_val c) 0 s"

definition parse_uint :: "nat \<Rightarrow> string \<Rightarrow> nat option" where
  "parse_uint bits s =
     (let t = (case s of c # r \<Rightarrow> if c = CHR ''+'' then r else s | [] \<Rightarrow> [])
      in if t \<noteq> [] \<and> list_all is_ascii_digit t \<and> digits_val t < 2 ^ bits
         then Some (digits_val t) else None)"

definition digit_char :: "nat \<Rightarrow> char" where
  "digit_char d = char_of (48 + d mod 10)"

fun digits_of :: "nat \<Rightarrow> string" where
  "digits_of n = (if n < 10 then [digit_char n] else digits_of (n div 10) @ [digit_char (n mod 10)])"

declare digits_of.simps [simp del]

definition pad0 :: "nat \<Rightarrow> string \<Rightarrow> string" where
  "pad0 w s = replicate (w - length s) (CHR ''0'') @ s"

subsection \<open>Text that trimming keeps, and decimal numbers\<close>

definition graphic :: "char \<Rightarrow> bool" where
  "graphic c \<longleftrightarrow> 0x21 \<le> code c \<and> code c < 0x7F"

lemma trim_start_graphic: "graphic c \<Longrightarrow> trim_start (c # s) = c # s"
  by (auto simp: graphic_def ws1_def ws2_def ws3_def split: list.splits)

lemma trim_end_rev_graphic: "graphic c \<Longrightarrow> trim_end_rev (c # s) = c # s"
  by (auto simp: graphic_def ws1_def ws2_def ws3_def split: list.splits)

lemma trim_graphic:
  assumes "s \<noteq> []" "graphic (hd s)" "graphic (last s)"
  shows "trim s = s"
proof -
  have "trim_start s = s" using assms by (cases s) (auto simp only: list.sel trim_start_graphic)
  moreover have "trim_end s = s"
    using assms by (cases s rule: rev_cases)
      (auto simp: trim_end_def trim_end_rev_graphic simp del: trim_end_rev.simps)
  ultimately show ?thesis by (simp add: trim_def)
qed

lemma digit_graphic: "is_ascii_digit c \<Longrightarrow> graphic c"
  by (simp add: is_ascii_digit_def graphic_def)

lemma digit_char_code: "d < 10 \<Longrightarrow> code (digit_char d) = 48 + d"
  by (simp add: digit_char_def code_def)

lemma digits_of_all: "list_all is_ascii_digit (digits_of n)"
proof (induction n rule: digits_of.induct)
  case (1 n)
  have "d < 10 \<Longrightarrow> is_ascii_digit (digit_char d)" for d
    by (simp add: is_ascii_digit_def digit_char_code)
  with 1 show ?case by (subst digits_of.simps) simp
qed

lemma digits_val_snoc: "digits_val (s @ [c]) = 10 * digits_val s + digit_val c"
  by (simp add: digits_val_def)

lemma digits_val_digits_of: "digits_val (digits_of n) = n"
proof (induction n rule: digits_of.induct)
  case (1 n)
  show ?case
  proof (cases "n < 10")
    case True
    then show ?thesis
      by (subst digits_of.simps) (simp add: digits_val_def digit_val_def digit_char_code)
  next
    case False
    with 1 show ?thesis
      by (subst digits_of.simps) (simp add: digits_val_snoc digit_val_def digit_char_code)
  qed
qed

lemma digits_of_length: "n < 10 ^ w \<Longrightarrow> 0 < w \<Longrightarrow> length (digits_of n) \<le> w"
proof (induction w arbitrary: n)
  case (Suc w)
  show ?case
  proof (cases "n < 10")
    case True
    then show ?thesis by (simp add: digits_of.simps)
  next
    case False
    with Suc.prems have "n div 10 < 10 ^ w" "0 < w" by (auto intro!: Nat.gr0I)
    from Suc.IH [OF this] False show ?thesis by (subst digits_of.simps) simp
  qed
qed simp

lemma digits_val_zeros: "digits_val (replicate k (CHR ''0'') @ s) = digits_val s"
  by (induction k) (simp_all add: digits_val_def digit_val_def code_def)

lemma pad0_digits:
  assumes "n < 10 ^ w" "0 < w"
  shows "length (pad0 w (digits_of n)) = w" "list_all is_ascii_digit (pad0 w (digits_of n))"
    "digits_val (pad0 w (digits_of n)) = n"
proof -
  have "is_ascii_digit (CHR ''0'')" by (simp add: is_ascii_digit_def code_def)
  then show "length (pad0 w (digits_of n)) = w" "list_all is_ascii_digit (pad0 w (digits_of n))"
    "digits_val (pad0 w (digits_of n)) = n"
    using digits_of_length [OF assms] digits_of_all [of n]
    by (auto simp: pad0_def digits_val_zeros digits_val_digits_of list_all_iff)
qed

lemma parse_uint_digits:
  assumes "s \<noteq> []" "list_all is_ascii_digit s" "digits_val s < 2 ^ bits"
  shows "parse_uint bits s = Some (digits_val s)"
proof (cases s)
  case (Cons c r)
  with assms(2) have "c \<noteq> CHR ''+''" by (auto simp: is_ascii_digit_def code_def)
  with Cons assms show ?thesis by (simp add: parse_uint_def)
qed (use assms in simp)

lemma digits_val_less: "list_all is_ascii_digit s \<Longrightarrow> digits_val s < 10 ^ length s"
proof (induction s rule: rev_induct)
  case (snoc c s)
  then have "digit_val c \<le> 9" "digits_val s < 10 ^ length s"
    by (auto simp: digit_val_def is_ascii_digit_def)
  then show ?case by (simp add: digits_val_snoc)
qed (simp add: digits_val_def)

lemma filter_digits: "list_all is_ascii_digit s \<Longrightarrow> filter is_ascii_digit s = s"
  by (simp add: list_all_iff)

subsection \<open>Cutting at ASCII keeps UTF-8\<close>

lemma utf8_Cons_ascii: "code c < 0x80 \<Longrightarrow> utf8 (c # s) \<longleftrightarrow> utf8 s"
  using utf8_boundary [of "c # s" 1] utf8_head_not_cont
  by (auto intro: utf8.utf8_1 elim: utf8.cases dest: cont_not_ascii
      simp: utf8_two_def utf8_three_def utf8_four_def)

lemma utf8_split: "code c < 0x80 \<Longrightarrow> utf8 (a @ c # b) \<longleftrightarrow> utf8 a \<and> utf8 b"
proof
  assume c: "code c < 0x80" and u: "utf8 (a @ c # b)"
  have "is_char_boundary (a @ c # b) (length a)"
    using c by (auto simp: is_char_boundary_def dest: cont_not_ascii)
  from utf8_boundary [OF u this] c show "utf8 a \<and> utf8 b" by (simp add: utf8_Cons_ascii)
qed (simp add: utf8_append utf8_Cons_ascii)

lemma utf8_split_on: "code c < 0x80 \<Longrightarrow> utf8 s \<Longrightarrow> p \<in> set (split_on c s) \<Longrightarrow> utf8 p"
proof (induction "length s" arbitrary: s rule: less_induct)
  case less
  show ?case
  proof (cases "c \<in> set s")
    case False
    with less.prems show ?thesis by simp
  next
    case True
    then obtain a b where s: "s = a @ c # b" "c \<notin> set a" by (meson split_list_first)
    with less.prems have u: "utf8 a" "utf8 b" by (simp_all add: utf8_split)
    from s(2) have "split_on c s = [a] @ split_on c b" by (simp add: s(1) split_on_join)
    with less.prems(3) u less.hyps [of b] less.prems(1) s(1) show ?thesis by auto
  qed
qed

lemma utf8_split_once: "code c < 0x80 \<Longrightarrow> utf8 s \<Longrightarrow> split_once c s = Some (a, b) \<Longrightarrow> utf8 a \<and> utf8 b"
  using utf8_split split_once_Some by blast

lemma utf8_strip_prefix: "ascii p \<Longrightarrow> utf8 s \<Longrightarrow> strip_prefix p s = Some r \<Longrightarrow> utf8 r"
proof -
  have "utf8 (p @ r) \<Longrightarrow> ascii p \<Longrightarrow> utf8 r" for p r by (induction p) (auto simp: utf8_Cons_ascii)
  then show "ascii p \<Longrightarrow> utf8 s \<Longrightarrow> strip_prefix p s = Some r \<Longrightarrow> utf8 r"
    by (auto simp: strip_prefix_def starts_with_iff split: if_splits)
qed

lemma utf8_last_ascii: "code c < 0x80 \<Longrightarrow> utf8 (s @ [c]) \<longleftrightarrow> utf8 s"
  using utf8_split [of c s "[]"] by simp

lemma utf8_trim_end_matches: "code c < 0x80 \<Longrightarrow> utf8 s \<Longrightarrow> utf8 (trim_end_matches c s)"
proof (induction s rule: rev_induct)
  case (snoc x s)
  show ?case
  proof (cases "x = c")
    case True
    with snoc show ?thesis by (simp add: trim_end_matches_def utf8_last_ascii)
  next
    case False
    with snoc.prems show ?thesis by (simp add: trim_end_matches_def)
  qed
qed (simp add: trim_end_matches_def)

end
