(* ===== verification/Audit_Log.thy ===== *)
theory Audit_Log
  imports Rust_Str
begin

text \<open>
  The JSON-RPC error value tools return and the envelope audit log, \<open>src/src/audit.rs\<close>.

  \<open>rmcp::ErrorData\<close> is reduced to its code and its message. The codes of its two constructors
  the service calls are those the audit module's own table and its tests give them
  (\<open>invalid_params\<close> is -32602, \<open>internal_error\<close> is -32603).

  An audit event is the record of the fields the log line carries; \<open>latency_ms\<close> and the metric
  are left out, since the clock that measures them is not part of the model.
  SHA-256 and the hexadecimal encoder are third-party crates: \<open>token_hash\<close> takes them as arguments.
\<close>

record error_data =
  err_code :: int
  err_msg :: string

definition invalid_params :: "string \<Rightarrow> error_data" where
  "invalid_params m = \<lparr>err_code = -32602, err_msg = m\<rparr>"

definition internal_error :: "string \<Rightarrow> error_data" where
  "internal_error m = \<lparr>err_code = -32603, err_msg = m\<rparr>"

definition RATE_LIMITED_CODE :: int where "RATE_LIMITED_CODE = -32029"
definition AUTH_EXPIRED_CODE :: int where "AUTH_EXPIRED_CODE = -32028"

lemma error_codes [simp]:
  "err_code (invalid_params m) = -32602"
  "err_code (internal_error m) = -32603"
  by (simp_all add: invalid_params_def internal_error_def)

definition error_class :: "error_data \<Rightarrow> string" where
  "error_class e =
     (let c = err_code e in
      if c = -32700 then ''parse''
      else if c = -32600 then ''invalid_request''
      else if c = -32601 then ''method_not_found''
      else if c = -32602 then ''invalid_params''
      else if c = -32603 then ''internal''
      else if c = RATE_LIMITED_CODE then ''rate_limited''
      else if c = AUTH_EXPIRED_CODE then ''auth_expired''
      else ''other'')"

text \<open>\<open>outcome\<close>: the stable outcome strings.\<close>

datatype outcome =
  OUT_OK | OUT_ERROR | OUT_DENIED | OUT_NOT_FOUND | OUT_INVALID | OUT_UNAUTHORIZED
| OUT_ACTIVE | OUT_INACTIVE | OUT_RATE_LIMITED

fun outcome_str :: "outcome \<Rightarrow> string" where
  "outcome_str OUT_OK = ''ok''"
| "outcome_str OUT_ERROR = ''error''"
| "outcome_str OUT_DENIED = ''denied''"
| "outcome_str OUT_NOT_FOUND = ''not_found''"
| "outcome_str OUT_INVALID = ''invalid''"
| "outcome_str OUT_UNAUTHORIZED = ''unauthorized''"
| "outcome_str OUT_ACTIVE = ''active''"
| "outcome_str OUT_INACTIVE = ''inactive''"
| "outcome_str OUT_RATE_LIMITED = ''rate_limited''"

text \<open>
  \<open>token_hash\<close>: the first eight bytes of the digest, in hexadecimal. \<open>hex\<close> is
  \<open>hex::encode\<close> and \<open>sha\<close> is \<open>Sha256\<close> over the token's bytes.
\<close>

definition token_hash :: "(string \<Rightarrow> char list) \<Rightarrow> (char list \<Rightarrow> string) \<Rightarrow> string \<Rightarrow> string" where
  "token_hash sha hex token = hex (take 8 (sha token))"

definition safe_id_char :: "char \<Rightarrow> bool" where
  "safe_id_char c \<longleftrightarrow> is_ascii_alphanumeric c \<or> c \<in> set ''-_.@:/~%''"

definition is_safe_id :: "string \<Rightarrow> bool" where
  "is_safe_id i \<longleftrightarrow> i \<noteq> [] \<and> length i \<le> 255 \<and> list_all safe_id_char i"

record tool_event =
  te_method :: string
  te_user :: string
  te_resource :: "string option"
  te_outcome :: outcome
  te_result_count :: "nat option"
  te_error_class :: "string option"

definition tool_call ::
  "string \<Rightarrow> string \<Rightarrow> string option \<Rightarrow> outcome \<Rightarrow> nat option \<Rightarrow> string option \<Rightarrow> tool_event" where
  "tool_call tool user resource out cnt err_class =
     \<lparr>te_method = tool, te_user = user,
      te_resource = map_option (\<lambda>r. if is_safe_id r then r else ''<invalid>'') resource,
      te_outcome = out, te_result_count = cnt, te_error_class = err_class\<rparr>"

record introspect_event =
  ie_token_hash :: string
  ie_user :: "string option"
  ie_outcome :: outcome

definition audit_introspect :: "string \<Rightarrow> outcome \<Rightarrow> string option \<Rightarrow> introspect_event" where
  "audit_introspect h out user = \<lparr>ie_token_hash = h, ie_user = user, ie_outcome = out\<rparr>"

lemma safe_id_char_printable: "safe_id_char c \<Longrightarrow> 0x21 \<le> code c \<and> code c \<le> 0x7E"
  by (auto simp: safe_id_char_def is_ascii_alphanumeric_def is_ascii_digit_def code_def)

lemma is_safe_id_printable: "is_safe_id i \<Longrightarrow> c \<in> set i \<Longrightarrow> 0x21 \<le> code c \<and> code c \<le> 0x7E"
  by (auto simp: is_safe_id_def list_all_iff dest: safe_id_char_printable)

end
