(* ===== verification/Vcard.thy ===== *)
theory Vcard
  imports Audit_Log
begin

text \<open>
  The vCard codec of \<open>src/src/mcp.rs\<close>: the validated contact input, \<open>build_vcard\<close> with its line
  folding and text escaping, and \<open>parse_vcard\<close> with unfolding and unescaping.

  \<open>fold_vcard_line\<close> loops while text remains; on a byte list that is not UTF-8 its inner search
  for a character boundary can come back to 0 and the loop then makes no progress. It is a
  \<open>partial_function (option)\<close>: \<open>None\<close> is \<open>does not return\<close>, and the lemmas below show it always
  returns on the UTF-8 strings Rust can pass it.
\<close>

subsection \<open>Limits and input validation\<close>

definition MAX_VCARD_BYTES :: nat where "MAX_VCARD_BYTES = 256 * 1024"
definition MAX_CONTACT_FIELD_BYTES :: nat where "MAX_CONTACT_FIELD_BYTES = 4096"
definition MAX_NOTE_BYTES :: nat where "MAX_NOTE_BYTES = 64 * 1024"
definition MAX_MULTI_VALUES :: nat where "MAX_MULTI_VALUES = 64"

record contact_input =
  ci_uid :: "string option"
  ci_full_name :: string
  ci_given_name :: "string option"
  ci_family_name :: "string option"
  ci_emails :: "string list"
  ci_phones :: "string list"
  ci_organization :: "string option"
  ci_title :: "string option"
  ci_note :: "string option"

definition validate_uid :: "string \<Rightarrow> error_data + unit" where
  "validate_uid uid =
     (if trim uid = [] \<or> length uid > 512 \<or> has_control uid
      then Err (invalid_params ''contact UID must be 1-512 bytes and contain no control characters'')
      else Ok ())"

definition field_limits :: "contact_input \<Rightarrow> (string \<times> string option \<times> nat) list" where
  "field_limits c =
     [(''full_name'', Some (ci_full_name c), MAX_CONTACT_FIELD_BYTES),
      (''given_name'', ci_given_name c, MAX_CONTACT_FIELD_BYTES),
      (''family_name'', ci_family_name c, MAX_CONTACT_FIELD_BYTES),
      (''organization'', ci_organization c, MAX_CONTACT_FIELD_BYTES),
      (''title'', ci_title c, MAX_CONTACT_FIELD_BYTES),
      (''note'', ci_note c, MAX_NOTE_BYTES)]"

definition too_long :: "string \<times> string option \<times> nat \<Rightarrow> bool" where
  "too_long f = (case f of (name, v, mx) \<Rightarrow> (case v of None \<Rightarrow> False | Some s \<Rightarrow> length s > mx))"

definition validate_contact_input :: "contact_input \<Rightarrow> error_data + unit" where
  "validate_contact_input c =
     (if trim (ci_full_name c) = []
      then Err (invalid_params ''`contact.full_name` must not be empty'')
      else case find too_long (field_limits c) of
        Some (name, v, mx) \<Rightarrow>
          Err (invalid_params (''`contact.'' @ name @ ''` exceeds '' @ digits_of mx @ '' bytes''))
      | None \<Rightarrow>
          (if length (ci_emails c) > MAX_MULTI_VALUES \<or> length (ci_phones c) > MAX_MULTI_VALUES
           then Err (invalid_params (''contacts may contain at most '' @ digits_of MAX_MULTI_VALUES
                                     @ '' emails and phone numbers''))
           else if list_ex (\<lambda>v. length v > MAX_CONTACT_FIELD_BYTES) (ci_emails c @ ci_phones c)
           then Err (invalid_params ''an email or phone value exceeds the field-size limit'')
           else case ci_uid c of Some uid \<Rightarrow> validate_uid uid | None \<Rightarrow> Ok ()))"

subsection \<open>Escaping\<close>

definition escape_vcard_text :: "string \<Rightarrow> string" where
  "escape_vcard_text v =
     replace_char (CHR '','') [BSL, CHR '',''] (replace_char (CHR '';'') [BSL, CHR '';'']
       (replace_char LF [BSL, CHR ''n''] (replace_char CR [] (replace_char BSL [BSL, BSL] v))))"

fun unescape_vcard_text :: "string \<Rightarrow> string" where
  "unescape_vcard_text [] = []"
| "unescape_vcard_text [c] = [c]"
| "unescape_vcard_text (c # d # r) =
     (if c \<noteq> BSL then c # unescape_vcard_text (d # r)
      else (if d = CHR ''n'' \<or> d = CHR ''N'' then LF else d) # unescape_vcard_text r)"

subsection \<open>Folding\<close>

text \<open>\<open>while !remaining.is_char_boundary(split) { split -= 1; }\<close>\<close>

fun char_floor :: "string \<Rightarrow> nat \<Rightarrow> nat" where
  "char_floor s 0 = 0"
| "char_floor s (Suc k) = (if is_char_boundary s (Suc k) then Suc k else char_floor s k)"

partial_function (option) fold_loop :: "string \<Rightarrow> bool \<Rightarrow> string \<Rightarrow> string option" where
  "fold_loop remaining first output =
     (if remaining = [] then Some output
      else let mx = (if first then 75 else 74);
               split = char_floor remaining (min (length remaining) mx);
               output' = (if first then output else output @ [CR, LF, SPC]) @ take split remaining
           in fold_loop (drop split remaining) False output')"

declare fold_loop.simps [code]

definition fold_vcard_line :: "string \<Rightarrow> string option" where
  "fold_vcard_line line = (if length line \<le> 75 then Some line else fold_loop line True [])"

subsection \<open>Building\<close>

definition nonempty :: "string option \<Rightarrow> string option" where
  "nonempty v = (case v of Some s \<Rightarrow> if s = [] then None else Some s | None \<Rightarrow> None)"

definition or_default :: "string option \<Rightarrow> string" where
  "or_default v = (case v of Some s \<Rightarrow> s | None \<Rightarrow> [])"

definition opt_line :: "string \<Rightarrow> string option \<Rightarrow> string list" where
  "opt_line prop v = (case nonempty v of Some s \<Rightarrow> [prop @ '':'' @ escape_vcard_text s] | None \<Rightarrow> [])"

definition vcard_lines :: "contact_input \<Rightarrow> string \<Rightarrow> string list" where
  "vcard_lines c uid =
     [''BEGIN:VCARD'', ''VERSION:4.0'',
      ''UID:'' @ escape_vcard_text uid,
      ''FN:'' @ escape_vcard_text (ci_full_name c),
      ''N:'' @ escape_vcard_text (or_default (ci_family_name c)) @ '';''
        @ escape_vcard_text (or_default (ci_given_name c)) @ '';;;'']
     @ map (\<lambda>e. ''EMAIL:'' @ escape_vcard_text e) (ci_emails c)
     @ map (\<lambda>p. ''TEL:'' @ escape_vcard_text p) (ci_phones c)
     @ opt_line ''ORG'' (ci_organization c)
     @ opt_line ''TITLE'' (ci_title c)
     @ opt_line ''NOTE'' (ci_note c)
     @ [''END:VCARD'']"

fun fold_lines :: "string list \<Rightarrow> string \<Rightarrow> string option" where
  "fold_lines [] vcard = Some vcard"
| "fold_lines (line # ls) vcard =
     Option.bind (fold_vcard_line line) (\<lambda>f. fold_lines ls (vcard @ f @ [CR, LF]))"

definition build_vcard :: "contact_input \<Rightarrow> string \<Rightarrow> (error_data + string) option" where
  "build_vcard c uid =
     (case validate_uid uid of
        Inl e \<Rightarrow> Some (Err e)
      | Inr _ \<Rightarrow> Option.bind (fold_lines (vcard_lines c uid) []) (\<lambda>vcard.
          if length vcard > MAX_VCARD_BYTES
          then Some (Err (invalid_params
                 (''generated vCard exceeds '' @ digits_of MAX_VCARD_BYTES @ '' bytes'')))
          else Some (Ok vcard)))"

subsection \<open>Parsing\<close>

record parsed_vcard =
  pv_uid :: "string option"
  pv_full_name :: "string option"
  pv_given_name :: "string option"
  pv_family_name :: "string option"
  pv_emails :: "string list"
  pv_phones :: "string list"
  pv_organization :: "string option"
  pv_title :: "string option"
  pv_note :: "string option"
  pv_birthday :: "string option"
  pv_has_photo :: bool

definition parsed_default :: parsed_vcard where
  "parsed_default =
     \<lparr>pv_uid = None, pv_full_name = None, pv_given_name = None, pv_family_name = None,
      pv_emails = [], pv_phones = [], pv_organization = None, pv_title = None, pv_note = None,
      pv_birthday = None, pv_has_photo = False\<rparr>"

text \<open>\<open>vcard.replace("\r\n", "\n")\<close>\<close>

fun replace_crlf :: "string \<Rightarrow> string" where
  "replace_crlf [] = []"
| "replace_crlf [c] = [c]"
| "replace_crlf (c # d # r) =
     (if c = CR \<and> d = LF then LF # replace_crlf r else c # replace_crlf (d # r))"

definition is_continuation :: "string \<Rightarrow> bool" where
  "is_continuation raw = (case raw of c # _ \<Rightarrow> c = SPC \<or> c = TAB | [] \<Rightarrow> False)"

definition unfold_step :: "string list \<Rightarrow> string \<Rightarrow> string list" where
  "unfold_step ls raw =
     (if is_continuation raw
      then (if ls = [] then ls else butlast ls @ [last ls @ drop 1 raw])
      else ls @ [trim_end_matches CR raw])"

definition unfold_vcard_lines :: "string \<Rightarrow> string list" where
  "unfold_vcard_lines vcard = foldl unfold_step [] (split_on LF (replace_crlf vcard))"

definition vcard_property :: "string \<Rightarrow> string" where
  "vcard_property head =
     to_ascii_uppercase (last (split_on (CHR ''.'') (hd (split_on (CHR '';'') head))))"

definition nth_part :: "string list \<Rightarrow> nat \<Rightarrow> string option" where
  "nth_part ps i = (if i < length ps then Some (ps ! i) else None)"

definition strip_or_self :: "string \<Rightarrow> string \<Rightarrow> string" where
  "strip_or_self p v = (case strip_prefix p v of Some r \<Rightarrow> r | None \<Rightarrow> v)"

definition parse_line :: "parsed_vcard \<Rightarrow> string \<Rightarrow> parsed_vcard" where
  "parse_line parsed line =
     (case split_once (CHR '':'') line of
        None \<Rightarrow> parsed
      | Some (head, raw_value) \<Rightarrow>
          let property = vcard_property head; v = unescape_vcard_text raw_value in
          if property = ''UID'' then parsed\<lparr>pv_uid := Some v\<rparr>
          else if property = ''FN'' then parsed\<lparr>pv_full_name := Some v\<rparr>
          else if property = ''N'' then
            let parts = map unescape_vcard_text (split_on (CHR '';'') raw_value) in
            parsed\<lparr>pv_family_name := nonempty (nth_part parts 0),
                   pv_given_name := nonempty (nth_part parts 1)\<rparr>
          else if property = ''EMAIL'' then
            parsed\<lparr>pv_emails := pv_emails parsed @ [strip_or_self ''mailto:'' v]\<rparr>
          else if property = ''TEL'' then
            parsed\<lparr>pv_phones := pv_phones parsed @ [strip_or_self ''tel:'' v]\<rparr>
          else if property = ''ORG'' then
            parsed\<lparr>pv_organization := Some (hd (split_on (CHR '';'') v))\<rparr>
          else if property = ''TITLE'' then parsed\<lparr>pv_title := Some v\<rparr>
          else if property = ''NOTE'' then parsed\<lparr>pv_note := Some v\<rparr>
          else if property = ''BDAY'' then parsed\<lparr>pv_birthday := Some v\<rparr>
          else if property = ''PHOTO'' then parsed\<lparr>pv_has_photo := True\<rparr>
          else parsed)"

definition parse_vcard :: "string \<Rightarrow> parsed_vcard" where
  "parse_vcard vcard = foldl parse_line parsed_default (unfold_vcard_lines vcard)"

subsection \<open>Escaping and unescaping are inverse up to carriage returns\<close>

definition no_cr :: "string \<Rightarrow> string" where
  "no_cr s = filter (\<lambda>c. c \<noteq> CR) s"

text \<open>The five replacements act character by character.\<close>

definition esc1 :: "char \<Rightarrow> string" where
  "esc1 c = (if c = BSL then [BSL, BSL] else if c = CR then []
             else if c = LF then [BSL, CHR ''n''] else if c = CHR '';'' then [BSL, CHR '';'']
             else if c = CHR '','' then [BSL, CHR '',''] else [c])"

lemma escape_eq_esc1: "escape_vcard_text v = concat (map esc1 v)"
  by (induction v) (simp_all add: escape_vcard_text_def esc1_def)

lemma escape_simps [simp]:
  "escape_vcard_text [] = []"
  "escape_vcard_text (c # v) = esc1 c @ escape_vcard_text v"
  by (simp_all add: escape_eq_esc1)

lemma escape_append: "escape_vcard_text (a @ b) = escape_vcard_text a @ escape_vcard_text b"
  by (simp add: escape_eq_esc1)

lemma unescape_plain: "c \<noteq> BSL \<Longrightarrow> unescape_vcard_text (c # s) = c # unescape_vcard_text s"
  by (cases s) auto

lemma unescape_esc1: "unescape_vcard_text (esc1 c @ s) = no_cr [c] @ unescape_vcard_text s"
  by (auto simp: esc1_def no_cr_def unescape_plain)

lemma unescape_escape_append:
  "unescape_vcard_text (escape_vcard_text v @ s) = no_cr v @ unescape_vcard_text s"
proof (induction v)
  case (Cons c v)
  then show ?case by (simp add: unescape_esc1) (simp add: no_cr_def)
qed (simp add: no_cr_def)

lemma unescape_escape: "unescape_vcard_text (escape_vcard_text v) = no_cr v"
  using unescape_escape_append [of v "[]"] by simp

lemma escape_no_newline: "LF \<notin> set (escape_vcard_text v) \<and> CR \<notin> set (escape_vcard_text v)"
  by (induction v) (auto simp: esc1_def)

lemma utf8_escape: "utf8 v \<Longrightarrow> utf8 (escape_vcard_text v)"
  unfolding escape_vcard_text_def by (intro utf8_replace_char) (auto simp: code_def)

lemma no_cr_id: "CR \<notin> set s \<Longrightarrow> no_cr s = s"
  by (induction s) (auto simp: no_cr_def)

subsection \<open>Folding terminates and unfolds to the line\<close>

lemma char_floor_le: "char_floor s k \<le> k"
  by (induction k) auto

lemma char_floor_boundary: "is_char_boundary s (char_floor s k)"
  by (induction k) auto

lemma char_floor_max: "is_char_boundary s j \<Longrightarrow> j \<le> k \<Longrightarrow> j \<le> char_floor s k"
  by (induction k) (auto simp: le_Suc_eq)

lemma char_floor_progress:
  assumes "utf8 s" "k \<le> length s" "4 \<le> k \<or> k = length s" "s \<noteq> []"
  shows "0 < char_floor s k"
proof -
  from utf8_boundary_near [OF assms(1,2)] obtain j where
    "is_char_boundary s j" "j \<le> k" "k \<le> j + 3" by blast
  with assms(3,4) char_floor_max [of s j k] char_floor_max [of s k k]
  show ?thesis by (cases "k = length s") (auto simp flip: length_greater_0_conv)
qed

definition fold_join :: "string list \<Rightarrow> string" where
  "fold_join cs = concat (map (\<lambda>c. [CR, LF, SPC] @ c) cs)"

lemma fold_join_simps [simp]:
  "fold_join [] = []" "fold_join (c # cs) = [CR, LF, SPC] @ c @ fold_join cs"
  by (simp_all add: fold_join_def)

text \<open>Every run of the loop cuts UTF-8 text into non-empty UTF-8 chunks of at most \<open>mx\<close> bytes.\<close>

lemma fold_loop_rest:
  "utf8 s \<Longrightarrow> \<exists>cs. fold_loop s False out = Some (out @ fold_join cs) \<and> concat cs = s
     \<and> list_all (\<lambda>c. utf8 c \<and> c \<noteq> [] \<and> length c \<le> 74) cs"
proof (induction s arbitrary: out rule: measure_induct_rule [where f = length])
  case (less s)
  show ?case
  proof (cases "s = []")
    case True
    then show ?thesis by (intro exI [of _ "[]"]) (simp add: fold_loop.simps)
  next
    case False
    let ?k = "char_floor s (min (length s) 74)"
    have pos: "0 < ?k" using less.prems False by (intro char_floor_progress) auto
    have le: "?k \<le> min (length s) 74" by (rule char_floor_le)
    from utf8_boundary [OF less.prems char_floor_boundary]
    have u: "utf8 (take ?k s)" "utf8 (drop ?k s)" by auto
    have "length (drop ?k s) < length s" using pos False by simp
    from less.IH [OF this u(2), of "out @ [CR, LF, SPC] @ take ?k s"] obtain cs where cs:
      "fold_loop (drop ?k s) False (out @ [CR, LF, SPC] @ take ?k s)
         = Some ((out @ [CR, LF, SPC] @ take ?k s) @ fold_join cs)"
      "concat cs = drop ?k s" "list_all (\<lambda>c. utf8 c \<and> c \<noteq> [] \<and> length c \<le> 74) cs"
      by blast
    show ?thesis
      using False pos le u(1) cs
      by (intro exI [of _ "take ?k s # cs"]) (simp add: fold_loop.simps [of s] Let_def)
  qed
qed

lemma fold_vcard_line_chunks:
  assumes "utf8 line"
  shows "\<exists>c cs. fold_vcard_line line = Some (c @ fold_join cs) \<and> c @ concat cs = line
     \<and> utf8 c \<and> length c \<le> 75 \<and> (line = [] \<or> c \<noteq> [])
     \<and> list_all (\<lambda>c. utf8 c \<and> c \<noteq> [] \<and> length c \<le> 74) cs"
proof (cases "length line \<le> 75")
  case True
  with assms show ?thesis
    by (intro exI [of _ line] exI [of _ "[]"]) (simp add: fold_vcard_line_def)
next
  case False
  then have ne: "line \<noteq> []" by auto
  let ?k = "char_floor line (min (length line) 75)"
  have pos: "0 < ?k" using assms ne by (intro char_floor_progress) auto
  have le: "?k \<le> min (length line) 75" by (rule char_floor_le)
  from utf8_boundary [OF assms char_floor_boundary]
  have u: "utf8 (take ?k line)" "utf8 (drop ?k line)" by auto
  from fold_loop_rest [OF u(2), of "take ?k line"] obtain cs where cs:
    "fold_loop (drop ?k line) False (take ?k line) = Some (take ?k line @ fold_join cs)"
    "concat cs = drop ?k line" "list_all (\<lambda>c. utf8 c \<and> c \<noteq> [] \<and> length c \<le> 74) cs"
    by blast
  show ?thesis
    using False ne pos le u(1) cs
    by (intro exI [of _ "take ?k line"] exI [of _ cs])
       (simp add: fold_vcard_line_def fold_loop.simps [of line] Let_def)
qed

subsection \<open>Unfolding\<close>

definition physical_lines :: "string \<Rightarrow> string list" where
  "physical_lines vcard = split_on LF (replace_crlf vcard)"

definition newline_free :: "string \<Rightarrow> bool" where
  "newline_free s \<longleftrightarrow> CR \<notin> set s \<and> LF \<notin> set s"

lemma newline_free_simps [simp]:
  "newline_free []"
  "newline_free (c # s) \<longleftrightarrow> c \<noteq> CR \<and> c \<noteq> LF \<and> newline_free s"
  "newline_free (s @ t) \<longleftrightarrow> newline_free s \<and> newline_free t"
  by (auto simp: newline_free_def)

lemma newline_free_escape [simp]: "newline_free (escape_vcard_text v)"
  using escape_no_newline by (simp add: newline_free_def)

lemma replace_crlf_plain: "c \<noteq> CR \<Longrightarrow> replace_crlf (c # s) = c # replace_crlf s"
  by (cases s) auto

lemma replace_crlf_piece:
  "newline_free p \<Longrightarrow> replace_crlf (p @ CR # LF # rest) = p @ LF # replace_crlf rest"
  by (induction p) (auto simp: replace_crlf_plain)

lemma physical_piece:
  "newline_free p \<Longrightarrow> physical_lines (p @ CR # LF # rest) = p # physical_lines rest"
  by (simp add: physical_lines_def replace_crlf_piece newline_free_def split_on_append_sep)

lemma physical_Nil [simp]: "physical_lines [] = [[]]"
  by (simp add: physical_lines_def)

lemma physical_folded:
  "list_all newline_free (c # cs) \<Longrightarrow>
   physical_lines (c @ fold_join cs @ CR # LF # rest) = c # map (Cons SPC) cs @ physical_lines rest"
proof (induction cs arbitrary: c)
  case Nil
  then show ?case by (simp add: physical_piece)
next
  case (Cons d cs)
  then have "physical_lines ((SPC # d) @ fold_join cs @ CR # LF # rest)
      = (SPC # d) # map (Cons SPC) cs @ physical_lines rest"
    by (intro Cons.IH) simp
  with Cons.prems show ?case by (simp add: physical_piece)
qed

lemma unfold_continuations:
  "foldl unfold_step (ps @ [p]) (map (Cons SPC) cs) = ps @ [p @ concat cs]"
  by (induction cs arbitrary: p) (simp_all add: unfold_step_def is_continuation_def)

lemma unfold_folded:
  "newline_free c \<Longrightarrow> \<not> is_continuation c \<Longrightarrow>
   foldl unfold_step ps (c # map (Cons SPC) cs) = ps @ [c @ concat cs]"
  using unfold_continuations [of ps c cs] by (simp add: unfold_step_def newline_free_def)

definition line_ok :: "string \<Rightarrow> bool" where
  "line_ok l \<longleftrightarrow> utf8 l \<and> newline_free l \<and> l \<noteq> [] \<and> \<not> is_continuation l"

definition physical_ok :: "string \<Rightarrow> bool" where
  "physical_ok l \<longleftrightarrow> utf8 l \<and> length l \<le> 75"

lemma fold_lines_unfold:
  "list_all line_ok ls \<Longrightarrow>
   \<exists>tx phys. fold_lines ls acc = Some (acc @ tx)
     \<and> (\<forall>rest. physical_lines (tx @ rest) = phys @ physical_lines rest)
     \<and> (\<forall>ps. foldl unfold_step ps phys = ps @ ls)
     \<and> list_all physical_ok phys"
proof (induction ls arbitrary: acc)
  case Nil
  then show ?case by (intro exI [of _ "[]"]) simp
next
  case (Cons l ls)
  then have ls: "list_all line_ok ls" and lo: "line_ok l" by simp_all
  from lo have l: "utf8 l" "newline_free l" "l \<noteq> []" "\<not> is_continuation l"
    by (simp_all add: line_ok_def)
  from fold_vcard_line_chunks [OF l(1)] l(3) obtain c cs where c:
    "fold_vcard_line l = Some (c @ fold_join cs)" "c @ concat cs = l" "utf8 c" "length c \<le> 75"
    "c \<noteq> []" "list_all (\<lambda>c. utf8 c \<and> c \<noteq> [] \<and> length c \<le> 74) cs" by blast
  from l(2) c(2) have nf: "list_all newline_free (c # cs)"
    by (auto simp: newline_free_def list_all_iff)
  from l(4) c(2,5) have nc: "\<not> is_continuation c"
    by (cases c) (auto simp: is_continuation_def)
  from Cons.IH [OF ls, of "acc @ (c @ fold_join cs) @ [CR, LF]"] obtain tx phys where t:
    "fold_lines ls (acc @ (c @ fold_join cs) @ [CR, LF])
       = Some ((acc @ (c @ fold_join cs) @ [CR, LF]) @ tx)"
    "\<And>rest. physical_lines (tx @ rest) = phys @ physical_lines rest"
    "\<And>ps. foldl unfold_step ps phys = ps @ ls" "list_all physical_ok phys" by blast
  have step: "foldl unfold_step ps ((c # map (Cons SPC) cs) @ phys) = ps @ l # ls" for ps
    using unfold_folded [OF _ nc, of ps cs] nf t(3) [of "ps @ [c @ concat cs]"] c(2) by simp
  have phys: "physical_lines (((c @ fold_join cs) @ [CR, LF]) @ tx @ rest)
      = ((c # map (Cons SPC) cs) @ phys) @ physical_lines rest" for rest
    using physical_folded [OF nf, of "tx @ rest"] t(2) by simp
  have ok: "list_all physical_ok ((c # map (Cons SPC) cs) @ phys)"
    using c(3,4,6) t(4) by (auto simp: physical_ok_def list_all_iff code_def intro: utf8.utf8_1)
  show ?case
    using c(1) t(1) step phys ok
    by (intro exI [of _ "((c @ fold_join cs) @ [CR, LF]) @ tx"]
              exI [of _ "(c # map (Cons SPC) cs) @ phys"]) simp
qed

definition utf8_contact :: "contact_input \<Rightarrow> bool" where
  "utf8_contact c \<longleftrightarrow> utf8 (ci_full_name c)
     \<and> list_all utf8 (ci_emails c @ ci_phones c)
     \<and> list_all (\<lambda>v. pred_option utf8 v)
          [ci_uid c, ci_given_name c, ci_family_name c, ci_organization c, ci_title c, ci_note c]"

lemma line_ok_property:
  "ascii (a # p) \<Longrightarrow> newline_free (a # p) \<Longrightarrow> a \<noteq> SPC \<Longrightarrow> a \<noteq> TAB \<Longrightarrow> utf8 v \<Longrightarrow> newline_free v
   \<Longrightarrow> line_ok ((a # p) @ v)"
  using ascii_utf8 [of "a # p"] utf8_append [of "a # p" v]
  by (simp add: line_ok_def is_continuation_def)

lemma line_ok_text:
  "ascii (a # p) \<Longrightarrow> newline_free (a # p) \<Longrightarrow> a \<noteq> SPC \<Longrightarrow> a \<noteq> TAB \<Longrightarrow> utf8 v
   \<Longrightarrow> line_ok ((a # p) @ escape_vcard_text v)"
  by (rule line_ok_property) (auto intro: utf8_escape)

lemma line_ok_map:
  "ascii (a # p) \<Longrightarrow> newline_free (a # p) \<Longrightarrow> a \<noteq> SPC \<Longrightarrow> a \<noteq> TAB \<Longrightarrow> list_all utf8 vs
   \<Longrightarrow> list_all line_ok (map (\<lambda>v. (a # p) @ escape_vcard_text v) vs)"
  using line_ok_text [of a p] by (auto simp: list_all_iff)

lemma line_ok_opt:
  assumes "ascii (a # p)" "newline_free (a # p)" "a \<noteq> SPC" "a \<noteq> TAB" "pred_option utf8 v"
  shows "list_all line_ok (opt_line (a # p) v)"
  using assms line_ok_text [of a "p @ '':''"]
  by (auto simp: opt_line_def nonempty_def code_def split: option.splits)

lemma vcard_lines_ok:
  assumes "utf8_contact c" "utf8 uid"
  shows "list_all line_ok (vcard_lines c uid)"
proof -
  have a: "ascii p = list_all (\<lambda>c. of_char c < (0x80 :: nat)) p" for p
    by (simp add: ascii_def code_def)
  have sep: "utf8 (v @ '';'' @ w @ '';;;'')" if "utf8 v" "utf8 w" for v w
    by (intro utf8_append that) (auto intro!: ascii_utf8 simp: a)
  have n: "utf8 (or_default (ci_family_name c))" "utf8 (or_default (ci_given_name c))"
    using assms(1) by (auto simp: utf8_contact_def or_default_def split: option.splits)
  have "line_ok (''N:'' @ escape_vcard_text (or_default (ci_family_name c)) @ '';''
        @ escape_vcard_text (or_default (ci_given_name c)) @ '';;;'')"
    using n by (intro line_ok_property sep utf8_escape) (simp_all add: a)
  moreover have "list_all line_ok (map (\<lambda>e. ''EMAIL:'' @ escape_vcard_text e) (ci_emails c))"
    using assms(1) by (intro line_ok_map) (simp_all add: utf8_contact_def a)
  moreover have "list_all line_ok (map (\<lambda>e. ''TEL:'' @ escape_vcard_text e) (ci_phones c))"
    using assms(1) by (intro line_ok_map) (simp_all add: utf8_contact_def a)
  moreover have "line_ok (''UID:'' @ escape_vcard_text uid)"
    using assms(2) by (intro line_ok_text) (simp_all add: a)
  moreover have "line_ok (''FN:'' @ escape_vcard_text (ci_full_name c))"
    using assms(1) by (intro line_ok_text) (simp_all add: a utf8_contact_def)
  moreover have "line_ok ''BEGIN:VCARD''" "line_ok ''VERSION:4.0''" "line_ok ''END:VCARD''"
    by (auto simp: line_ok_def is_continuation_def a intro!: ascii_utf8)
  moreover have "list_all line_ok (opt_line ''ORG'' (ci_organization c))"
    "list_all line_ok (opt_line ''TITLE'' (ci_title c))"
    "list_all line_ok (opt_line ''NOTE'' (ci_note c))"
    using assms(1) by (auto intro!: line_ok_opt simp: a utf8_contact_def)
  ultimately show ?thesis
    by (simp add: vcard_lines_def)
qed

subsection \<open>Parsing what was built\<close>

lemma hd_split_on: "hd (split_on c s) = takeWhile (\<lambda>x. x \<noteq> c) s"
  by (induction s) (auto split: list.splits)

lemma semicolon_escape: "CHR '';'' \<in> set (escape_vcard_text v) \<longleftrightarrow> CHR '';'' \<in> set v"
  by (induction v) (auto simp: esc1_def)

lemma vcard_property_names [simp]:
  "vcard_property ''UID'' = ''UID''" "vcard_property ''FN'' = ''FN''" "vcard_property ''N'' = ''N''"
  "vcard_property ''EMAIL'' = ''EMAIL''" "vcard_property ''TEL'' = ''TEL''"
  "vcard_property ''ORG'' = ''ORG''" "vcard_property ''TITLE'' = ''TITLE''"
  "vcard_property ''NOTE'' = ''NOTE''" "vcard_property ''BEGIN'' = ''BEGIN''"
  "vcard_property ''VERSION'' = ''VERSION''" "vcard_property ''END'' = ''END''"
  by (simp_all add: vcard_property_def to_ascii_uppercase_def code_def)

lemma parse_line_text:
  "parse_line q (''UID:'' @ escape_vcard_text v) = q\<lparr>pv_uid := Some (no_cr v)\<rparr>"
  "parse_line q (''FN:'' @ escape_vcard_text v) = q\<lparr>pv_full_name := Some (no_cr v)\<rparr>"
  "parse_line q (''EMAIL:'' @ escape_vcard_text v)
     = q\<lparr>pv_emails := pv_emails q @ [strip_or_self ''mailto:'' (no_cr v)]\<rparr>"
  "parse_line q (''TEL:'' @ escape_vcard_text v)
     = q\<lparr>pv_phones := pv_phones q @ [strip_or_self ''tel:'' (no_cr v)]\<rparr>"
  "parse_line q (''ORG:'' @ escape_vcard_text v)
     = q\<lparr>pv_organization := Some (takeWhile (\<lambda>c. c \<noteq> CHR '';'') (no_cr v))\<rparr>"
  "parse_line q (''TITLE:'' @ escape_vcard_text v) = q\<lparr>pv_title := Some (no_cr v)\<rparr>"
  "parse_line q (''NOTE:'' @ escape_vcard_text v) = q\<lparr>pv_note := Some (no_cr v)\<rparr>"
  by (simp_all add: parse_line_def Let_def unescape_escape hd_split_on)

lemma parse_line_other:
  "parse_line q ''BEGIN:VCARD'' = q" "parse_line q ''VERSION:4.0'' = q"
  "parse_line q ''END:VCARD'' = q" "parse_line q [] = q"
  by (simp_all add: parse_line_def Let_def)

definition name_line :: "string \<Rightarrow> string \<Rightarrow> string" where
  "name_line fam giv = ''N:'' @ escape_vcard_text fam @ '';'' @ escape_vcard_text giv @ '';;;''"

definition nonempty_text :: "string \<Rightarrow> string option" where
  "nonempty_text s = (if s = [] then None else Some s)"

lemma nonempty_Some: "nonempty (Some s) = nonempty_text s"
  by (simp add: nonempty_def nonempty_text_def)

text \<open>
  The parser splits the \<open>N\<close> value at every semicolon before it unescapes, so an escaped one ends a component
  and leaves its backslash, and the family name's remainder is read as the given name.
\<close>

definition cut_name :: "string \<Rightarrow> string" where
  "cut_name s = (if CHR '';'' \<in> set s then no_cr (takeWhile (\<lambda>c. c \<noteq> CHR '';'') s) @ [BSL] else no_cr s)"

definition after_semicolon :: "string \<Rightarrow> string" where
  "after_semicolon s = tl (dropWhile (\<lambda>c. c \<noteq> CHR '';'') s)"

lemma split_name:
  "\<exists>x. split_on (CHR '';'') (escape_vcard_text s @ CHR '';'' # rest)
      = x # (if CHR '';'' \<in> set s then split_on (CHR '';'') (escape_vcard_text (after_semicolon s) @ CHR '';'' # rest)
             else split_on (CHR '';'') rest)
    \<and> unescape_vcard_text x = cut_name s"
proof (cases "CHR '';'' \<in> set s")
  case False
  then show ?thesis by (simp add: split_on_append_sep semicolon_escape cut_name_def unescape_escape)
next
  case True
  from split_list_first [OF this] obtain a b where ab: "s = a @ CHR '';'' # b" "CHR '';'' \<notin> set a" by blast
  have raw: "escape_vcard_text s @ CHR '';'' # rest
      = (escape_vcard_text a @ [BSL]) @ CHR '';'' # (escape_vcard_text b @ CHR '';'' # rest)"
    using ab(1) by (simp add: escape_append esc1_def)
  have nf: "CHR '';'' \<notin> set (escape_vcard_text a @ [BSL])" using ab(2) by (simp add: semicolon_escape)
  have "takeWhile (\<lambda>c. c \<noteq> CHR '';'') s = a" "after_semicolon s = b"
    using ab by (simp_all add: takeWhile_append_neq dropWhile_append_neq after_semicolon_def)
  moreover have "unescape_vcard_text (escape_vcard_text a @ [BSL]) = no_cr a @ [BSL]"
    using unescape_escape_append [of a "[BSL]"] by simp
  ultimately show ?thesis using True unfolding raw split_on_append_sep [OF nf] by (simp add: cut_name_def)
qed

lemma parse_line_name:
  "parse_line q (name_line fam giv)
    = q\<lparr>pv_family_name := nonempty_text (cut_name fam),
        pv_given_name := nonempty_text (cut_name (if CHR '';'' \<in> set fam then after_semicolon fam else giv))\<rparr>"
proof -
  let ?raw = "escape_vcard_text fam @ CHR '';'' # escape_vcard_text giv @ '';;;''"
  from split_name [of fam "escape_vcard_text giv @ '';;;''"] obtain x where x: "split_on (CHR '';'') ?raw
      = x # (if CHR '';'' \<in> set fam
             then split_on (CHR '';'') (escape_vcard_text (after_semicolon fam) @ CHR '';'' # escape_vcard_text giv @ '';;;'')
             else split_on (CHR '';'') (escape_vcard_text giv @ '';;;''))" "unescape_vcard_text x = cut_name fam" by blast
  have "\<exists>y ys. split_on (CHR '';'') ?raw = x # y # ys
      \<and> unescape_vcard_text y = cut_name (if CHR '';'' \<in> set fam then after_semicolon fam else giv)"
    using x(1) split_name [of giv "'';;''"]
      split_name [of "after_semicolon fam" "escape_vcard_text giv @ '';;;''"] by (cases "CHR '';'' \<in> set fam") auto
  then obtain y ys where "split_on (CHR '';'') ?raw = x # y # ys"
    "unescape_vcard_text y = cut_name (if CHR '';'' \<in> set fam then after_semicolon fam else giv)" by blast
  with x(2) show ?thesis
    by (simp add: name_line_def parse_line_def Let_def nth_part_def nonempty_Some)
qed

lemma foldl_parse_emails:
  "foldl parse_line q (map (\<lambda>e. ''EMAIL:'' @ escape_vcard_text e) es)
     = q\<lparr>pv_emails := pv_emails q @ map (\<lambda>e. strip_or_self ''mailto:'' (no_cr e)) es\<rparr>"
  by (induction es arbitrary: q) (simp_all only: list.map foldl.simps parse_line_text, simp_all)

lemma foldl_parse_phones:
  "foldl parse_line q (map (\<lambda>e. ''TEL:'' @ escape_vcard_text e) es)
     = q\<lparr>pv_phones := pv_phones q @ map (\<lambda>e. strip_or_self ''tel:'' (no_cr e)) es\<rparr>"
  by (induction es arbitrary: q) (simp_all only: list.map foldl.simps parse_line_text, simp_all)

lemma foldl_parse_opt:
  "foldl parse_line q (opt_line ''ORG'' v)
     = (case nonempty v of None \<Rightarrow> q
        | Some s \<Rightarrow> q\<lparr>pv_organization := Some (takeWhile (\<lambda>c. c \<noteq> CHR '';'') (no_cr s))\<rparr>)"
  "foldl parse_line q (opt_line ''TITLE'' v)
     = (case nonempty v of None \<Rightarrow> q | Some s \<Rightarrow> q\<lparr>pv_title := Some (no_cr s)\<rparr>)"
  "foldl parse_line q (opt_line ''NOTE'' v)
     = (case nonempty v of None \<Rightarrow> q | Some s \<Rightarrow> q\<lparr>pv_note := Some (no_cr s)\<rparr>)"
  using parse_line_text(5-7) by (simp_all add: opt_line_def split: option.splits)

text \<open>
  The specification of reading a built card back: each text without its carriage returns, an
  organisation up to its first semicolon, an e-mail or phone without its URI scheme.
\<close>

definition read_back :: "contact_input \<Rightarrow> string \<Rightarrow> parsed_vcard" where
  "read_back c uid =
     \<lparr>pv_uid = Some uid,
      pv_full_name = Some (no_cr (ci_full_name c)),
      pv_given_name = nonempty_text (cut_name
        (let fam = or_default (ci_family_name c) in
         if CHR '';'' \<in> set fam then after_semicolon fam else or_default (ci_given_name c))),
      pv_family_name = nonempty_text (cut_name (or_default (ci_family_name c))),
      pv_emails = map (\<lambda>e. strip_or_self ''mailto:'' (no_cr e)) (ci_emails c),
      pv_phones = map (\<lambda>e. strip_or_self ''tel:'' (no_cr e)) (ci_phones c),
      pv_organization = map_option (\<lambda>s. takeWhile (\<lambda>x. x \<noteq> CHR '';'') (no_cr s))
                          (nonempty (ci_organization c)),
      pv_title = map_option no_cr (nonempty (ci_title c)),
      pv_note = map_option no_cr (nonempty (ci_note c)),
      pv_birthday = None, pv_has_photo = False\<rparr>"

lemma parse_vcard_lines:
  assumes "CR \<notin> set uid"
  shows "foldl parse_line parsed_default (vcard_lines c uid) = read_back c uid"
proof -
  have n: "''N:'' @ escape_vcard_text f @ '';'' @ escape_vcard_text g @ '';;;'' = name_line f g" for f g
    by (simp add: name_line_def)
  show ?thesis
    unfolding vcard_lines_def n foldl_append foldl.simps parse_line_text parse_line_other
      foldl_parse_emails foldl_parse_phones foldl_parse_opt
    using assms
    by (auto simp: parse_line_name read_back_def Let_def parsed_default_def no_cr_id
             split: option.splits)
qed

lemma build_vcard_cases:
  assumes "utf8_contact c" "utf8 uid"
  obtains (bad_uid) e where "validate_uid uid = Err e" "build_vcard c uid = Some (Err e)"
  | (too_big) vcard where "validate_uid uid = Ok ()" "fold_lines (vcard_lines c uid) [] = Some vcard"
      "MAX_VCARD_BYTES < length vcard"
      "build_vcard c uid = Some (Err (invalid_params
         (''generated vCard exceeds '' @ digits_of MAX_VCARD_BYTES @ '' bytes'')))"
  | (built) vcard where "validate_uid uid = Ok ()" "fold_lines (vcard_lines c uid) [] = Some vcard"
      "length vcard \<le> MAX_VCARD_BYTES" "build_vcard c uid = Some (Ok vcard)"
proof (cases "validate_uid uid")
  case (Inl e)
  then show ?thesis using bad_uid by (simp add: build_vcard_def)
next
  case (Inr u)
  from fold_lines_unfold [OF vcard_lines_ok [OF assms], of "[]"] obtain vcard where
    v: "fold_lines (vcard_lines c uid) [] = Some vcard" by auto
  show ?thesis
    using Inr v too_big [of vcard] built [of vcard]
    by (cases "length vcard > MAX_VCARD_BYTES") (simp_all add: build_vcard_def)
qed

lemma build_vcard_lines:
  assumes "utf8_contact c" "utf8 uid" "build_vcard c uid = Some (Ok vcard)"
  shows "unfold_vcard_lines vcard = vcard_lines c uid @ [[]]"
    and "list_all physical_ok (physical_lines vcard)"
proof -
  have v: "fold_lines (vcard_lines c uid) [] = Some vcard"
    by (rule build_vcard_cases [OF assms(1,2)]) (use assms(3) in simp_all)
  from fold_lines_unfold [OF vcard_lines_ok [OF assms(1,2)], of "[]"] v obtain phys where p:
    "\<And>rest. physical_lines (vcard @ rest) = phys @ physical_lines rest"
    "\<And>ps. foldl unfold_step ps phys = ps @ vcard_lines c uid" "list_all physical_ok phys"
    by auto
  have "physical_lines vcard = phys @ [[]]" using p(1) [of "[]"] by simp
  with p(2) [of "[]"] p(3) show "unfold_vcard_lines vcard = vcard_lines c uid @ [[]]"
    "list_all physical_ok (physical_lines vcard)"
    by (simp_all add: unfold_vcard_lines_def physical_lines_def unfold_step_def
          is_continuation_def physical_ok_def)
qed

lemma validate_uid_Ok: "validate_uid uid = Ok u \<Longrightarrow> CR \<notin> set uid \<and> LF \<notin> set uid"
  using no_control_no_newline [of uid] by (auto simp: validate_uid_def split: if_splits)

subsection \<open>Properties\<close>

definition sample_contact :: contact_input where
  "sample_contact =
     \<lparr>ci_uid = None, ci_full_name = ''Alice, Example'', ci_given_name = Some ''Alice'',
      ci_family_name = Some ''Example'', ci_emails = [''mailto:alice@kanjo.sg''],
      ci_phones = [''+65 6123 4567''], ci_organization = Some ''Kampong Club; Events'',
      ci_title = None, ci_note = Some (''Line one'' @ [CR, LF] @ replicate 100 (CHR ''x''))\<rparr>"

lemma sample_contact_utf8: "utf8_contact sample_contact"
  by (auto intro!: ascii_utf8 simp: utf8_contact_def sample_contact_def code_def ascii_def list_all_iff)

lemma sample_uid_utf8: "utf8 ''alice-1''"
  by (auto intro!: ascii_utf8 simp: code_def)

lemma sample_vcard_text:
  "case fold_lines (vcard_lines sample_contact ''alice-1'') [] of
     Some v \<Rightarrow> length v \<le> 400 | None \<Rightarrow> False"
  by code_simp

lemma sample_uid_ok: "validate_uid ''alice-1'' = Ok ()"
  by code_simp

lemma sample_vcard_built: "\<exists>v. build_vcard sample_contact ''alice-1'' = Some (Ok v)"
  using sample_vcard_text sample_uid_ok
  by (auto simp: build_vcard_def MAX_VCARD_BYTES_def split: option.splits)

lemma parse_built:
  assumes "utf8_contact c" "utf8 uid" "build_vcard c uid = Some (Ok vcard)"
  shows "parse_vcard vcard = read_back c uid"
proof -
  have "CR \<notin> set uid"
    by (rule build_vcard_cases [OF assms(1,2)]) (use assms(3) validate_uid_Ok in auto)
  with parse_vcard_lines build_vcard_lines(1) [OF assms]
  show ?thesis by (simp add: parse_vcard_def parse_line_other)
qed

text \<open>
  C15: every card the service builds is read back by its own parser, and as what: each field comes
  back without its carriage returns, in its own property and in order, except at semicolons. The
  organisation keeps the text before its first semicolon; a name component with a semicolon keeps the
  text before it and a backslash, and what follows it in the family name displaces the given name.
\<close>

theorem vcard_roundtrip:
  assumes "utf8_contact c" "utf8 uid" "build_vcard c uid = Some (Ok vcard)"
  shows "parse_vcard vcard = read_back c uid"
  by (rule parse_built [OF assms])

theorem vcard_roundtrip_witness:
  "\<exists>vcard. build_vcard sample_contact ''alice-1'' = Some (Ok vcard)
     \<and> parse_vcard vcard = read_back sample_contact ''alice-1''
     \<and> pv_note (read_back sample_contact ''alice-1'')
         = Some (''Line one'' @ [LF] @ replicate 100 (CHR ''x''))"
proof -
  from sample_vcard_built obtain v where v: "build_vcard sample_contact ''alice-1'' = Some (Ok v)" ..
  from vcard_roundtrip [OF sample_contact_utf8 sample_uid_utf8 v]
  have "parse_vcard v = read_back sample_contact ''alice-1''" .
  moreover have "pv_note (read_back sample_contact ''alice-1'')
      = Some (''Line one'' @ [LF] @ replicate 100 (CHR ''x''))"
    by (simp add: read_back_def sample_contact_def nonempty_def no_cr_def)
  ultimately show ?thesis using v by blast
qed

text \<open>
  C6: no field value can add, split or merge a property line. Unfolding a built card gives back
  exactly the lines the builder assembled, and the empty piece after the last line break; every
  text was escaped, so none of those lines holds a line break.
\<close>

theorem vcard_no_injection:
  assumes "utf8_contact c" "utf8 uid" "build_vcard c uid = Some (Ok vcard)"
  shows "unfold_vcard_lines vcard = vcard_lines c uid @ [[]]
    \<and> list_all newline_free (vcard_lines c uid)"
  using build_vcard_lines(1) [OF assms] vcard_lines_ok [OF assms(1,2)]
  by (auto simp: list_all_iff line_ok_def)

theorem vcard_no_injection_witness:
  "\<exists>vcard. build_vcard (sample_contact\<lparr>ci_full_name := ''Alice'' @ [CR, LF] @ ''EMAIL:attacker@evil.test''\<rparr>) ''alice-1''
       = Some (Ok vcard)
     \<and> unfold_vcard_lines vcard
       = vcard_lines (sample_contact\<lparr>ci_full_name := ''Alice'' @ [CR, LF] @ ''EMAIL:attacker@evil.test''\<rparr>) ''alice-1'' @ [[]]"
proof -
  let ?c = "sample_contact\<lparr>ci_full_name := ''Alice'' @ [CR, LF] @ ''EMAIL:attacker@evil.test''\<rparr>"
  have "case fold_lines (vcard_lines ?c ''alice-1'') [] of Some v \<Rightarrow> length v \<le> 400 | None \<Rightarrow> False"
    by code_simp
  with sample_uid_ok obtain v where v: "build_vcard ?c ''alice-1'' = Some (Ok v)"
    by (auto simp: build_vcard_def MAX_VCARD_BYTES_def split: option.splits)
  have "utf8_contact ?c"
    by (auto intro!: ascii_utf8 simp: utf8_contact_def sample_contact_def code_def ascii_def list_all_iff)
  from vcard_no_injection [OF this sample_uid_utf8 v] v show ?thesis by blast
qed

text \<open>
  C38: building a card always returns. On UTF-8 input the folding loop ends, and the result is the
  UID's validation error, the size error, or a card of at most 256 KiB.
\<close>

theorem build_vcard_total:
  assumes "utf8_contact c" "utf8 uid"
  shows "(\<exists>e. validate_uid uid = Err e \<and> build_vcard c uid = Some (Err e))
    \<or> validate_uid uid = Ok ()
      \<and> (\<exists>vcard. fold_lines (vcard_lines c uid) [] = Some vcard
           \<and> (if length vcard \<le> 262144 then build_vcard c uid = Some (Ok vcard)
              else \<exists>m. build_vcard c uid = Some (Err (invalid_params m))))"
  by (rule build_vcard_cases [OF assms]) (auto simp: MAX_VCARD_BYTES_def)

theorem build_vcard_total_witness:
  "\<exists>vcard. build_vcard sample_contact ''alice-1'' = Some (Ok vcard) \<and> length vcard \<le> 262144"
proof -
  from sample_vcard_built obtain v where v: "build_vcard sample_contact ''alice-1'' = Some (Ok v)" ..
  from build_vcard_total [OF sample_contact_utf8 sample_uid_utf8] v show ?thesis
    by (auto split: if_splits)
qed

text \<open>
  C39: every physical line of a built card is at most 75 bytes long, as RFC 6350 asks, and is UTF-8
  on its own: folding never cuts a character.
\<close>

theorem vcard_physical_lines:
  assumes "utf8_contact c" "utf8 uid" "build_vcard c uid = Some (Ok vcard)"
  shows "list_all (\<lambda>l. utf8 l \<and> length l \<le> 75) (physical_lines vcard)"
  using build_vcard_lines(2) [OF assms] by (simp add: physical_ok_def list_all_iff)

theorem vcard_physical_lines_witness:
  "\<exists>vcard. build_vcard sample_contact ''alice-1'' = Some (Ok vcard)
     \<and> list_all (\<lambda>l. utf8 l \<and> length l \<le> 75) (physical_lines vcard)"
  using sample_vcard_built vcard_physical_lines [OF sample_contact_utf8 sample_uid_utf8] by blast

text \<open>
  Escaping loses nothing but carriage returns, whatever follows it in the line, and what it
  produces holds no line break.
\<close>

theorem escape_roundtrip:
  "unescape_vcard_text (escape_vcard_text v @ rest)
     = filter (\<lambda>c. c \<noteq> CR) v @ unescape_vcard_text rest
   \<and> LF \<notin> set (escape_vcard_text v) \<and> CR \<notin> set (escape_vcard_text v)"
  using unescape_escape_append [of v rest] escape_no_newline [of v] by (simp add: no_cr_def)

text \<open>A family name with a semicolon does not survive.\<close>

lemma family_name_semicolon_lost:
  "read_back (c\<lparr>ci_family_name := Some ''Smith;Jr'', ci_given_name := Some ''Al''\<rparr>) uid
    = (read_back c uid)\<lparr>pv_family_name := Some (''Smith'' @ [BSL]), pv_given_name := Some ''Jr''\<rparr>"
  by (simp add: read_back_def cut_name_def after_semicolon_def or_default_def nonempty_text_def no_cr_def)

text \<open>
  What \<open>validate_contact_input\<close> accepts is bounded: a display name that is not blank, single
  fields of at most 4096 bytes, a note of at most 64 KiB, at most 64 e-mails and 64 phones of at
  most 4096 bytes each, and a caller's UID of at most 512 bytes without control characters. It
  rejects everything else.
\<close>

theorem validate_contact_input_iff:
  "validate_contact_input c = Ok () \<longleftrightarrow>
     trim (ci_full_name c) \<noteq> [] \<and> length (ci_full_name c) \<le> 4096
     \<and> list_all (pred_option (\<lambda>s. length s \<le> 4096))
         [ci_given_name c, ci_family_name c, ci_organization c, ci_title c]
     \<and> pred_option (\<lambda>s. length s \<le> 65536) (ci_note c)
     \<and> length (ci_emails c) \<le> 64 \<and> length (ci_phones c) \<le> 64
     \<and> list_all (\<lambda>v. length v \<le> 4096) (ci_emails c @ ci_phones c)
     \<and> pred_option (\<lambda>u. trim u \<noteq> [] \<and> length u \<le> 512 \<and> \<not> has_control u) (ci_uid c)"
proof -
  have short: "find too_long (field_limits c) = None \<longleftrightarrow>
      length (ci_full_name c) \<le> 4096
      \<and> list_all (pred_option (\<lambda>s. length s \<le> 4096))
          [ci_given_name c, ci_family_name c, ci_organization c, ci_title c]
      \<and> pred_option (\<lambda>s. length s \<le> 65536) (ci_note c)"
    by (auto simp: find_None_iff_all field_limits_def too_long_def MAX_CONTACT_FIELD_BYTES_def
          MAX_NOTE_BYTES_def split: option.splits)
  have multi: "\<not> list_ex (\<lambda>v. MAX_CONTACT_FIELD_BYTES < length v) vs
      \<longleftrightarrow> list_all (\<lambda>v. length v \<le> 4096) vs" for vs :: "string list"
    by (auto simp: list_ex_iff list_all_iff MAX_CONTACT_FIELD_BYTES_def not_less)
  have uid: "(case ci_uid c of Some uid \<Rightarrow> validate_uid uid | None \<Rightarrow> Ok ()) = Ok ()
      \<longleftrightarrow> pred_option (\<lambda>u. trim u \<noteq> [] \<and> length u \<le> 512 \<and> \<not> has_control u) (ci_uid c)"
    by (auto simp: validate_uid_def split: option.splits)
  show ?thesis
    unfolding validate_contact_input_def
    using short multi [of "ci_emails c @ ci_phones c"] uid
    by (auto simp: MAX_MULTI_VALUES_def not_less split: option.splits)
qed

end
