(* ===== verification/Vcard_Utf8.thy ===== *)
theory Vcard_Utf8
  imports Vcard
begin

text \<open>
  The vCard parser of \<open>src/src/mcp.rs\<close> on UTF-8: every string it returns is UTF-8 when the card is.
  The tools rely on it to build a card for a UID read from a stored one.
\<close>

text \<open>Bytes of a character of several bytes are above the ASCII range.\<close>

lemma utf8_high:
  "utf8_two a b \<Longrightarrow> 0x80 \<le> code a \<and> 0x80 \<le> code b"
  "utf8_three a b c \<Longrightarrow> 0x80 \<le> code a \<and> 0x80 \<le> code b \<and> 0x80 \<le> code c"
  "utf8_four a b c d \<Longrightarrow> 0x80 \<le> code a \<and> 0x80 \<le> code b \<and> 0x80 \<le> code c \<and> 0x80 \<le> code d"
  by (auto simp: utf8_two_def utf8_three_def utf8_four_def cont_def)

lemma high_not: "0x80 \<le> code c \<Longrightarrow> c \<noteq> CR \<and> c \<noteq> BSL"
  by (auto simp: code_def)

lemma replace_crlf_Cons: "replace_crlf (c # s) = c # replace_crlf s \<or> replace_crlf (c # s) = replace_crlf s"
  by (cases s) (auto simp: replace_crlf_plain)

lemma utf8_replace_crlf: "utf8 s \<Longrightarrow> utf8 (replace_crlf s)"
proof (induction rule: utf8.induct)
  case (utf8_1 a r)
  then show ?case using replace_crlf_Cons [of a r] by (auto simp: utf8_Cons_ascii)
next
  case (utf8_2 a b r)
  then show ?case using utf8_high(1) [OF utf8_2.hyps(1)] by (auto simp: replace_crlf_plain high_not intro: utf8.utf8_2)
next
  case (utf8_3 a b c r)
  then show ?case using utf8_high(2) [OF utf8_3.hyps(1)] by (auto simp: replace_crlf_plain high_not intro: utf8.utf8_3)
next
  case (utf8_4 a b c d r)
  then show ?case using utf8_high(3) [OF utf8_4.hyps(1)] by (auto simp: replace_crlf_plain high_not intro: utf8.utf8_4)
qed simp

lemma utf8_unescape: "utf8 s \<Longrightarrow> utf8 (unescape_vcard_text s)"
proof (induction "length s" arbitrary: s rule: less_induct)
  case less
  from less.prems show ?case
  proof (cases rule: utf8.cases)
    case (utf8_1 a r)
    show ?thesis
    proof (cases "a = BSL")
      case False
      with less.hyps [of r] utf8_1 show ?thesis by (simp add: unescape_plain utf8_Cons_ascii)
    next
      case True
      show ?thesis
      proof (cases r)
        case Nil
        with utf8_1 show ?thesis by (simp add: utf8_Cons_ascii)
      next
        case (Cons d t)
        show ?thesis
        proof (cases "d = BSL \<or> d = CHR ''n'' \<or> d = CHR ''N''")
          case True
          then have d: "code d < 0x80" "code LF < 0x80" by (auto simp: code_def)
          with utf8_1 Cons have "utf8 t" by (simp add: utf8_Cons_ascii)
          with less.hyps [of t] utf8_1 Cons \<open>a = BSL\<close> d show ?thesis by (simp add: utf8_Cons_ascii)
        next
          case False
          with utf8_1 Cons \<open>a = BSL\<close> have "unescape_vcard_text s = unescape_vcard_text r"
            by (simp add: unescape_plain)
          with less.hyps [of r] utf8_1 show ?thesis by simp
        qed
      qed
    qed
  next
    case (utf8_2 a b r)
    with less.hyps [of r] utf8_high(1) [OF utf8_2(2)] show ?thesis
      by (auto simp: unescape_plain high_not intro: utf8.utf8_2)
  next
    case (utf8_3 a b c r)
    with less.hyps [of r] utf8_high(2) [OF utf8_3(2)] show ?thesis
      by (auto simp: unescape_plain high_not intro: utf8.utf8_3)
  next
    case (utf8_4 a b c d r)
    with less.hyps [of r] utf8_high(3) [OF utf8_4(2)] show ?thesis
      by (auto simp: unescape_plain high_not intro: utf8.utf8_4)
  qed simp
qed

lemma utf8_unfold_step: "list_all utf8 ls \<Longrightarrow> utf8 raw \<Longrightarrow> list_all utf8 (unfold_step ls raw)"
proof -
  assume ls: "list_all utf8 ls" and raw: "utf8 raw"
  show ?thesis
  proof (cases "is_continuation raw \<and> ls \<noteq> []")
    case True
    then obtain c r where c: "raw = c # r" "c = SPC \<or> c = TAB"
      by (cases raw) (auto simp: is_continuation_def)
    then have "code c < 0x80" by (auto simp: code_def)
    with raw c(1) have "utf8 r" by (simp add: utf8_Cons_ascii)
    moreover have "utf8 (last ls)" "list_all utf8 (butlast ls)"
      using ls True by (auto simp: list_all_iff dest: in_set_butlastD)
    ultimately show ?thesis using True c(1) by (simp add: unfold_step_def utf8_append)
  next
    case False
    have "utf8 (trim_end_matches CR raw)" by (rule utf8_trim_end_matches [OF _ raw]) (simp add: code_def)
    with False ls show ?thesis by (auto simp: unfold_step_def)
  qed
qed

lemma utf8_unfold_lines: "utf8 v \<Longrightarrow> list_all utf8 (unfold_vcard_lines v)"
proof -
  assume v: "utf8 v"
  have "list_all utf8 (foldl unfold_step ls raws)" if "list_all utf8 ls" "list_all utf8 raws" for ls raws
    using that by (induction raws arbitrary: ls) (auto simp: utf8_unfold_step)
  moreover have lf: "code LF < 0x80" by (simp add: code_def)
  moreover have "list_all utf8 (split_on LF (replace_crlf v))"
    using utf8_split_on [OF lf utf8_replace_crlf [OF v]] by (simp add: list_all_iff)
  ultimately show ?thesis by (simp add: unfold_vcard_lines_def)
qed

text \<open>Every string of a parsed card is UTF-8.\<close>

definition utf8_opt :: "string option \<Rightarrow> bool" where
  "utf8_opt v = (case v of None \<Rightarrow> True | Some s \<Rightarrow> utf8 s)"

definition utf8_parsed :: "parsed_vcard \<Rightarrow> bool" where
  "utf8_parsed p \<longleftrightarrow> utf8_opt (pv_uid p) \<and> utf8_opt (pv_full_name p) \<and> utf8_opt (pv_given_name p)
     \<and> utf8_opt (pv_family_name p) \<and> list_all utf8 (pv_emails p) \<and> list_all utf8 (pv_phones p)
     \<and> utf8_opt (pv_organization p) \<and> utf8_opt (pv_title p) \<and> utf8_opt (pv_note p) \<and> utf8_opt (pv_birthday p)"

lemma utf8_opt_simps [simp]: "utf8_opt None" "utf8_opt (Some s) \<longleftrightarrow> utf8 s"
  by (simp_all add: utf8_opt_def)

lemma utf8_opt_part: "list_all utf8 ps \<Longrightarrow> utf8_opt (nonempty (nth_part ps i))"
  by (auto simp: nonempty_def nth_part_def list_all_iff)

lemma utf8_strip_or_self: "ascii p \<Longrightarrow> utf8 s \<Longrightarrow> utf8 (strip_or_self p s)"
  by (auto simp: strip_or_self_def dest: utf8_strip_prefix split: option.splits)

lemma utf8_parse_line:
  assumes "utf8_parsed p" "utf8 line"
  shows "utf8_parsed (parse_line p line)"
proof (cases "split_once (CHR '':'') line")
  case None
  with assms show ?thesis by (simp add: parse_line_def)
next
  case (Some hv)
  obtain head raw where hv: "hv = (head, raw)" by (cases hv)
  have raw: "utf8 raw" using utf8_split_once [OF _ assms(2) Some [unfolded hv]] by (simp add: code_def)
  have v: "utf8 (unescape_vcard_text raw)" using utf8_unescape [OF raw] .
  have semi: "code (CHR '';'') < 0x80" by (simp add: code_def)
  have parts: "list_all utf8 (map unescape_vcard_text (split_on (CHR '';'') raw))"
    using utf8_split_on [OF semi raw] by (auto simp: list_all_iff intro: utf8_unescape)
  have org: "utf8 (hd (split_on (CHR '';'') (unescape_vcard_text raw)))"
    using utf8_split_on [OF semi v] split_on_not_Nil hd_in_set by blast
  have pre: "ascii ''mailto:''" "ascii ''tel:''" by (simp_all add: code_def)
  show ?thesis
    unfolding parse_line_def Some hv option.case prod.case Let_def
    using assms(1) v org utf8_opt_part [OF parts] utf8_strip_or_self [OF pre(1) v] utf8_strip_or_self [OF pre(2) v]
    by (simp add: utf8_parsed_def del: list.map)
qed

lemma utf8_parse_vcard: "utf8 v \<Longrightarrow> utf8_parsed (parse_vcard v)"
proof -
  assume "utf8 v"
  then have ls: "list_all utf8 (unfold_vcard_lines v)" by (rule utf8_unfold_lines)
  have "utf8_parsed (foldl parse_line p ls)" if "utf8_parsed p" "list_all utf8 ls" for p ls
    using that by (induction ls arbitrary: p) (auto simp: utf8_parse_line)
  moreover have "utf8_parsed parsed_default" by (simp add: utf8_parsed_def parsed_default_def)
  ultimately show ?thesis using ls by (simp add: parse_vcard_def)
qed

definition sample_stored_card :: string where
  "sample_stored_card = ''BEGIN:VCARD'' @ [CR, LF] @ ''UID:x1'' @ [CR, LF] @ ''END:VCARD''"

end
