(* ===== verification/Rust_Map.thy ===== *)
theory Rust_Map
  imports Prelude "HOL-Library.AList"
begin

text \<open>
  \<open>std::collections::HashMap\<close> as an association list with distinct keys, in an unspecified
  iteration order. \<open>hm_len\<close> is then the number of entries, and \<open>min_by_key\<close> over the entries is
  executable: of several minimal entries Rust returns the first in iteration order, which the list
  order stands for; no property of the development depends on how such a tie is broken.

  The locale \<open>capped_insert\<close> is the contract the service's in-memory maps share: an insertion that
  keeps a hard bound on the number of entries, stores its own key, and otherwise only forgets.
\<close>

type_synonym ('k, 'v) hmap = "('k \<times> 'v) list"

definition hm_wf :: "('k, 'v) hmap \<Rightarrow> bool" where
  "hm_wf m \<longleftrightarrow> distinct (map fst m)"

definition hm_get :: "('k, 'v) hmap \<Rightarrow> 'k \<Rightarrow> 'v option" where
  "hm_get m k = map_of m k"

definition hm_insert :: "'k \<Rightarrow> 'v \<Rightarrow> ('k, 'v) hmap \<Rightarrow> ('k, 'v) hmap" where
  "hm_insert k v m = AList.update k v m"

definition hm_remove :: "'k \<Rightarrow> ('k, 'v) hmap \<Rightarrow> ('k, 'v) hmap" where
  "hm_remove k m = AList.delete k m"

definition hm_retain :: "('k \<Rightarrow> 'v \<Rightarrow> bool) \<Rightarrow> ('k, 'v) hmap \<Rightarrow> ('k, 'v) hmap" where
  "hm_retain P m = filter (\<lambda>(k, v). P k v) m"

definition hm_len :: "('k, 'v) hmap \<Rightarrow> nat" where
  "hm_len m = length m"

definition hm_contains :: "('k, 'v) hmap \<Rightarrow> 'k \<Rightarrow> bool" where
  "hm_contains m k \<longleftrightarrow> hm_get m k \<noteq> None"

text \<open>\<open>m.iter().min_by_key(|(_, v)| f(v)).map(|(k, _)| k)\<close>\<close>

fun min_entry :: "('v \<Rightarrow> nat) \<Rightarrow> ('k, 'v) hmap \<Rightarrow> ('k \<times> 'v) option" where
  "min_entry f [] = None"
| "min_entry f (e # m) =
     (case min_entry f m of
        None \<Rightarrow> Some e
      | Some e' \<Rightarrow> if f (snd e') < f (snd e) then Some e' else Some e)"

definition min_key :: "('v \<Rightarrow> nat) \<Rightarrow> ('k, 'v) hmap \<Rightarrow> 'k option" where
  "min_key f m = map_option fst (min_entry f m)"

subsection \<open>Laws\<close>

lemma hm_wf_Nil [simp, intro]: "hm_wf []"
  by (simp add: hm_wf_def)

lemma hm_len_Nil [simp]: "hm_len [] = 0"
  by (simp add: hm_len_def)

lemma hm_get_Nil [simp]: "hm_get [] k = None"
  by (simp add: hm_get_def)

lemma hm_wf_insert [simp, intro]: "hm_wf m \<Longrightarrow> hm_wf (hm_insert k v m)"
  by (simp add: hm_wf_def hm_insert_def distinct_update)

lemma hm_wf_remove [simp, intro]: "hm_wf m \<Longrightarrow> hm_wf (hm_remove k m)"
  by (simp add: hm_wf_def hm_remove_def distinct_delete)

lemma hm_wf_retain [simp, intro]: "hm_wf m \<Longrightarrow> hm_wf (hm_retain P m)"
  by (auto simp: hm_wf_def hm_retain_def distinct_map inj_on_def)

lemma hm_get_insert [simp]: "hm_get (hm_insert k v m) = (hm_get m)(k \<mapsto> v)"
  by (rule ext) (simp add: hm_get_def hm_insert_def update_conv')

lemma hm_get_remove [simp]: "hm_get (hm_remove k m) = (hm_get m)(k := None)"
  by (rule ext) (simp add: hm_get_def hm_remove_def delete_conv')

lemma hm_get_retain:
  "hm_wf m \<Longrightarrow> hm_get (hm_retain P m) k
     = (case hm_get m k of Some v \<Rightarrow> if P k v then Some v else None | None \<Rightarrow> None)"
proof (induction m)
  case (Cons e m)
  obtain k' v' where e: "e = (k', v')" by (cases e)
  have "map_of m k' = None" using Cons.prems e
    by (simp add: hm_wf_def map_of_eq_None_iff)
  moreover have "hm_wf m" using Cons.prems by (simp add: hm_wf_def)
  ultimately show ?case using Cons.IH e
    by (auto simp: hm_get_def hm_retain_def split: option.splits)
qed (simp add: hm_get_def hm_retain_def)

lemma hm_get_retain_le: "hm_wf m \<Longrightarrow> hm_get (hm_retain P m) k = Some v \<Longrightarrow> hm_get m k = Some v \<and> P k v"
  by (auto simp: hm_get_retain split: option.splits if_splits)

lemma hm_len_retain: "hm_len (hm_retain P m) \<le> hm_len m"
  by (simp add: hm_len_def hm_retain_def)

lemma hm_contains_iff: "hm_contains m k \<longleftrightarrow> k \<in> fst ` set m"
  by (force simp: hm_contains_def hm_get_def map_of_eq_None_iff image_iff)

lemma hm_len_insert: "hm_len (hm_insert k v m) = (if hm_contains m k then hm_len m else Suc (hm_len m))"
proof -
  have "length (AList.update k v m) = (if k \<in> fst ` set m then length m else Suc (length m))"
    by (induction m) auto
  then show ?thesis
    by (simp add: hm_len_def hm_insert_def hm_contains_iff)
qed

lemma hm_len_insert_le: "hm_len (hm_insert k v m) \<le> Suc (hm_len m)"
  by (simp add: hm_len_insert)

lemma hm_len_remove: "hm_wf m \<Longrightarrow> hm_contains m k \<Longrightarrow> Suc (hm_len (hm_remove k m)) = hm_len m"
proof (induction m)
  case (Cons e m)
  then show ?case
  proof (cases "fst e = k")
    case True
    with Cons.prems have "k \<notin> fst ` set m" by (auto simp: hm_wf_def)
    then have "AList.delete k m = m" by (simp add: delete_idem)
    with True show ?thesis by (cases e) (simp add: hm_len_def hm_remove_def)
  next
    case False
    with Cons.prems have "hm_wf m" "hm_contains m k" by (auto simp: hm_wf_def hm_contains_iff)
    with Cons.IH False show ?thesis by (cases e) (simp add: hm_len_def hm_remove_def)
  qed
qed (simp add: hm_contains_def)

lemma hm_len_remove_le: "hm_len (hm_remove k m) \<le> hm_len m"
  by (simp add: hm_len_def hm_remove_def length_delete_le)

lemma min_entry_None: "min_entry f m = None \<longleftrightarrow> m = []"
  by (cases m) (auto split: option.splits)

lemma min_entry_Some:
  "min_entry f m = Some e \<Longrightarrow> e \<in> set m \<and> (\<forall>x \<in> set m. f (snd e) \<le> f (snd x))"
proof (induction m arbitrary: e)
  case (Cons x m)
  show ?case
  proof (cases "min_entry f m")
    case None
    with Cons.prems show ?thesis by (simp add: min_entry_None)
  next
    case (Some y)
    from Cons.IH [OF this] Cons.prems Some show ?thesis
      by (auto split: if_splits intro: order.trans)
  qed
qed simp

lemma min_key_None: "min_key f m = None \<longleftrightarrow> m = []"
  by (simp add: min_key_def min_entry_None)

text \<open>The chosen key is present, and no entry has a smaller measure than its own.\<close>

lemma min_key_Some:
  assumes "hm_wf m" "min_key f m = Some k"
  shows "\<exists>v. hm_get m k = Some v \<and> (\<forall>k' v'. hm_get m k' = Some v' \<longrightarrow> f v \<le> f v')"
proof -
  from assms(2) obtain e where e: "min_entry f m = Some e" "fst e = k"
    by (auto simp: min_key_def)
  from min_entry_Some [OF e(1)] have "e \<in> set m" "\<forall>x \<in> set m. f (snd e) \<le> f (snd x)" by auto
  with e(2) assms(1) show ?thesis
    by (intro exI [of _ "snd e"])
       (auto simp: hm_get_def hm_wf_def intro!: map_of_is_SomeI dest!: map_of_SomeD)
qed

lemma min_key_contains: "hm_wf m \<Longrightarrow> min_key f m = Some k \<Longrightarrow> hm_contains m k"
  using min_key_Some by (fastforce simp: hm_contains_def)

text \<open>
  Evicting the entry with the least measure, the step every bounded map of the service takes
  when it is full: \<open>if let Some(k) = m.iter().min_by_key(..) { m.remove(&k); }\<close>.
\<close>

definition evict_min :: "('v \<Rightarrow> nat) \<Rightarrow> ('k, 'v) hmap \<Rightarrow> ('k, 'v) hmap" where
  "evict_min f m = (case min_key f m of Some k \<Rightarrow> hm_remove k m | None \<Rightarrow> m)"

lemma hm_wf_evict_min [simp, intro]: "hm_wf m \<Longrightarrow> hm_wf (evict_min f m)"
  by (simp add: evict_min_def split: option.splits)

lemma hm_len_evict_min: "hm_wf m \<Longrightarrow> m \<noteq> [] \<Longrightarrow> Suc (hm_len (evict_min f m)) = hm_len m"
  by (auto simp: evict_min_def min_key_None hm_len_remove min_key_contains split: option.splits)

lemma hm_get_evict_min: "hm_get (evict_min f m) k = Some v \<Longrightarrow> hm_get m k = Some v"
  by (auto simp: evict_min_def split: option.splits if_splits)

lemma evict_min_kept:
  assumes "hm_wf m" "hm_get m k = Some v" "hm_get m k' = Some v'" "f v < f v'"
  shows "hm_get (evict_min f m) k' = Some v'"
proof (cases "min_key f m")
  case None
  with assms show ?thesis by (simp add: evict_min_def)
next
  case (Some x)
  from min_key_Some [OF assms(1) Some] obtain w where w:
    "hm_get m x = Some w" "\<forall>k' v'. hm_get m k' = Some v' \<longrightarrow> f w \<le> f v'" by blast
  with assms(2-4) have "x \<noteq> k'" by (metis leD option.inject)
  with assms(3) Some show ?thesis by (simp add: evict_min_def)
qed

subsection \<open>Insertion below a cap\<close>

text \<open>
  The shape two of the caches share: when full, drop the entries \<open>P\<close> rejects; when still full and
  the key is new, evict the entry of least measure; then insert.
\<close>

definition capped_put ::
  "nat \<Rightarrow> ('k \<Rightarrow> 'v \<Rightarrow> bool) \<Rightarrow> ('v \<Rightarrow> nat) \<Rightarrow> 'k \<Rightarrow> 'v \<Rightarrow> ('k, 'v) hmap \<Rightarrow> ('k, 'v) hmap" where
  "capped_put cap P f k v m =
     (let g1 = (if hm_len m \<ge> cap then hm_retain P m else m);
          g2 = (if hm_len g1 \<ge> cap \<and> \<not> hm_contains g1 k then evict_min f g1 else g1)
      in hm_insert k v g2)"

lemma hm_wf_capped_put: "hm_wf m \<Longrightarrow> hm_wf (capped_put cap P f k v m)"
  by (simp add: capped_put_def Let_def)

lemma hm_get_capped_put: "hm_get (capped_put cap P f k v m) k = Some v"
  by (simp add: capped_put_def Let_def)

lemma hm_get_capped_put_other:
  "hm_wf m \<Longrightarrow> k' \<noteq> k \<Longrightarrow> hm_get (capped_put cap P f k v m) k' = Some e \<Longrightarrow> hm_get m k' = Some e"
  by (auto simp: capped_put_def Let_def dest!: hm_get_evict_min dest: hm_get_retain_le split: if_splits)

lemma hm_len_capped_put:
  assumes "0 < cap" "hm_wf m" "hm_len m \<le> cap"
  shows "hm_len (capped_put cap P f k v m) \<le> cap"
proof -
  define g1 where "g1 = (if hm_len m \<ge> cap then hm_retain P m else m)"
  define g2 where "g2 = (if hm_len g1 \<ge> cap \<and> \<not> hm_contains g1 k then evict_min f g1 else g1)"
  have g1: "hm_wf g1" "hm_len g1 \<le> cap"
    using assms order.trans [OF hm_len_retain assms(3)] by (auto simp: g1_def)
  have "g1 \<noteq> []" if "hm_len g1 \<ge> cap" using that assms(1) by auto
  then have "hm_contains g2 k \<or> hm_len g2 < cap" "hm_len g2 \<le> cap"
    using g1 hm_len_evict_min [OF g1(1), of f] by (auto simp: g2_def)
  moreover have "capped_put cap P f k v m = hm_insert k v g2"
    by (simp only: capped_put_def Let_def g1_def g2_def)
  ultimately show ?thesis by (auto simp: hm_len_insert)
qed

subsection \<open>The contract of a bounded map\<close>

locale capped_insert =
  fixes cap :: nat
    and ins :: "instant \<Rightarrow> 'k \<Rightarrow> 'a \<Rightarrow> ('k, 'v) hmap \<Rightarrow> ('k, 'v) hmap"
    and stored :: "instant \<Rightarrow> 'a \<Rightarrow> 'v"
  assumes cap_pos: "0 < cap"
    and wf_ins: "hm_wf m \<Longrightarrow> hm_wf (ins now k a m)"
    and len_ins: "hm_wf m \<Longrightarrow> hm_len m \<le> cap \<Longrightarrow> hm_len (ins now k a m) \<le> cap"
    and get_ins_same: "hm_wf m \<Longrightarrow> hm_get (ins now k a m) k = Some (stored now a)"
    and get_ins_other: "hm_wf m \<Longrightarrow> k' \<noteq> k \<Longrightarrow> hm_get (ins now k a m) k' = Some v
        \<Longrightarrow> hm_get m k' = Some v"
begin

definition inv :: "('k, 'v) hmap \<Rightarrow> bool" where
  "inv m \<longleftrightarrow> hm_wf m \<and> hm_len m \<le> cap"

lemma inv_empty: "inv []"
  by (simp add: inv_def)

lemma inv_ins: "inv m \<Longrightarrow> inv (ins now k a m)"
  by (simp add: inv_def wf_ins len_ins)

text \<open>Any run of insertions from the empty map stays within the cap.\<close>

lemma inv_run: "inv m \<Longrightarrow> inv (fold (\<lambda>(now, k, a) m. ins now k a m) ops m)"
  by (induction ops arbitrary: m) (auto intro: inv_ins)

lemma run_len: "hm_len (fold (\<lambda>(now, k, a) m. ins now k a m) ops []) \<le> cap"
  using inv_run [OF inv_empty, of ops] by (simp add: inv_def)

text \<open>
  Nothing is invented: whatever a run of insertions leaves under a key is what one of those
  insertions stored there.
\<close>

lemma run_provenance:
  "hm_wf m \<Longrightarrow> hm_get (fold (\<lambda>(now, k, a) m. ins now k a m) ops m) k = Some v \<Longrightarrow>
   hm_get m k = Some v \<or> (\<exists>now a. (now, k, a) \<in> set ops \<and> v = stored now a)"
proof (induction ops arbitrary: m)
  case (Cons x ops)
  obtain now k' a where x: "x = (now, k', a)" by (cases x)
  have "hm_wf (ins now k' a m)" using Cons.prems(1) by (rule wf_ins)
  from Cons.IH [OF this] Cons.prems(2) x consider
    "hm_get (ins now k' a m) k = Some v" | "\<exists>now a. (now, k, a) \<in> set ops \<and> v = stored now a"
    by auto
  then show ?case
  proof cases
    case 1
    show ?thesis
    proof (cases "k = k'")
      case True
      with 1 get_ins_same [OF Cons.prems(1)] x show ?thesis by auto
    next
      case False
      with 1 get_ins_other [OF Cons.prems(1)] show ?thesis by blast
    qed
  qed auto
qed simp

end

end
