(* ===== verification/Last_Used.thy ===== *)
theory Last_Used
  imports Rust_Str Rust_Map
begin

text \<open>
  Per-bearer last-used tracking and the client address from \<open>X-Forwarded-For\<close>,
  \<open>src/src/last_used.rs\<close>.

  The tracker's map is the state; \<open>record\<close> and \<open>get\<close> take the lock for their whole body, so each
  is one atomic step. A poisoned lock is recovered in place by the code and is not a state of the
  model. The system clock is an argument: it need not be monotonic. Parsing an address is the
  standard library's \<open>str::parse::<IpAddr>\<close>, an argument \<open>parse_ip\<close> of the definition that
  calls it; nothing is assumed of it.
\<close>

definition MAX_ENTRIES :: nat where "MAX_ENTRIES = 1024"

record 'ip last_used_record =
  lu_at :: instant
  lu_ip :: "'ip option"

type_synonym 'ip last_used_map = "(string, 'ip last_used_record) hmap"

text \<open>\<open>ser_unix_secs\<close>: whole seconds as an \<open>i64\<close>, 0 when they do not fit.\<close>

definition ser_unix_secs :: "instant \<Rightarrow> int" where
  "ser_unix_secs t = (let s = int (t div 1000000000) in if s < 2 ^ 63 then s else 0)"

definition tracker_new :: "'ip last_used_map" where
  "tracker_new = []"

definition record_use ::
  "instant \<Rightarrow> string \<Rightarrow> 'ip option \<Rightarrow> 'ip last_used_map \<Rightarrow> 'ip last_used_map" where
  "record_use now token_hash ip m =
     (let m' = (if hm_len m \<ge> MAX_ENTRIES \<and> \<not> hm_contains m token_hash
                then evict_min lu_at m else m)
      in hm_insert token_hash \<lparr>lu_at = now, lu_ip = ip\<rparr> m')"

definition get_use :: "'ip last_used_map \<Rightarrow> string \<Rightarrow> 'ip last_used_record option" where
  "get_use m token_hash = hm_get m token_hash"

definition xff_parts :: "string \<Rightarrow> string list" where
  "xff_parts raw = map trim (split_on (CHR '','') raw)"

definition parse_client_ip ::
  "(string \<Rightarrow> 'ip option) \<Rightarrow> string option \<Rightarrow> nat \<Rightarrow> 'ip option" where
  "parse_client_ip parse_ip xff trusted_proxy_hops =
     (case xff of None \<Rightarrow> None
      | Some raw \<Rightarrow>
          let parts = xff_parts raw; len = length parts in
          if trusted_proxy_hops = 0 \<or> len < trusted_proxy_hops then None
          else let idx = len - trusted_proxy_hops in
               if idx < len then parse_ip (parts ! idx) else None)"

definition xff_entry_count :: "string option \<Rightarrow> nat" where
  "xff_entry_count xff = (case xff of None \<Rightarrow> 0 | Some raw \<Rightarrow> length (split_on (CHR '','') raw))"

subsection \<open>The tracker is a bounded map\<close>

lemma MAX_ENTRIES_pos: "0 < MAX_ENTRIES"
  by (simp add: MAX_ENTRIES_def)

lemma record_use_wf: "hm_wf m \<Longrightarrow> hm_wf (record_use now h ip m)"
  by (simp add: record_use_def Let_def)

lemma record_use_len:
  assumes "hm_wf m" "hm_len m \<le> MAX_ENTRIES"
  shows "hm_len (record_use now h ip m) \<le> MAX_ENTRIES"
proof (cases "hm_len m \<ge> MAX_ENTRIES \<and> \<not> hm_contains m h")
  case True
  then have "m \<noteq> []" by (auto simp: MAX_ENTRIES_def)
  with hm_len_evict_min [OF assms(1) this, of lu_at] assms(2) True
    hm_len_insert_le [of h "\<lparr>lu_at = now, lu_ip = ip\<rparr>" "evict_min lu_at m"]
  show ?thesis by (simp add: record_use_def Let_def)
next
  case False
  with assms(2) show ?thesis by (auto simp: record_use_def Let_def hm_len_insert)
qed

lemma record_use_get:
  "hm_wf m \<Longrightarrow> hm_get (record_use now h ip m) h = Some \<lparr>lu_at = now, lu_ip = ip\<rparr>"
  by (simp add: record_use_def Let_def)

lemma record_use_other:
  "h' \<noteq> h \<Longrightarrow> hm_get (record_use now h ip m) h' = Some r \<Longrightarrow> hm_get m h' = Some r"
  by (auto simp: record_use_def Let_def dest: hm_get_evict_min split: if_splits)

interpretation tracker: capped_insert MAX_ENTRIES record_use "\<lambda>now ip. \<lparr>lu_at = now, lu_ip = ip\<rparr>"
  by unfold_locales
     (auto simp: MAX_ENTRIES_pos record_use_wf record_use_len record_use_get dest: record_use_other)

text \<open>Recording a bearer that is already tracked, or with room left, forgets no other bearer.\<close>

lemma record_use_keeps:
  "hm_contains m h \<or> hm_len m < MAX_ENTRIES \<Longrightarrow> h' \<noteq> h \<Longrightarrow>
   hm_get (record_use now h ip m) h' = hm_get m h'"
  by (auto simp: record_use_def Let_def)

text \<open>A full tracker forgets at most one bearer, and one that no other bearer is older than.\<close>

lemma record_use_evicts_oldest:
  assumes "hm_wf m" "h' \<noteq> h" "hm_get m h' = Some r" "hm_get (record_use now h ip m) h' = None"
    and "hm_get m k = Some s"
  shows "lu_at r \<le> lu_at s"
proof (rule ccontr)
  assume "\<not> lu_at r \<le> lu_at s"
  then have "lu_at s < lu_at r" by simp
  from evict_min_kept [OF assms(1,5,3) this] assms(2-4) show False
    by (auto simp: record_use_def Let_def split: if_splits)
qed

subsection \<open>The trusted position in the forwarding chain\<close>

lemma xff_parts_append: "xff_parts (a @ CHR '','' # b) = xff_parts a @ xff_parts b"
  by (simp add: xff_parts_def split_on_join)

lemma xff_parts_not_Nil: "0 < length (xff_parts raw)"
  by (simp add: xff_parts_def)

lemma parse_client_ip_prefix:
  assumes "hops \<le> length (xff_parts raw)"
  shows "parse_client_ip p (Some (claimed @ '','' @ raw)) hops = parse_client_ip p (Some raw) hops"
  using assms xff_parts_not_Nil [of raw]
  by (auto simp: parse_client_ip_def xff_parts_append nth_append Let_def)

subsection \<open>Properties\<close>

text \<open>
  C31: the tracker never holds more than 1024 bearers, whatever sequence of requests it records,
  and every record it holds is one of those requests' own, at its time and with its address.
\<close>

theorem tracker_bounded_and_genuine:
  "hm_len (fold (\<lambda>(now, h, ip) m. record_use now h ip m) uses tracker_new) \<le> 1024
   \<and> (get_use (fold (\<lambda>(now, h, ip) m. record_use now h ip m) uses tracker_new) h = Some r
       \<longrightarrow> (\<exists>now ip. (now, h, ip) \<in> set uses \<and> r = \<lparr>lu_at = now, lu_ip = ip\<rparr>))"
  using tracker.run_len [of uses] tracker.run_provenance [of "[]" uses h r]
  by (auto simp: tracker_new_def MAX_ENTRIES_def get_use_def)

theorem tracker_bounded_and_genuine_witness:
  "get_use (fold (\<lambda>(now, h, ip) m. record_use now h ip m) [(7, ''k'', None), (9, ''k'', Some (1::nat))]
     tracker_new) ''k'' = Some \<lparr>lu_at = 9, lu_ip = Some 1\<rparr>
   \<and> (\<exists>now ip. (now, ''k'', ip) \<in> set [(7, ''k'', None), (9, ''k'', Some (1::nat))]
         \<and> \<lparr>lu_at = 9, lu_ip = Some 1\<rparr> = \<lparr>lu_at = now, lu_ip = ip\<rparr>)"
proof -
  have g: "get_use (fold (\<lambda>(now, h, ip) m. record_use now h ip m)
      [(7, ''k'', None), (9, ''k'', Some (1::nat))] tracker_new) ''k'' = Some \<lparr>lu_at = 9, lu_ip = Some 1\<rparr>"
    by (simp add: get_use_def tracker_new_def record_use_def MAX_ENTRIES_def hm_contains_def)
  with tracker_bounded_and_genuine [of "[(7, ''k'', None), (9, ''k'', Some (1::nat))]" "''k''"
      "\<lparr>lu_at = 9, lu_ip = Some 1\<rparr>"]
  show ?thesis by blast
qed

text \<open>
  Recording a request overwrites that bearer's own record and keeps every other one, except
  that a full tracker asked to admit a new bearer drops one, and the one it drops is at least as
  old as every other.
\<close>

theorem record_use_effect:
  assumes "hm_wf m"
  shows "get_use (record_use now h ip m) h = Some \<lparr>lu_at = now, lu_ip = ip\<rparr>
    \<and> (\<forall>h' r. h' \<noteq> h \<and> get_use m h' = Some r \<longrightarrow>
         get_use (record_use now h ip m) h' = Some r
         \<or> hm_len m \<ge> 1024 \<and> get_use m h = None
           \<and> (\<forall>k s. get_use m k = Some s \<longrightarrow> lu_at r \<le> lu_at s))"
proof -
  have "get_use (record_use now h ip m) h' = Some r \<or> hm_len m \<ge> 1024 \<and> get_use m h = None
      \<and> (\<forall>k s. get_use m k = Some s \<longrightarrow> lu_at r \<le> lu_at s)"
    if "h' \<noteq> h" "get_use m h' = Some r" for h' r
  proof (cases "hm_get (record_use now h ip m) h'")
    case None
    have old: "hm_get m h' = Some r" using that(2) by (simp add: get_use_def)
    from None old record_use_keeps [of m h h' now ip] that(1)
    have "\<not> hm_contains m h" "\<not> hm_len m < MAX_ENTRIES" by auto
    moreover have "\<forall>k s. hm_get m k = Some s \<longrightarrow> lu_at r \<le> lu_at s"
      using record_use_evicts_oldest [OF assms that(1) old None] by blast
    ultimately show ?thesis by (simp add: get_use_def hm_contains_def MAX_ENTRIES_def)
  next
    case (Some r')
    from record_use_other [OF that(1) Some] that(2) Some show ?thesis by (simp add: get_use_def)
  qed
  with record_use_get [OF assms] show ?thesis by (auto simp: get_use_def)
qed

theorem record_use_effect_witness:
  "get_use (record_use 5 ''a'' (Some (1::nat)) tracker_new) ''a'' = Some \<lparr>lu_at = 5, lu_ip = Some 1\<rparr>"
  using record_use_effect [of "tracker_new :: nat last_used_map" 5 "''a''" "Some 1"]
  by (simp add: tracker_new_def)

text \<open>
  C30: a client cannot move the address that is recorded for it by sending its own
  \<open>X-Forwarded-For\<close>. Whatever it puts in front of a chain that already has the configured number
  of genuine entries, the entry that is read is the same; with more hops configured than genuine entries
  the premise fails and a claimed entry can be read, as \<open>config.rs\<close> warns; a chain shorter than that, or a hop count
  of zero, yields no address at all.
\<close>

theorem client_ip_spoof_resistant:
  assumes "hops \<le> xff_entry_count (Some raw)"
  shows "parse_client_ip p (Some (claimed @ '','' @ raw)) hops = parse_client_ip p (Some raw) hops
    \<and> parse_client_ip p (Some raw) 0 = None
    \<and> (xff_entry_count (Some short) < hops \<longrightarrow> parse_client_ip p (Some short) hops = None)"
  using parse_client_ip_prefix [of hops raw p claimed] assms
  by (simp add: xff_entry_count_def xff_parts_def parse_client_ip_def Let_def)

theorem client_ip_spoof_resistant_witness:
  "parse_client_ip Some (Some (''1.2.3.4'' @ '','' @ ''198.51.100.7, 10.0.0.1'')) 2 = Some ''198.51.100.7''"
proof -
  have "2 \<le> xff_entry_count (Some ''198.51.100.7, 10.0.0.1'')"
    by (simp add: xff_entry_count_def)
  from client_ip_spoof_resistant [OF this, of Some "''1.2.3.4''" "[]"]
  have "parse_client_ip Some (Some (''1.2.3.4'' @ '','' @ ''198.51.100.7, 10.0.0.1'')) 2
      = parse_client_ip Some (Some ''198.51.100.7, 10.0.0.1'') 2" by blast
  also have "\<dots> = Some ''198.51.100.7''"
    by (simp add: parse_client_ip_def xff_parts_def trim_def trim_end_def ws1_def ws2_def ws3_def code_def)
  finally show ?thesis .
qed

end
