(* ===== verification/Birthday.thy ===== *)
theory Birthday
  imports Rust_Str
begin

text \<open>
  \<open>BDAY\<close> parsing and the upcoming-birthday window, \<open>src/src/birthday.rs\<close>.

  Dates are the third-party crate \<open>chrono\<close>. Its \<open>NaiveDate\<close> is the type \<open>'d\<close> of a record of the
  four operations the module calls, and \<open>civil_calendar\<close> states what chrono documents of them:
  \<open>from_ymd_opt\<close> succeeds exactly on the dates of the proleptic Gregorian calendar within the
  supported years, dates compare by their day number (day 1 is 1 January of year 1), and adding
  days fails (chrono panics) exactly when the result is out of range. The contract is interpreted
  on the whole Gregorian calendar.
\<close>

subsection \<open>The proleptic Gregorian calendar\<close>

definition is_leap :: "int \<Rightarrow> bool" where
  "is_leap y \<longleftrightarrow> y mod 4 = 0 \<and> (y mod 100 \<noteq> 0 \<or> y mod 400 = 0)"

definition month_len :: "int \<Rightarrow> nat \<Rightarrow> nat" where
  "month_len y m = (if m = 2 then (if is_leap y then 29 else 28)
                    else if m \<in> {4, 6, 9, 11} then 30 else 31)"

definition valid_ymd :: "int \<Rightarrow> nat \<Rightarrow> nat \<Rightarrow> bool" where
  "valid_ymd y m d \<longleftrightarrow> 1 \<le> m \<and> m \<le> 12 \<and> 1 \<le> d \<and> d \<le> month_len y m"

definition days_before_year :: "int \<Rightarrow> int" where
  "days_before_year y = 365 * (y - 1) + (y - 1) div 4 - (y - 1) div 100 + (y - 1) div 400"

definition days_before_month :: "int \<Rightarrow> nat \<Rightarrow> nat" where
  "days_before_month y m =
     [0, 31, 59, 90, 120, 151, 181, 212, 243, 273, 304, 334] ! (m - 1)
     + (if is_leap y \<and> 2 < m then 1 else 0)"

definition day_number :: "int \<Rightarrow> nat \<Rightarrow> nat \<Rightarrow> int" where
  "day_number y m d = days_before_year y + int (days_before_month y m + d)"

definition year_len :: "int \<Rightarrow> nat" where
  "year_len y = (if is_leap y then 366 else 365)"

text \<open>The operations of \<open>chrono::NaiveDate\<close>; \<open>cal_add\<close> is \<open>None\<close> where \<open>+\<close> panics.\<close>

record 'd calendar =
  cal_ymd :: "int \<Rightarrow> nat \<Rightarrow> nat \<Rightarrow> 'd option"
  cal_year :: "'d \<Rightarrow> int"
  cal_num :: "'d \<Rightarrow> int"
  cal_add :: "'d \<Rightarrow> nat \<Rightarrow> 'd option"
  cal_min_year :: int
  cal_max_year :: int

locale civil_calendar =
  fixes C :: "'d calendar"
  assumes years: "-1000000 \<le> cal_min_year C" "cal_min_year C \<le> 0"
      "9999 < cal_max_year C" "cal_max_year C \<le> 1000000"
    and ymd_valid: "cal_ymd C y m d \<noteq> None \<longleftrightarrow>
      valid_ymd y m d \<and> cal_min_year C \<le> y \<and> y \<le> cal_max_year C"
    and ymd_year: "cal_ymd C y m d = Some t \<Longrightarrow> cal_year C t = y"
    and ymd_num: "cal_ymd C y m d = Some t \<Longrightarrow> cal_num C t = day_number y m d"
    and ymd_all: "\<exists>m d. cal_ymd C (cal_year C t) m d = Some t"
    and add_num: "cal_add C t n = Some t' \<longleftrightarrow> cal_num C t' = cal_num C t + int n"

subsection \<open>Parsing a birthday\<close>

record birthday =
  bd_raw :: string
  bd_month :: nat
  bd_day :: nat
  bd_year :: "int option"

definition date_part :: "string \<Rightarrow> string" where
  "date_part raw = takeWhile (\<lambda>c. c \<noteq> CHR ''T'' \<and> c \<noteq> CHR ''t'') raw"

definition bday_digits :: "string \<Rightarrow> (string option \<times> string \<times> string) option" where
  "bday_digits dp =
     (let digits = filter is_ascii_digit dp in
      if starts_with ''--'' dp
      then (if length digits \<noteq> 4 then None else Some (None, take 2 digits, take 2 (drop 2 digits)))
      else if length digits \<noteq> 8 then None
      else Some (Some (take 4 digits), take 2 (drop 4 digits), take 2 (drop 6 digits)))"

definition parse_bday :: "'d calendar \<Rightarrow> string \<Rightarrow> birthday option" where
  "parse_bday C v =
     (let raw = trim v in
      if raw = [] then None
      else Option.bind (bday_digits (date_part raw)) (\<lambda>(ys, ms, ds).
        Option.bind (case ys of None \<Rightarrow> Some None
                     | Some s \<Rightarrow> map_option (\<lambda>n. Some (int n)) (parse_uint 31 s)) (\<lambda>year.
        Option.bind (parse_uint 32 ms) (\<lambda>month.
        Option.bind (parse_uint 32 ds) (\<lambda>day.
        Option.bind (cal_ymd C 2024 month day) (\<lambda>_.
        Option.bind (case year of None \<Rightarrow> Some () | Some y \<Rightarrow> map_option (\<lambda>_. ()) (cal_ymd C y month day)) (\<lambda>_.
          Some \<lparr>bd_raw = raw, bd_month = month, bd_day = day, bd_year = year\<rparr>)))))))"

subsection \<open>The next occurrence\<close>

definition U32_MAX :: nat where "U32_MAX = 4294967295"

definition occurrence_in :: "'d calendar \<Rightarrow> birthday \<Rightarrow> int \<Rightarrow> 'd option" where
  "occurrence_in C b year =
     (case cal_ymd C year (bd_month b) (bd_day b) of
        Some t \<Rightarrow> Some t
      | None \<Rightarrow> if bd_month b = 2 \<and> bd_day b = 29 then cal_ymd C year 3 1 else None)"

text \<open>\<open>u32::try_from(x).unwrap_or(u32::MAX)\<close>\<close>

definition to_u32 :: "int \<Rightarrow> nat" where
  "to_u32 x = (if 0 \<le> x \<and> x \<le> int U32_MAX then nat x else U32_MAX)"

fun days_until_in :: "'d calendar \<Rightarrow> birthday \<Rightarrow> 'd \<Rightarrow> int list \<Rightarrow> nat" where
  "days_until_in C b today [] = U32_MAX"
| "days_until_in C b today (year # ys) =
     (case occurrence_in C b year of
        None \<Rightarrow> days_until_in C b today ys
      | Some occ \<Rightarrow> if cal_num C occ \<ge> cal_num C today then to_u32 (cal_num C occ - cal_num C today)
                   else days_until_in C b today ys)"

definition first_year :: "'d calendar \<Rightarrow> birthday \<Rightarrow> 'd \<Rightarrow> int" where
  "first_year C b today =
     (case bd_year b of None \<Rightarrow> cal_year C today | Some born \<Rightarrow> max born (cal_year C today))"

definition days_until :: "'d calendar \<Rightarrow> birthday \<Rightarrow> 'd \<Rightarrow> nat" where
  "days_until C b today =
     (let first = first_year C b today in days_until_in C b today [first, first + 1])"

definition within_window :: "'d calendar \<Rightarrow> birthday \<Rightarrow> 'd \<Rightarrow> nat \<Rightarrow> nat option" where
  "within_window C b today days =
     (let remaining = days_until C b today in if remaining \<le> days then Some remaining else None)"

text \<open>The outer option is \<open>None\<close> where adding the days panics.\<close>

definition turning :: "'d calendar \<Rightarrow> birthday \<Rightarrow> 'd \<Rightarrow> int option option" where
  "turning C b today =
     (case bd_year b of
        None \<Rightarrow> Some None
      | Some born \<Rightarrow> map_option (\<lambda>next. Some (cal_year C next - born))
                       (cal_add C today (days_until C b today)))"

subsection \<open>Day numbers\<close>

lemma div_pred:
  fixes y k :: int
  assumes "0 < k"
  shows "y div k = (y - 1) div k + (if y mod k = 0 then 1 else 0)"
proof (cases "y mod k = 0")
  case True
  have "y - 1 = k * (y div k - 1) + (k - 1)"
    using True mult_div_mod_eq [of k y] by (simp add: algebra_simps)
  from int_div_pos_eq [OF this] assms True show ?thesis by simp
next
  case False
  have "0 \<le> y mod k" "y mod k < k" using assms by simp_all
  with False have r: "0 \<le> y mod k - 1" "y mod k - 1 < k" by simp_all
  have "y - 1 = k * (y div k) + (y mod k - 1)"
    using mult_div_mod_eq [of k y] by simp
  from int_div_pos_eq [OF this r] False show ?thesis by simp
qed

definition mult_of :: "int \<Rightarrow> int \<Rightarrow> int" where
  "mult_of k y = (if y mod k = 0 then 1 else 0)"

lemma year_len_mult: "int (year_len y) = 365 + mult_of 4 y - mult_of 100 y + mult_of 400 y"
proof -
  have "y mod 400 = 0 \<Longrightarrow> y mod 100 = 0" "y mod 100 = 0 \<Longrightarrow> y mod 4 = 0"
    using mod_mod_cancel [of 100 400 y] mod_mod_cancel [of 4 100 y] by simp_all
  then show ?thesis
    unfolding year_len_def is_leap_def mult_of_def
    by (cases "y mod 400 = 0"; cases "y mod 100 = 0"; cases "y mod 4 = 0"; simp)
qed

lemma year_sum:
  "365 * y + (a + i) - (b + j) + (c + k) = 365 * (y - 1) + a - b + c + (365 + i - j + k)"
  for y a b c i j k :: int
  by simp

lemma days_before_year_Suc: "days_before_year (y + 1) = days_before_year y + int (year_len y)"
proof -
  have d: "y div 4 = (y - 1) div 4 + mult_of 4 y" "y div 100 = (y - 1) div 100 + mult_of 100 y"
    "y div 400 = (y - 1) div 400 + mult_of 400 y"
    unfolding mult_of_def by (rule div_pred, simp)+
  have "y + 1 - 1 = y" by simp
  then show ?thesis
    unfolding days_before_year_def year_len_mult by (simp only: d) (rule year_sum)
qed

lemma days_before_month_Suc:
  "1 \<le> m \<Longrightarrow> m < 12 \<Longrightarrow> days_before_month y (Suc m) = days_before_month y m + month_len y m"
proof -
  assume "1 \<le> m" "m < 12"
  then have "m \<in> {1, 2, 3, 4, 5, 6, 7, 8, 9, 10, 11}" by (simp, arith)
  then show ?thesis by (elim insertE emptyE) (simp_all add: days_before_month_def month_len_def)
qed

lemma days_before_month_less:
  "m < m' \<Longrightarrow> 1 \<le> m \<Longrightarrow> m' \<le> 12 \<Longrightarrow> days_before_month y m + month_len y m \<le> days_before_month y m'"
proof (induction m' rule: less_induct)
  case (less k)
  then obtain j where j: "k = Suc j" by (cases k) auto
  show ?case
  proof (cases "j = m")
    case True
    with j less.prems show ?thesis by (simp add: days_before_month_Suc)
  next
    case False
    with j less.prems less.IH [of j] show ?thesis by (simp add: days_before_month_Suc)
  qed
qed

lemma day_in_year:
  assumes "valid_ymd y m d"
  shows "1 \<le> days_before_month y m + d \<and> days_before_month y m + d \<le> year_len y"
proof -
  have "days_before_month y m + month_len y m \<le> year_len y"
  proof (cases "m = 12")
    case True
    then show ?thesis by (simp add: days_before_month_def month_len_def year_len_def)
  next
    case False
    have "days_before_month y 12 \<le> year_len y" by (simp add: days_before_month_def year_len_def)
    with False assms days_before_month_less [of m 12 y] show ?thesis by (simp add: valid_ymd_def)
  qed
  with assms show ?thesis by (simp add: valid_ymd_def)
qed

lemma days_before_year_less:
  assumes "y < y'"
  shows "days_before_year y + int (year_len y) \<le> days_before_year y'"
proof -
  have "days_before_year (y + 1) \<le> days_before_year (y + 1 + int n)" for n
  proof (induction n)
    case (Suc n)
    have "days_before_year (y + 1 + int n) \<le> days_before_year (y + 1 + int n + 1)"
      unfolding days_before_year_Suc by simp
    with Suc show ?case by (simp add: algebra_simps)
  qed simp
  from this [of "nat (y' - y - 1)"] assms show ?thesis by (simp add: days_before_year_Suc)
qed

lemma day_number_year_less:
  "valid_ymd y m d \<Longrightarrow> valid_ymd y' m' d' \<Longrightarrow> y < y' \<Longrightarrow> day_number y m d < day_number y' m' d'"
  using day_in_year [of y m d] day_in_year [of y' m' d'] days_before_year_less [of y y']
  by (simp add: day_number_def)

lemma day_number_bounds:
  "valid_ymd y m d \<Longrightarrow> days_before_year y < day_number y m d
     \<and> day_number y m d \<le> days_before_year y + int (year_len y)"
  using day_in_year [of y m d] by (simp add: day_number_def)

subsection \<open>Occurrences\<close>

text \<open>What \<open>parse_bday\<close> establishes of a birthday.\<close>

definition bday_ok :: "birthday \<Rightarrow> bool" where
  "bday_ok b \<longleftrightarrow> valid_ymd 2024 (bd_month b) (bd_day b)
     \<and> (case bd_year b of None \<Rightarrow> True
        | Some y \<Rightarrow> 0 \<le> y \<and> y \<le> 9999 \<and> valid_ymd y (bd_month b) (bd_day b))"

lemma valid_not_leap_day: "valid_ymd 2024 m d \<Longrightarrow> valid_ymd y m d \<or> m = 2 \<and> d = 29"
  by (auto simp: valid_ymd_def month_len_def is_leap_def split: if_splits)

lemma days_before_year_diff: "days_before_year (y + int n) \<le> days_before_year y + 366 * int n"
proof (induction n)
  case (Suc n)
  have "days_before_year (y + int n + 1) \<le> days_before_year (y + int n) + 366"
    unfolding days_before_year_Suc by (simp add: year_len_def)
  with Suc show ?case by (simp add: algebra_simps)
qed simp

lemma days_before_year_mono: "y \<le> y' \<Longrightarrow> days_before_year y \<le> days_before_year y'"
  using days_before_year_less [of y y'] by (cases "y = y'") auto

definition occ_day :: "birthday \<Rightarrow> int \<Rightarrow> nat" where
  "occ_day b y = (if valid_ymd y (bd_month b) (bd_day b) then days_before_month y (bd_month b) + bd_day b
                  else days_before_month y 3 + 1)"

lemma occ_day_bounds:
  "valid_ymd 2024 (bd_month b) (bd_day b) \<Longrightarrow> 1 \<le> occ_day b y \<and> occ_day b y \<le> year_len y"
  using day_in_year [of y "bd_month b" "bd_day b"] day_in_year [of y 3 1]
  by (auto simp: occ_day_def valid_ymd_def month_len_def)

lemma days_before_month_next:
  "int (year_len y) + int (days_before_month (y + 1) m) - int (days_before_month y m) \<le> 366"
proof -
  have "is_leap x \<Longrightarrow> x mod 4 = 0" for x by (simp add: is_leap_def)
  moreover have "y mod 4 = 0 \<Longrightarrow> (y + 1) mod 4 \<noteq> 0" by presburger
  ultimately have "is_leap y \<Longrightarrow> \<not> is_leap (y + 1)" by blast
  then show ?thesis by (cases "is_leap y") (simp_all add: year_len_def days_before_month_def)
qed

lemma occ_day_leap:
  "valid_ymd 2024 (bd_month b) (bd_day b) \<Longrightarrow>
   occ_day b y = days_before_month y (bd_month b) + bd_day b"
  using valid_not_leap_day [of "bd_month b" "bd_day b" y]
  by (auto simp: occ_day_def days_before_month_def valid_ymd_def month_len_def)

lemma occ_day_next:
  "valid_ymd 2024 (bd_month b) (bd_day b) \<Longrightarrow>
   int (year_len y) + int (occ_day b (y + 1)) - int (occ_day b y) \<le> 366"
  using days_before_month_next [of y "bd_month b"] by (simp add: occ_day_leap)

context civil_calendar
begin

lemma date_num:
  "days_before_year (cal_year C t) < cal_num C t
   \<and> cal_num C t \<le> days_before_year (cal_year C t + 1)
   \<and> cal_min_year C \<le> cal_year C t \<and> cal_year C t \<le> cal_max_year C"
proof -
  obtain m d where md: "cal_ymd C (cal_year C t) m d = Some t" using ymd_all by blast
  then have v: "valid_ymd (cal_year C t) m d" "cal_min_year C \<le> cal_year C t" "cal_year C t \<le> cal_max_year C"
    using ymd_valid [of "cal_year C t" m d] by auto
  with day_number_bounds [OF v(1)] ymd_num [OF md] show ?thesis
    by (simp add: days_before_year_Suc)
qed

lemma occurrence_total:
  assumes "valid_ymd 2024 (bd_month b) (bd_day b)" "cal_min_year C \<le> y" "y \<le> cal_max_year C"
  shows "\<exists>t. occurrence_in C b y = Some t \<and> cal_year C t = y
     \<and> cal_num C t = days_before_year y + int (occ_day b y)"
proof (cases "valid_ymd y (bd_month b) (bd_day b)")
  case True
  with ymd_valid assms(2,3) obtain t where "cal_ymd C y (bd_month b) (bd_day b) = Some t" by blast
  with True ymd_year [OF this] ymd_num [OF this] show ?thesis
    by (simp add: occurrence_in_def occ_day_def day_number_def)
next
  case False
  then have n: "cal_ymd C y (bd_month b) (bd_day b) = None" using ymd_valid by blast
  from False valid_not_leap_day [OF assms(1)] have "bd_month b = 2" "bd_day b = 29" by blast+
  moreover have "valid_ymd y 3 1" by (simp add: valid_ymd_def month_len_def)
  with ymd_valid assms(2,3) obtain t where "cal_ymd C y 3 1 = Some t" by blast
  ultimately show ?thesis
    using n False ymd_year [of y 3 1 t] ymd_num [of y 3 1 t]
    by (simp add: occurrence_in_def occ_day_def day_number_def)
qed

lemma occurrence_year:
  assumes "occurrence_in C b y = Some t"
  shows "cal_year C t = y \<and> cal_min_year C \<le> y \<and> y \<le> cal_max_year C"
proof -
  have "\<exists>m d. cal_ymd C y m d = Some t"
    using assms by (auto simp: occurrence_in_def split: option.splits if_splits)
  then obtain m d where "cal_ymd C y m d = Some t" by blast
  with ymd_year ymd_valid [of y m d] show ?thesis by auto
qed

lemma occurrence_mono:
  assumes "occurrence_in C b y = Some t" "occurrence_in C b y' = Some t'" "y < y'"
  shows "cal_num C t < cal_num C t'"
proof -
  have "cal_num C t \<le> days_before_year (y + 1)" "days_before_year y' < cal_num C t'"
    using date_num [of t] date_num [of t'] occurrence_year [OF assms(1)] occurrence_year [OF assms(2)]
    by auto
  with days_before_year_mono [of "y + 1" y'] assms(3) show ?thesis by simp
qed

lemma date_before_year: "cal_year C t < cal_year C t' \<Longrightarrow> cal_num C t < cal_num C t'"
  using date_num [of t] date_num [of t'] days_before_year_mono [of "cal_year C t + 1" "cal_year C t'"]
  by linarith

lemma num_diff_u32: "cal_num C t - cal_num C t' \<le> int U32_MAX"
proof -
  let ?n = "nat (cal_max_year C + 1 - cal_min_year C)"
  have "cal_num C t \<le> days_before_year (cal_max_year C + 1)"
    using date_num [of t] days_before_year_mono [of "cal_year C t + 1" "cal_max_year C + 1"] by linarith
  moreover have "days_before_year (cal_min_year C) \<le> cal_num C t'"
    using date_num [of t'] days_before_year_mono [of "cal_min_year C" "cal_year C t'"] by linarith
  moreover have "days_before_year (cal_max_year C + 1) \<le> days_before_year (cal_min_year C) + 366 * int ?n"
    using days_before_year_diff [of "cal_min_year C" ?n] years by simp
  moreover have "int ?n \<le> 2000001" using years by simp
  ultimately show ?thesis by (simp add: U32_MAX_def)
qed

lemma to_u32_num: "cal_num C t' \<le> cal_num C t \<Longrightarrow> int (to_u32 (cal_num C t - cal_num C t')) = cal_num C t - cal_num C t'"
  using num_diff_u32 [of t t'] by (simp add: to_u32_def)

end

subsection \<open>The next occurrence is the first one\<close>

definition born_by :: "birthday \<Rightarrow> int \<Rightarrow> bool" where
  "born_by b y \<longleftrightarrow> (case bd_year b of None \<Rightarrow> True | Some born \<Rightarrow> born \<le> y)"

lemma first_year_le: "cal_year C today \<le> y \<Longrightarrow> born_by b y \<Longrightarrow> first_year C b today \<le> y"
  by (simp add: first_year_def born_by_def split: option.splits)

context civil_calendar
begin

lemma days_until_first:
  assumes ok: "bday_ok b" and hi: "cal_year C today < cal_max_year C"
  shows "\<exists>y t. occurrence_in C b y = Some t \<and> born_by b y \<and> cal_num C today \<le> cal_num C t
     \<and> int (days_until C b today) = cal_num C t - cal_num C today
     \<and> (\<forall>y' t'. occurrence_in C b y' = Some t' \<and> born_by b y' \<and> cal_num C today \<le> cal_num C t'
           \<longrightarrow> cal_num C t \<le> cal_num C t')
     \<and> (born_by b (cal_year C today) \<longrightarrow> days_until C b today \<le> 365)"
proof -
  let ?f = "first_year C b today"
  have v: "valid_ymd 2024 (bd_month b) (bd_day b)" using ok by (simp add: bday_ok_def)
  have f: "cal_year C today \<le> ?f" "?f < cal_max_year C" "born_by b ?f"
    using ok hi years(3) by (auto simp: first_year_def bday_ok_def born_by_def split: option.splits)
  have lo: "cal_min_year C \<le> ?f" using f(1) date_num [of today] by linarith
  obtain t where t: "occurrence_in C b ?f = Some t" "cal_year C t = ?f"
    "cal_num C t = days_before_year ?f + int (occ_day b ?f)"
    using occurrence_total [OF v lo] f(2) by auto
  obtain u where u: "occurrence_in C b (?f + 1) = Some u" "cal_year C u = ?f + 1"
    "cal_num C u = days_before_year (?f + 1) + int (occ_day b (?f + 1))"
    using occurrence_total [OF v, of "?f + 1"] lo f(2) by auto
  have later: "?f \<le> y'" if "occurrence_in C b y' = Some t'" "born_by b y'"
    "cal_num C today \<le> cal_num C t'" for y' t'
    using occurrence_year [OF that(1)] date_before_year [of t' today] that(2,3)
    by (intro first_year_le) (auto simp: linorder_not_less [symmetric])
  show ?thesis
  proof (cases "cal_num C today \<le> cal_num C t")
    case True
    have d: "int (days_until C b today) = cal_num C t - cal_num C today"
      using to_u32_num [OF True] True t(1) by (simp add: days_until_def Let_def)
    have min: "cal_num C t \<le> cal_num C t'" if "occurrence_in C b y' = Some t'" "?f \<le> y'" for y' t'
      using occurrence_mono [OF t(1) that(1)] t(1) that by (cases "?f = y'") auto
    have "days_until C b today \<le> 365" if "born_by b (cal_year C today)"
    proof -
      have "?f = cal_year C today"
        using that by (simp add: first_year_def born_by_def split: option.splits)
      with d t(3) date_num [of today] occ_day_bounds [OF v, of ?f] show ?thesis
        by (simp add: year_len_def split: if_splits)
    qed
    with t(1) f(3) True d min later show ?thesis by blast
  next
    case False
    have fy: "?f = cal_year C today" using date_before_year [of today t] t(2) f(1) False by linarith
    have le: "cal_num C today \<le> cal_num C u"
      using date_before_year [of today u] u(2) fy by simp
    have d: "int (days_until C b today) = cal_num C u - cal_num C today"
      using to_u32_num [OF le] le False t(1) u(1) by (simp add: days_until_def Let_def)
    have min: "cal_num C u \<le> cal_num C t'"
      if "occurrence_in C b y' = Some t'" "?f \<le> y'" "cal_num C today \<le> cal_num C t'" for y' t'
    proof -
      have "y' \<noteq> ?f" using that t(1) False by auto
      then show ?thesis
        using occurrence_mono [OF u(1) that(1)] u(1) that by (cases "?f + 1 = y'") auto
    qed
    have "days_until C b today \<le> 365"
      using d u(3) t(3) False occ_day_next [OF v, of ?f] by (simp add: days_before_year_Suc)
    moreover have "born_by b (?f + 1)" using f(3) by (auto simp: born_by_def split: option.splits)
    ultimately show ?thesis using u(1) le d min later by blast
  qed
qed

end

text \<open>A number of days that fits the window names a date, so nothing panics.\<close>

context civil_calendar
begin

lemma days_until_date:
  assumes "days_until C b today < U32_MAX"
  shows "\<exists>t. cal_add C today (days_until C b today) = Some t"
proof -
  have date: "\<exists>t. cal_num C today \<le> cal_num C t \<and> days_until_in C b today ys = to_u32 (cal_num C t - cal_num C today)"
    if "days_until_in C b today ys < U32_MAX" for ys
    using that by (induction ys) (auto split: option.splits if_splits)
  from date [OF assms [unfolded days_until_def Let_def]] obtain t where t: "cal_num C today \<le> cal_num C t"
    "days_until C b today = to_u32 (cal_num C t - cal_num C today)" unfolding days_until_def Let_def by blast
  from to_u32_num [OF t(1)] t(2) have "cal_num C t = cal_num C today + int (days_until C b today)" by simp
  with add_num show ?thesis by blast
qed

end

subsection \<open>The Gregorian calendar satisfies the contract\<close>

lemma day_number_inj:
  assumes "valid_ymd y m d" "valid_ymd y' m' d'" "day_number y m d = day_number y' m' d'"
  shows "y = y' \<and> m = m' \<and> d = d'"
proof -
  have y: "y = y'"
    using day_number_year_less [OF assms(1,2)] day_number_year_less [OF assms(2,1)] assms(3)
    by linarith
  with assms(3) have e: "days_before_month y m + d = days_before_month y m' + d'"
    by (simp add: day_number_def)
  have "\<not> m < m'" "\<not> m' < m"
    using assms(1,2) y e days_before_month_less [of m m' y] days_before_month_less [of m' m y]
    by (auto simp: valid_ymd_def)
  with y e show ?thesis by simp
qed

fun next_day :: "int \<times> nat \<times> nat \<Rightarrow> int \<times> nat \<times> nat" where
  "next_day (y, m, d) =
     (if d < month_len y m then (y, m, d + 1) else if m < 12 then (y, m + 1, 1) else (y + 1, 1, 1))"

definition valid_date :: "int \<times> nat \<times> nat \<Rightarrow> bool" where
  "valid_date t = (case t of (y, m, d) \<Rightarrow> valid_ymd y m d)"

definition date_number :: "int \<times> nat \<times> nat \<Rightarrow> int" where
  "date_number t = (case t of (y, m, d) \<Rightarrow> day_number y m d)"

lemma next_day_valid: "valid_date t \<Longrightarrow> valid_date (next_day t)"
  by (cases t) (auto simp: valid_date_def valid_ymd_def month_len_def)

lemma next_day_number:
  assumes "valid_date t"
  shows "date_number (next_day t) = date_number t + 1"
proof -
  obtain y m d where t: "t = (y, m, d)" by (cases t)
  then have v: "1 \<le> m" "m \<le> 12" "d \<le> month_len y m" using assms by (auto simp: valid_date_def valid_ymd_def)
  consider "d < month_len y m" | "d = month_len y m" "m < 12" | "d = month_len y m" "m = 12"
    using v by linarith
  then show ?thesis
  proof cases
    case 1
    with t show ?thesis by (simp add: date_number_def day_number_def)
  next
    case 2
    with t v(1) show ?thesis
      by (simp add: date_number_def day_number_def days_before_month_Suc)
  next
    case 3
    with t show ?thesis
      by (simp add: date_number_def day_number_def days_before_year_Suc year_len_def
          days_before_month_def month_len_def)
  qed
qed

lemma next_days:
  "valid_date t \<Longrightarrow> valid_date ((next_day ^^ n) t) \<and> date_number ((next_day ^^ n) t) = date_number t + int n"
  by (induction n) (auto simp: next_day_valid next_day_number)

text \<open>chrono's own range of years.\<close>

typedef gdate = "{t :: int \<times> nat \<times> nat. valid_date t \<and> -262143 \<le> fst t \<and> fst t \<le> 262142}"
  by (rule exI [of _ "(2000, 1, 1)"]) (simp add: valid_date_def valid_ymd_def month_len_def)

setup_lifting type_definition_gdate

lift_definition gd_ymd :: "int \<Rightarrow> nat \<Rightarrow> nat \<Rightarrow> gdate option" is
  "\<lambda>y m d. if valid_ymd y m d \<and> -262143 \<le> y \<and> y \<le> 262142 then Some (y, m, d) else None"
  by (simp only: valid_date_def) auto

lift_definition gd_year :: "gdate \<Rightarrow> int" is fst .

lift_definition gd_num :: "gdate \<Rightarrow> int" is date_number .

lift_definition gd_add :: "gdate \<Rightarrow> nat \<Rightarrow> gdate option" is
  "\<lambda>t n. let t' = (next_day ^^ n) t in if -262143 \<le> fst t' \<and> fst t' \<le> 262142 then Some t' else None"
  by (simp add: Let_def next_days)

definition gregorian :: "gdate calendar" where
  "gregorian = \<lparr>cal_ymd = gd_ymd, cal_year = gd_year, cal_num = gd_num, cal_add = gd_add,
                cal_min_year = -262143, cal_max_year = 262142\<rparr>"

lemma date_number_inj: "valid_date t \<Longrightarrow> valid_date t' \<Longrightarrow> date_number t = date_number t' \<Longrightarrow> t = t'"
  by (cases t; cases t') (auto simp: valid_date_def date_number_def dest: day_number_inj)

lemma gd_add_num: "gd_add t n = Some t' \<longleftrightarrow> gd_num t' = gd_num t + int n"
proof transfer
  fix t t' n
  assume t: "valid_date t \<and> -262143 \<le> fst t \<and> fst t \<le> 262142"
    and t': "valid_date t' \<and> -262143 \<le> fst t' \<and> fst t' \<le> 262142"
  have "(next_day ^^ n) t = t'" if "date_number t' = date_number t + int n"
    using that next_days [of t n] date_number_inj [of "(next_day ^^ n) t" t'] t t' by auto
  with next_days [of t n] t t'
  show "((let u = (next_day ^^ n) t in if -262143 \<le> fst u \<and> fst u \<le> 262142 then Some u else None) = Some t')
      \<longleftrightarrow> date_number t' = date_number t + int n"
    by (auto simp: Let_def)
qed

lemma gd_ymd_all: "\<exists>m d. gd_ymd (gd_year t) m d = Some t"
proof transfer
  fix t :: "int \<times> nat \<times> nat"
  assume t: "valid_date t \<and> -262143 \<le> fst t \<and> fst t \<le> 262142"
  obtain y m d where "t = (y, m, d)" by (cases t)
  with t show "\<exists>m d. (if valid_ymd (fst t) m d \<and> -262143 \<le> fst t \<and> fst t \<le> 262142
      then Some (fst t, m, d) else None) = Some t"
    by (intro exI [of _ m] exI [of _ d]) (simp add: valid_date_def)
qed

interpretation gregorian: civil_calendar gregorian
proof unfold_locales
  fix y m d t
  show "cal_ymd gregorian y m d \<noteq> None \<longleftrightarrow>
      valid_ymd y m d \<and> cal_min_year gregorian \<le> y \<and> y \<le> cal_max_year gregorian"
    by (simp add: gregorian_def) (transfer, simp add: valid_date_def)
  show "\<exists>m d. cal_ymd gregorian (cal_year gregorian t) m d = Some t"
    by (simp add: gregorian_def gd_ymd_all)
  show "cal_add gregorian t n = Some t' \<longleftrightarrow> cal_num gregorian t' = cal_num gregorian t + int n" for n t'
    by (simp add: gregorian_def gd_add_num)
  show "cal_year gregorian t = y" if "cal_ymd gregorian y m d = Some t"
    using that by (simp add: gregorian_def) (transfer, auto split: if_splits)
  show "cal_num gregorian t = day_number y m d" if "cal_ymd gregorian y m d = Some t"
    using that by (simp add: gregorian_def) (transfer, auto simp: date_number_def split: if_splits)
qed (simp_all add: gregorian_def)

subsection \<open>Parsing\<close>

lemma parse_bday_valid:
  assumes "civil_calendar C" "parse_bday C v = Some b"
  shows "bday_ok b \<and> bd_raw b = trim v"
proof -
  have valid: "\<And>y m d. cal_ymd C y m d \<noteq> None \<longleftrightarrow>
      valid_ymd y m d \<and> cal_min_year C \<le> y \<and> y \<le> cal_max_year C"
    using civil_calendar.ymd_valid [OF assms(1)] by blast
  from assms(2) obtain ys ms ds where d: "bday_digits (date_part (trim v)) = Some (ys, ms, ds)"
    by (auto simp: parse_bday_def Let_def bind_eq_Some_conv split: if_splits)
  have len: "length s \<le> 4 \<and> list_all is_ascii_digit s" if "ys = Some s" for s
    using d that by (auto simp: bday_digits_def Let_def list_all_iff split: if_splits dest!: in_set_takeD)
  have "\<And>s n. ys = Some s \<Longrightarrow> parse_uint 31 s = Some n \<Longrightarrow> n \<le> 9999"
  proof -
    fix s n assume "ys = Some s" "parse_uint 31 s = Some n"
    with len [of s] have "n = digits_val s" "list_all is_ascii_digit s" "length s \<le> 4"
      by (auto simp: parse_uint_def Let_def is_ascii_digit_def code_def split: if_splits list.splits)
    with digits_val_less [of s] power_increasing [of "length s" 4 "10::nat"] show "n \<le> 9999" by simp
  qed
  with assms(2) d valid show ?thesis
    by (auto simp: parse_bday_def Let_def bday_ok_def bind_eq_Some_conv split: if_splits option.splits)
qed

definition iso_field :: "nat \<Rightarrow> nat \<Rightarrow> string" where
  "iso_field w n = pad0 w (digits_of n)"

definition iso_date :: "string \<Rightarrow> int option \<Rightarrow> nat \<Rightarrow> nat \<Rightarrow> string" where
  "iso_date sep year m d =
     (case year of None \<Rightarrow> ''--'' | Some y \<Rightarrow> iso_field 4 (nat y) @ sep) @ iso_field 2 m @ sep @ iso_field 2 d"

lemma iso_field:
  "n < 10 ^ w \<Longrightarrow> 0 < w \<Longrightarrow> length (iso_field w n) = w \<and> list_all is_ascii_digit (iso_field w n)
     \<and> digits_val (iso_field w n) = n"
  by (simp add: iso_field_def pad0_digits)

lemma digit_not: "is_ascii_digit c \<Longrightarrow> c \<noteq> CHR ''T'' \<and> c \<noteq> CHR ''t'' \<and> c \<noteq> CHR ''-''"
  by (auto simp: is_ascii_digit_def code_def)

lemma date_part_id: "list_all (\<lambda>c. is_ascii_digit c \<or> c = CHR ''-'') s \<Longrightarrow> date_part s = s"
  unfolding date_part_def by (rule takeWhile_eq_all_conv [THEN iffD2]) (auto simp: list_all_iff dest: digit_not)

lemma digits_id: "list_all is_ascii_digit s \<Longrightarrow> filter is_ascii_digit s = s"
  by (simp add: list_all_iff)

lemma iso_field_hd:
  assumes "n < 10 ^ w" "0 < w"
  shows "iso_field w n \<noteq> [] \<and> is_ascii_digit (hd (iso_field w n)) \<and> is_ascii_digit (last (iso_field w n))"
proof -
  have "length (iso_field w n) = w" "list_all is_ascii_digit (iso_field w n)" using iso_field [OF assms] by auto
  moreover from this have "iso_field w n \<noteq> []" using assms(2) by auto
  ultimately show ?thesis by (auto simp: list_all_iff)
qed

lemma iso_date_trim:
  assumes "sep \<in> {[], ''-''}" "d < (100::nat)"
    and "case year of None \<Rightarrow> True | Some y \<Rightarrow> 0 \<le> y \<and> y \<le> 9999"
  shows "trim (iso_date sep year m d) = iso_date sep year m d"
proof (rule trim_graphic)
  have d: "iso_field 2 d \<noteq> []" "is_ascii_digit (last (iso_field 2 d))"
    using iso_field_hd [of d 2] assms(2) by auto
  then show "iso_date sep year m d \<noteq> []" by (simp add: iso_date_def)
  show "graphic (last (iso_date sep year m d))"
    using d by (simp add: iso_date_def digit_graphic)
  show "graphic (hd (iso_date sep year m d))"
  proof (cases year)
    case None
    then show ?thesis by (simp add: iso_date_def graphic_def code_def)
  next
    case (Some y)
    with assms(3) have "nat y < 10 ^ 4" by (simp add: nat_less_iff)
    with Some iso_field_hd [of "nat y" 4] show ?thesis
      by (simp add: iso_date_def digit_graphic)
  qed
qed

lemma iso_date_part:
  assumes "sep \<in> {[], ''-''}" "m < 100" "d < 100"
    and "case year of None \<Rightarrow> True | Some y \<Rightarrow> 0 \<le> y \<and> y \<le> 9999"
  shows "date_part (iso_date sep year m d) = iso_date sep year m d"
proof (rule date_part_id)
  have "list_all is_ascii_digit (iso_field 2 m)" "list_all is_ascii_digit (iso_field 2 d)"
    "\<And>y. year = Some y \<Longrightarrow> list_all is_ascii_digit (iso_field 4 (nat y))"
    using iso_field [of m 2] iso_field [of d 2] iso_field [of "nat (the year)" 4] assms by auto
  with assms(1) show "list_all (\<lambda>c. is_ascii_digit c \<or> c = CHR ''-'') (iso_date sep year m d)"
    by (auto simp: iso_date_def list_all_iff split: option.splits)
qed

lemma iso_bday_digits:
  assumes "sep \<in> {[], ''-''}" "m < 100" "d < 100"
    and "case year of None \<Rightarrow> True | Some y \<Rightarrow> 0 \<le> y \<and> y \<le> 9999"
  shows "bday_digits (iso_date sep year m d)
     = Some (map_option (\<lambda>y. iso_field 4 (nat y)) year, iso_field 2 m, iso_field 2 d)"
proof -
  have md: "length (iso_field 2 m) = 2" "list_all is_ascii_digit (iso_field 2 m)"
    "length (iso_field 2 d) = 2" "list_all is_ascii_digit (iso_field 2 d)"
    using iso_field [of m 2] iso_field [of d 2] assms(2,3) by auto
  have sep: "filter is_ascii_digit sep = []" "\<not> is_ascii_digit CHR ''-''"
    using assms(1) by (auto simp: is_ascii_digit_def code_def)
  show ?thesis
  proof (cases year)
    case None
    then show ?thesis
      using md sep by (simp add: bday_digits_def iso_date_def digits_id Let_def)
  next
    case (Some y)
    with assms(4) have y: "length (iso_field 4 (nat y)) = 4" "list_all is_ascii_digit (iso_field 4 (nat y))"
      using iso_field [of "nat y" 4] by auto
    then obtain c r where c: "iso_field 4 (nat y) = c # r" by (cases "iso_field 4 (nat y)") auto
    with y(2) have "c \<noteq> CHR ''-''" using digit_not by auto
    with c have "\<not> starts_with ''--'' (iso_date sep year m d)" by (simp add: iso_date_def Some)
    then show ?thesis
      using Some y md sep by (simp add: bday_digits_def iso_date_def digits_id Let_def)
  qed
qed

lemma parse_uint_field: "n < 10 ^ w \<Longrightarrow> 0 < w \<Longrightarrow> n < 2 ^ b \<Longrightarrow> parse_uint b (iso_field w n) = Some n"
  using parse_uint_digits [of "iso_field w n" b] iso_field [of n w] iso_field_hd [of n w] by simp

subsection \<open>Properties\<close>

text \<open>
  Each of the four ISO forms the module documents is accepted and read back as the date that
  was written: with or without hyphens, with a four-digit year or with the year left out, for
  every date that exists in a leap year and, when a year is given, in that year.
\<close>

theorem parse_bday_iso:
  assumes "civil_calendar C" "sep \<in> {[], ''-''}" "valid_ymd 2024 m d"
    and "case year of None \<Rightarrow> True | Some y \<Rightarrow> 0 \<le> y \<and> y \<le> 9999 \<and> valid_ymd y m d"
  shows "parse_bday C (iso_date sep year m d)
     = Some \<lparr>bd_raw = iso_date sep year m d, bd_month = m, bd_day = d, bd_year = year\<rparr>"
proof -
  have md: "m < 100" "d < 100"
    using assms(3) by (auto simp: valid_ymd_def month_len_def split: if_splits)
  have y: "case year of None \<Rightarrow> True | Some y \<Rightarrow> 0 \<le> y \<and> y \<le> 9999"
    using assms(4) by (auto split: option.splits)
  have u: "parse_uint 32 (iso_field 2 m) = Some m" "parse_uint 32 (iso_field 2 d) = Some d"
    using parse_uint_field [of m 2 32] parse_uint_field [of d 2 32] md by auto
  have v: "\<exists>t. cal_ymd C z m d = Some t" if "valid_ymd z m d" "0 \<le> z" "z \<le> 9999" for z
    using civil_calendar.ymd_valid [OF assms(1), of z m d] civil_calendar.years [OF assms(1)] that by auto
  from v [of 2024] assms(3) obtain t where t: "cal_ymd C 2024 m d = Some t" by auto
  have ne: "iso_date sep year m d \<noteq> []"
    using iso_field_hd [of d 2] md by (simp add: iso_date_def)
  show ?thesis
  proof (cases year)
    case None
    then show ?thesis
      using iso_date_trim [OF assms(2) md(2) y] iso_date_part [OF assms(2) md y]
        iso_bday_digits [OF assms(2) md y] ne u t
      by (simp add: parse_bday_def Let_def)
  next
    case (Some z)
    have "nat z < 10 ^ 4" using y Some by (simp add: nat_less_iff)
    from parse_uint_field [OF this, of 31] this have "parse_uint 31 (iso_field 4 (nat z)) = Some (nat z)" by simp
    moreover obtain t' where "cal_ymd C z m d = Some t'" using v [of z] assms(4) Some by auto
    ultimately show ?thesis
      using iso_date_trim [OF assms(2) md(2) y] iso_date_part [OF assms(2) md y]
        iso_bday_digits [OF assms(2) md y] ne u t Some y
      by (simp add: parse_bday_def Let_def)
  qed
qed

theorem parse_bday_iso_witness:
  "parse_bday gregorian (iso_date ''-'' (Some 1984) 3 17)
     = Some \<lparr>bd_raw = iso_date ''-'' (Some 1984) 3 17, bd_month = 3, bd_day = 17, bd_year = Some 1984\<rparr>
   \<and> iso_date ''-'' (Some 1984) 3 17 = ''1984-03-17''"
proof -
  have "valid_ymd 2024 3 17" "valid_ymd 1984 3 17" by (simp_all add: valid_ymd_def month_len_def)
  then have "parse_bday gregorian (iso_date ''-'' (Some 1984) 3 17)
     = Some \<lparr>bd_raw = iso_date ''-'' (Some 1984) 3 17, bd_month = 3, bd_day = 17, bd_year = Some 1984\<rparr>"
    using parse_bday_iso [OF gregorian.civil_calendar_axioms, of "''-''" 3 17 "Some 1984"] by simp
  moreover have "iso_date ''-'' (Some 1984) 3 17 = ''1984-03-17''"
    by (simp add: iso_date_def iso_field_def pad0_def digits_of.simps digit_char_def char_of_def bit_0)
  ultimately show ?thesis by blast
qed

text \<open>
  C29: for a birthday the parser accepted, \<open>days_until\<close> counts to the first occurrence that is not
  before today and not before the recorded birth year, so never \<open>u32::MAX\<close>; when the birth year
  is not after today's year that is at most 365 days ahead (with a later birth year it may be more), and the age reported is the occurrence's
  year minus the birth year, with no overflow of the date. The window is inclusive at both ends:
  the birthday is reported, with that distance, exactly when the occurrence is at most \<open>days\<close> ahead.
\<close>

theorem days_until_next_occurrence:
  assumes "civil_calendar C" "parse_bday C v = Some b" "cal_year C today < cal_max_year C"
  shows "\<exists>y t. occurrence_in C b y = Some t \<and> born_by b y
     \<and> int (days_until C b today) = cal_num C t - cal_num C today
     \<and> (\<forall>y' t'. occurrence_in C b y' = Some t' \<and> born_by b y' \<and> cal_num C today \<le> cal_num C t'
           \<longrightarrow> cal_num C t \<le> cal_num C t')
     \<and> (born_by b (cal_year C today) \<longrightarrow> days_until C b today \<le> 365)
     \<and> turning C b today = Some (map_option (\<lambda>born. y - born) (bd_year b))
     \<and> (\<forall>days. within_window C b today days
           = (if cal_num C t - cal_num C today \<le> int days then Some (days_until C b today) else None))"
proof -
  have ok: "bday_ok b" using parse_bday_valid [OF assms(1,2)] by blast
  from civil_calendar.days_until_first [OF assms(1) ok assms(3)] obtain y t where t:
    "occurrence_in C b y = Some t" "born_by b y"
    "int (days_until C b today) = cal_num C t - cal_num C today"
    "\<forall>y' t'. occurrence_in C b y' = Some t' \<and> born_by b y' \<and> cal_num C today \<le> cal_num C t'
           \<longrightarrow> cal_num C t \<le> cal_num C t'"
    "born_by b (cal_year C today) \<longrightarrow> days_until C b today \<le> 365" by blast
  from t(3) have "cal_add C today (days_until C b today) = Some t"
    using civil_calendar.add_num [OF assms(1), of today "days_until C b today" t] by simp
  with civil_calendar.occurrence_year [OF assms(1) t(1)]
  have "turning C b today = Some (map_option (\<lambda>born. y - born) (bd_year b))"
    by (simp add: turning_def split: option.splits)
  moreover have "within_window C b today days
      = (if cal_num C t - cal_num C today \<le> int days then Some (days_until C b today) else None)" for days
    by (simp add: within_window_def Let_def flip: t(3))
  ultimately show ?thesis using t by (intro exI [of _ y] exI [of _ t] conjI) simp_all
qed

definition gdate_of :: "int \<Rightarrow> nat \<Rightarrow> nat \<Rightarrow> gdate" where
  "gdate_of y m d = the (gd_ymd y m d)"

lemma gdate_of: "valid_ymd y m d \<Longrightarrow> -262143 \<le> y \<Longrightarrow> y \<le> 262142 \<Longrightarrow>
   gd_year (gdate_of y m d) = y \<and> gd_num (gdate_of y m d) = day_number y m d"
  using gregorian.ymd_valid [of y m d] gregorian.ymd_year [of y m d] gregorian.ymd_num [of y m d]
  by (auto simp: gdate_of_def gregorian_def)

lemma sample_today: "cal_year gregorian (gdate_of 2026 3 1) < cal_max_year gregorian
   \<and> cal_num gregorian (gdate_of 2026 3 1) = day_number 2026 3 1 \<and> cal_year gregorian (gdate_of 2026 3 1) = 2026"
  using gdate_of [of 2026 3 1] by (simp add: gregorian_def valid_ymd_def month_len_def)

lemma sample_parsed: "\<exists>b. parse_bday gregorian ''1984-03-17'' = Some b \<and> bd_month b = 3 \<and> bd_day b = 17 \<and> bd_year b = Some 1984"
proof -
  have "trim ''1984-03-17'' = ''1984-03-17''" by (rule trim_graphic) (simp_all add: graphic_def code_def)
  moreover have "bday_digits (date_part ''1984-03-17'') = Some (Some ''1984'', ''03'', ''17'')"
    by (simp add: bday_digits_def date_part_def is_ascii_digit_def code_def)
  moreover have "parse_uint 31 ''1984'' = Some 1984" "parse_uint 32 ''03'' = Some 3" "parse_uint 32 ''17'' = Some 17"
    by (simp_all add: parse_uint_def is_ascii_digit_def code_def digits_val_def digit_val_def)
  moreover have "valid_ymd 2024 3 17" "valid_ymd 1984 3 17" by (simp_all add: valid_ymd_def month_len_def)
  then have "\<exists>t. cal_ymd gregorian 2024 3 17 = Some t" "\<exists>t. cal_ymd gregorian 1984 3 17 = Some t"
    using gregorian.ymd_valid [of 2024 3 17] gregorian.ymd_valid [of 1984 3 17]
    by (auto simp: gregorian_def)
  ultimately show ?thesis by (auto simp: parse_bday_def Let_def)
qed

theorem days_until_next_occurrence_witness:
  "\<exists>b. parse_bday gregorian ''1984-03-17'' = Some b \<and> days_until gregorian b (gdate_of 2026 3 1) \<le> 365
     \<and> (\<exists>y. turning gregorian b (gdate_of 2026 3 1) = Some (Some (y - 1984)))"
proof -
  obtain b where b: "parse_bday gregorian ''1984-03-17'' = Some b" "bd_year b = Some 1984"
    using sample_parsed by blast
  have "born_by b (cal_year gregorian (gdate_of 2026 3 1))" using b(2) sample_today by (simp add: born_by_def)
  with days_until_next_occurrence [OF gregorian.civil_calendar_axioms b(1), of "gdate_of 2026 3 1"] b sample_today
  show ?thesis by auto
qed

end
