(* ===== verification/Rate_Limit.thy ===== *)
theory Rate_Limit
  imports Rust_Str Rust_Map
begin

text \<open>
  Per-identity rate limiting, \<open>src/src/rate_limit.rs\<close>.

  A token bucket is the third-party crate \<open>governor\<close>: the record \<open>governor\<close> holds the operations
  the module calls, and the locale \<open>token_bucket\<close> what the crate documents of them: a bucket made
  for a quota admits, over any sequence of checks at non-decreasing times, at most its burst plus
  one cell per replenishment period elapsed. It is interpreted on the generic cell rate algorithm
  the crate names as its implementation.

  A map entry holds an \<open>Arc\<close> of its bucket, and a request checks the bucket after the map's lock is
  released. So buckets live in an arena of cells that only grows, and entries hold addresses into
  it. Buckets are never shared between maps: each map has its own arena. One clock reading \<open>now\<close>
  stands for the readings one check takes.
\<close>

definition MAX_INITIALIZES_PER_IDENTITY :: nat where "MAX_INITIALIZES_PER_IDENTITY = 32"
definition INITIALIZE_REPLENISH :: duration where "INITIALIZE_REPLENISH = secs 60"
definition MAX_BUCKETS_PER_MAP :: nat where "MAX_BUCKETS_PER_MAP = 4096"
definition BUCKET_IDLE_TTL :: duration where "BUCKET_IDLE_TTL = secs 3600"

record ('q, 'b) governor =
  gov_per_minute :: "nat \<Rightarrow> 'q"
  gov_with_period :: "duration \<Rightarrow> 'q option"
  gov_allow_burst :: "nat \<Rightarrow> 'q \<Rightarrow> 'q"
  gov_direct :: "'q \<Rightarrow> instant \<Rightarrow> 'b"
  gov_check :: "instant \<Rightarrow> 'b \<Rightarrow> bool \<times> 'b"

record bucket_entry =
  be_bucket :: nat
  be_last_seen :: instant

record 'b bucket_map =
  bm_entries :: "(string, bucket_entry) hmap"
  bm_arena :: "'b list"

datatype category = Read | Write

record 'b limiter =
  lm_reads_per_min :: nat
  lm_writes_per_min :: nat
  lm_bearer_read :: "'b bucket_map"
  lm_bearer_write :: "'b bucket_map"
  lm_sub_read :: "'b bucket_map"
  lm_sub_write :: "'b bucket_map"

datatype rate_limited = RateLimited

definition empty_buckets :: "'b bucket_map" where
  "empty_buckets = \<lparr>bm_entries = [], bm_arena = []\<rparr>"

subsection \<open>The bucket map\<close>

text \<open>Make room and insert, the part of \<open>get_or_insert_with_quota\<close> after the key was missed.\<close>

definition make_room :: "instant \<Rightarrow> (string, bucket_entry) hmap \<Rightarrow> (string, bucket_entry) hmap" where
  "make_room now m =
     (let m1 = (if hm_len m \<ge> MAX_BUCKETS_PER_MAP
                then hm_retain (\<lambda>_ e. now - be_last_seen e < BUCKET_IDLE_TTL) m else m)
      in if hm_len m1 \<ge> MAX_BUCKETS_PER_MAP then evict_min be_last_seen m1 else m1)"

definition admit ::
  "instant \<Rightarrow> string \<Rightarrow> nat \<Rightarrow> (string, bucket_entry) hmap \<Rightarrow> (string, bucket_entry) hmap" where
  "admit now key addr m = hm_insert key \<lparr>be_bucket = addr, be_last_seen = now\<rparr> (make_room now m)"

definition get_or_insert_with_quota ::
  "('q, 'b) governor \<Rightarrow> instant \<Rightarrow> string \<Rightarrow> 'q \<Rightarrow> 'b bucket_map \<Rightarrow> nat \<times> 'b bucket_map" where
  "get_or_insert_with_quota G now key quota bm =
     (case hm_get (bm_entries bm) key of
        Some entry \<Rightarrow>
          (be_bucket entry,
           bm\<lparr>bm_entries := hm_insert key (entry\<lparr>be_last_seen := now\<rparr>) (bm_entries bm)\<rparr>)
      | None \<Rightarrow>
          let addr = length (bm_arena bm) in
          (addr, bm\<lparr>bm_arena := bm_arena bm @ [gov_direct G quota now],
                    bm_entries := admit now key addr (bm_entries bm)\<rparr>))"

definition get_or_insert ::
  "('q, 'b) governor \<Rightarrow> instant \<Rightarrow> string \<Rightarrow> nat \<Rightarrow> 'b bucket_map \<Rightarrow> nat \<times> 'b bucket_map" where
  "get_or_insert G now key quota bm = get_or_insert_with_quota G now key (gov_per_minute G quota) bm"

text \<open>\<open>bucket.check()\<close> on a held \<open>Arc\<close>.\<close>

definition bucket_check ::
  "('q, 'b) governor \<Rightarrow> instant \<Rightarrow> nat \<Rightarrow> 'b bucket_map \<Rightarrow> bool \<times> 'b bucket_map" where
  "bucket_check G now addr bm =
     (let (ok, b') = gov_check G now (bm_arena bm ! addr)
      in (ok, bm\<lparr>bm_arena := (bm_arena bm)[addr := b']\<rparr>))"

definition charge ::
  "('q, 'b) governor \<Rightarrow> instant \<Rightarrow> string \<Rightarrow> 'q \<Rightarrow> 'b bucket_map \<Rightarrow> bool \<times> 'b bucket_map" where
  "charge G now key quota bm =
     (let (addr, bm') = get_or_insert_with_quota G now key quota bm in bucket_check G now addr bm')"

subsection \<open>The tool-call limiter\<close>

definition limiter_new :: "nat \<Rightarrow> nat \<Rightarrow> 'b limiter option" where
  "limiter_new reads_per_min writes_per_min =
     (if reads_per_min = 0 \<or> writes_per_min = 0 then None
      else Some \<lparr>lm_reads_per_min = reads_per_min, lm_writes_per_min = writes_per_min,
                 lm_bearer_read = empty_buckets, lm_bearer_write = empty_buckets,
                 lm_sub_read = empty_buckets, lm_sub_write = empty_buckets\<rparr>)"

definition bearer_map :: "category \<Rightarrow> 'b limiter \<Rightarrow> 'b bucket_map" where
  "bearer_map c l = (case c of Read \<Rightarrow> lm_bearer_read l | Write \<Rightarrow> lm_bearer_write l)"

definition sub_map :: "category \<Rightarrow> 'b limiter \<Rightarrow> 'b bucket_map" where
  "sub_map c l = (case c of Read \<Rightarrow> lm_sub_read l | Write \<Rightarrow> lm_sub_write l)"

definition per_min :: "category \<Rightarrow> 'b limiter \<Rightarrow> nat" where
  "per_min c l = (case c of Read \<Rightarrow> lm_reads_per_min l | Write \<Rightarrow> lm_writes_per_min l)"

definition set_bearer_map :: "category \<Rightarrow> 'b bucket_map \<Rightarrow> 'b limiter \<Rightarrow> 'b limiter" where
  "set_bearer_map c bm l = (case c of Read \<Rightarrow> l\<lparr>lm_bearer_read := bm\<rparr> | Write \<Rightarrow> l\<lparr>lm_bearer_write := bm\<rparr>)"

definition set_sub_map :: "category \<Rightarrow> 'b bucket_map \<Rightarrow> 'b limiter \<Rightarrow> 'b limiter" where
  "set_sub_map c bm l = (case c of Read \<Rightarrow> l\<lparr>lm_sub_read := bm\<rparr> | Write \<Rightarrow> l\<lparr>lm_sub_write := bm\<rparr>)"

definition limiter_check ::
  "('q, 'b) governor \<Rightarrow> instant \<Rightarrow> string \<Rightarrow> string option \<Rightarrow> category \<Rightarrow> 'b limiter
     \<Rightarrow> (rate_limited + unit) \<times> 'b limiter" where
  "limiter_check G now bearer_hash sub c l =
     (let (addr, bm) = get_or_insert G now bearer_hash (per_min c l) (bearer_map c l);
          (ok, bm') = bucket_check G now addr bm; l' = set_bearer_map c bm' l in
      if \<not> ok then (Err RateLimited, l')
      else case sub of
          None \<Rightarrow> (Ok (), l')
        | Some s \<Rightarrow>
            let (addr2, sm) = get_or_insert G now s (per_min c l') (sub_map c l');
                (ok2, sm') = bucket_check G now addr2 sm; l'' = set_sub_map c sm' l' in
            if \<not> ok2 then (Err RateLimited, l'') else (Ok (), l''))"

subsection \<open>The initialize limiter\<close>

datatype rejected_by = Subject | Bearer

fun rejected_as_str :: "rejected_by \<Rightarrow> string" where
  "rejected_as_str Subject = ''subject''"
| "rejected_as_str Bearer = ''bearer''"

record ('q, 'b) init_limiter =
  il_quota :: 'q
  il_bearer :: "'b bucket_map"
  il_sub :: "'b bucket_map"

definition init_limiter_new :: "('q, 'b) governor \<Rightarrow> duration \<Rightarrow> nat \<Rightarrow> ('q, 'b) init_limiter" where
  "init_limiter_new G replenish_1_per burst =
     (let burst = (if burst = 0 then 1 else burst);
          base = (case gov_with_period G replenish_1_per of Some q \<Rightarrow> q | None \<Rightarrow> gov_per_minute G 1)
      in \<lparr>il_quota = gov_allow_burst G burst base, il_bearer = empty_buckets, il_sub = empty_buckets\<rparr>)"

definition init_check ::
  "('q, 'b) governor \<Rightarrow> instant \<Rightarrow> string \<Rightarrow> string option \<Rightarrow> ('q, 'b) init_limiter
     \<Rightarrow> (rejected_by + unit) \<times> ('q, 'b) init_limiter" where
  "init_check G now bearer_hash sub l =
     (case sub of
        None \<Rightarrow>
          let (ok, bm) = charge G now bearer_hash (il_quota l) (il_bearer l)
          in (if ok then Ok () else Err Bearer, l\<lparr>il_bearer := bm\<rparr>)
      | Some s \<Rightarrow>
          let (ok, bm) = charge G now s (il_quota l) (il_sub l)
          in (if ok then Ok () else Err Subject, l\<lparr>il_sub := bm\<rparr>))"

subsection \<open>The contract of a token bucket\<close>

fun replay :: "('q, 'b) governor \<Rightarrow> 'b \<Rightarrow> instant list \<Rightarrow> bool list \<times> 'b" where
  "replay G b [] = ([], b)"
| "replay G b (t # ts) =
     (let (ok, b') = gov_check G t b; (oks, b'') = replay G b' ts in (ok # oks, b''))"

lemma replay_snoc:
  "replay G b (ts @ [t]) =
     (let (oks, b') = replay G b ts; (ok, b'') = gov_check G t b' in (oks @ [ok], b''))"
  by (induction ts arbitrary: b) (auto simp: Let_def split: prod.splits)

locale token_bucket =
  fixes G :: "('q, 'b) governor"
    and period :: "'q \<Rightarrow> duration"
    and burst :: "'q \<Rightarrow> nat"
  assumes per_minute: "0 < n \<Longrightarrow> period (gov_per_minute G n) = secs 60 div n \<and> burst (gov_per_minute G n) = n"
    and with_period: "gov_with_period G d = Some q \<Longrightarrow> period q = d"
    and with_period_None: "gov_with_period G d = None \<longleftrightarrow> d = 0"
    and allow_burst: "period (gov_allow_burst G n q) = period q \<and> (0 < n \<longrightarrow> burst (gov_allow_burst G n q) = n)"
    and admitted: "sorted (t0 # ts) \<Longrightarrow>
      length (filter (\<lambda>ok. ok) (fst (replay G (gov_direct G q t0) ts))) * period q
        \<le> burst q * period q + (last (t0 # ts) - t0)"

subsection \<open>Room is made, and only by forgetting\<close>

lemma MAX_BUCKETS_pos: "0 < MAX_BUCKETS_PER_MAP"
  by (simp add: MAX_BUCKETS_PER_MAP_def)

lemma make_room_wf [simp]: "hm_wf m \<Longrightarrow> hm_wf (make_room now m)"
  by (simp add: make_room_def Let_def)

lemma make_room_len:
  assumes "hm_wf m" "hm_len m \<le> MAX_BUCKETS_PER_MAP"
  shows "hm_len (make_room now m) < MAX_BUCKETS_PER_MAP"
proof -
  define m1 where "m1 = (if hm_len m \<ge> MAX_BUCKETS_PER_MAP
      then hm_retain (\<lambda>_ e. now - be_last_seen e < BUCKET_IDLE_TTL) m else m)"
  have m1: "hm_wf m1" "hm_len m1 \<le> MAX_BUCKETS_PER_MAP"
    using assms order.trans [OF hm_len_retain assms(2)] by (auto simp: m1_def)
  have r: "make_room now m = (if hm_len m1 \<ge> MAX_BUCKETS_PER_MAP then evict_min be_last_seen m1 else m1)"
    by (simp add: make_room_def m1_def Let_def)
  show ?thesis
  proof (cases "hm_len m1 \<ge> MAX_BUCKETS_PER_MAP")
    case True
    then have "m1 \<noteq> []" using MAX_BUCKETS_pos by auto
    with hm_len_evict_min [OF m1(1) this, of be_last_seen] m1(2) r True show ?thesis by simp
  qed (simp add: r)
qed

lemma make_room_get: "hm_wf m \<Longrightarrow> hm_get (make_room now m) k = Some e \<Longrightarrow> hm_get m k = Some e"
  by (auto simp: make_room_def Let_def dest!: hm_get_evict_min dest: hm_get_retain_le split: if_splits)

lemma make_room_id: "hm_len m < MAX_BUCKETS_PER_MAP \<Longrightarrow> make_room now m = m"
  by (simp add: make_room_def)

interpretation buckets: capped_insert MAX_BUCKETS_PER_MAP admit
  "\<lambda>now addr. \<lparr>be_bucket = addr, be_last_seen = now\<rparr>"
proof unfold_locales
  show "0 < MAX_BUCKETS_PER_MAP" by (rule MAX_BUCKETS_pos)
  fix m :: "(string, bucket_entry) hmap" and now k a k' v
  assume wf: "hm_wf m"
  then show "hm_wf (admit now k a m)" by (simp add: admit_def)
  show "hm_len (admit now k a m) \<le> MAX_BUCKETS_PER_MAP" if "hm_len m \<le> MAX_BUCKETS_PER_MAP"
    using make_room_len [OF wf that, of now]
      hm_len_insert_le [of k "\<lparr>be_bucket = a, be_last_seen = now\<rparr>" "make_room now m"]
    by (simp add: admit_def)
  show "hm_get (admit now k a m) k = Some \<lparr>be_bucket = a, be_last_seen = now\<rparr>"
    by (simp add: admit_def)
  show "hm_get m k' = Some v" if "k' \<noteq> k" "hm_get (admit now k a m) k' = Some v"
    using that make_room_get [OF wf] by (simp add: admit_def)
qed

subsection \<open>One charge\<close>

lemma charge_hit:
  "hm_get (bm_entries bm) key = Some e \<Longrightarrow>
   charge G now key q bm =
     (fst (gov_check G now (bm_arena bm ! be_bucket e)),
      \<lparr>bm_entries = hm_insert key (e\<lparr>be_last_seen := now\<rparr>) (bm_entries bm),
       bm_arena = (bm_arena bm)[be_bucket e := snd (gov_check G now (bm_arena bm ! be_bucket e))]\<rparr>)"
  by (simp add: charge_def get_or_insert_with_quota_def bucket_check_def split: prod.splits)

lemma charge_miss:
  "hm_get (bm_entries bm) key = None \<Longrightarrow>
   charge G now key q bm =
     (fst (gov_check G now (gov_direct G q now)),
      \<lparr>bm_entries = admit now key (length (bm_arena bm)) (bm_entries bm),
       bm_arena = bm_arena bm @ [snd (gov_check G now (gov_direct G q now))]\<rparr>)"
  by (simp add: charge_def get_or_insert_with_quota_def bucket_check_def Let_def split: prod.splits)

text \<open>
  The invariant of a bucket map: it is within its cap, its entries point into the arena, and no
  two of them point to the same bucket.
\<close>

definition bm_ok :: "'b bucket_map \<Rightarrow> bool" where
  "bm_ok bm \<longleftrightarrow> buckets.inv (bm_entries bm)
     \<and> (\<forall>k e. hm_get (bm_entries bm) k = Some e \<longrightarrow> be_bucket e < length (bm_arena bm))
     \<and> (\<forall>k k' e e'. hm_get (bm_entries bm) k = Some e \<and> hm_get (bm_entries bm) k' = Some e'
           \<and> be_bucket e = be_bucket e' \<longrightarrow> k = k')"

lemma bm_ok_empty [simp, inv_intros]: "bm_ok empty_buckets"
  by (simp add: bm_ok_def empty_buckets_def buckets.inv_empty)

lemma bm_ok_charge [inv_intros]:
  assumes "bm_ok bm"
  shows "bm_ok (snd (charge G now key q bm))"
proof (cases "hm_get (bm_entries bm) key")
  case None
  let ?m = "admit now key (length (bm_arena bm)) (bm_entries bm)"
  have inv: "buckets.inv (bm_entries bm)" using assms by (simp add: bm_ok_def)
  then have wf: "hm_wf (bm_entries bm)" by (simp add: buckets.inv_def)
  have old: "k = key \<and> be_bucket e = length (bm_arena bm)
      \<or> hm_get (bm_entries bm) k = Some e \<and> be_bucket e < length (bm_arena bm)"
    if "hm_get ?m k = Some e" for k e
  proof (cases "k = key")
    case True
    with that buckets.get_ins_same [OF wf, of now key "length (bm_arena bm)"] show ?thesis by auto
  next
    case False
    from buckets.get_ins_other [OF wf False that] assms show ?thesis by (simp add: bm_ok_def)
  qed
  have "k = k'" if "hm_get ?m k = Some e" "hm_get ?m k' = Some e'" "be_bucket e = be_bucket e'" for k k' e e'
    using old [OF that(1)] old [OF that(2)] that(3) assms by (auto simp: bm_ok_def)
  moreover have "be_bucket e < Suc (length (bm_arena bm))" if "hm_get ?m k = Some e" for k e
    using old [OF that] by auto
  ultimately show ?thesis
    using buckets.inv_ins [OF inv] None by (simp add: charge_miss bm_ok_def)
next
  case (Some e)
  have c: "hm_contains (bm_entries bm) key" using Some by (simp add: hm_contains_def)
  have "buckets.inv (hm_insert key (e\<lparr>be_last_seen := now\<rparr>) (bm_entries bm))"
    using assms c by (simp add: bm_ok_def buckets.inv_def hm_len_insert)
  with assms Some show ?thesis by (auto simp: charge_hit bm_ok_def split: if_splits)
qed

text \<open>A charge touches one bucket: every other key keeps its bucket and its bucket's state.\<close>

definition bucket_of :: "'b bucket_map \<Rightarrow> string \<Rightarrow> 'b option" where
  "bucket_of bm k = map_option (\<lambda>e. bm_arena bm ! be_bucket e) (hm_get (bm_entries bm) k)"

lemma bucket_of_charge_other:
  assumes "bm_ok bm" "k \<noteq> key"
  shows "bucket_of (snd (charge G now key q bm)) k = bucket_of bm k
     \<or> bucket_of (snd (charge G now key q bm)) k = None \<and> hm_get (bm_entries bm) key = None
        \<and> hm_len (bm_entries bm) \<ge> MAX_BUCKETS_PER_MAP"
proof (cases "hm_get (bm_entries bm) key")
  case None
  let ?m = "admit now key (length (bm_arena bm)) (bm_entries bm)"
  have wf: "hm_wf (bm_entries bm)" using assms by (simp add: bm_ok_def buckets.inv_def)
  show ?thesis
  proof (cases "hm_get ?m k")
    case (Some e)
    from buckets.get_ins_other [OF wf assms(2) Some] assms(1) None Some show ?thesis
      by (auto simp: charge_miss bucket_of_def bm_ok_def nth_append)
  next
    case n: None
    then show ?thesis
      using None assms(2) make_room_id [of "bm_entries bm" now]
      by (cases "hm_len (bm_entries bm) < MAX_BUCKETS_PER_MAP")
         (auto simp: charge_miss bucket_of_def admit_def)
  qed
next
  case (Some e)
  show ?thesis
  proof (cases "hm_get (bm_entries bm) k")
    case (Some e')
    with \<open>hm_get (bm_entries bm) key = Some e\<close> assms have "be_bucket e' \<noteq> be_bucket e"
      by (auto simp: bm_ok_def)
    with Some \<open>hm_get (bm_entries bm) key = Some e\<close> assms(2) show ?thesis
      by (simp add: charge_hit bucket_of_def)
  qed (use Some assms(2) in \<open>simp add: charge_hit bucket_of_def\<close>)
qed

lemma bucket_of_charge_same:
  assumes "bm_ok bm"
  shows "bucket_of (snd (charge G now key q bm)) key =
     Some (snd (gov_check G now (case bucket_of bm key of Some b \<Rightarrow> b | None \<Rightarrow> gov_direct G q now)))
   \<and> fst (charge G now key q bm) =
     fst (gov_check G now (case bucket_of bm key of Some b \<Rightarrow> b | None \<Rightarrow> gov_direct G q now))"
proof (cases "hm_get (bm_entries bm) key")
  case None
  have wf: "hm_wf (bm_entries bm)" using assms by (simp add: bm_ok_def buckets.inv_def)
  from None buckets.get_ins_same [OF wf] show ?thesis by (simp add: charge_miss bucket_of_def)
next
  case (Some e)
  with assms have "be_bucket e < length (bm_arena bm)" by (auto simp: bm_ok_def)
  with Some show ?thesis by (simp add: charge_hit bucket_of_def)
qed

subsection \<open>A bucket map without eviction keeps one bucket per key\<close>

type_synonym check_history = "(instant \<times> string \<times> bool) list"

definition key_history :: "string \<Rightarrow> check_history \<Rightarrow> (instant \<times> bool) list" where
  "key_history k h = map (\<lambda>(t, k', ok). (t, ok)) (filter (\<lambda>(t, k', ok). k' = k) h)"

definition admitted_count :: "string \<Rightarrow> check_history \<Rightarrow> nat" where
  "admitted_count k h = length (filter (\<lambda>(t, k', ok). k' = k \<and> ok) h)"

definition explained :: "('q, 'b) governor \<Rightarrow> 'q \<Rightarrow> (instant \<times> bool) list \<Rightarrow> 'b option \<Rightarrow> bool" where
  "explained G q kh b \<longleftrightarrow>
     (case kh of [] \<Rightarrow> b = None
      | x # r \<Rightarrow> (\<exists>s. b = Some s \<and> replay G (gov_direct G q (fst x)) (map fst kh) = (map snd kh, s)))"

definition tracks :: "('q, 'b) governor \<Rightarrow> 'q \<Rightarrow> check_history \<Rightarrow> 'b bucket_map \<Rightarrow> bool" where
  "tracks G q h bm \<longleftrightarrow> bm_ok bm \<and> (\<forall>k. explained G q (key_history k h) (bucket_of bm k))"

lemma explained_None: "explained G q kh None \<longleftrightarrow> kh = []"
  by (simp add: explained_def split: list.splits)

lemma explained_snoc:
  assumes "explained G q kh b" "c = (case b of Some s \<Rightarrow> s | None \<Rightarrow> gov_direct G q now)"
  shows "explained G q (kh @ [(now, fst (gov_check G now c))]) (Some (snd (gov_check G now c)))"
proof (cases kh)
  case Nil
  with assms show ?thesis by (simp add: explained_def split: prod.splits)
next
  case (Cons x r)
  with assms obtain s where s: "b = Some s" "c = s"
    "replay G (gov_direct G q (fst x)) (map fst kh) = (map snd kh, s)"
    by (auto simp: explained_def)
  with replay_snoc [of G "gov_direct G q (fst x)" "map fst kh" now] Cons show ?thesis
    by (simp add: explained_def split: prod.splits)
qed

lemma key_history_snoc:
  "key_history k (h @ [(t, k', ok)]) = (if k' = k then key_history k h @ [(t, ok)] else key_history k h)"
  by (simp add: key_history_def)

lemma admitted_count_key: "admitted_count k h = length (filter (\<lambda>ok. ok) (map snd (key_history k h)))"
  by (induction h) (auto simp: admitted_count_def key_history_def)

lemma hm_len_card: "hm_wf m \<Longrightarrow> hm_len m = card {k. hm_get m k \<noteq> None}"
proof -
  assume wf: "hm_wf m"
  have "{k. hm_get m k \<noteq> None} = set (map fst m)"
    by (simp only: hm_get_def map_of_eq_None_iff) simp
  with wf distinct_card [of "map fst m"] show ?thesis by (simp only: hm_len_def hm_wf_def length_map)
qed

lemma tracks_empty: "tracks G q [] empty_buckets"
  by (simp add: tracks_def key_history_def explained_def) (simp add: bucket_of_def empty_buckets_def)

lemma tracks_keys:
  "tracks G q h bm \<Longrightarrow> hm_get (bm_entries bm) k \<noteq> None \<longleftrightarrow> k \<in> (fst \<circ> snd) ` set h"
proof -
  assume t: "tracks G q h bm"
  have "hm_get (bm_entries bm) k \<noteq> None \<longleftrightarrow> key_history k h \<noteq> []"
  proof -
    have "explained G q (key_history k h) (bucket_of bm k)" using t by (simp add: tracks_def)
    then show ?thesis
      by (cases "hm_get (bm_entries bm) k") (auto simp: bucket_of_def explained_def split: list.splits)
  qed
  also have "\<dots> \<longleftrightarrow> k \<in> (fst \<circ> snd) ` set h"
    by (force simp: key_history_def filter_empty_conv)
  finally show ?thesis .
qed

lemma tracks_room:
  assumes "tracks G q h bm" "hm_get (bm_entries bm) key = None"
    and "finite K" "card K \<le> MAX_BUCKETS_PER_MAP" "insert key ((fst \<circ> snd) ` set h) \<subseteq> K"
  shows "hm_len (bm_entries bm) < MAX_BUCKETS_PER_MAP"
proof -
  let ?D = "{k. hm_get (bm_entries bm) k \<noteq> None}"
  have D: "?D = (fst \<circ> snd) ` set h" using tracks_keys [OF assms(1)] by blast
  have "hm_wf (bm_entries bm)" using assms(1) by (simp add: tracks_def bm_ok_def buckets.inv_def)
  then have "hm_len (bm_entries bm) = card ?D" by (rule hm_len_card)
  also have "?D \<subset> K"
  proof
    show "?D \<subseteq> K" using D assms(5) by blast
    have "key \<in> K" "key \<notin> ?D" using assms(2,5) by auto
    then show "?D \<noteq> K" by blast
  qed
  then have "card ?D < card K" using assms(3) by (rule psubset_card_mono [rotated])
  finally show ?thesis using assms(4) by simp
qed

lemma tracks_charge:
  assumes t: "tracks G q h bm" and c: "charge G now key q bm = (ok, bm')"
    and K: "finite K" "card K \<le> MAX_BUCKETS_PER_MAP" "insert key ((fst \<circ> snd) ` set h) \<subseteq> K"
  shows "tracks G q (h @ [(now, key, ok)]) bm'"
proof -
  have bm: "bm_ok bm" using t by (simp add: tracks_def)
  have bm': "bm_ok bm'" using bm_ok_charge [OF bm, of G now key q] c by simp
  have other: "bucket_of bm' k = bucket_of bm k" if "k \<noteq> key" for k
    using bucket_of_charge_other [OF bm that, of G now q] tracks_room [OF t _ K] c by auto
  have e: "explained G q (key_history k h) (bucket_of bm k)" for k
    using t by (simp add: tracks_def)
  have same: "bucket_of bm' key = Some (snd (gov_check G now b)) \<and> ok = fst (gov_check G now b)"
    if "b = (case bucket_of bm key of Some b \<Rightarrow> b | None \<Rightarrow> gov_direct G q now)" for b
    using bucket_of_charge_same [OF bm, of G now key q] c that by simp
  have "explained G q (key_history k (h @ [(now, key, ok)])) (bucket_of bm' k)" for k
  proof (cases "k = key")
    case False
    with e other show ?thesis by (simp add: key_history_snoc)
  next
    case True
    with same [OF refl] explained_snoc [OF e [of key] refl, of now] show ?thesis
      by (simp add: key_history_snoc)
  qed
  with bm' show ?thesis by (simp add: tracks_def)
qed

text \<open>The histories of the sorted runs below, and the quota they are held to.\<close>

definition in_span :: "instant \<Rightarrow> instant \<Rightarrow> check_history \<Rightarrow> bool" where
  "in_span t0 t1 h \<longleftrightarrow> sorted (map fst h) \<and> (\<forall>x \<in> set h. t0 \<le> fst x \<and> fst x \<le> t1)"

lemma in_span_snoc:
  "in_span t0 t h \<Longrightarrow> t \<le> now \<Longrightarrow> t0 \<le> now \<Longrightarrow> in_span t0 now (h @ [(now, k, ok)])"
  by (force simp: in_span_def sorted_append)

lemma in_span_weaken: "in_span t0 t h \<Longrightarrow> t \<le> t' \<Longrightarrow> in_span t0 t' h"
  by (auto simp: in_span_def)

context token_bucket
begin

lemma init_quota:
  "period (il_quota (init_limiter_new G INITIALIZE_REPLENISH MAX_INITIALIZES_PER_IDENTITY)) = secs 60
   \<and> burst (il_quota (init_limiter_new G INITIALIZE_REPLENISH MAX_INITIALIZES_PER_IDENTITY)) = 32"
proof -
  have "gov_with_period G INITIALIZE_REPLENISH \<noteq> None"
    using with_period_None [of INITIALIZE_REPLENISH] by (simp add: INITIALIZE_REPLENISH_def secs_def)
  then obtain p where p: "gov_with_period G INITIALIZE_REPLENISH = Some p" by auto
  then show ?thesis
    using allow_burst [of 32 p] with_period [OF p]
    by (auto simp: init_limiter_new_def MAX_INITIALIZES_PER_IDENTITY_def INITIALIZE_REPLENISH_def)
qed

lemma tracked_quota:
  assumes "tracks G q h bm" "in_span t0 t1 h"
  shows "admitted_count k h * period q \<le> burst q * period q + (t1 - t0)"
proof (cases "key_history k h")
  case Nil
  then show ?thesis by (simp add: admitted_count_key)
next
  case (Cons x r)
  obtain s ok where x: "x = (s, ok)" by (cases x)
  let ?ts = "map fst (key_history k h)"
  have "?ts = map fst (filter (\<lambda>(t, k', ok). k' = k) h)" by (auto simp: key_history_def)
  moreover have "sorted (map fst (filter (\<lambda>(t, k', ok). k' = k) h))"
    using assms(2) by (auto simp: in_span_def intro: sorted_filter)
  ultimately have st: "sorted ?ts" by simp
  have s: "?ts = s # map fst r" using Cons x by simp
  have "last ?ts \<in> set ?ts" by (rule last_in_set) (use s in simp)
  moreover have "s \<in> set ?ts" using s by simp
  ultimately have b: "last ?ts \<le> t1" "t0 \<le> s"
    using assms(2) by (auto simp: in_span_def key_history_def)
  have "explained G q (key_history k h) (bucket_of bm k)" using assms(1) by (simp add: tracks_def)
  with Cons x have r: "fst (replay G (gov_direct G q s) ?ts) = map snd (key_history k h)"
    by (auto simp: explained_def)
  have "sorted (s # ?ts)" using st s by simp
  from admitted [OF this, of q] r have
    "admitted_count k h * period q \<le> burst q * period q + (last (s # ?ts) - s)"
    by (simp add: admitted_count_key)
  also have "last (s # ?ts) = last ?ts" using s by simp
  also have "last ?ts - s \<le> t1 - t0" using b by simp
  finally show ?thesis by simp
qed

end

subsection \<open>The generic cell rate algorithm satisfies the contract\<close>

record gcra_quota =
  gq_period :: duration
  gq_burst :: nat

record gcra_bucket =
  gb_quota :: gcra_quota
  gb_tat :: instant

definition gcra_check :: "instant \<Rightarrow> gcra_bucket \<Rightarrow> bool \<times> gcra_bucket" where
  "gcra_check now b =
     (let q = gb_quota b in
      if gb_tat b \<le> now + (gq_burst q - 1) * gq_period q
      then (True, b\<lparr>gb_tat := max (gb_tat b) now + gq_period q\<rparr>) else (False, b))"

definition gcra :: "(gcra_quota, gcra_bucket) governor" where
  "gcra = \<lparr>gov_per_minute = (\<lambda>n. \<lparr>gq_period = secs 60 div n, gq_burst = n\<rparr>),
           gov_with_period = (\<lambda>d. if d = 0 then None else Some \<lparr>gq_period = d, gq_burst = 1\<rparr>),
           gov_allow_burst = (\<lambda>n q. q\<lparr>gq_burst := n\<rparr>),
           gov_direct = (\<lambda>q now. \<lparr>gb_quota = q, gb_tat = now\<rparr>),
           gov_check = gcra_check\<rparr>"

definition gcra_burst :: "gcra_quota \<Rightarrow> nat" where
  "gcra_burst q = max 1 (gq_burst q)"

lemma gcra_room: "(gq_burst q - 1) * gq_period q + gq_period q = gcra_burst q * gq_period q"
  by (cases "gq_burst q") (simp_all add: gcra_burst_def)

lemma gcra_replay:
  "\<forall>t \<in> set ts. t \<le> L \<Longrightarrow> gb_quota b = q \<Longrightarrow>
   length (filter (\<lambda>ok. ok) (fst (replay gcra b ts))) * gq_period q + gb_tat b
     \<le> max (gb_tat b) (L + gcra_burst q * gq_period q)"
proof (induction ts arbitrary: b)
  case (Cons t ts)
  let ?p = "gq_period q"
  show ?case
  proof (cases "gb_tat b \<le> t + (gq_burst q - 1) * ?p")
    case True
    let ?b = "b\<lparr>gb_tat := max (gb_tat b) t + ?p\<rparr>"
    have c: "gov_check gcra t b = (True, ?b)"
      using True Cons.prems(2) by (simp add: gcra_def gcra_check_def)
    have "max (gb_tat b) t + ?p \<le> L + gcra_burst q * ?p"
      using True Cons.prems(1) gcra_room [of q] by auto
    moreover have "length (filter (\<lambda>ok. ok) (fst (replay gcra ?b ts))) * ?p + gb_tat ?b
        \<le> max (gb_tat ?b) (L + gcra_burst q * ?p)"
      using Cons.prems by (intro Cons.IH) auto
    moreover have "gb_tat b \<le> max (gb_tat b) t" by simp
    ultimately show ?thesis using c by (simp add: split_beta)
  next
    case False
    then have "gov_check gcra t b = (False, b)"
      using Cons.prems(2) by (simp add: gcra_def gcra_check_def)
    with Cons.IH [of b] Cons.prems show ?thesis by (simp add: split_beta)
  qed
qed simp

interpretation gcra: token_bucket gcra gq_period gcra_burst
proof unfold_locales
  fix t0 :: instant and ts q
  assume s: "sorted (t0 # ts)"
  define L where "L = last (t0 # ts)"
  have "\<forall>t \<in> set (t0 # ts). t \<le> L"
    using sorted_le_last [OF s] unfolding L_def by blast
  then have le: "\<forall>t \<in> set ts. t \<le> L" "t0 \<le> L" by auto
  from gcra_replay [OF le(1), of "gov_direct gcra q t0" q] le(2)
  show "length (filter (\<lambda>ok. ok) (fst (replay gcra (gov_direct gcra q t0) ts))) * gq_period q
        \<le> gcra_burst q * gq_period q + (last (t0 # ts) - t0)"
    unfolding L_def [symmetric] by (simp add: gcra_def)
qed (auto simp: gcra_def gcra_burst_def split: if_splits)

subsection \<open>Runs\<close>

record tool_request =
  tr_now :: instant
  tr_bearer :: string
  tr_sub :: "string option"
  tr_category :: category

definition limiter_step ::
  "('q, 'b) governor \<Rightarrow> tool_request \<Rightarrow> 'b limiter \<Rightarrow> (rate_limited + unit) \<times> 'b limiter" where
  "limiter_step G r l = limiter_check G (tr_now r) (tr_bearer r) (tr_sub r) (tr_category r) l"

fun limiter_run ::
  "('q, 'b) governor \<Rightarrow> tool_request list \<Rightarrow> 'b limiter \<Rightarrow> (tool_request \<times> bool) list \<times> 'b limiter" where
  "limiter_run G [] l = ([], l)"
| "limiter_run G (r # rs) l =
     (let (res, l') = limiter_step G r l; (out, l'') = limiter_run G rs l' in ((r, is_ok res) # out, l''))"

lemma maps_set [simp]:
  "sub_map c (set_bearer_map c' bm l) = sub_map c l"
  "bearer_map c (set_sub_map c' bm l) = bearer_map c l"
  "sub_map c (set_sub_map c' bm l) = (if c = c' then bm else sub_map c l)"
  "bearer_map c (set_bearer_map c' bm l) = (if c = c' then bm else bearer_map c l)"
  "per_min c (set_bearer_map c' bm l) = per_min c l"
  "per_min c (set_sub_map c' bm l) = per_min c l"
  by (cases c; cases c'; simp add: sub_map_def bearer_map_def per_min_def set_bearer_map_def set_sub_map_def)+

text \<open>The check, as charges: the bearer's bucket always, the subject's only if the bearer's admits.\<close>

lemma limiter_check_charges:
  "limiter_check G now h sub c l =
     (let (ok, bm) = charge G now h (gov_per_minute G (per_min c l)) (bearer_map c l);
          l' = set_bearer_map c bm l in
      if \<not> ok then (Err RateLimited, l')
      else case sub of None \<Rightarrow> (Ok (), l')
        | Some s \<Rightarrow>
            let (ok2, sm) = charge G now s (gov_per_minute G (per_min c l)) (sub_map c l);
                l'' = set_sub_map c sm l' in
            if ok2 then (Ok (), l'') else (Err RateLimited, l''))"
  by (auto simp: limiter_check_def charge_def get_or_insert_def Let_def split: prod.splits option.splits)

definition watched ::
  "('q, 'b) governor \<Rightarrow> 'q \<Rightarrow> string set \<Rightarrow> instant \<Rightarrow> instant \<Rightarrow> check_history \<Rightarrow> 'b bucket_map \<Rightarrow> bool" where
  "watched G q K t0 t h m \<longleftrightarrow> tracks G q h m \<and> in_span t0 t h \<and> (fst \<circ> snd) ` set h \<subseteq> K \<and> t0 \<le> t"

definition small_set :: "string set \<Rightarrow> bool" where
  "small_set K \<longleftrightarrow> finite K \<and> card K \<le> MAX_BUCKETS_PER_MAP"

lemma watched_empty: "watched G q K t0 t0 [] empty_buckets"
  by (simp add: watched_def tracks_empty in_span_def)

lemma watched_weaken: "watched G q K t0 t h m \<Longrightarrow> t \<le> t' \<Longrightarrow> watched G q K t0 t' h m"
  by (auto simp: watched_def in_span_weaken)

lemma watched_charge:
  assumes "watched G q K t0 t h m" "charge G now key q m = (ok, m')" "small_set K" "key \<in> K" "t \<le> now"
  shows "watched G q K t0 now (h @ [(now, key, ok)]) m'"
  using assms tracks_charge [of G q h m now key ok m' K] in_span_snoc [of t0 t h now key ok]
  by (auto simp: watched_def small_set_def)

lemma admitted_count_snoc:
  "admitted_count k (h @ [(t, k', ok)]) = admitted_count k h + (if k' = k \<and> ok then 1 else 0)"
  by (simp add: admitted_count_def)

text \<open>What a run admitted for a subject, and for a bearer, in one category.\<close>

definition admitted_sub :: "string \<Rightarrow> category \<Rightarrow> (tool_request \<times> bool) list \<Rightarrow> nat" where
  "admitted_sub s c out = length (filter (\<lambda>(r, ok). ok \<and> tr_sub r = Some s \<and> tr_category r = c) out)"

definition admitted_bearer :: "string \<Rightarrow> category \<Rightarrow> (tool_request \<times> bool) list \<Rightarrow> nat" where
  "admitted_bearer b c out = length (filter (\<lambda>(r, ok). ok \<and> tr_bearer r = b \<and> tr_category r = c) out)"

lemma admitted_Cons:
  "admitted_sub s c ((r, ok) # out)
     = (if ok \<and> tr_sub r = Some s \<and> tr_category r = c then 1 else 0) + admitted_sub s c out"
  "admitted_bearer b c ((r, ok) # out)
     = (if ok \<and> tr_bearer r = b \<and> tr_category r = c then 1 else 0) + admitted_bearer b c out"
  by (simp_all add: admitted_sub_def admitted_bearer_def)

lemma limiter_step_per_min: "limiter_step G r l = (res, l') \<Longrightarrow> per_min c l' = per_min c l"
  by (auto simp: limiter_step_def limiter_check_charges Let_def split: prod.splits option.splits if_splits)

lemma limiter_step_other_category:
  "limiter_step G r l = (res, l') \<Longrightarrow> tr_category r \<noteq> c \<Longrightarrow> sub_map c l' = sub_map c l \<and> bearer_map c l' = bearer_map c l"
  by (auto simp: limiter_step_def limiter_check_charges Let_def split: prod.splits option.splits if_splits)

lemma limiter_step_sub:
  assumes step: "limiter_step G r l = (res, l')" and c: "tr_category r = c"
    and w: "watched G (gov_per_minute G (per_min c l)) K t0 t h (sub_map c l)"
    and K: "small_set K" "case tr_sub r of Some s \<Rightarrow> s \<in> K | None \<Rightarrow> True" and t: "t \<le> tr_now r"
  shows "\<exists>h'. watched G (gov_per_minute G (per_min c l)) K t0 (tr_now r) h' (sub_map c l')
     \<and> admitted_count s h' \<ge> admitted_count s h + (if is_ok res \<and> tr_sub r = Some s then 1 else 0)"
proof -
  obtain ok bm where b: "charge G (tr_now r) (tr_bearer r) (gov_per_minute G (per_min c l)) (bearer_map c l) = (ok, bm)"
    by fastforce
  show ?thesis
  proof (cases "ok \<and> tr_sub r \<noteq> None")
    case True
    then obtain u where u: "tr_sub r = Some u" by auto
    obtain ok2 sm where s: "charge G (tr_now r) u (gov_per_minute G (per_min c l)) (sub_map c l) = (ok2, sm)"
      by fastforce
    from watched_charge [OF w s K(1) _ t] K(2) u
    have "watched G (gov_per_minute G (per_min c l)) K t0 (tr_now r) (h @ [(tr_now r, u, ok2)]) sm" by simp
    moreover have "sub_map c l' = sm" "is_ok res \<longleftrightarrow> ok2"
      using step b s True u c by (auto simp: limiter_step_def limiter_check_charges Let_def split: if_splits)
    ultimately show ?thesis using u
      by (intro exI [of _ "h @ [(tr_now r, u, ok2)]"]) (simp add: admitted_count_snoc)
  next
    case False
    then have "sub_map c l' = sub_map c l" "\<not> (is_ok res \<and> tr_sub r = Some s)"
      using step b c by (auto simp: limiter_step_def limiter_check_charges Let_def split: if_splits option.splits)
    with watched_weaken [OF w t] show ?thesis by (intro exI [of _ h]) auto
  qed
qed

lemma limiter_step_bearer:
  assumes step: "limiter_step G r l = (res, l')" and c: "tr_category r = c"
    and w: "watched G (gov_per_minute G (per_min c l)) K t0 t h (bearer_map c l)"
    and K: "small_set K" "tr_bearer r \<in> K" and t: "t \<le> tr_now r"
  shows "\<exists>h'. watched G (gov_per_minute G (per_min c l)) K t0 (tr_now r) h' (bearer_map c l')
     \<and> admitted_count b h' \<ge> admitted_count b h + (if is_ok res \<and> tr_bearer r = b then 1 else 0)"
proof -
  obtain ok bm where b: "charge G (tr_now r) (tr_bearer r) (gov_per_minute G (per_min c l)) (bearer_map c l) = (ok, bm)"
    by fastforce
  have "bearer_map c l' = bm" "is_ok res \<Longrightarrow> ok"
    using step b c
    by (auto simp: limiter_step_def limiter_check_charges Let_def split: prod.splits if_splits option.splits)
  with watched_charge [OF w b K t] show ?thesis
    by (intro exI [of _ "h @ [(tr_now r, tr_bearer r, ok)]"]) (simp add: admitted_count_snoc)
qed

text \<open>The requests of a run are in time order, and name few enough identities.\<close>

definition run_ok :: "instant \<Rightarrow> instant \<Rightarrow> tool_request list \<Rightarrow> bool" where
  "run_ok t0 t1 rs \<longleftrightarrow> sorted (map tr_now rs) \<and> (\<forall>r \<in> set rs. t0 \<le> tr_now r \<and> tr_now r \<le> t1) \<and> t0 \<le> t1"

lemma limiter_run_sub:
  assumes "limiter_run G rs l = (out, l')" "run_ok t t1 rs" "small_set K"
    and "\<forall>r \<in> set rs. case tr_sub r of Some s \<Rightarrow> s \<in> K | None \<Rightarrow> True"
    and "watched G (gov_per_minute G (per_min c l)) K t0 t h (sub_map c l)"
  shows "\<exists>h'. watched G (gov_per_minute G (per_min c l)) K t0 t1 h' (sub_map c l')
     \<and> admitted_count s h' \<ge> admitted_count s h + admitted_sub s c out"
  using assms
proof (induction rs arbitrary: l out t h)
  case Nil
  then show ?case
    using watched_weaken [of G _ K t0 t h "sub_map c l" t1]
    by (auto simp: run_ok_def admitted_sub_def)
next
  case (Cons r rs)
  obtain res l1 where st: "limiter_step G r l = (res, l1)" by fastforce
  obtain out1 where out: "limiter_run G rs l1 = (out1, l')" "out = (r, is_ok res) # out1"
    using Cons.prems(1) st by (auto split: prod.splits)
  have ok: "run_ok (tr_now r) t1 rs" "t \<le> tr_now r"
    using Cons.prems(2) by (auto simp: run_ok_def)
  have q: "per_min c l1 = per_min c l" using limiter_step_per_min [OF st] .
  have "\<exists>h1. watched G (gov_per_minute G (per_min c l)) K t0 (tr_now r) h1 (sub_map c l1)
     \<and> admitted_count s h1 \<ge> admitted_count s h
        + (if is_ok res \<and> tr_sub r = Some s \<and> tr_category r = c then 1 else 0)"
  proof (cases "tr_category r = c")
    case True
    with limiter_step_sub [OF st True Cons.prems(5,3) _ ok(2), of s] Cons.prems(4) show ?thesis by auto
  next
    case False
    with limiter_step_other_category [OF st False] watched_weaken [OF Cons.prems(5) ok(2)]
    show ?thesis by auto
  qed
  then obtain h1 where h1: "watched G (gov_per_minute G (per_min c l)) K t0 (tr_now r) h1 (sub_map c l1)"
    "admitted_count s h1 \<ge> admitted_count s h
        + (if is_ok res \<and> tr_sub r = Some s \<and> tr_category r = c then 1 else 0)" by blast
  from Cons.IH [OF out(1) ok(1) Cons.prems(3) _ h1(1) [folded q]] Cons.prems(4) obtain h' where
    "watched G (gov_per_minute G (per_min c l1)) K t0 t1 h' (sub_map c l')"
    "admitted_count s h' \<ge> admitted_count s h1 + admitted_sub s c out1" by auto
  with h1(2) q out(2) show ?case by (intro exI [of _ h']) (auto simp: admitted_Cons)
qed

lemma limiter_run_bearer:
  assumes "limiter_run G rs l = (out, l')" "run_ok t t1 rs" "small_set K"
    and "tr_bearer ` set rs \<subseteq> K"
    and "watched G (gov_per_minute G (per_min c l)) K t0 t h (bearer_map c l)"
  shows "\<exists>h'. watched G (gov_per_minute G (per_min c l)) K t0 t1 h' (bearer_map c l')
     \<and> admitted_count b h' \<ge> admitted_count b h + admitted_bearer b c out"
  using assms
proof (induction rs arbitrary: l out t h)
  case Nil
  then show ?case
    using watched_weaken [of G _ K t0 t h "bearer_map c l" t1]
    by (auto simp: run_ok_def admitted_bearer_def)
next
  case (Cons r rs)
  obtain res l1 where st: "limiter_step G r l = (res, l1)" by fastforce
  obtain out1 where out: "limiter_run G rs l1 = (out1, l')" "out = (r, is_ok res) # out1"
    using Cons.prems(1) st by (auto split: prod.splits)
  have ok: "run_ok (tr_now r) t1 rs" "t \<le> tr_now r"
    using Cons.prems(2) by (auto simp: run_ok_def)
  have q: "per_min c l1 = per_min c l" using limiter_step_per_min [OF st] .
  have "\<exists>h1. watched G (gov_per_minute G (per_min c l)) K t0 (tr_now r) h1 (bearer_map c l1)
     \<and> admitted_count b h1 \<ge> admitted_count b h
        + (if is_ok res \<and> tr_bearer r = b \<and> tr_category r = c then 1 else 0)"
  proof (cases "tr_category r = c")
    case True
    with limiter_step_bearer [OF st True Cons.prems(5,3) _ ok(2), of b] Cons.prems(4) show ?thesis by auto
  next
    case False
    with limiter_step_other_category [OF st False] watched_weaken [OF Cons.prems(5) ok(2)]
    show ?thesis by auto
  qed
  then obtain h1 where h1: "watched G (gov_per_minute G (per_min c l)) K t0 (tr_now r) h1 (bearer_map c l1)"
    "admitted_count b h1 \<ge> admitted_count b h
        + (if is_ok res \<and> tr_bearer r = b \<and> tr_category r = c then 1 else 0)" by blast
  from Cons.IH [OF out(1) ok(1) Cons.prems(3) _ h1(1) [folded q]] Cons.prems(4) obtain h' where
    "watched G (gov_per_minute G (per_min c l1)) K t0 t1 h' (bearer_map c l')"
    "admitted_count b h' \<ge> admitted_count b h1 + admitted_bearer b c out1" by auto
  with h1(2) q out(2) show ?case by (intro exI [of _ h']) (auto simp: admitted_Cons)
qed

record init_request =
  ir_now :: instant
  ir_bearer :: string
  ir_sub :: "string option"

fun init_run ::
  "('q, 'b) governor \<Rightarrow> init_request list \<Rightarrow> ('q, 'b) init_limiter
     \<Rightarrow> (init_request \<times> bool) list \<times> ('q, 'b) init_limiter" where
  "init_run G [] l = ([], l)"
| "init_run G (r # rs) l =
     (let (res, l') = init_check G (ir_now r) (ir_bearer r) (ir_sub r) l;
          (out, l'') = init_run G rs l' in ((r, is_ok res) # out, l''))"

definition admitted_init :: "string \<Rightarrow> (init_request \<times> bool) list \<Rightarrow> nat" where
  "admitted_init s out = length (filter (\<lambda>(r, ok). ok \<and> ir_sub r = Some s) out)"

definition init_run_ok :: "instant \<Rightarrow> instant \<Rightarrow> init_request list \<Rightarrow> bool" where
  "init_run_ok t0 t1 rs \<longleftrightarrow> sorted (map ir_now rs) \<and> (\<forall>r \<in> set rs. t0 \<le> ir_now r \<and> ir_now r \<le> t1) \<and> t0 \<le> t1"

lemma init_run_sub:
  assumes "init_run G rs l = (out, l')" "init_run_ok t t1 rs" "small_set K"
    and "\<forall>r \<in> set rs. case ir_sub r of Some s \<Rightarrow> s \<in> K | None \<Rightarrow> True"
    and "watched G (il_quota l) K t0 t h (il_sub l)"
  shows "\<exists>h'. watched G (il_quota l) K t0 t1 h' (il_sub l')
     \<and> admitted_count s h' \<ge> admitted_count s h + admitted_init s out"
  using assms
proof (induction rs arbitrary: l out t h)
  case Nil
  then show ?case
    using watched_weaken [of G _ K t0 t h "il_sub l" t1]
    by (auto simp: init_run_ok_def admitted_init_def)
next
  case (Cons r rs)
  obtain res l1 where st: "init_check G (ir_now r) (ir_bearer r) (ir_sub r) l = (res, l1)" by fastforce
  obtain out1 where out: "init_run G rs l1 = (out1, l')" "out = (r, is_ok res) # out1"
    using Cons.prems(1) st by (auto split: prod.splits)
  have ok: "init_run_ok (ir_now r) t1 rs" "t \<le> ir_now r"
    using Cons.prems(2) by (auto simp: init_run_ok_def)
  have q: "il_quota l1 = il_quota l" using st by (auto simp: init_check_def split: option.splits prod.splits)
  have "\<exists>h1. watched G (il_quota l) K t0 (ir_now r) h1 (il_sub l1)
     \<and> admitted_count s h1 \<ge> admitted_count s h + (if is_ok res \<and> ir_sub r = Some s then 1 else 0)"
  proof (cases "ir_sub r")
    case None
    with st watched_weaken [OF Cons.prems(5) ok(2)] show ?thesis
      by (intro exI [of _ h]) (auto simp: init_check_def split: prod.splits)
  next
    case (Some u)
    obtain a m where c: "charge G (ir_now r) u (il_quota l) (il_sub l) = (a, m)" by fastforce
    have "u \<in> K" using Cons.prems(4) Some by auto
    from watched_charge [OF Cons.prems(5) c Cons.prems(3) this ok(2)] st Some c show ?thesis
      by (intro exI [of _ "h @ [(ir_now r, u, a)]"]) (auto simp: init_check_def admitted_count_snoc split: if_splits)
  qed
  then obtain h1 where h1: "watched G (il_quota l) K t0 (ir_now r) h1 (il_sub l1)"
    "admitted_count s h1 \<ge> admitted_count s h + (if is_ok res \<and> ir_sub r = Some s then 1 else 0)" by blast
  from Cons.IH [OF out(1) ok(1) Cons.prems(3) _ h1(1) [folded q]] Cons.prems(4) obtain h' where
    "watched G (il_quota l1) K t0 t1 h' (il_sub l')"
    "admitted_count s h' \<ge> admitted_count s h1 + admitted_init s out1" by auto
  with h1(2) q out(2) show ?case by (intro exI [of _ h']) (auto simp: admitted_init_def)
qed

text \<open>Every run keeps every map's invariant, evictions included.\<close>

definition limiter_ok :: "'b limiter \<Rightarrow> bool" where
  "limiter_ok l \<longleftrightarrow> (\<forall>c. bm_ok (sub_map c l) \<and> bm_ok (bearer_map c l))"

lemma limiter_ok_step: "limiter_ok l \<Longrightarrow> limiter_step G r l = (res, l') \<Longrightarrow> limiter_ok l'"
proof -
  assume l: "limiter_ok l" and st: "limiter_step G r l = (res, l')"
  let ?c = "tr_category r" and ?q = "gov_per_minute G (per_min (tr_category r) l)"
  obtain ok bm where b: "charge G (tr_now r) (tr_bearer r) ?q (bearer_map ?c l) = (ok, bm)" by fastforce
  have bm: "bm_ok bm"
    using bm_ok_charge [of "bearer_map ?c l" G "tr_now r" "tr_bearer r" ?q] l b by (simp add: limiter_ok_def)
  have sm: "bm_ok (snd (charge G (tr_now r) s ?q (sub_map ?c l)))" for s
    using bm_ok_charge [of "sub_map ?c l" G "tr_now r" s ?q] l by (simp add: limiter_ok_def)
  show ?thesis
    using st b bm l sm
    by (auto simp: limiter_step_def limiter_check_charges Let_def limiter_ok_def
        split: if_splits option.splits prod.splits) (metis snd_conv)+
qed

lemma limiter_ok_run: "limiter_ok l \<Longrightarrow> limiter_run G rs l = (out, l') \<Longrightarrow> limiter_ok l'"
  by (induction rs arbitrary: l out) (auto split: prod.splits dest: limiter_ok_step)

lemma limiter_new_maps:
  "limiter_new r w = Some l \<Longrightarrow> sub_map c l = empty_buckets \<and> bearer_map c l = empty_buckets
     \<and> per_min c l = (case c of Read \<Rightarrow> r | Write \<Rightarrow> w) \<and> 0 < per_min c l"
  by (cases c) (auto simp: limiter_new_def sub_map_def bearer_map_def per_min_def split: if_splits)

lemma limiter_ok_new: "limiter_new r w = Some l \<Longrightarrow> limiter_ok l"
  by (simp add: limiter_ok_def limiter_new_maps)

lemma small_set_Some:
  assumes "finite X" "card X \<le> 4096"
  shows "small_set {s. Some s \<in> X}"
proof -
  have "Some ` {s. Some s \<in> X} \<subseteq> X" by auto
  then have "finite {s. Some s \<in> X}" "card {s. Some s \<in> X} \<le> card X"
    using assms(1) inj_on_finite [of Some "{s. Some s \<in> X}" X] card_inj_on_le [of Some "{s. Some s \<in> X}" X]
    by auto
  with assms(2) show ?thesis by (simp add: small_set_def MAX_BUCKETS_PER_MAP_def)
qed

subsection \<open>Properties\<close>

text \<open>
  The quotas hold. In any run of tool calls in time order that names at most 4096 subjects and
  bearers, the calls of one category the limiter admits for one subject, and for one bearer, are
  at most its per-minute quota plus one per \<open>60 s / quota\<close> elapsed, however the calls of one
  subject are spread over bearers and interleaved with the calls of others.
\<close>

theorem limiter_enforces_quota:
  assumes "token_bucket G period burst" "limiter_new reads writes = Some l0"
    and "run_ok t0 t1 rs" "limiter_run G rs l0 = (out, l)"
    and "card (tr_sub ` set rs) \<le> 4096" "card (tr_bearer ` set rs) \<le> 4096"
    and "n = (case c of Read \<Rightarrow> reads | Write \<Rightarrow> writes)"
  shows "admitted_sub s c out * (secs 60 div n) \<le> n * (secs 60 div n) + (t1 - t0)
     \<and> admitted_bearer b c out * (secs 60 div n) \<le> n * (secs 60 div n) + (t1 - t0)"
proof -
  let ?q = "gov_per_minute G n" and ?S = "{s. Some s \<in> tr_sub ` set rs}" and ?B = "tr_bearer ` set rs"
  have n: "per_min c l0 = n" "0 < n" using limiter_new_maps [OF assms(2), of c] assms(7) by auto
  have q: "period ?q = secs 60 div n" "burst ?q = n"
    using token_bucket.per_minute [OF assms(1) n(2)] by auto
  have S: "small_set ?S" using assms(5) by (intro small_set_Some) auto
  have B: "small_set ?B" using assms(6) by (simp add: small_set_def MAX_BUCKETS_PER_MAP_def)
  have w: "watched G (gov_per_minute G (per_min c l0)) ?S t0 t0 [] (sub_map c l0)"
    "watched G (gov_per_minute G (per_min c l0)) ?B t0 t0 [] (bearer_map c l0)"
    using limiter_new_maps [OF assms(2), of c] watched_empty by auto
  have S': "\<forall>r \<in> set rs. case tr_sub r of Some s \<Rightarrow> s \<in> ?S | None \<Rightarrow> True"
    by (auto simp: image_iff split: option.splits) metis
  obtain h where h: "watched G ?q ?S t0 t1 h (sub_map c l)" "admitted_count s h \<ge> admitted_sub s c out"
    using limiter_run_sub [OF assms(4,3) S S' w(1), of s] n by (auto simp: admitted_count_def)
  obtain hb where hb: "watched G ?q ?B t0 t1 hb (bearer_map c l)" "admitted_count b hb \<ge> admitted_bearer b c out"
    using limiter_run_bearer [OF assms(4,3) B subset_refl w(2), of b] n by (auto simp: admitted_count_def)
  have "admitted_count s h * (secs 60 div n) \<le> n * (secs 60 div n) + (t1 - t0)"
    "admitted_count b hb * (secs 60 div n) \<le> n * (secs 60 div n) + (t1 - t0)"
    using token_bucket.tracked_quota [OF assms(1), of ?q h "sub_map c l" t0 t1 s]
      token_bucket.tracked_quota [OF assms(1), of ?q hb "bearer_map c l" t0 t1 b] h(1) hb(1) q
    by (auto simp: watched_def)
  then show ?thesis
    using order.trans [OF mult_le_mono1 [OF h(2), of "secs 60 div n"]]
      order.trans [OF mult_le_mono1 [OF hb(2), of "secs 60 div n"]] by blast
qed

definition sample_requests :: "tool_request list" where
  "sample_requests =
     [\<lparr>tr_now = 5, tr_bearer = ''b1'', tr_sub = Some ''u'', tr_category = Read\<rparr>,
      \<lparr>tr_now = 6, tr_bearer = ''b2'', tr_sub = Some ''u'', tr_category = Read\<rparr>]"

theorem limiter_enforces_quota_witness:
  "\<exists>l0 out l. limiter_new 1 1 = Some l0 \<and> limiter_run gcra sample_requests l0 = (out, l)
     \<and> admitted_sub ''u'' Read out * secs 60 \<le> secs 60 + 2"
proof -
  obtain l0 :: "gcra_bucket limiter" where l0: "limiter_new 1 1 = Some l0" by (simp add: limiter_new_def)
  obtain out l where r: "limiter_run gcra sample_requests l0 = (out, l)" by fastforce
  have "run_ok 5 7 sample_requests" by (simp add: run_ok_def sample_requests_def)
  from limiter_enforces_quota [OF gcra.token_bucket_axioms l0 this r, of 1 Read "''u''" "''b1''"]
  have "admitted_sub ''u'' Read out * secs 60 \<le> secs 60 + 2"
    by (simp add: sample_requests_def)
  with l0 r show ?thesis by blast
qed

text \<open>
  Memory stays bounded. After any run of tool calls, whatever identities and clock readings it
  has, each of the four maps holds at most 4096 buckets, every entry points to a bucket that
  exists, and no two identities share one.
\<close>

theorem limiter_maps_bounded:
  assumes "limiter_new reads writes = Some l0" "limiter_run G rs l0 = (out, l)"
    and "m = sub_map c l \<or> m = bearer_map c l"
  shows "hm_len (bm_entries m) \<le> 4096
    \<and> (\<forall>k e. hm_get (bm_entries m) k = Some e \<longrightarrow> be_bucket e < length (bm_arena m))
    \<and> (\<forall>k k' e e'. hm_get (bm_entries m) k = Some e \<and> hm_get (bm_entries m) k' = Some e' \<and> k \<noteq> k'
          \<longrightarrow> be_bucket e \<noteq> be_bucket e')"
proof -
  have "limiter_ok l" using limiter_ok_run [OF limiter_ok_new [OF assms(1)] assms(2)] .
  with assms(3) have "bm_ok m" by (auto simp: limiter_ok_def)
  then have "buckets.inv (bm_entries m)" by (simp add: bm_ok_def)
  then have "hm_len (bm_entries m) \<le> 4096"
    unfolding buckets.inv_def by (simp add: MAX_BUCKETS_PER_MAP_def)
  with \<open>bm_ok m\<close> show ?thesis by (auto simp: bm_ok_def)
qed

theorem limiter_maps_bounded_witness:
  "\<exists>l0 out l. limiter_new 1 1 = Some l0 \<and> limiter_run gcra sample_requests l0 = (out, l)
     \<and> hm_len (bm_entries (sub_map Read l)) \<le> 4096"
proof -
  obtain l0 :: "gcra_bucket limiter" where l0: "limiter_new 1 1 = Some l0" by (simp add: limiter_new_def)
  obtain out l where r: "limiter_run gcra sample_requests l0 = (out, l)" by fastforce
  from limiter_maps_bounded [OF l0 r, of "sub_map Read l" Read] l0 r show ?thesis by auto
qed

text \<open>
  What one check does. The bearer's bucket is charged first; a refusal there leaves the
  subject's buckets alone; the call is admitted exactly when every bucket charged admits; the
  other category's buckets and quotas are never touched.
\<close>

theorem limiter_check_effect:
  assumes "limiter_check G now h sub c l = (res, l')"
    and "charge G now h (gov_per_minute G (per_min c l)) (bearer_map c l) = (ok, bm)"
  shows "bearer_map c l' = bm
    \<and> (\<not> ok \<longrightarrow> res = Err RateLimited \<and> sub_map c l' = sub_map c l)
    \<and> (sub = None \<longrightarrow> sub_map c l' = sub_map c l \<and> (res = Ok () \<longleftrightarrow> ok))
    \<and> (\<forall>s. sub = Some s \<and> ok \<longrightarrow>
         (res = Ok () \<longleftrightarrow> fst (charge G now s (gov_per_minute G (per_min c l)) (sub_map c l)))
         \<and> sub_map c l' = snd (charge G now s (gov_per_minute G (per_min c l)) (sub_map c l)))
    \<and> (\<forall>d. d \<noteq> c \<longrightarrow> bearer_map d l' = bearer_map d l \<and> sub_map d l' = sub_map d l)
    \<and> (\<forall>d. per_min d l' = per_min d l)"
  using assms
  by (cases sub) (auto simp: limiter_check_charges Let_def split: prod.splits if_splits)

theorem limiter_check_effect_witness:
  "\<exists>l res l' ok bm. limiter_new 1 1 = Some l \<and> limiter_check gcra 5 ''b'' (Some ''u'') Read l = (res, l')
     \<and> charge gcra 5 ''b'' (gov_per_minute gcra (per_min Read l)) (bearer_map Read l) = (ok, bm)
     \<and> bearer_map Read l' = bm \<and> sub_map Write l' = sub_map Write l"
proof -
  obtain l :: "gcra_bucket limiter" where l: "limiter_new 1 1 = Some l" by (simp add: limiter_new_def)
  obtain res l' where r: "limiter_check gcra 5 ''b'' (Some ''u'') Read l = (res, l')" by fastforce
  obtain ok bm where c: "charge gcra 5 ''b'' (gov_per_minute gcra (per_min Read l)) (bearer_map Read l) = (ok, bm)"
    by fastforce
  from limiter_check_effect [OF r c] have "bearer_map Read l' = bm" "sub_map Write l' = sub_map Write l" by auto
  with l r c show ?thesis by blast
qed

text \<open>
  Session creation is held to 32 in a burst and one per minute after that, for each subject,
  over any run in time order that names at most 4096 subjects. A request with a subject charges
  that subject's bucket only, and one without charges its bearer's only, so no request spends a
  charge in a bucket that did not decide it.
\<close>

theorem initialize_quota:
  assumes "token_bucket G period burst"
    and "l0 = init_limiter_new G INITIALIZE_REPLENISH MAX_INITIALIZES_PER_IDENTITY"
    and "init_run_ok t0 t1 rs" "init_run G rs l0 = (out, l)" "card (ir_sub ` set rs) \<le> 4096"
  shows "admitted_init s out * secs 60 \<le> 32 * secs 60 + (t1 - t0)
    \<and> il_bearer (snd (init_check G now h (Some u) l)) = il_bearer l
    \<and> il_sub (snd (init_check G now h None l)) = il_sub l
    \<and> fst (init_check G now h (Some u) l) \<noteq> Err Bearer
    \<and> fst (init_check G now h None l) \<noteq> Err Subject"
proof -
  let ?S = "{s. Some s \<in> ir_sub ` set rs}" and ?q = "il_quota l0"
  have q: "period ?q = secs 60" "burst ?q = 32" using token_bucket.init_quota [OF assms(1)] assms(2) by auto
  have S: "small_set ?S" using assms(5) by (intro small_set_Some) auto
  have S': "\<forall>r \<in> set rs. case ir_sub r of Some s \<Rightarrow> s \<in> ?S | None \<Rightarrow> True"
    by (auto simp: image_iff split: option.splits) metis
  have w: "watched G ?q ?S t0 t0 [] (il_sub l0)"
    using watched_empty [of G ?q ?S t0] assms(2) by (simp only: init_limiter_new_def Let_def init_limiter.simps)
  obtain h' where h: "watched G ?q ?S t0 t1 h' (il_sub l)" "admitted_count s h' \<ge> admitted_init s out"
    using init_run_sub [OF assms(4,3) S S' w, of s] by (auto simp: admitted_count_def)
  have "admitted_count s h' * secs 60 \<le> 32 * secs 60 + (t1 - t0)"
    using token_bucket.tracked_quota [OF assms(1), of ?q h' "il_sub l" t0 t1 s] h(1) q
    by (simp add: watched_def)
  with mult_le_mono1 [OF h(2), of "secs 60"] have "admitted_init s out * secs 60 \<le> 32 * secs 60 + (t1 - t0)"
    by (rule order.trans)
  then show ?thesis by (auto simp: init_check_def split: prod.splits if_splits)
qed

theorem initialize_quota_witness:
  "admitted_init ''u'' (fst (init_run gcra [\<lparr>ir_now = 1, ir_bearer = ''b'', ir_sub = Some ''u''\<rparr>]
      (init_limiter_new gcra INITIALIZE_REPLENISH MAX_INITIALIZES_PER_IDENTITY))) * secs 60
    \<le> 32 * secs 60 + 8"
proof -
  let ?l = "init_limiter_new gcra INITIALIZE_REPLENISH MAX_INITIALIZES_PER_IDENTITY"
  let ?rs = "[\<lparr>ir_now = 1, ir_bearer = ''b'', ir_sub = Some ''u''\<rparr>]"
  obtain out l where r: "init_run gcra ?rs ?l = (out, l)" by fastforce
  have "init_run_ok 1 9 ?rs" by (simp add: init_run_ok_def)
  from initialize_quota [OF gcra.token_bucket_axioms refl this r, of "''u''"] r show ?thesis by simp
qed

end
