(* ===== verification/Rust_Async.thy ===== *)
theory Rust_Async
  imports Prelude
begin

text \<open>
  Fallible code that awaits: a \<open>task\<close> takes the state of the world the component sees, and yields a
  result and the state after it. \<open>bind_task\<close> is \<open>let x = m.await?; ..\<close>: an error ends the function
  with the state reached so far. \<open>find_map\<close> is \<open>Iterator::find_map\<close>.

  \<open>steps R m\<close> says that whatever \<open>m\<close> does to the state is in \<open>R\<close>; for a reflexive and transitive \<open>R\<close>
  it follows from the parts of \<open>m\<close>, which is how the trace properties of the client are proved.
\<close>

type_synonym ('s, 'e, 'a) task = "'s \<Rightarrow> ('e + 'a) \<times> 's"

definition return_task :: "'a \<Rightarrow> ('s, 'e, 'a) task" where
  "return_task a s = (Ok a, s)"

definition fail_task :: "'e \<Rightarrow> ('s, 'e, 'a) task" where
  "fail_task e s = (Err e, s)"

text \<open>Code that neither awaits nor touches the state, inside a task.\<close>

definition pure_task :: "'e + 'a \<Rightarrow> ('s, 'e, 'a) task" where
  "pure_task r s = (r, s)"

definition modify_task :: "('s \<Rightarrow> 's) \<Rightarrow> ('s, 'e, unit) task" where
  "modify_task f s = (Ok (), f s)"

definition bind_task :: "('s, 'e, 'a) task \<Rightarrow> ('a \<Rightarrow> ('s, 'e, 'b) task) \<Rightarrow> ('s, 'e, 'b) task" where
  "bind_task m f s = (case m s of (Inl e, s') \<Rightarrow> (Inl e, s') | (Inr a, s') \<Rightarrow> f a s')"

fun find_map :: "('a \<Rightarrow> 'b option) \<Rightarrow> 'a list \<Rightarrow> 'b option" where
  "find_map f [] = None"
| "find_map f (x # xs) = (case f x of Some b \<Rightarrow> Some b | None \<Rightarrow> find_map f xs)"

lemma find_map_Some: "find_map f xs = Some b \<Longrightarrow> \<exists>x \<in> set xs. f x = Some b"
  by (induction xs) (auto split: option.splits)

lemma task_simps [simp]:
  "return_task a s = (Inr a, s)" "fail_task e s = (Inl e, s)" "pure_task r s = (r, s)"
  "modify_task f s = (Inr (), f s)"
  by (simp_all add: return_task_def fail_task_def pure_task_def modify_task_def)

lemma bind_task_simps [simp]:
  "m s = (Inl e, s') \<Longrightarrow> bind_task m f s = (Inl e, s')"
  "m s = (Inr a, s') \<Longrightarrow> bind_task m f s = f a s'"
  by (simp_all add: bind_task_def)

lemma bind_task_Ok:
  "bind_task m f s = (Inr b, t) \<longleftrightarrow> (\<exists>a s'. m s = (Inr a, s') \<and> f a s' = (Inr b, t))"
  by (auto simp: bind_task_def split: prod.splits sum.splits)

lemma bind_task_Err:
  "bind_task m f s = (Inl e, t) \<longleftrightarrow>
     m s = (Inl e, t) \<or> (\<exists>a s'. m s = (Inr a, s') \<and> f a s' = (Inl e, t))"
  by (auto simp: bind_task_def split: prod.splits sum.splits)

lemma bind_pure [simp]: "bind_task (pure_task r) f s = (case r of Inl e \<Rightarrow> (Inl e, s) | Inr a \<Rightarrow> f a s)"
  by (cases r) (simp_all add: bind_task_def)

definition steps :: "('s \<Rightarrow> 's \<Rightarrow> bool) \<Rightarrow> ('s, 'e, 'a) task \<Rightarrow> bool" where
  "steps R m \<longleftrightarrow> (\<forall>s. R s (snd (m s)))"

lemma steps_run: "steps R m \<Longrightarrow> m s = (r, s') \<Longrightarrow> R s s'"
  by (metis snd_conv steps_def)

lemma steps_simple [intro]:
  "reflp R \<Longrightarrow> steps R (return_task a)" "reflp R \<Longrightarrow> steps R (fail_task e)" "reflp R \<Longrightarrow> steps R (pure_task r)"
  by (auto simp: steps_def reflp_def)

lemma steps_bind [intro]:
  assumes "transp R" "steps R m" "\<And>a. steps R (f a)"
  shows "steps R (bind_task m f)"
  unfolding steps_def
proof
  fix s
  obtain r s1 where m: "m s = (r, s1)" by (cases "m s")
  have 1: "R s s1" using steps_run [OF assms(2) m] .
  show "R s (snd (bind_task m f s))"
  proof (cases r)
    case (Inl e)
    with m 1 show ?thesis by (simp add: bind_task_def)
  next
    case (Inr a)
    have "R s1 (snd (f a s1))" using assms(3) [of a] by (simp add: steps_def)
    with m Inr 1 assms(1) show ?thesis by (auto simp: bind_task_def dest: transpD)
  qed
qed

end
