(* ===== verification/Rust_Tasks.thy ===== *)
theory Rust_Tasks
  imports Rust_Async
begin

text \<open>
  Concurrent tasks. A \<open>prog\<close> is an \<open>async fn\<close> cut into its atomic steps: between two of them any other
  task may run, and the future may be dropped. A step has a guard (a lock it waits for), what
  dropping the future before it does (the locks it holds are released), and its effect.

  \<^item> \<open>run\<close> is the uninterrupted run, by which a \<open>prog\<close> is compared with the sequential reading of the
    same code. \<open>pool_step\<close> is a step of a pool of tasks: one is spawned, moves, is dropped or
    collected, or the outside (clocks, servers) moves.
  \<^item> \<open>safe I R Q p s\<close>: from \<open>s\<close> on, whatever the others do that keeps the invariant \<open>I\<close> and only moves
    the state forward in the order \<open>R\<close>, every step of \<open>p\<close> keeps \<open>I\<close> and moves forward, and a result
    satisfies \<open>Q\<close>. It is proved from the parts of a program, and \<open>pool_invariant\<close> composes it.
\<close>

datatype ('s, 'r) prog =
    Ret 'r
  | Step "'s \<Rightarrow> bool" "'s \<Rightarrow> 's" "'s \<Rightarrow> 's \<times> ('s, 'r) prog"

lemma prog_induct [case_names Ret Step]:
  assumes "\<And>r. Q (Ret r)" "\<And>g d f. (\<And>s. Q (snd (f s))) \<Longrightarrow> Q (Step g d f)"
  shows "Q p"
proof (induction p)
  case (Step g d f)
  have "Q (snd (f s))" for s by (rule Step [of "f s"]) (auto simp: snds.simps)
  then show ?case by (rule assms(2))
qed (rule assms(1))

subsection \<open>Programs\<close>

primrec bind_prog :: "('s, 'a) prog \<Rightarrow> ('a \<Rightarrow> ('s, 'b) prog) \<Rightarrow> ('s, 'b) prog" where
  "bind_prog (Ret r) k = k r"
| "bind_prog (Step g d f) k = Step g d (\<lambda>s. map_prod id (\<lambda>p. bind_prog p k) (f s))"

definition act :: "('s \<Rightarrow> 'a \<times> 's) \<Rightarrow> ('s, 'a) prog" where
  "act f = Step (\<lambda>_. True) id (\<lambda>s. case f s of (a, s') \<Rightarrow> (s', Ret a))"

text \<open>\<open>let a = m.await?; ..\<close>\<close>

definition try_prog :: "('s, 'e + 'a) prog \<Rightarrow> ('a \<Rightarrow> ('s, 'e + 'b) prog) \<Rightarrow> ('s, 'e + 'b) prog" where
  "try_prog m f = bind_prog m (\<lambda>r. case r of Inl e \<Rightarrow> Ret (Inl e) | Inr a \<Rightarrow> f a)"

text \<open>What dropping the future does while a guard is held.\<close>

primrec holding :: "('s \<Rightarrow> 's) \<Rightarrow> ('s, 'a) prog \<Rightarrow> ('s, 'a) prog" where
  "holding rel (Ret r) = Ret r"
| "holding rel (Step g d f) = Step g (\<lambda>s. rel (d s)) (\<lambda>s. map_prod id (holding rel) (f s))"

text \<open>\<open>let _guard = gate.lock().await; ..\<close>: the guard is dropped with the future or at the end.\<close>

definition with_gate ::
  "('s \<Rightarrow> bool) \<Rightarrow> ('s \<Rightarrow> 's) \<Rightarrow> ('s \<Rightarrow> 's) \<Rightarrow> ('s, 'a) prog \<Rightarrow> ('s, 'a) prog" where
  "with_gate free acquire rel p =
     Step free id (\<lambda>s. (acquire s, bind_prog (holding rel p) (\<lambda>r. Step (\<lambda>_. True) rel (\<lambda>s. (rel s, Ret r)))))"

text \<open>A program over one component of a larger state.\<close>

primrec zoom :: "('w \<Rightarrow> 's) \<Rightarrow> ('s \<Rightarrow> 'w \<Rightarrow> 'w) \<Rightarrow> ('s, 'a) prog \<Rightarrow> ('w, 'a) prog" where
  "zoom get put (Ret r) = Ret r"
| "zoom get put (Step g d f) =
     Step (\<lambda>w. g (get w)) (\<lambda>w. put (d (get w)) w)
       (\<lambda>w. case map_prod id (zoom get put) (f (get w)) of (s, p) \<Rightarrow> (put s w, p))"

subsection \<open>The uninterrupted run\<close>

primrec run :: "('s, 'a) prog \<Rightarrow> 's \<Rightarrow> 'a \<times> 's" where
  "run (Ret r) = (\<lambda>s. (r, s))"
| "run (Step g d f) = (\<lambda>s. case map_prod id run (f s) of (s', k) \<Rightarrow> k s')"

lemma run_bind: "run (bind_prog m k) s = (case run m s of (a, s') \<Rightarrow> run (k a) s')"
  by (induction m arbitrary: s rule: prog_induct) (simp_all add: split_beta)

lemma run_act [simp]: "run (act f) s = f s"
  by (simp add: act_def split: prod.splits)

lemma run_try:
  "run (try_prog m f) s = (case run m s of (Inl e, s') \<Rightarrow> (Inl e, s') | (Inr a, s') \<Rightarrow> run (f a) s')"
  by (auto simp: try_prog_def run_bind split: prod.splits sum.splits)

lemma run_try_task: "run (try_prog m f) = bind_task (run m) (\<lambda>a. run (f a))"
  by (intro ext) (simp add: run_try bind_task_def)

lemma run_holding [simp]: "run (holding rel p) = run p"
  by (induction p rule: prog_induct) (auto simp: split_beta)

lemma run_with_gate: "run (with_gate free acquire rel p) s = (case run p (acquire s) of (r, s') \<Rightarrow> (r, rel s'))"
  by (simp add: with_gate_def run_bind split: prod.splits)

lemma run_zoom:
  assumes "\<And>s w. get (put s w) = s" "\<And>s s' w. put s (put s' w) = put s w" "\<And>w. put (get w) w = w"
  shows "run (zoom get put p) w = (case run p (get w) of (r, s) \<Rightarrow> (r, put s w))"
  by (induction p arbitrary: w rule: prog_induct) (simp_all add: assms split_beta)

subsection \<open>Pools of tasks\<close>

text \<open>A dropped or collected task is gone; \<open>start\<close> says which programs a task may be spawned with.\<close>

type_synonym ('s, 't, 'r) pool = "'s \<times> ('t \<Rightarrow> ('s, 'r) prog option)"

inductive pool_step ::
  "('s \<Rightarrow> 's \<Rightarrow> bool) \<Rightarrow> ('t \<Rightarrow> ('s, 'r) prog \<Rightarrow> bool) \<Rightarrow> ('s, 't, 'r) pool \<Rightarrow> ('s, 't, 'r) pool \<Rightarrow> bool"
  for outside start where
  spawn: "P t = None \<Longrightarrow> start t p \<Longrightarrow> pool_step outside start (s, P) (s, P(t := Some p))"
| turn: "P t = Some (Step g d f) \<Longrightarrow> g s \<Longrightarrow> f s = (s', p) \<Longrightarrow> pool_step outside start (s, P) (s', P(t := Some p))"
| dropped: "P t = Some (Step g d f) \<Longrightarrow> pool_step outside start (s, P) (d s, P(t := None))"
| collect: "P t = Some (Ret r) \<Longrightarrow> pool_step outside start (s, P) (s, P(t := None))"
| other: "outside s s' \<Longrightarrow> pool_step outside start (s, P) (s', P)"

definition pool_reach ::
  "('s \<Rightarrow> 's \<Rightarrow> bool) \<Rightarrow> ('t \<Rightarrow> ('s, 'r) prog \<Rightarrow> bool) \<Rightarrow> 's \<Rightarrow> ('s, 't, 'r) pool \<Rightarrow> bool" where
  "pool_reach outside start s0 c \<longleftrightarrow> (pool_step outside start)\<^sup>*\<^sup>* (s0, \<lambda>_. None) c"

lemma pool_reach_start: "pool_reach outside start s0 (s0, \<lambda>_. None)"
  by (simp add: pool_reach_def)

lemma pool_reach_step: "pool_reach outside start s0 c \<Longrightarrow> pool_step outside start c c' \<Longrightarrow> pool_reach outside start s0 c'"
  unfolding pool_reach_def by (rule rtranclp.rtrancl_into_rtrancl)

subsection \<open>Safety under interference\<close>

primrec safe ::
  "('s \<Rightarrow> bool) \<Rightarrow> ('s \<Rightarrow> 's \<Rightarrow> bool) \<Rightarrow> ('s \<Rightarrow> 's \<Rightarrow> bool) \<Rightarrow> ('a \<Rightarrow> 's \<Rightarrow> bool) \<Rightarrow> ('s, 'a) prog \<Rightarrow> 's \<Rightarrow> bool" where
  "safe I R G Q (Ret r) = Q r"
| "safe I R G Q (Step g d f) = (\<lambda>s0. \<forall>s. R s0 s \<and> I s \<longrightarrow>
     I (d s) \<and> G s (d s)
     \<and> (g s \<longrightarrow> (case map_prod id (safe I R G Q) (f s) of (s', k) \<Rightarrow> I s' \<and> G s s' \<and> k s')))"

declare safe.simps(2) [simp del]

lemma safe_Step:
  "safe I R G Q (Step g d f) s0 \<longleftrightarrow> (\<forall>s. R s0 s \<and> I s \<longrightarrow>
     I (d s) \<and> G s (d s)
     \<and> (g s \<longrightarrow> I (fst (f s)) \<and> G s (fst (f s)) \<and> safe I R G Q (snd (f s)) (fst (f s))))"
  by (simp add: safe.simps(2) split_beta)

lemma safe_StepI:
  assumes "\<And>s. R s0 s \<Longrightarrow> I s \<Longrightarrow> I (d s) \<and> G s (d s)"
    and "\<And>s s' p. R s0 s \<Longrightarrow> I s \<Longrightarrow> g s \<Longrightarrow> f s = (s', p) \<Longrightarrow> I s' \<and> G s s' \<and> safe I R G Q p s'"
  shows "safe I R G Q (Step g d f) s0"
  unfolding safe_Step using assms by (metis prod.collapse)

lemma safe_bind:
  assumes "safe I R G Q m s" "\<And>a s'. Q a s' \<Longrightarrow> safe I R G Q' (k a) s'"
  shows "safe I R G Q' (bind_prog m k) s"
  using assms(1)
proof (induction m arbitrary: s rule: prog_induct)
  case (Ret r)
  then show ?case by (simp add: assms(2))
next
  case (Step g d f)
  then show ?case by (simp add: safe_Step)
qed

lemma safe_weaken:
  assumes "safe I R G Q p s" "\<And>a s'. Q a s' \<Longrightarrow> Q' a s'"
  shows "safe I R G Q' p s"
  using assms(1) by (induction p arbitrary: s rule: prog_induct) (auto simp: safe_Step assms(2))

text \<open>What neither the others nor the task itself can undo is still known at the end.\<close>

lemma safe_frame:
  assumes "safe I R G Q p s" "K s"
    and "\<And>s s'. K s \<Longrightarrow> R s s' \<Longrightarrow> K s'" "\<And>s s'. K s \<Longrightarrow> G s s' \<Longrightarrow> K s'"
  shows "safe I R G (\<lambda>a s. Q a s \<and> K s) p s"
  using assms(1,2)
proof (induction p arbitrary: s rule: prog_induct)
  case (Step g d f)
  show ?case
    unfolding safe_Step
  proof (intro allI impI conjI)
    fix v assume v: "R s v \<and> I v"
    then have "K v" using Step.prems(2) assms(3) by blast
    from v Step.prems(1) show "I (d v)" "G v (d v)" by (auto simp: safe_Step)
    assume "g v"
    with v Step.prems(1) have n: "I (fst (f v))" "G v (fst (f v))" "safe I R G Q (snd (f v)) (fst (f v))"
      by (auto simp: safe_Step)
    from Step.IH [OF n(3) assms(4) [OF \<open>K v\<close> n(2)]] n(1,2)
    show "I (fst (f v))" "G v (fst (f v))" "safe I R G (\<lambda>a s. Q a s \<and> K s) (snd (f v)) (fst (f v))" by simp_all
  qed
qed simp

lemma safe_act:
  assumes "\<And>s. I s \<Longrightarrow> G s s" "\<And>s a s'. R s0 s \<Longrightarrow> I s \<Longrightarrow> f s = (a, s') \<Longrightarrow> I s' \<and> G s s' \<and> Q a s'"
  shows "safe I R G Q (act f) s0"
  unfolding act_def by (rule safe_StepI) (use assms in \<open>auto split: prod.splits\<close>)

lemma safe_try:
  assumes "safe I R G (\<lambda>r s'. case r of Inl e \<Rightarrow> Q' (Inl e) s' | Inr a \<Rightarrow> Q a s') m s"
    and "\<And>a s'. Q a s' \<Longrightarrow> safe I R G Q' (f a) s'"
  shows "safe I R G Q' (try_prog m f) s"
  unfolding try_prog_def by (rule safe_bind [OF assms(1)]) (auto intro: assms(2) split: sum.splits)

text \<open>
  Under a gate: \<open>H\<close> is what the task knows while it holds it, which the others do not break; \<open>p\<close> is
  safe with \<open>H\<close> added to the invariant, and releasing keeps the invariant.
\<close>

lemma safe_holding:
  assumes "safe (\<lambda>s. I s \<and> H s) R G Q p s" "H s"
    and "\<And>s s'. H s \<Longrightarrow> R s s' \<Longrightarrow> H s'" "transp R"
    and "\<And>s s'. I s \<Longrightarrow> H s \<Longrightarrow> G s s' \<Longrightarrow> I s' \<Longrightarrow> H s' \<Longrightarrow> I (rel s') \<and> G s (rel s')"
  shows "safe I R G (\<lambda>a s'. Q a s' \<and> H s') (holding rel p) s"
  using assms(1,2)
proof (induction p arbitrary: s rule: prog_induct)
  case (Step g d f)
  show ?case
    unfolding holding.simps
  proof (rule safe_StepI)
    fix v assume "R s v" "I v"
    moreover from this Step.prems(2) have "H v" using assms(3) by blast
    ultimately show "I (rel (d v)) \<and> G v (rel (d v))"
      using Step.prems(1) assms(5) by (auto simp: safe_Step)
  next
    fix v v' k assume v: "R s v" "I v" "g v" "map_prod id (holding rel) (f v) = (v', k)"
    from v(1) Step.prems(2) have "H v" using assms(3) by blast
    from v(4) obtain b where b: "f v = (v', b)" "k = holding rel b" by (cases "f v") auto
    with v(1-3) \<open>H v\<close> Step.prems(1) have n: "I v' \<and> H v' \<and> G v v' \<and> safe (\<lambda>s. I s \<and> H s) R G Q b v'"
      by (auto simp: safe_Step)
    with Step.IH [of v v'] b show "I v' \<and> G v v' \<and> safe I R G (\<lambda>a s'. Q a s' \<and> H s') k v'" by simp
  qed
qed simp

lemma safe_with_gate:
  assumes refl: "\<And>s. I s \<Longrightarrow> G s s" and trans: "transp R"
    and stable: "\<And>s s'. H s \<Longrightarrow> R s s' \<Longrightarrow> H s'"
    and acq: "\<And>s. I s \<Longrightarrow> free s \<Longrightarrow> R s0 s \<Longrightarrow>
      I (acquire s) \<and> H (acquire s) \<and> G s (acquire s) \<and> safe (\<lambda>s. I s \<and> H s) R G Q p (acquire s)"
    and rel: "\<And>s s'. I s \<Longrightarrow> H s \<Longrightarrow> G s s' \<Longrightarrow> I s' \<Longrightarrow> H s' \<Longrightarrow> I (rel s') \<and> G s (rel s')"
    and post: "\<And>a s s'. Q a s \<Longrightarrow> R s s' \<Longrightarrow> I s' \<Longrightarrow> H s' \<Longrightarrow> Q' a (rel s')"
  shows "safe I R G Q' (with_gate free acquire rel p) s0"
  unfolding with_gate_def
proof (rule safe_StepI)
  fix s assume "I s" then show "I (id s) \<and> G s (id s)" by (simp add: refl)
next
  fix s s' k assume s: "R s0 s" "I s" "free s"
    and k: "(acquire s, bind_prog (holding rel p) (\<lambda>r. Step (\<lambda>_. True) rel (\<lambda>s. (rel s, Ret r)))) = (s', k)"
  from acq [OF s(2,3,1)] have a: "I (acquire s)" "H (acquire s)" "G s (acquire s)"
    "safe (\<lambda>s. I s \<and> H s) R G Q p (acquire s)" by simp_all
  have last: "safe I R G Q' (Step (\<lambda>_. True) rel (\<lambda>s. (rel s, Ret r))) v" if "Q r v \<and> H v" for r v
    by (rule safe_StepI) (use that rel post refl stable in auto)
  have "safe I R G (\<lambda>a s'. Q a s' \<and> H s') (holding rel p) (acquire s)"
    by (rule safe_holding [OF a(4,2)]) (fact stable trans rel)+
  from safe_bind [OF this, of Q', OF last] k a(1,3)
  show "I s' \<and> G s s' \<and> safe I R G Q' k s'" by auto
qed

lemma safe_zoom:
  assumes "safe J S T Q p s" "s = get w"
    and lens: "\<And>s w. get (put s w) = s"
    and down: "\<And>w. I w \<Longrightarrow> J (get w)" "\<And>w w'. R w w' \<Longrightarrow> S (get w) (get w')"
    and up: "\<And>w s. I w \<Longrightarrow> J s \<Longrightarrow> T (get w) s \<Longrightarrow> I (put s w) \<and> G w (put s w)"
  shows "safe I R G (\<lambda>a w. Q a (get w)) (zoom get put p) w"
  using assms(1,2)
proof (induction p arbitrary: s w rule: prog_induct)
  case (Step g d f)
  show ?case
    unfolding zoom.simps
  proof (rule safe_StepI)
    fix v assume v: "R w v" "I v"
    then have "S s (get v)" "J (get v)" using down Step.prems(2) by simp_all
    with Step.prems(1) up [OF v(2)] show "I (put (d (get v)) v) \<and> G v (put (d (get v)) v)" by (auto simp: safe_Step)
  next
    fix v v' k assume v: "R w v" "I v" "g (get v)"
      "(case map_prod id (zoom get put) (f (get v)) of (s, p) \<Rightarrow> (put s v, p)) = (v', k)"
    then have "S s (get v)" "J (get v)" using down Step.prems(2) by simp_all
    with Step.prems(1) v(3) obtain s' p' where "f (get v) = (s', p')" "J s'" "T (get v) s'" "safe J S T Q p' s'"
      by (auto simp: safe_Step) (metis prod.collapse)
    with v(4) up [OF v(2)] Step.IH [of "get v" s' v'] lens
    show "I v' \<and> G v v' \<and> safe I R G (\<lambda>a w. Q a (get w)) k v'" by auto
  qed
qed simp

subsection \<open>Composition\<close>

definition pool_safe ::
  "('s \<Rightarrow> bool) \<Rightarrow> ('t \<Rightarrow> 's \<Rightarrow> 's \<Rightarrow> bool) \<Rightarrow> ('t \<Rightarrow> 's \<Rightarrow> 's \<Rightarrow> bool) \<Rightarrow> ('t \<Rightarrow> 'r \<Rightarrow> 's \<Rightarrow> bool)
     \<Rightarrow> ('s, 't, 'r) pool \<Rightarrow> bool" where
  "pool_safe I R G Q c \<longleftrightarrow> I (fst c)
     \<and> (\<forall>t p. snd c t = Some p \<longrightarrow> (\<exists>s. R t s (fst c) \<and> safe I (R t) (G t) (Q t) p s))"

lemma pool_safe_step:
  assumes refl: "\<And>t. reflp (R t)" and trans: "\<And>t. transp (R t)"
    and start: "\<And>t p s. start t p \<Longrightarrow> I s \<Longrightarrow> safe I (R t) (G t) (Q t) p s"
    and outside: "\<And>s s' t. outside s s' \<Longrightarrow> I s \<Longrightarrow> I s' \<and> R t s s'"
    and others: "\<And>t u s s'. t \<noteq> u \<Longrightarrow> I s \<Longrightarrow> I s' \<Longrightarrow> G t s s' \<Longrightarrow> R u s s'"
    and before: "pool_safe I R G Q (s, P)" and st: "pool_step outside start (s, P) (s', P')"
  shows "pool_safe I R G Q (s', P')"
proof -
  have I: "I s" and tasks: "\<And>t p. P t = Some p \<Longrightarrow> \<exists>s1. R t s1 s \<and> safe I (R t) (G t) (Q t) p s1"
    using before by (auto simp: pool_safe_def)
  have rr: "R t v v" for t v using refl by (simp add: reflpD)
  have moved: "pool_safe I R G Q (s', P')" if "I s'" "\<And>u. u \<noteq> t \<Longrightarrow> P' u = P u \<and> R u s s'"
    "\<And>p. P' t = Some p \<Longrightarrow> safe I (R t) (G t) (Q t) p s'" for t
    unfolding pool_safe_def fst_conv snd_conv
  proof (intro conjI allI impI)
    fix u p assume p: "P' u = Some p"
    show "\<exists>s1. R u s1 s' \<and> safe I (R u) (G u) (Q u) p s1"
    proof (cases "u = t")
      case True
      with p that(3) rr show ?thesis by blast
    next
      case False
      with p that(2) obtain s1 where "R u s1 s" "safe I (R u) (G u) (Q u) p s1" using tasks by force
      with that(2) [OF False] transpD [OF trans] show ?thesis by blast
    qed
  qed (rule that(1))
  from st show ?thesis
  proof (cases rule: pool_step.cases)
    case (spawn t p)
    then show ?thesis using I rr start by (intro moved [of t]) auto
  next
    case (turn t g d f p)
    from tasks [OF turn(2)] I turn(3,4) have "I s'" "G t s s'" "safe I (R t) (G t) (Q t) p s'" by (auto simp: safe_Step)
    then show ?thesis using turn I others [of t] by (intro moved [of t]) auto
  next
    case (dropped t g d f)
    from tasks [OF dropped(3)] I have "I (d s)" "G t s (d s)" by (auto simp: safe_Step)
    then show ?thesis using dropped I others [of t] by (intro moved [of t]) auto
  next
    case (collect t r)
    then show ?thesis using I rr by (intro moved [of t]) auto
  next
    case other
    have "\<exists>s1. R t s1 s' \<and> safe I (R t) (G t) (Q t) p s1" if "P t = Some p" for t p
      using tasks [OF that] outside [OF other(2) I] transpD [OF trans] by blast
    with other outside I show ?thesis by (auto simp: pool_safe_def)
  qed
qed

lemma pool_invariant:
  assumes "\<And>t. reflp (R t)" "\<And>t. transp (R t)" "I s0"
    and "\<And>t p s. start t p \<Longrightarrow> I s \<Longrightarrow> safe I (R t) (G t) (Q t) p s"
    and "\<And>s s' t. outside s s' \<Longrightarrow> I s \<Longrightarrow> I s' \<and> R t s s'"
    and "\<And>t u s s'. t \<noteq> u \<Longrightarrow> I s \<Longrightarrow> I s' \<Longrightarrow> G t s s' \<Longrightarrow> R u s s'"
    and "pool_reach outside start s0 c"
  shows "pool_safe I R G Q c"
  using assms(7) unfolding pool_reach_def
proof (induction rule: rtranclp_induct)
  case base
  show ?case using assms(3) by (simp add: pool_safe_def)
next
  case (step c c')
  obtain s P s' P' where c: "c = (s, P)" "c' = (s', P')" by fastforce
  show ?case
    unfolding c(2)
  proof (rule pool_safe_step [where outside = outside and start = start and s = s and P = P])
    show "pool_safe I R G Q (s, P)" using step.IH c(1) by simp
    show "pool_step outside start (s, P) (s', P')" using step.hyps(2) c by simp
  qed (fact assms)+
qed

subsection \<open>A task left alone\<close>

text \<open>No step of the uninterrupted run has to wait.\<close>

primrec clear :: "('s, 'a) prog \<Rightarrow> 's \<Rightarrow> bool" where
  "clear (Ret r) = (\<lambda>s. True)"
| "clear (Step g d f) = (\<lambda>s. g s \<and> (case map_prod id clear (f s) of (s', k) \<Rightarrow> k s'))"

lemma clear_bind: "clear (bind_prog m k) s \<longleftrightarrow> clear m s \<and> (case run m s of (a, s') \<Rightarrow> clear (k a) s')"
  by (induction m arbitrary: s rule: prog_induct) (auto simp: split_beta)

lemma clear_act [simp]: "clear (act f) s"
  by (simp add: act_def split: prod.splits)

lemma clear_try:
  "clear (try_prog m f) s \<longleftrightarrow> clear m s \<and> (case run m s of (Inl e, s') \<Rightarrow> True | (Inr a, s') \<Rightarrow> clear (f a) s')"
  by (auto simp: try_prog_def clear_bind split: prod.splits sum.splits)

lemma clear_holding [simp]: "clear (holding rel p) = clear p"
  by (induction p rule: prog_induct) (auto simp: split_beta)

lemma clear_with_gate: "clear (with_gate free acquire rel p) s \<longleftrightarrow> free s \<and> clear p (acquire s)"
  by (simp add: with_gate_def clear_bind split: prod.splits)

lemma clear_zoom:
  assumes "\<And>s w. get (put s w) = s"
  shows "clear (zoom get put p) w = clear p (get w)"
  by (induction p arbitrary: w rule: prog_induct) (simp_all add: assms split_beta)

lemma lone_run:
  assumes "clear p s" "P t = Some p"
  shows "(pool_step outside start)\<^sup>*\<^sup>* (s, P) (snd (run p s), P(t := Some (Ret (fst (run p s)))))"
  using assms
proof (induction p arbitrary: s P rule: prog_induct)
  case (Ret r)
  then show ?case by (simp add: fun_upd_idem)
next
  case (Step g d f)
  obtain s' p where f: "f s = (s', p)" by fastforce
  with Step.prems have "pool_step outside start (s, P) (s', P(t := Some p))"
    by (intro turn [where g = g and d = d and f = f]) auto
  moreover have "(pool_step outside start)\<^sup>*\<^sup>* (s', P(t := Some p))
      (snd (run (snd (f s)) s'), (P(t := Some p))(t := Some (Ret (fst (run (snd (f s)) s')))))"
    by (rule Step.IH) (use f Step.prems(1) in auto)
  ultimately show ?case unfolding fun_upd_upd by (simp add: f fun_upd_def converse_rtranclp_into_rtranclp)
qed

lemma lone_task:
  assumes "start t p" "clear p s0"
  shows "pool_reach outside start s0 (snd (run p s0), [t \<mapsto> Ret (fst (run p s0))])"
proof -
  have "pool_reach outside start s0 (s0, [t \<mapsto> p])"
    by (rule pool_reach_step [OF pool_reach_start spawn]) (use assms(1) in auto)
  with lone_run [OF assms(2), of "[t \<mapsto> p]" t outside start] show ?thesis by (simp add: pool_reach_def)
qed

subsection \<open>Progress\<close>

text \<open>A program takes at most so many steps.\<close>

primrec within :: "('s, 'a) prog \<Rightarrow> nat \<Rightarrow> bool" where
  "within (Ret r) = (\<lambda>n. True)"
| "within (Step g d f) = (\<lambda>n. \<exists>m. n = Suc m \<and> (\<forall>s. snd (map_prod id within (f s)) m))"

lemma within_Step: "within (Step g d f) n \<longleftrightarrow> (\<exists>m. n = Suc m \<and> (\<forall>s. within (snd (f s)) m))"
  by simp

declare within.simps(2) [simp del]

lemma within_bind: "within m a \<Longrightarrow> (\<And>r. within (k r) b) \<Longrightarrow> within (bind_prog m k) (a + b)"
proof (induction m arbitrary: a rule: prog_induct)
  case (Ret r)
  have "within p (a + n)" if "within p n" for p :: "('a, 'c) prog" and n
    using that by (induction p arbitrary: n rule: prog_induct) (auto simp: within_Step)
  with Ret show ?case by simp
qed (auto simp: within_Step)

lemma within_act [simp]: "0 < n \<Longrightarrow> within (act f) n"
  by (cases n) (auto simp: act_def within_Step split: prod.splits)

lemma within_act_bind: "(\<And>r. within (k r) (n - 1)) \<Longrightarrow> 0 < n \<Longrightarrow> within (bind_prog (act f) k) n"
  using within_bind [OF within_act [of 1 f], of k "n - 1"] by simp

lemma within_try: "within m a \<Longrightarrow> (\<And>r. within (f r) b) \<Longrightarrow> within (try_prog m f) (a + b)"
  unfolding try_prog_def by (rule within_bind) (auto split: sum.splits)

lemma within_holding [simp]: "within (holding rel p) n = within p n"
  by (induction p arbitrary: n rule: prog_induct) (auto simp: within_Step)

lemma within_with_gate: "within p n \<Longrightarrow> within (with_gate free acquire rel p) (n + 2)"
proof -
  assume "within p n"
  then have "within (bind_prog (holding rel p) (\<lambda>r. Step (\<lambda>_. True) rel (\<lambda>s. (rel s, Ret r)))) (n + 1)"
    by (intro within_bind) (auto simp: within_Step)
  then show ?thesis by (auto simp: with_gate_def within_Step)
qed

text \<open>
  \<open>H t s\<close>: task \<open>t\<close> holds the lock. A tidy program, started when it does (\<open>b\<close>), changes nobody else's
  hold, never waits while it holds, waits only when somebody holds, gives the lock back when it is
  dropped, and ends holding or not (\<open>q\<close>).
\<close>

primrec tidy :: "('t \<Rightarrow> 's \<Rightarrow> bool) \<Rightarrow> 't \<Rightarrow> bool \<Rightarrow> ('s, 'a) prog \<Rightarrow> bool \<Rightarrow> bool" where
  "tidy H t q (Ret r) = (\<lambda>b. b = q)"
| "tidy H t q (Step g d f) = (\<lambda>b. \<forall>s. H t s = b \<longrightarrow>
     \<not> H t (d s) \<and> (\<forall>u. u \<noteq> t \<longrightarrow> H u (d s) = H u s) \<and> (g s \<or> \<not> b \<and> (\<exists>u. H u s))
     \<and> (g s \<longrightarrow> (case map_prod id (tidy H t q) (f s) of (s', k) \<Rightarrow> (\<forall>u. u \<noteq> t \<longrightarrow> H u s' = H u s) \<and> k (H t s'))))"

lemma tidy_Step:
  "tidy H t q (Step g d f) b \<longleftrightarrow> (\<forall>s. H t s = b \<longrightarrow>
     \<not> H t (d s) \<and> (\<forall>u. u \<noteq> t \<longrightarrow> H u (d s) = H u s) \<and> (g s \<or> \<not> b \<and> (\<exists>u. H u s))
     \<and> (g s \<longrightarrow> (\<forall>u. u \<noteq> t \<longrightarrow> H u (fst (f s)) = H u s) \<and> tidy H t q (snd (f s)) (H t (fst (f s)))))"
  by (simp add: split_beta)

declare tidy.simps(2) [simp del]

lemma tidy_bind: "tidy H t q m b \<Longrightarrow> (\<And>a. tidy H t q' (k a) q) \<Longrightarrow> tidy H t q' (bind_prog m k) b"
  by (induction m arbitrary: b rule: prog_induct) (auto simp: tidy_Step)

lemma tidy_act: "(\<And>s u. H u (snd (f s)) = H u s) \<Longrightarrow> tidy H t False (act f) False"
  unfolding act_def tidy_Step by (auto split: prod.splits) (metis snd_conv)+

lemma tidy_act_bind:
  "(\<And>s u. H u (snd (f s)) = H u s) \<Longrightarrow> (\<And>a. tidy H t q (k a) False) \<Longrightarrow> tidy H t q (bind_prog (act f) k) False"
  by (rule tidy_bind [OF tidy_act])

lemma tidy_try: "tidy H t q m b \<Longrightarrow> (\<And>a. tidy H t q (f a) q) \<Longrightarrow> tidy H t q (try_prog m f) b"
  unfolding try_prog_def by (rule tidy_bind) (auto split: sum.splits)

text \<open>What runs under the gate: its steps neither wait nor touch the gate.\<close>

primrec quiet :: "('t \<Rightarrow> 's \<Rightarrow> bool) \<Rightarrow> ('s, 'a) prog \<Rightarrow> bool" where
  "quiet H (Ret r) = True"
| "quiet H (Step g d f) = (\<forall>s. g s \<and> (\<forall>u. H u (d s) = H u s)
     \<and> (case map_prod id (quiet H) (f s) of (s', k) \<Rightarrow> (\<forall>u. H u s' = H u s) \<and> k))"

lemma quiet_bind: "quiet H m \<Longrightarrow> (\<And>a. quiet H (k a)) \<Longrightarrow> quiet H (bind_prog m k)"
  by (induction m rule: prog_induct) (auto simp: split_beta)

lemma quiet_act: "(\<And>s u. H u (snd (f s)) = H u s) \<Longrightarrow> quiet H (act f)"
  by (auto simp: act_def split_beta)

lemma quiet_try: "quiet H m \<Longrightarrow> (\<And>a. quiet H (f a)) \<Longrightarrow> quiet H (try_prog m f)"
  unfolding try_prog_def by (rule quiet_bind) (auto split: sum.splits)

text \<open>A program that never waits.\<close>

abbreviation never_waits :: "('s, 'a) prog \<Rightarrow> bool" where
  "never_waits \<equiv> quiet (\<lambda>(u::unit) s. False)"

lemma never_waits_act [intro]: "never_waits (act f)"
  by (rule quiet_act) simp

lemma never_waits_clear: "never_waits p \<Longrightarrow> clear p s"
  by (induction p arbitrary: s rule: prog_induct) (auto simp: split_beta)

lemma never_waits_zoom: "never_waits p \<Longrightarrow> never_waits (zoom get put p)"
  by (induction p rule: prog_induct) (auto simp: split_beta)

text \<open>A program over another component neither holds nor waits; one over the lock's component is tidy as it was.\<close>

lemma tidy_quiet: "quiet H p \<Longrightarrow> tidy H t False p False"
  by (induction p rule: prog_induct) (auto simp: tidy_Step split_beta)

lemma quiet_zoom_aside:
  assumes "never_waits p" "\<And>s w u. H u (put s w) = H u w"
  shows "quiet H (zoom get put p)"
  using assms(1) by (induction p rule: prog_induct) (auto simp: split_beta assms(2))

lemma tidy_zoom:
  assumes "\<And>s w. get (put s w) = s"
  shows "tidy H t q p b \<Longrightarrow> tidy (\<lambda>u w. H u (get w)) t q (zoom get put p) b"
proof (induction p arbitrary: b rule: prog_induct)
  case (Step g d f)
  then show ?case by (fastforce simp: tidy_Step split_beta assms)
qed simp

lemma tidy_with_gate:
  assumes free: "\<And>s. free s \<longleftrightarrow> (\<forall>u. \<not> H u s)"
    and acquire: "\<And>s u. free s \<Longrightarrow> H u (acquire s) \<longleftrightarrow> u = t"
    and release: "\<And>s u. H t s \<Longrightarrow> \<not> H u (rel s)" and single: "\<And>s u. H t s \<Longrightarrow> H u s \<Longrightarrow> u = t"
    and p: "quiet H p"
  shows "tidy H t False (with_gate free acquire rel p) False"
proof -
  have inside: "tidy H t True (holding rel p) True"
    using p by (induction p rule: prog_induct) (use release single in \<open>auto simp: tidy_Step split_beta\<close>)
  have "tidy H t False (Step (\<lambda>_. True) rel (\<lambda>s. (rel s, Ret r))) True" for r
    using release single by (auto simp: tidy_Step)
  from tidy_bind [OF inside this] show ?thesis
    unfolding with_gate_def by (subst tidy_Step) (use free acquire in auto)
qed

definition pool_tidy :: "('t \<Rightarrow> 's \<Rightarrow> bool) \<Rightarrow> ('s, 't, 'r) pool \<Rightarrow> bool" where
  "pool_tidy H c \<longleftrightarrow> (\<forall>t. case snd c t of None \<Rightarrow> \<not> H t (fst c) | Some p \<Rightarrow> tidy H t False p (H t (fst c)))"

lemma pool_tidy_step:
  assumes start: "\<And>t p. start t p \<Longrightarrow> tidy H t False p False"
    and outside: "\<And>s s' u. outside s s' \<Longrightarrow> H u s' = H u s"
    and before: "pool_tidy H (s, P)" and st: "pool_step outside start (s, P) (s', P')"
  shows "pool_tidy H (s', P')"
proof -
  have P: "case P t of None \<Rightarrow> \<not> H t s | Some p \<Rightarrow> tidy H t False p (H t s)" for t
    using before unfolding pool_tidy_def fst_conv snd_conv by blast
  have moved: "pool_tidy H (s', P')"
    if "\<And>u. u \<noteq> t \<Longrightarrow> P' u = P u \<and> H u s' = H u s" "case P' t of None \<Rightarrow> \<not> H t s' | Some p \<Rightarrow> tidy H t False p (H t s')" for t
    unfolding pool_tidy_def fst_conv snd_conv
  proof
    fix u show "case P' u of None \<Rightarrow> \<not> H u s' | Some p \<Rightarrow> tidy H u False p (H u s')"
    proof (cases "u = t")
      case False
      with that(1) have "P' u = P u" "H u s' = H u s" by simp_all
      with P [of u] show ?thesis by (cases "P u") simp_all
    next
      case True
      show ?thesis unfolding True by (rule that(2))
    qed
  qed
  from st show ?thesis
  proof (cases rule: pool_step.cases)
    case (spawn t p)
    with P [of t] start show ?thesis by (intro moved [of t]) auto
  next
    case (turn t g d f p)
    with P [of t] show ?thesis by (intro moved [of t]) (auto simp: tidy_Step)
  next
    case (dropped t g d f)
    with P [of t] show ?thesis by (intro moved [of t]) (auto simp: tidy_Step)
  next
    case (collect t r)
    with P [of t] show ?thesis by (intro moved [of t]) auto
  next
    case other
    show ?thesis
      unfolding pool_tidy_def fst_conv snd_conv other outside [OF other(2)] using P by simp
  qed
qed

lemma pool_tidy_reach:
  assumes "\<And>t p. start t p \<Longrightarrow> tidy H t False p False" "\<And>s s' u. outside s s' \<Longrightarrow> H u s' = H u s"
    and "\<And>u. \<not> H u s0" and "pool_reach outside start s0 c"
  shows "pool_tidy H c"
  using assms(4) unfolding pool_reach_def
proof (induction rule: rtranclp_induct)
  case (step c c')
  then show ?case using pool_tidy_step [OF assms(1,2)] by (metis prod.collapse)
qed (simp add: pool_tidy_def assms(3))

lemma pool_progress:
  assumes "\<And>t p. start t p \<Longrightarrow> tidy H t False p False" "\<And>s s' u. outside s s' \<Longrightarrow> H u s' = H u s"
    and "\<And>u. \<not> H u s0" and "pool_reach outside start s0 (s, P)"
  shows "(\<forall>t. H t s \<longrightarrow> (\<exists>g d f. P t = Some (Step g d f) \<and> g s))
    \<and> (\<forall>t g d f. P t = Some (Step g d f) \<longrightarrow> g s \<or> (\<exists>u. H u s))"
proof -
  have P: "case P t of None \<Rightarrow> \<not> H t s | Some p \<Rightarrow> tidy H t False p (H t s)" for t
    using pool_tidy_reach [OF assms] unfolding pool_tidy_def fst_conv snd_conv by blast
  have "\<exists>g d f. P t = Some (Step g d f) \<and> g s" if h: "H t s" for t
  proof (cases "P t")
    case (Some p)
    with P [of t] h show ?thesis by (cases p) (auto simp: tidy_Step)
  qed (use P [of t] h in simp)
  moreover have "g s \<or> (\<exists>u. H u s)" if "P t = Some (Step g d f)" for t g d f
    using P [of t] that by (auto simp: tidy_Step)
  ultimately show ?thesis by blast
qed

text \<open>Any task in flight can be run to its end, after the one that holds the lock.\<close>

lemma tidy_alone:
  assumes "tidy H t q p b" "H t s = b" "\<forall>u. u \<noteq> t \<longrightarrow> \<not> H u s"
  shows "clear p s \<and> H t (snd (run p s)) = q \<and> (\<forall>u. u \<noteq> t \<longrightarrow> \<not> H u (snd (run p s)))"
  using assms
proof (induction p arbitrary: b s rule: prog_induct)
  case (Step g d f)
  then have "g s" unfolding tidy_Step by metis
  with Step.prems have "tidy H t q (snd (f s)) (H t (fst (f s)))" "\<forall>u. u \<noteq> t \<longrightarrow> \<not> H u (fst (f s))"
    by (auto simp: tidy_Step)
  from Step.IH [OF this(1) refl this(2)] \<open>g s\<close> show ?case by (simp add: split_beta)
qed simp

lemma pool_finishes:
  assumes "\<And>t p. start t p \<Longrightarrow> tidy H t False p False" "\<And>s s' u. outside s s' \<Longrightarrow> H u s' = H u s"
    and "\<And>u. \<not> H u s0" "\<And>s u v. H u s \<Longrightarrow> H v s \<Longrightarrow> u = v"
    and "pool_reach outside start s0 (s, P)" "P t = Some p"
  shows "\<exists>s' P' r. (pool_step outside start)\<^sup>*\<^sup>* (s, P) (s', P') \<and> P' t = Some (Ret r)"
proof -
  have T: "case P u of None \<Rightarrow> \<not> H u s | Some p \<Rightarrow> tidy H u False p (H u s)" for u
    using pool_tidy_reach [OF assms(1-3,5)] unfolding pool_tidy_def fst_conv snd_conv by blast
  show ?thesis
  proof (cases "\<exists>u. u \<noteq> t \<and> H u s")
    case False
    from T [of t] assms(6) have "tidy H t False p (H t s)" by simp
    from tidy_alone [OF this refl] False have "clear p s" by blast
    from lone_run [where P = P and t = t, OF this assms(6)] show ?thesis by (intro exI conjI) (assumption, simp)
  next
    case True
    then obtain u where u: "u \<noteq> t" "H u s" by blast
    with T [of u] obtain q where q: "P u = Some q" "tidy H u False q (H u s)" by (cases "P u") auto
    have "\<forall>v. v \<noteq> u \<longrightarrow> \<not> H v s" using assms(4) u(2) by blast
    from tidy_alone [OF q(2) refl this] have c: "clear q s" "\<forall>v. \<not> H v (snd (run q s))" by auto
    let ?s = "snd (run q s)" and ?P = "P(u := Some (Ret (fst (run q s))))"
    note first = lone_run [where P = P and t = u and outside = outside and start = start, OF c(1) q(1)]
    have "\<not> H t s" using assms(4) u by blast
    with T [of t] assms(6) c(2) have "tidy H t False p (H t ?s)" by simp
    from tidy_alone [OF this refl] c(2) have "clear p ?s" by blast
    from lone_run [OF this, of ?P t outside start] assms(6) u(1) have
      "(pool_step outside start)\<^sup>*\<^sup>* (?s, ?P) (snd (run p ?s), ?P(t := Some (Ret (fst (run p ?s)))))" by simp
    from rtranclp_trans [OF first this] show ?thesis by (intro exI conjI) (assumption, simp)
  qed
qed

end
