(* ===== verification/Limit_Tasks.thy ===== *)
theory Limit_Tasks
  imports Rate_Limit Rust_Tasks
begin

text \<open>
  Concurrent rate-limit checks, \<open>src/src/rate_limit.rs\<close>: a check cut at the lock of the bucket map and at
  the bucket, which it reaches through an \<open>Arc\<close> after the lock was released. In between another task may
  charge the same bucket, or evict its entry.

  \<^item> \<open>slot\<close> names the six bucket maps. \<open>lw_cells\<close> (who a bucket was made for, and when) and \<open>lw_checks\<close>
    (the checks, oldest first) are history, one list per map.
  \<^item> Uninterrupted, the programs are \<open>limiter_check\<close> and \<open>init_check\<close> (\<open>run_limiter_prog\<close>, \<open>run_init_prog\<close>).
\<close>

datatype slot = BearerSlot category | SubSlot category | InitBearer | InitSub

record 't check_event =
  kv_task :: 't
  kv_key :: string
  kv_addr :: nat
  kv_at :: instant
  kv_ok :: bool

record ('q, 'b, 't) limits_world =
  lw_limiter :: "'b limiter"
  lw_initialize :: "('q, 'b) init_limiter"
  lw_now :: instant
  lw_cells :: "slot \<Rightarrow> (string \<times> instant) list"
  lw_checks :: "slot \<Rightarrow> 't check_event list"

fun slot_map :: "slot \<Rightarrow> ('q, 'b, 't) limits_world \<Rightarrow> 'b bucket_map" where
  "slot_map (BearerSlot c) w = bearer_map c (lw_limiter w)"
| "slot_map (SubSlot c) w = sub_map c (lw_limiter w)"
| "slot_map InitBearer w = il_bearer (lw_initialize w)"
| "slot_map InitSub w = il_sub (lw_initialize w)"

fun set_slot_map :: "slot \<Rightarrow> 'b bucket_map \<Rightarrow> ('q, 'b, 't) limits_world \<Rightarrow> ('q, 'b, 't) limits_world" where
  "set_slot_map (BearerSlot c) m w = w\<lparr>lw_limiter := set_bearer_map c m (lw_limiter w)\<rparr>"
| "set_slot_map (SubSlot c) m w = w\<lparr>lw_limiter := set_sub_map c m (lw_limiter w)\<rparr>"
| "set_slot_map InitBearer m w = w\<lparr>lw_initialize := (lw_initialize w)\<lparr>il_bearer := m\<rparr>\<rparr>"
| "set_slot_map InitSub m w = w\<lparr>lw_initialize := (lw_initialize w)\<lparr>il_sub := m\<rparr>\<rparr>"

fun slot_quota :: "('q, 'b) governor \<Rightarrow> slot \<Rightarrow> ('q, 'b, 't) limits_world \<Rightarrow> 'q" where
  "slot_quota G (BearerSlot c) w = gov_per_minute G (per_min c (lw_limiter w))"
| "slot_quota G (SubSlot c) w = gov_per_minute G (per_min c (lw_limiter w))"
| "slot_quota G InitBearer w = il_quota (lw_initialize w)"
| "slot_quota G InitSub w = il_quota (lw_initialize w)"

lemma slot_map_set [simp]: "slot_map i (set_slot_map j m w) = (if i = j then m else slot_map i w)"
  by (cases i; cases j) auto

lemma set_slot_fields [simp]:
  "lw_now (set_slot_map i m w) = lw_now w" "lw_cells (set_slot_map i m w) = lw_cells w"
  "lw_checks (set_slot_map i m w) = lw_checks w" "slot_quota G j (set_slot_map i m w) = slot_quota G j w"
  by (cases i; cases j; simp)+

lemma set_slot_set [simp]: "set_slot_map i m' (set_slot_map i m w) = set_slot_map i m' w"
  by (cases i) (auto simp: set_bearer_map_def set_sub_map_def split: category.splits)

lemma set_slot_ghost:
  "(set_slot_map i m w)\<lparr>lw_checks := y\<rparr> = set_slot_map i m (w\<lparr>lw_checks := y\<rparr>)"
  by (cases i) simp_all

lemma slot_map_ghost [simp]:
  "slot_map i (w\<lparr>lw_cells := x\<rparr>) = slot_map i w" "slot_map i (w\<lparr>lw_checks := y\<rparr>) = slot_map i w"
  "slot_map i (w\<lparr>lw_now := n\<rparr>) = slot_map i w"
  "slot_quota G i (w\<lparr>lw_cells := x\<rparr>) = slot_quota G i w" "slot_quota G i (w\<lparr>lw_checks := y\<rparr>) = slot_quota G i w"
  "slot_quota G i (w\<lparr>lw_now := n\<rparr>) = slot_quota G i w"
  by (cases i; simp)+

subsection \<open>The programs\<close>

definition get_step ::
  "('q, 'b) governor \<Rightarrow> slot \<Rightarrow> string \<Rightarrow> ('q, 'b, 't) limits_world \<Rightarrow> nat \<times> ('q, 'b, 't) limits_world" where
  "get_step G i key w =
     (let (addr, bm) = get_or_insert_with_quota G (lw_now w) key (slot_quota G i w) (slot_map i w);
          made = (if hm_get (bm_entries (slot_map i w)) key = None then [(key, lw_now w)] else [])
      in (addr, set_slot_map i bm (w\<lparr>lw_cells := (lw_cells w)(i := lw_cells w i @ made)\<rparr>)))"

definition check_step ::
  "('q, 'b) governor \<Rightarrow> 't \<Rightarrow> slot \<Rightarrow> string \<Rightarrow> nat \<Rightarrow> ('q, 'b, 't) limits_world \<Rightarrow> bool \<times> ('q, 'b, 't) limits_world" where
  "check_step G t i key addr w =
     (let (ok, bm) = bucket_check G (lw_now w) addr (slot_map i w);
          ev = \<lparr>kv_task = t, kv_key = key, kv_addr = addr, kv_at = lw_now w, kv_ok = ok\<rparr>
      in (ok, set_slot_map i bm (w\<lparr>lw_checks := (lw_checks w)(i := lw_checks w i @ [ev])\<rparr>)))"

definition charge_prog ::
  "('q, 'b) governor \<Rightarrow> 't \<Rightarrow> slot \<Rightarrow> string \<Rightarrow> (('q, 'b, 't) limits_world, bool) prog" where
  "charge_prog G t i key = bind_prog (act (get_step G i key)) (\<lambda>addr. act (check_step G t i key addr))"

definition limiter_prog ::
  "('q, 'b) governor \<Rightarrow> 't \<Rightarrow> string \<Rightarrow> string option \<Rightarrow> category \<Rightarrow> (('q, 'b, 't) limits_world, rate_limited + unit) prog" where
  "limiter_prog G t bearer_hash sub c =
     bind_prog (charge_prog G t (BearerSlot c) bearer_hash) (\<lambda>ok.
       if \<not> ok then Ret (Err RateLimited)
       else case sub of
           None \<Rightarrow> Ret (Ok ())
         | Some s \<Rightarrow>
             bind_prog (charge_prog G t (SubSlot c) s) (\<lambda>ok2.
               if \<not> ok2 then Ret (Err RateLimited) else Ret (Ok ())))"

definition init_prog ::
  "('q, 'b) governor \<Rightarrow> 't \<Rightarrow> string \<Rightarrow> string option \<Rightarrow> (('q, 'b, 't) limits_world, rejected_by + unit) prog" where
  "init_prog G t bearer_hash sub =
     (case sub of
        None \<Rightarrow> bind_prog (charge_prog G t InitBearer bearer_hash) (\<lambda>ok. Ret (if ok then Ok () else Err Bearer))
      | Some s \<Rightarrow> bind_prog (charge_prog G t InitSub s) (\<lambda>ok. Ret (if ok then Ok () else Err Subject)))"

subsection \<open>Uninterrupted, they are the checks\<close>

lemma run_charge_prog:
  "\<exists>cs ks. run (charge_prog G t i key) w =
     (fst (charge G (lw_now w) key (slot_quota G i w) (slot_map i w)),
      set_slot_map i (snd (charge G (lw_now w) key (slot_quota G i w) (slot_map i w))) (w\<lparr>lw_cells := cs, lw_checks := ks\<rparr>))"
proof -
  obtain addr bm where g: "get_or_insert_with_quota G (lw_now w) key (slot_quota G i w) (slot_map i w) = (addr, bm)"
    by fastforce
  obtain ok bm' where c: "bucket_check G (lw_now w) addr bm = (ok, bm')" by fastforce
  define made where "made = (if hm_get (bm_entries (slot_map i w)) key = None then [(key, lw_now w)] else [])"
  show ?thesis
    by (rule exI [of _ "(lw_cells w)(i := lw_cells w i @ made)"], rule exI)
      (simp add: charge_prog_def run_bind get_step_def check_step_def charge_def Let_def set_slot_ghost g c
        made_def [symmetric])
qed

lemma run_limiter_prog:
  assumes "run (limiter_prog G t h sub c) w = (r, w')"
  shows "limiter_check G (lw_now w) h sub c (lw_limiter w) = (r, lw_limiter w') \<and> lw_initialize w' = lw_initialize w
    \<and> lw_now w' = lw_now w"
proof -
  let ?q = "gov_per_minute G (per_min c (lw_limiter w))"
  obtain ok bm where b: "charge G (lw_now w) h ?q (bearer_map c (lw_limiter w)) = (ok, bm)" by fastforce
  obtain cs ks where r1: "run (charge_prog G t (BearerSlot c) h) w = (ok, set_slot_map (BearerSlot c) bm (w\<lparr>lw_cells := cs, lw_checks := ks\<rparr>))"
    using run_charge_prog [of G t "BearerSlot c" h w] b by auto
  show ?thesis
  proof (cases "ok \<and> sub \<noteq> None")
    case False
    with assms b r1 show ?thesis
      by (auto simp: limiter_prog_def run_bind limiter_check_charges Let_def split: option.splits)
  next
    case True
    then obtain s where s: "sub = Some s" by auto
    obtain ok2 sm where c: "charge G (lw_now w) s ?q (sub_map c (lw_limiter w)) = (ok2, sm)" by fastforce
    let ?w = "set_slot_map (BearerSlot c) bm (w\<lparr>lw_cells := cs, lw_checks := ks\<rparr>)"
    obtain cs2 ks2 where r2: "run (charge_prog G t (SubSlot c) s) ?w = (ok2, set_slot_map (SubSlot c) sm (?w\<lparr>lw_cells := cs2, lw_checks := ks2\<rparr>))"
      using run_charge_prog [of G t "SubSlot c" s ?w] c by auto
    from assms b r1 r2 c s True show ?thesis
      by (auto simp: limiter_prog_def run_bind limiter_check_charges Let_def split: if_splits)
  qed
qed

lemma run_init_prog:
  assumes "run (init_prog G t h sub) w = (r, w')"
  shows "init_check G (lw_now w) h sub (lw_initialize w) = (r, lw_initialize w') \<and> lw_limiter w' = lw_limiter w
    \<and> lw_now w' = lw_now w"
proof (cases sub)
  case None
  obtain cs ks where r: "run (charge_prog G t InitBearer h) w
      = (fst (charge G (lw_now w) h (il_quota (lw_initialize w)) (il_bearer (lw_initialize w))),
         set_slot_map InitBearer (snd (charge G (lw_now w) h (il_quota (lw_initialize w)) (il_bearer (lw_initialize w))))
           (w\<lparr>lw_cells := cs, lw_checks := ks\<rparr>))"
    using run_charge_prog [of G t InitBearer h w] by auto
  with assms None show ?thesis by (auto simp: init_prog_def init_check_def run_bind split_beta)
next
  case (Some s)
  obtain cs ks where r: "run (charge_prog G t InitSub s) w
      = (fst (charge G (lw_now w) s (il_quota (lw_initialize w)) (il_sub (lw_initialize w))),
         set_slot_map InitSub (snd (charge G (lw_now w) s (il_quota (lw_initialize w)) (il_sub (lw_initialize w))))
           (w\<lparr>lw_cells := cs, lw_checks := ks\<rparr>))"
    using run_charge_prog [of G t InitSub s w] by auto
  with assms Some show ?thesis by (auto simp: init_prog_def init_check_def run_bind split_beta)
qed

subsection \<open>One bucket map under interleaved checks\<close>

definition event_times :: "nat \<Rightarrow> 't check_event list \<Rightarrow> instant list" where
  "event_times a ks = map kv_at (filter (\<lambda>x. kv_addr x = a) ks)"

definition event_oks :: "nat \<Rightarrow> 't check_event list \<Rightarrow> bool list" where
  "event_oks a ks = map kv_ok (filter (\<lambda>x. kv_addr x = a) ks)"

text \<open>
  The entries point to buckets of their own keys; the checks are in time order, each on a bucket that
  existed and was made for its key; a bucket is what its checks made of it. While at most 4096 keys were
  seen, no bucket is ever forgotten: every key has one, and its entry.
\<close>

definition slot_ok ::
  "('q, 'b) governor \<Rightarrow> 'q \<Rightarrow> instant \<Rightarrow> instant \<Rightarrow> (string \<times> instant) list \<Rightarrow> 't check_event list \<Rightarrow> 'b bucket_map \<Rightarrow> bool" where
  "slot_ok G q t0 now cs ks m \<longleftrightarrow> bm_ok m \<and> length (bm_arena m) = length cs
     \<and> (\<forall>k e. hm_get (bm_entries m) k = Some e \<longrightarrow> fst (cs ! be_bucket e) = k)
     \<and> sorted (map kv_at ks)
     \<and> (\<forall>x \<in> set ks. kv_at x \<le> now \<and> kv_addr x < length cs \<and> kv_key x = fst (cs ! kv_addr x)
          \<and> snd (cs ! kv_addr x) \<le> kv_at x)
     \<and> (\<forall>c \<in> set cs. t0 \<le> snd c \<and> snd c \<le> now)
     \<and> (\<forall>a < length cs. replay G (gov_direct G q (snd (cs ! a))) (event_times a ks) = (event_oks a ks, bm_arena m ! a))
     \<and> (card (fst ` set cs) \<le> MAX_BUCKETS_PER_MAP \<longrightarrow>
          distinct (map fst cs) \<and> (\<forall>c \<in> set cs. hm_get (bm_entries m) (fst c) \<noteq> None))"

lemma slot_ok_start: "slot_ok G q t0 t0 [] [] empty_buckets"
  by (simp add: slot_ok_def) (simp add: empty_buckets_def)

lemma slot_ok_later: "slot_ok G q t0 now cs ks m \<Longrightarrow> now \<le> now' \<Longrightarrow> slot_ok G q t0 now' cs ks m"
  unfolding slot_ok_def by (meson order_trans)

lemma bm_ok_get:
  assumes "bm_ok m" "get_or_insert_with_quota G now key q m = (addr, m')"
  shows "bm_ok m' \<and> addr < length (bm_arena m')"
proof -
  have "bm_ok (snd (bucket_check G now addr m'))"
    using bm_ok_charge [OF assms(1), of G now key q] assms(2) by (simp add: charge_def)
  then have "bm_ok m'" by (simp add: bm_ok_def bucket_check_def split: prod.splits)
  moreover have "addr < length (bm_arena m')"
    using assms by (auto simp: get_or_insert_with_quota_def bm_ok_def Let_def split: option.splits)
  ultimately show ?thesis ..
qed

lemma slot_ok_get_miss:
  assumes ok: "slot_ok G q t0 now cs ks m" and t0: "t0 \<le> now" and none: "hm_get (bm_entries m) key = None"
    and g: "get_or_insert_with_quota G now key q m = (addr, m')"
  shows "slot_ok G q t0 now (cs @ [(key, now)]) ks m' \<and> addr = length cs"
proof -
  have m: "bm_ok m" "length (bm_arena m) = length cs" using ok by (simp_all add: slot_ok_def)
  have m': "bm_arena m' = bm_arena m @ [gov_direct G q now]" "addr = length cs"
    "bm_entries m' = admit now key (length cs) (bm_entries m)"
    using g none m(2) by (auto simp: get_or_insert_with_quota_def Let_def)
  have wf: "hm_wf (bm_entries m)" using m(1) by (simp add: bm_ok_def buckets.inv_def)
  have "fst ((cs @ [(key, now)]) ! be_bucket e) = k" if "hm_get (bm_entries m') k = Some e" for k e
  proof (cases "k = key")
    case True
    with that m'(3) buckets.get_ins_same [OF wf, of now key "length cs"] show ?thesis by auto
  next
    case False
    with buckets.get_ins_other [OF wf False] that m'(3) have "hm_get (bm_entries m) k = Some e" by simp
    with ok m show ?thesis by (auto simp: slot_ok_def bm_ok_def nth_append)
  qed
  moreover have "replay G (gov_direct G q (snd ((cs @ [(key, now)]) ! a))) (event_times a ks) = (event_oks a ks, bm_arena m' ! a)"
    if a: "a < length (cs @ [(key, now)])" for a
  proof (cases "a < length cs")
    case True
    with ok m(2) m'(1) show ?thesis by (simp add: slot_ok_def nth_append)
  next
    case False
    with a have "a = length cs" by simp
    moreover from this ok have "filter (\<lambda>x. kv_addr x = a) ks = []" by (auto simp: slot_ok_def filter_empty_conv)
    ultimately show ?thesis using m(2) m'(1) by (simp add: event_times_def event_oks_def nth_append)
  qed
  moreover have "distinct (map fst (cs @ [(key, now)])) \<and> (\<forall>c \<in> set (cs @ [(key, now)]). hm_get (bm_entries m') (fst c) \<noteq> None)"
    if few: "card (fst ` set (cs @ [(key, now)])) \<le> MAX_BUCKETS_PER_MAP"
  proof -
    let ?K = "fst ` set cs"
    have K: "finite ?K" "card (insert key ?K) \<le> MAX_BUCKETS_PER_MAP" using few by simp_all
    then have "card ?K \<le> MAX_BUCKETS_PER_MAP" using card_insert_le [of ?K key] by simp
    with ok have old: "distinct (map fst cs)" "\<forall>c \<in> set cs. hm_get (bm_entries m) (fst c) \<noteq> None"
      by (simp_all add: slot_ok_def)
    with none have new: "key \<notin> ?K" by auto
    have "{k. hm_get (bm_entries m) k \<noteq> None} \<subseteq> ?K"
    proof
      fix k assume "k \<in> {k. hm_get (bm_entries m) k \<noteq> None}"
      then obtain e where "hm_get (bm_entries m) k = Some e" by auto
      with ok m have "k = fst (cs ! be_bucket e)" "be_bucket e < length cs" by (auto simp: slot_ok_def bm_ok_def)
      then show "k \<in> ?K" by simp
    qed
    from card_mono [OF K(1) this] have "hm_len (bm_entries m) < MAX_BUCKETS_PER_MAP"
      using K new hm_len_card [OF wf] by simp
    then have "bm_entries m' = hm_insert key \<lparr>be_bucket = length cs, be_last_seen = now\<rparr> (bm_entries m)"
      by (simp add: m'(3) admit_def make_room_id)
    with old new show ?thesis by auto
  qed
  moreover have "bm_ok m'" using bm_ok_get [OF m(1) g] by simp
  moreover have "length (bm_arena m') = length (cs @ [(key, now)])" using m(2) m'(1) by simp
  moreover have "kv_addr x < length (cs @ [(key, now)]) \<and> kv_key x = fst ((cs @ [(key, now)]) ! kv_addr x)
      \<and> snd ((cs @ [(key, now)]) ! kv_addr x) \<le> kv_at x \<and> kv_at x \<le> now" if "x \<in> set ks" for x
    using ok that by (auto simp: slot_ok_def nth_append)
  moreover have "sorted (map kv_at ks)" "\<forall>c \<in> set (cs @ [(key, now)]). t0 \<le> snd c \<and> snd c \<le> now"
    using ok t0 by (auto simp: slot_ok_def)
  ultimately show ?thesis unfolding slot_ok_def m'(2) by blast
qed

lemma slot_ok_get_hit:
  assumes ok: "slot_ok G q t0 now cs ks m" and e: "hm_get (bm_entries m) key = Some e"
    and g: "get_or_insert_with_quota G now key q m = (addr, m')"
  shows "slot_ok G q t0 now cs ks m' \<and> addr < length cs \<and> fst (cs ! addr) = key"
proof -
  have m: "bm_ok m" "length (bm_arena m) = length cs" using ok by (simp_all add: slot_ok_def)
  have m': "m' = m\<lparr>bm_entries := hm_insert key (e\<lparr>be_last_seen := now\<rparr>) (bm_entries m)\<rparr>" "addr = be_bucket e"
    using g e by (auto simp: get_or_insert_with_quota_def)
  have "bm_ok m'" using bm_ok_get [OF m(1) g] by simp
  moreover have "addr < length cs" "fst (cs ! addr) = key" using ok e m by (auto simp: slot_ok_def bm_ok_def m'(2))
  ultimately show ?thesis using ok by (auto simp: slot_ok_def m')
qed

lemma slot_ok_get:
  assumes ok: "slot_ok G q t0 now cs ks m" and t0: "t0 \<le> now"
    and g: "get_or_insert_with_quota G now key q m = (addr, m')"
    and cs': "cs' = cs @ (if hm_get (bm_entries m) key = None then [(key, now)] else [])"
  shows "slot_ok G q t0 now cs' ks m' \<and> addr < length cs' \<and> fst (cs' ! addr) = key"
proof (cases "hm_get (bm_entries m) key")
  case None
  with slot_ok_get_miss [OF ok t0 None g] show ?thesis by (simp add: cs')
next
  case (Some e)
  with slot_ok_get_hit [OF ok Some g] show ?thesis by (simp add: cs')
qed

lemma slot_ok_check:
  assumes ok: "slot_ok G q t0 now cs ks m" and t0: "t0 \<le> now" and addr: "addr < length cs" "fst (cs ! addr) = key"
    and b: "bucket_check G now addr m = (r, m')"
    and x: "kv_key x = key" "kv_addr x = addr" "kv_at x = now" "kv_ok x = r"
  shows "slot_ok G q t0 now cs (ks @ [x]) m'"
proof -
  obtain b' where c: "gov_check G now (bm_arena m ! addr) = (r, b')" "m' = m\<lparr>bm_arena := (bm_arena m)[addr := b']\<rparr>"
    using b by (auto simp: bucket_check_def split: prod.splits)
  have len: "length (bm_arena m) = length cs" using ok by (simp add: slot_ok_def)
  have "replay G (gov_direct G q (snd (cs ! a))) (event_times a (ks @ [x])) = (event_oks a (ks @ [x]), bm_arena m' ! a)"
    if a: "a < length cs" for a
  proof -
    have r: "replay G (gov_direct G q (snd (cs ! a))) (event_times a ks) = (event_oks a ks, bm_arena m ! a)"
      using ok a by (simp add: slot_ok_def)
    show ?thesis
      using r c x a len by (cases "a = addr") (auto simp: event_times_def event_oks_def replay_snoc)
  qed
  moreover have "snd (cs ! addr) \<le> now" using ok addr(1) by (simp add: slot_ok_def)
  moreover have "bm_ok m" using ok by (simp add: slot_ok_def)
  then have "bm_ok m'" by (simp add: bm_ok_def c(2))
  ultimately show ?thesis
    using ok x addr by (auto simp: slot_ok_def c(2) sorted_append)
qed

context token_bucket
begin

text \<open>The quota of one key, however its checks are interleaved.\<close>

lemma slot_quota_bound:
  assumes ok: "slot_ok G q t0 now cs ks m" and few: "card (fst ` set cs) \<le> MAX_BUCKETS_PER_MAP"
  shows "length (filter (\<lambda>x. kv_ok x \<and> kv_key x = k) ks) * period q \<le> burst q * period q + (now - t0)"
proof (cases "k \<in> fst ` set cs")
  case False
  with ok have "filter (\<lambda>x. kv_ok x \<and> kv_key x = k) ks = []"
    by (auto simp: slot_ok_def filter_empty_conv)
  then show ?thesis by simp
next
  case True
  then obtain a where a: "a < length cs" "fst (cs ! a) = k" by (auto simp: in_set_conv_nth)
  have "distinct (map fst cs)" using ok few by (simp add: slot_ok_def)
  then have one: "kv_key x = k \<longleftrightarrow> kv_addr x = a" if "x \<in> set ks" for x
    using ok that a by (auto simp: slot_ok_def distinct_conv_nth)
  then have "length (filter (\<lambda>x. kv_ok x \<and> kv_key x = k) ks) = length (filter (\<lambda>ok. ok) (event_oks a ks))"
    by (auto simp: event_oks_def filter_map o_def intro!: arg_cong [of _ _ length] filter_cong)
  moreover have "event_oks a ks = fst (replay G (gov_direct G q (snd (cs ! a))) (event_times a ks))"
    using ok a by (simp add: slot_ok_def)
  moreover have "sorted (snd (cs ! a) # event_times a ks)"
    using ok by (auto simp: slot_ok_def event_times_def intro: sorted_filter)
  moreover have "last (snd (cs ! a) # event_times a ks) - snd (cs ! a) \<le> now - t0"
  proof -
    have "t0 \<le> snd (cs ! a)" "snd (cs ! a) \<le> now" using ok a by (auto simp: slot_ok_def)
    moreover have "\<forall>y \<in> set (event_times a ks). y \<le> now" using ok by (auto simp: slot_ok_def event_times_def)
    moreover have "last (y # ys) \<in> insert y (set ys)" for y :: instant and ys by simp
    ultimately show ?thesis by (metis diff_le_mono diff_le_mono2 insert_iff order_trans)
  qed
  ultimately show ?thesis using admitted [of "snd (cs ! a)" "event_times a ks" q] by simp
qed

end

subsection \<open>A pool of checks\<close>

text \<open>Task \<open>t\<close> makes the call \<open>calls t\<close>: a tool call's check, or that of a new session.\<close>

datatype limit_call = ToolCall string "string option" category | InitCall string "string option"

fun call_prog :: "('q, 'b) governor \<Rightarrow> 't \<Rightarrow> limit_call \<Rightarrow> (('q, 'b, 't) limits_world, bool) prog" where
  "call_prog G t (ToolCall h sub c) = bind_prog (limiter_prog G t h sub c) (\<lambda>r. Ret (is_ok r))"
| "call_prog G t (InitCall h sub) = bind_prog (init_prog G t h sub) (\<lambda>r. Ret (is_ok r))"

definition limit_spawn ::
  "('q, 'b) governor \<Rightarrow> ('t \<Rightarrow> limit_call) \<Rightarrow> 't \<Rightarrow> (('q, 'b, 't) limits_world, bool) prog \<Rightarrow> bool" where
  "limit_spawn G calls t p \<longleftrightarrow> p = call_prog G t (calls t)"

definition limits_start :: "instant \<Rightarrow> 'b limiter \<Rightarrow> ('q, 'b) init_limiter \<Rightarrow> ('q, 'b, 't) limits_world" where
  "limits_start t0 l il = \<lparr>lw_limiter = l, lw_initialize = il, lw_now = t0, lw_cells = (\<lambda>_. []), lw_checks = (\<lambda>_. [])\<rparr>"

definition clock_moves :: "('q, 'b, 't) limits_world \<Rightarrow> ('q, 'b, 't) limits_world \<Rightarrow> bool" where
  "clock_moves w w' \<longleftrightarrow> (\<exists>n \<ge> lw_now w. w' = w\<lparr>lw_now := n\<rparr>)"

definition passed :: "('q, 'b, 't) limits_world \<Rightarrow> 't \<Rightarrow> slot \<Rightarrow> string \<Rightarrow> bool" where
  "passed w t i k \<longleftrightarrow> (\<exists>x \<in> set (lw_checks w i). kv_task x = t \<and> kv_key x = k \<and> kv_ok x)"

definition passes :: "('q, 'b, 't) limits_world \<Rightarrow> slot \<Rightarrow> string \<Rightarrow> nat" where
  "passes w i k = length (filter (\<lambda>x. kv_ok x \<and> kv_key x = k) (lw_checks w i))"

text \<open>The buckets a call may charge, and those that must admit it.\<close>

fun charges :: "limit_call \<Rightarrow> slot \<Rightarrow> string \<Rightarrow> bool" where
  "charges (ToolCall h sub c) i k \<longleftrightarrow> i = BearerSlot c \<and> k = h \<or> i = SubSlot c \<and> sub = Some k"
| "charges (InitCall h sub) i k \<longleftrightarrow> i = InitBearer \<and> sub = None \<and> k = h \<or> i = InitSub \<and> sub = Some k"

definition admitted_by :: "('q, 'b, 't) limits_world \<Rightarrow> 't \<Rightarrow> limit_call \<Rightarrow> bool" where
  "admitted_by w t call \<longleftrightarrow> (\<forall>i k. charges call i k \<longrightarrow> passed w t i k)"

definition limits_fwd :: "('q, 'b, 't) limits_world \<Rightarrow> ('q, 'b, 't) limits_world \<Rightarrow> bool" where
  "limits_fwd w w' \<longleftrightarrow> lw_now w \<le> lw_now w'
     \<and> (\<forall>i. (\<exists>cs. lw_cells w' i = lw_cells w i @ cs) \<and> (\<exists>ks. lw_checks w' i = lw_checks w i @ ks))"

definition limits_inv ::
  "('q, 'b) governor \<Rightarrow> instant \<Rightarrow> (slot \<Rightarrow> 'q) \<Rightarrow> ('t \<Rightarrow> slot \<Rightarrow> string \<Rightarrow> bool) \<Rightarrow> ('q, 'b, 't) limits_world \<Rightarrow> bool" where
  "limits_inv G t0 qs may w \<longleftrightarrow> t0 \<le> lw_now w
     \<and> (\<forall>i. slot_quota G i w = qs i \<and> slot_ok G (qs i) t0 (lw_now w) (lw_cells w i) (lw_checks w i) (slot_map i w))
     \<and> (\<forall>i. \<forall>x \<in> set (lw_checks w i). may (kv_task x) i (kv_key x)
          \<and> (\<forall>c. i = SubSlot c \<longrightarrow> (\<exists>h. passed w (kv_task x) (BearerSlot c) h)))"

lemma limits_fwd_refl: "reflp limits_fwd"
  by (simp add: reflp_def limits_fwd_def)

lemma limits_fwd_trans: "transp limits_fwd"
  unfolding transp_def limits_fwd_def by (metis append.assoc le_trans)

lemma passed_fwd: "passed w t i k \<Longrightarrow> limits_fwd w w' \<Longrightarrow> passed w' t i k"
  unfolding passed_def limits_fwd_def by (metis Un_iff set_append)

lemma admitted_fwd: "admitted_by w t call \<Longrightarrow> limits_fwd w w' \<Longrightarrow> admitted_by w' t call"
  by (auto simp: admitted_by_def intro: passed_fwd)

lemma limits_inv_clock:
  assumes inv: "limits_inv G t0 qs may w" and "clock_moves w w'"
  shows "limits_inv G t0 qs may w' \<and> limits_fwd w w'"
proof -
  obtain n where n: "lw_now w \<le> n" "w' = w\<lparr>lw_now := n\<rparr>" using assms(2) by (auto simp: clock_moves_def)
  have "slot_ok G (qs i) t0 n (lw_cells w i) (lw_checks w i) (slot_map i w)" for i
    by (rule slot_ok_later [OF _ n(1)]) (use inv in \<open>simp add: limits_inv_def\<close>)
  with inv n show ?thesis by (simp add: limits_inv_def limits_fwd_def passed_def)
qed

abbreviation limits_safe where
  "limits_safe G t0 qs may \<equiv> safe (limits_inv G t0 qs may) limits_fwd limits_fwd"

text \<open>The bucket a task holds is one made for its key.\<close>

lemma get_step_inv:
  assumes inv: "limits_inv G t0 qs may w" and g: "get_step G i key w = (addr, w')"
  shows "limits_inv G t0 qs may w' \<and> limits_fwd w w' \<and> addr < length (lw_cells w' i) \<and> fst (lw_cells w' i ! addr) = key"
proof -
  define made where "made = (if hm_get (bm_entries (slot_map i w)) key = None then [(key, lw_now w)] else [])"
  obtain bm where c: "get_or_insert_with_quota G (lw_now w) key (slot_quota G i w) (slot_map i w) = (addr, bm)"
    and w': "w' = set_slot_map i bm (w\<lparr>lw_cells := (lw_cells w)(i := lw_cells w i @ made)\<rparr>)"
    using g by (auto simp: get_step_def made_def Let_def split: prod.splits)
  from inv have t0: "t0 \<le> lw_now w" and q: "slot_quota G i w = qs i"
    and ok: "slot_ok G (qs i) t0 (lw_now w) (lw_cells w i) (lw_checks w i) (slot_map i w)"
    by (simp_all add: limits_inv_def)
  note new = slot_ok_get [OF ok t0 c [unfolded q] refl, folded made_def]
  have "limits_fwd w w'" by (simp add: limits_fwd_def w')
  moreover have "limits_inv G t0 qs may w'"
    using inv new by (auto simp: limits_inv_def w' passed_def)
  ultimately show ?thesis using new by (simp add: w')
qed

lemma check_step_inv:
  assumes inv: "limits_inv G t0 qs may w" and addr: "addr < length (lw_cells w i)" "fst (lw_cells w i ! addr) = key"
    and ch: "may t i key" "\<forall>c. i = SubSlot c \<longrightarrow> (\<exists>h. passed w t (BearerSlot c) h)"
    and g: "check_step G t i key addr w = (ok, w')"
  shows "limits_inv G t0 qs may w' \<and> limits_fwd w w' \<and> (ok \<longrightarrow> passed w' t i key)"
proof -
  define x where "x = \<lparr>kv_task = t, kv_key = key, kv_addr = addr, kv_at = lw_now w, kv_ok = ok\<rparr>"
  obtain bm where c: "bucket_check G (lw_now w) addr (slot_map i w) = (ok, bm)"
    and w': "w' = set_slot_map i bm (w\<lparr>lw_checks := (lw_checks w)(i := lw_checks w i @ [x])\<rparr>)"
    using g by (auto simp: check_step_def x_def Let_def split: prod.splits)
  from inv have t0: "t0 \<le> lw_now w"
    and ok: "slot_ok G (qs i) t0 (lw_now w) (lw_cells w i) (lw_checks w i) (slot_map i w)"
    by (simp_all add: limits_inv_def)
  have new: "slot_ok G (qs i) t0 (lw_now w) (lw_cells w i) (lw_checks w i @ [x]) bm"
    by (rule slot_ok_check [OF ok t0 addr c]) (simp_all add: x_def)
  have fwd: "limits_fwd w w'" by (simp add: limits_fwd_def w')
  moreover have "may (kv_task y) j (kv_key y) \<and> (\<forall>c. j = SubSlot c \<longrightarrow> (\<exists>h. passed w' (kv_task y) (BearerSlot c) h))"
    if "y \<in> set (lw_checks w' j)" for j y
  proof (cases "y \<in> set (lw_checks w j)")
    case True
    with inv passed_fwd [OF _ fwd] show ?thesis unfolding limits_inv_def by blast
  next
    case False
    with that have "j = i" "y = x" by (auto simp: w' split: if_splits)
    moreover have "\<exists>h. passed w' t (BearerSlot c) h" if "i = SubSlot c" for c
      using ch(2) that passed_fwd [OF _ fwd] by blast
    ultimately show ?thesis using ch(1) by (simp add: x_def)
  qed
  then have "limits_inv G t0 qs may w'"
    using inv new by (auto simp: limits_inv_def w')
  ultimately show ?thesis by (auto simp: w' passed_def x_def)
qed

lemma charge_prog_safe:
  fixes s :: "('q, 'b, 't) limits_world"
  assumes "may t i key" "\<forall>c. i = SubSlot c \<longrightarrow> (\<exists>h. passed s t (BearerSlot c) h)"
  shows "limits_safe G t0 qs may (\<lambda>ok v. ok \<longrightarrow> passed v t i key) (charge_prog G t i key) s"
  unfolding charge_prog_def
proof (rule safe_bind [where Q = "\<lambda>addr v. addr < length (lw_cells v i) \<and> fst (lw_cells v i ! addr) = key
    \<and> (\<forall>c. i = SubSlot c \<longrightarrow> (\<exists>h. passed v t (BearerSlot c) h))"])
  show "limits_safe G t0 qs may (\<lambda>addr v. addr < length (lw_cells v i) \<and> fst (lw_cells v i ! addr) = key
      \<and> (\<forall>c. i = SubSlot c \<longrightarrow> (\<exists>h. passed v t (BearerSlot c) h))) (act (get_step G i key)) s"
  proof (rule safe_act)
    fix v a v' assume v: "limits_fwd s v" "limits_inv G t0 qs may v" "get_step G i key v = (a, v')"
    from get_step_inv [OF v(2,3)] have n: "limits_inv G t0 qs may v'" "limits_fwd v v'" "a < length (lw_cells v' i)"
      "fst (lw_cells v' i ! a) = key" by simp_all
    moreover have "\<forall>c. i = SubSlot c \<longrightarrow> (\<exists>h. passed v' t (BearerSlot c) h)"
      using assms(2) passed_fwd [OF passed_fwd [OF _ v(1)] n(2)] by blast
    ultimately show "limits_inv G t0 qs may v' \<and> limits_fwd v v' \<and> a < length (lw_cells v' i) \<and> fst (lw_cells v' i ! a) = key
        \<and> (\<forall>c. i = SubSlot c \<longrightarrow> (\<exists>h. passed v' t (BearerSlot c) h))" by blast
  qed (use limits_fwd_refl in \<open>auto simp: reflp_def\<close>)
next
  fix addr and v :: "('q, 'b, 't) limits_world"
  assume a: "addr < length (lw_cells v i) \<and> fst (lw_cells v i ! addr) = key
    \<and> (\<forall>c. i = SubSlot c \<longrightarrow> (\<exists>h. passed v t (BearerSlot c) h))"
  show "limits_safe G t0 qs may (\<lambda>ok v. ok \<longrightarrow> passed v t i key) (act (check_step G t i key addr)) v"
  proof (rule safe_act)
    fix u r u' assume u: "limits_fwd v u" "limits_inv G t0 qs may u" "check_step G t i key addr u = (r, u')"
    obtain cs where cs: "lw_cells u i = lw_cells v i @ cs" using u(1) by (auto simp: limits_fwd_def)
    have "\<forall>c. i = SubSlot c \<longrightarrow> (\<exists>h. passed u t (BearerSlot c) h)" using a passed_fwd [OF _ u(1)] by blast
    with a cs show "limits_inv G t0 qs may u' \<and> limits_fwd u u' \<and> (r \<longrightarrow> passed u' t i key)"
      by (intro check_step_inv [OF u(2) _ _ assms(1) _ u(3)]) (auto simp: nth_append)
  qed (use limits_fwd_refl in \<open>auto simp: reflp_def\<close>)
qed

lemma limiter_prog_safe:
  fixes s :: "('q, 'b, 't) limits_world"
  assumes "may t (BearerSlot c) h" "\<And>k. sub = Some k \<Longrightarrow> may t (SubSlot c) k"
  shows "limits_safe G t0 qs may (\<lambda>r v. is_ok r \<longrightarrow> passed v t (BearerSlot c) h
    \<and> (\<forall>k. sub = Some k \<longrightarrow> passed v t (SubSlot c) k)) (limiter_prog G t h sub c) s"
  (is "limits_safe G t0 qs may ?Q _ s")
  unfolding limiter_prog_def
proof (rule safe_bind [OF charge_prog_safe])
  fix ok and v :: "('q, 'b, 't) limits_world"
  assume v: "ok \<longrightarrow> passed v t (BearerSlot c) h"
  have "limits_safe G t0 qs may ?Q
      (bind_prog (charge_prog G t (SubSlot c) k) (\<lambda>ok2. if \<not> ok2 then Ret (Err RateLimited) else Ret (Ok ()))) v"
    if "ok" "sub = Some k" for k
  proof (rule safe_bind)
    show "limits_safe G t0 qs may (\<lambda>ok v. (ok \<longrightarrow> passed v t (SubSlot c) k) \<and> passed v t (BearerSlot c) h)
        (charge_prog G t (SubSlot c) k) v"
      by (rule safe_frame [OF charge_prog_safe]) (use v that assms(2) in \<open>auto intro: passed_fwd\<close>)
  qed (use that in auto)
  then show "limits_safe G t0 qs may ?Q
      (if \<not> ok then Ret (Err RateLimited) else case sub of None \<Rightarrow> Ret (Ok ())
       | Some s \<Rightarrow> bind_prog (charge_prog G t (SubSlot c) s) (\<lambda>ok2. if \<not> ok2 then Ret (Err RateLimited) else Ret (Ok ()))) v"
    using v by (cases sub) auto
qed (simp_all add: assms(1))

lemma init_prog_safe:
  fixes s :: "('q, 'b, 't) limits_world"
  assumes "case sub of None \<Rightarrow> may t InitBearer h | Some k \<Rightarrow> may t InitSub k"
  shows "limits_safe G t0 qs may (\<lambda>r v. is_ok r \<longrightarrow> (case sub of None \<Rightarrow> passed v t InitBearer h | Some k \<Rightarrow> passed v t InitSub k))
    (init_prog G t h sub) s"
proof (cases sub)
  case None
  show ?thesis
    unfolding init_prog_def None option.case
    by (rule safe_bind [OF charge_prog_safe]) (use assms None in auto)
next
  case (Some k)
  show ?thesis
    unfolding init_prog_def Some option.case
    by (rule safe_bind [OF charge_prog_safe]) (use assms Some in auto)
qed

lemma call_prog_safe:
  fixes s :: "('q, 'b, 't) limits_world"
  shows "limits_safe G t0 qs (\<lambda>t. charges (calls t)) (\<lambda>ok v. ok \<longrightarrow> admitted_by v t (calls t)) (call_prog G t (calls t)) s"
proof (cases "calls t")
  case (ToolCall h sub c)
  then show ?thesis
    by (auto intro!: safe_bind [OF limiter_prog_safe] simp: admitted_by_def)
next
  case (InitCall h sub)
  then show ?thesis
    by (auto intro!: safe_bind [OF init_prog_safe] simp: admitted_by_def split: option.splits)
qed

subsection \<open>Every reachable state\<close>

definition quota_of :: "('q, 'b) governor \<Rightarrow> 'b limiter \<Rightarrow> ('q, 'b) init_limiter \<Rightarrow> slot \<Rightarrow> 'q" where
  "quota_of G l il i = (case i of BearerSlot c \<Rightarrow> gov_per_minute G (per_min c l)
     | SubSlot c \<Rightarrow> gov_per_minute G (per_min c l) | _ \<Rightarrow> il_quota il)"

lemma limits_inv_start:
  assumes "limiter_new reads writes = Some l" "il = init_limiter_new G per burst"
  shows "limits_inv G t0 (quota_of G l il) may (limits_start t0 l il :: ('q, 'b, 't) limits_world)"
proof -
  let ?s = "limits_start t0 l il :: ('q, 'b, 't) limits_world"
  have "slot_map i ?s = empty_buckets" for i
    using limiter_new_maps [OF assms(1)] assms(2)
    by (cases i) (simp_all add: limits_start_def init_limiter_new_def Let_def)
  moreover have "slot_quota G i ?s = quota_of G l il i" for i
    by (cases i) (simp_all add: quota_of_def limits_start_def)
  ultimately show ?thesis by (simp add: limits_inv_def limits_start_def slot_ok_start)
qed

lemma limits_pool_safe:
  fixes w :: "('q, 'b, 't) limits_world" and P :: "'t \<Rightarrow> (('q, 'b, 't) limits_world, bool) prog option"
  assumes "limiter_new reads writes = Some l" "il = init_limiter_new G per burst"
    and "pool_reach clock_moves (limit_spawn G calls) (limits_start t0 l il) (w, P)"
  shows "limits_inv G t0 (quota_of G l il) (\<lambda>t. charges (calls t)) w
    \<and> (\<forall>t. P t = Some (Ret True) \<longrightarrow> admitted_by w t (calls t))"
proof -
  have "pool_safe (limits_inv G t0 (quota_of G l il) (\<lambda>t. charges (calls t))) (\<lambda>_. limits_fwd) (\<lambda>_. limits_fwd)
      (\<lambda>t ok v. ok \<longrightarrow> admitted_by v t (calls t)) (w, P)"
  proof (rule pool_invariant [where outside = clock_moves and start = "limit_spawn G calls", OF _ _ _ _ _ _ assms(3)])
    show "limits_inv G t0 (quota_of G l il) (\<lambda>t. charges (calls t)) (limits_start t0 l il :: ('q, 'b, 't) limits_world)"
      by (rule limits_inv_start [OF assms(1,2)])
    show "limits_inv G t0 (quota_of G l il) (\<lambda>t. charges (calls t)) v' \<and> limits_fwd v v'"
      if "clock_moves v v'" "limits_inv G t0 (quota_of G l il) (\<lambda>t. charges (calls t)) v" for t :: 't and v v' :: "('q, 'b, 't) limits_world"
      using limits_inv_clock [OF that(2,1)] .
  qed (use limits_fwd_refl limits_fwd_trans call_prog_safe in \<open>auto simp: limit_spawn_def\<close>)
  note pool = this
  have "admitted_by w t (calls t)" if "P t = Some (Ret True)" for t
  proof -
    from pool that obtain v where "limits_fwd v w" "admitted_by v t (calls t)"
      unfolding pool_safe_def fst_conv snd_conv by fastforce
    then show ?thesis by (rule admitted_fwd [rotated])
  qed
  with pool show ?thesis by (simp add: pool_safe_def)
qed

subsection \<open>A sample run\<close>

lemma never_waits_call: "never_waits (call_prog G t call)"
  by (cases call) (auto simp: limiter_prog_def init_prog_def charge_prog_def
      intro!: quiet_bind quiet_act split: option.splits)

definition sample_calls :: "nat \<Rightarrow> limit_call" where
  "sample_calls t = (if t = 0 then ToolCall ''b'' (Some ''u'') Read else InitCall ''b'' (Some ''u''))"

definition sample_limiter :: "gcra_bucket limiter" where
  "sample_limiter = the (limiter_new 1 1)"

lemma sample_limiter: "limiter_new 1 1 = Some sample_limiter"
  by (simp add: sample_limiter_def limiter_new_def)

abbreviation sample_initialize :: "(gcra_quota, gcra_bucket) init_limiter" where
  "sample_initialize \<equiv> init_limiter_new gcra INITIALIZE_REPLENISH MAX_INITIALIZES_PER_IDENTITY"

lemma first_charge:
  assumes "slot_map i w = empty_buckets"
  shows "\<exists>w'. run (charge_prog gcra t i key) w = (True, w') \<and> lw_now w' = lw_now w
    \<and> lw_cells w' = (lw_cells w)(i := lw_cells w i @ [(key, lw_now w)]) \<and> (\<forall>j. j \<noteq> i \<longrightarrow> slot_map j w' = slot_map j w)"
proof -
  have ok: "fst (gov_check gcra now (gov_direct gcra q now))" for q now
    by (simp add: gcra_def gcra_check_def)
  have none: "hm_get (bm_entries empty_buckets) key = None" "bm_arena empty_buckets = []"
    by (simp_all add: empty_buckets_def)
  show ?thesis
    using ok
    by (auto simp: charge_prog_def run_bind get_step_def check_step_def bucket_check_def get_or_insert_with_quota_def
        assms none Let_def split: prod.splits) (metis fst_conv)+
qed

lemma sample_call:
  fixes t :: nat
  assumes "t < 2"
  shows "\<exists>w P. pool_reach clock_moves (limit_spawn gcra sample_calls) (limits_start 5 sample_limiter sample_initialize) (w, P)
    \<and> P t = Some (Ret True) \<and> lw_now w = 5
    \<and> (t = 0 \<longrightarrow> lw_cells w (SubSlot Read) = [(''u'', 5)] \<and> lw_cells w (BearerSlot Read) = [(''b'', 5)])
    \<and> (t = 1 \<longrightarrow> lw_cells w InitSub = [(''u'', 5)])"
proof -
  let ?w = "limits_start 5 sample_limiter sample_initialize :: (gcra_quota, gcra_bucket, nat) limits_world"
  let ?p = "call_prog gcra t (sample_calls t)"
  have empty: "slot_map i ?w = empty_buckets" for i
    using limiter_new_maps [OF sample_limiter] by (cases i) (simp_all add: limits_start_def init_limiter_new_def Let_def)
  have none: "lw_cells ?w = (\<lambda>_. [])" "lw_now ?w = 5" by (simp_all add: limits_start_def)
  have "clear ?p ?w" by (rule never_waits_clear [OF never_waits_call])
  from lone_task [OF _ this, of "limit_spawn gcra sample_calls" t clock_moves]
  have reach: "pool_reach clock_moves (limit_spawn gcra sample_calls) ?w (snd (run ?p ?w), [t \<mapsto> Ret (fst (run ?p ?w))])"
    by (simp add: limit_spawn_def)
  obtain w1 where w1: "run (charge_prog gcra t (BearerSlot Read) ''b'') ?w = (True, w1)" "lw_now w1 = 5"
    "lw_cells w1 = (\<lambda>_. [])(BearerSlot Read := [(''b'', 5)])" "\<forall>j. j \<noteq> BearerSlot Read \<longrightarrow> slot_map j w1 = empty_buckets"
    using first_charge [OF empty, of t "BearerSlot Read" "''b''"] none empty by auto
  then have sub: "slot_map (SubSlot Read) w1 = empty_buckets" by blast
  obtain w2 where w2: "run (charge_prog gcra t (SubSlot Read) ''u'') w1 = (True, w2)" "lw_now w2 = 5"
    "lw_cells w2 = (lw_cells w1)(SubSlot Read := [(''u'', 5)])"
    using first_charge [OF sub, of t "''u''"] w1 by auto
  obtain w3 where w3: "run (charge_prog gcra t InitSub ''u'') ?w = (True, w3)" "lw_now w3 = 5"
    "lw_cells w3 = (\<lambda>_. [])(InitSub := [(''u'', 5)])"
    using first_charge [OF empty, of t InitSub "''u''"] none by auto
  consider "t = 0" | "t = 1" using assms by linarith
  then show ?thesis
  proof cases
    case 1
    with w1 w2 have "run ?p ?w = (True, w2)" by (simp add: sample_calls_def limiter_prog_def run_bind)
    with reach 1 w1 w2 show ?thesis by (intro exI [of _ w2] exI [of _ "[t \<mapsto> Ret True]"]) simp
  next
    case 2
    with w3 have "run ?p ?w = (True, w3)" by (simp add: sample_calls_def init_prog_def run_bind)
    with reach 2 w3 show ?thesis by (intro exI [of _ w3] exI [of _ "[t \<mapsto> Ret True]"]) simp
  qed
qed

subsection \<open>Properties\<close>

text \<open>
  C8: the quotas hold when checks overlap. Any number of tool calls' and new sessions' checks run at once,
  interleaved at every lock and every bucket, while the clock only goes forward. As long as at most 4096
  keys were seen in a map (beyond that a new key evicts the idle buckets or the oldest one, and an evicted
  key starts again with a full bucket), the checks one subject's (one bearer's) buckets of a category passed are at most
  the per-minute quota plus one per \<open>60 s / quota\<close> elapsed; and a call that was admitted passed
  a check of its bearer's bucket, and one of its subject's.
\<close>

theorem limits_hold_concurrently:
  fixes w :: "('q, 'b, 't) limits_world" and P :: "'t \<Rightarrow> (('q, 'b, 't) limits_world, bool) prog option"
  assumes "token_bucket G period burst" "limiter_new reads writes = Some l"
    and "pool_reach clock_moves (limit_spawn G calls)
           (limits_start t0 l (init_limiter_new G INITIALIZE_REPLENISH MAX_INITIALIZES_PER_IDENTITY)) (w, P)"
    and "n = (case c of Read \<Rightarrow> reads | Write \<Rightarrow> writes)"
  shows "(card (fst ` set (lw_cells w (SubSlot c))) \<le> 4096 \<longrightarrow>
      passes w (SubSlot c) s * (secs 60 div n) \<le> n * (secs 60 div n) + (lw_now w - t0))
    \<and> (card (fst ` set (lw_cells w (BearerSlot c))) \<le> 4096 \<longrightarrow>
      passes w (BearerSlot c) b * (secs 60 div n) \<le> n * (secs 60 div n) + (lw_now w - t0))
    \<and> (\<forall>t h sub. P t = Some (Ret True) \<and> calls t = ToolCall h sub c \<longrightarrow>
          passed w t (BearerSlot c) h \<and> (\<forall>k. sub = Some k \<longrightarrow> passed w t (SubSlot c) k))"
proof -
  let ?il = "init_limiter_new G INITIALIZE_REPLENISH MAX_INITIALIZES_PER_IDENTITY"
  let ?q = "gov_per_minute G n"
  note pool = limits_pool_safe [OF assms(2) refl assms(3)]
  have n: "per_min c l = n" "0 < n" using limiter_new_maps [OF assms(2), of c] assms(4) by auto
  have q: "period ?q = secs 60 div n" "burst ?q = n" using token_bucket.per_minute [OF assms(1) n(2)] by auto
  have slot: "slot_ok G (quota_of G l ?il i) t0 (lw_now w) (lw_cells w i) (lw_checks w i) (slot_map i w)" for i
    using pool by (simp add: limits_inv_def)
  have "passes w (SubSlot c) s * period ?q \<le> burst ?q * period ?q + (lw_now w - t0)"
    if "card (fst ` set (lw_cells w (SubSlot c))) \<le> 4096"
    using token_bucket.slot_quota_bound [OF assms(1) slot [of "SubSlot c"]] that n(1)
    by (simp add: passes_def quota_of_def MAX_BUCKETS_PER_MAP_def)
  moreover have "passes w (BearerSlot c) b * period ?q \<le> burst ?q * period ?q + (lw_now w - t0)"
    if "card (fst ` set (lw_cells w (BearerSlot c))) \<le> 4096"
    using token_bucket.slot_quota_bound [OF assms(1) slot [of "BearerSlot c"]] that n(1)
    by (simp add: passes_def quota_of_def MAX_BUCKETS_PER_MAP_def)
  moreover have "passed w t (BearerSlot c) h \<and> (\<forall>k. sub = Some k \<longrightarrow> passed w t (SubSlot c) k)"
    if "P t = Some (Ret True) \<and> calls t = ToolCall h sub c" for t h sub
    using conjunct2 [OF pool, rule_format, of t] that by (simp add: admitted_by_def)
  ultimately show ?thesis unfolding q by blast
qed

theorem limits_hold_concurrently_witness:
  "\<exists>w P. pool_reach clock_moves (limit_spawn gcra sample_calls) (limits_start 5 sample_limiter sample_initialize) (w, P)
     \<and> P 0 = Some (Ret True) \<and> passed w 0 (BearerSlot Read) ''b'' \<and> passed w 0 (SubSlot Read) ''u''
     \<and> passes w (SubSlot Read) ''u'' * secs 60 \<le> secs 60"
proof -
  obtain w P where r: "pool_reach clock_moves (limit_spawn gcra sample_calls) (limits_start 5 sample_limiter sample_initialize) (w, P)"
    "P 0 = Some (Ret True)" "lw_now w = 5" "lw_cells w (SubSlot Read) = [(''u'', 5)]" "lw_cells w (BearerSlot Read) = [(''b'', 5)]"
    using sample_call [of 0] by auto
  from limits_hold_concurrently [OF gcra.token_bucket_axioms sample_limiter r(1), of 1 Read "''u''" "''b''"] r
  have "passed w 0 (BearerSlot Read) ''b'' \<and> passed w 0 (SubSlot Read) ''u''
     \<and> passes w (SubSlot Read) ''u'' * secs 60 \<le> secs 60"
    by (simp add: sample_calls_def)
  with r show ?thesis by blast
qed

text \<open>
  C27: memory stays bounded and no bucket is mistaken, when checks overlap. Each of the six maps holds at
  most 4096 buckets at every moment; its entries point to buckets that exist, no two to the same one,
  and each to one made for its key; every check was made on a bucket made for the key it was for.
\<close>

theorem limiter_maps_bounded_concurrently:
  fixes w :: "('q, 'b, 't) limits_world" and P :: "'t \<Rightarrow> (('q, 'b, 't) limits_world, bool) prog option"
  assumes "limiter_new reads writes = Some l" "il = init_limiter_new G replenish_1_per brst"
    and "pool_reach clock_moves (limit_spawn G calls) (limits_start t0 l il) (w, P)"
  shows "hm_len (bm_entries (slot_map i w)) \<le> 4096
    \<and> (\<forall>k e. hm_get (bm_entries (slot_map i w)) k = Some e \<longrightarrow>
          be_bucket e < length (bm_arena (slot_map i w)) \<and> fst (lw_cells w i ! be_bucket e) = k)
    \<and> (\<forall>x \<in> set (lw_checks w i). kv_addr x < length (bm_arena (slot_map i w))
          \<and> fst (lw_cells w i ! kv_addr x) = kv_key x \<and> charges (calls (kv_task x)) i (kv_key x))"
proof -
  have inv: "limits_inv G t0 (quota_of G l il) (\<lambda>t. charges (calls t)) w" using limits_pool_safe [OF assms] by simp
  then have slot: "slot_ok G (quota_of G l il i) t0 (lw_now w) (lw_cells w i) (lw_checks w i) (slot_map i w)"
    by (simp add: limits_inv_def)
  then have m: "bm_ok (slot_map i w)" "length (bm_arena (slot_map i w)) = length (lw_cells w i)"
    by (simp_all add: slot_ok_def)
  then have "buckets.inv (bm_entries (slot_map i w))" by (simp add: bm_ok_def)
  then have "hm_len (bm_entries (slot_map i w)) \<le> 4096" unfolding buckets.inv_def by (simp add: MAX_BUCKETS_PER_MAP_def)
  moreover have "be_bucket e < length (bm_arena (slot_map i w)) \<and> fst (lw_cells w i ! be_bucket e) = k"
    if "hm_get (bm_entries (slot_map i w)) k = Some e" for k e
    using that m(1) slot by (auto simp: bm_ok_def slot_ok_def)
  moreover have "kv_addr x < length (bm_arena (slot_map i w))
      \<and> fst (lw_cells w i ! kv_addr x) = kv_key x \<and> charges (calls (kv_task x)) i (kv_key x)"
    if "x \<in> set (lw_checks w i)" for x
    using that inv slot m(2) by (auto simp: limits_inv_def slot_ok_def)
  ultimately show ?thesis by blast
qed

theorem limiter_maps_bounded_concurrently_witness:
  "\<exists>w P. pool_reach clock_moves (limit_spawn gcra sample_calls) (limits_start 5 sample_limiter sample_initialize) (w, P)
     \<and> P 0 = Some (Ret True) \<and> hm_len (bm_entries (slot_map (SubSlot Read) w)) \<le> 4096"
proof -
  obtain w P where r: "pool_reach clock_moves (limit_spawn gcra sample_calls) (limits_start 5 sample_limiter sample_initialize) (w, P)"
    "P 0 = Some (Ret True)" using sample_call [of 0] by auto
  from limiter_maps_bounded_concurrently [OF sample_limiter refl r(1), of "SubSlot Read"] r show ?thesis by blast
qed

text \<open>
  C28: as long as at most 4096 keys were seen in the map, session creation is held to 32 in a burst and one
  per minute after that, for each subject, and for each bearer of requests without one, when checks overlap;
  beyond 4096 keys an evicted key starts again with a full bucket. However many there were, a check with a subject charges that subject's bucket
  only, one without its bearer's only; and a request that was admitted passed the check it made.
\<close>

theorem initialize_quota_concurrently:
  fixes w :: "('q, 'b, 't) limits_world" and P :: "'t \<Rightarrow> (('q, 'b, 't) limits_world, bool) prog option"
  assumes "token_bucket G period burst" "limiter_new reads writes = Some l"
    and "pool_reach clock_moves (limit_spawn G calls)
           (limits_start t0 l (init_limiter_new G INITIALIZE_REPLENISH MAX_INITIALIZES_PER_IDENTITY)) (w, P)"
    and "i \<in> {InitBearer, InitSub}"
  shows "(card (fst ` set (lw_cells w i)) \<le> 4096 \<longrightarrow> passes w i k * secs 60 \<le> 32 * secs 60 + (lw_now w - t0))
    \<and> (\<forall>x \<in> set (lw_checks w InitSub). \<exists>h. calls (kv_task x) = InitCall h (Some (kv_key x)))
    \<and> (\<forall>x \<in> set (lw_checks w InitBearer). calls (kv_task x) = InitCall (kv_key x) None)
    \<and> (\<forall>t h sub. P t = Some (Ret True) \<and> calls t = InitCall h sub \<longrightarrow>
          (case sub of None \<Rightarrow> passed w t InitBearer h | Some s \<Rightarrow> passed w t InitSub s))"
proof -
  let ?il = "init_limiter_new G INITIALIZE_REPLENISH MAX_INITIALIZES_PER_IDENTITY"
  note pool = limits_pool_safe [OF assms(2) refl assms(3)]
  have q: "period (il_quota ?il) = secs 60" "burst (il_quota ?il) = 32"
    using token_bucket.init_quota [OF assms(1)] by auto
  have slot: "slot_ok G (quota_of G l ?il i) t0 (lw_now w) (lw_cells w i) (lw_checks w i) (slot_map i w)"
    using pool by (simp add: limits_inv_def)
  have "passes w i k * secs 60 \<le> 32 * secs 60 + (lw_now w - t0)" if "card (fst ` set (lw_cells w i)) \<le> 4096"
    using token_bucket.slot_quota_bound [OF assms(1) slot] that assms(4) q
    by (auto simp: passes_def quota_of_def MAX_BUCKETS_PER_MAP_def)
  moreover have charged: "charges (calls (kv_task x)) j (kv_key x)" if "x \<in> set (lw_checks w j)" for x j
    using pool that by (simp add: limits_inv_def)
  have "\<exists>h. calls (kv_task x) = InitCall h (Some (kv_key x))" if "x \<in> set (lw_checks w InitSub)" for x
    using charged [OF that] by (cases "calls (kv_task x)") auto
  moreover have "calls (kv_task x) = InitCall (kv_key x) None" if "x \<in> set (lw_checks w InitBearer)" for x
    using charged [OF that] by (cases "calls (kv_task x)") auto
  moreover have "case sub of None \<Rightarrow> passed w t InitBearer h | Some s \<Rightarrow> passed w t InitSub s"
    if "P t = Some (Ret True) \<and> calls t = InitCall h sub" for t h sub
    using conjunct2 [OF pool, rule_format, of t] that by (cases sub) (simp_all add: admitted_by_def)
  ultimately show ?thesis by blast
qed

theorem initialize_quota_concurrently_witness:
  "\<exists>w P. pool_reach clock_moves (limit_spawn gcra sample_calls) (limits_start 5 sample_limiter sample_initialize) (w, P)
     \<and> P 1 = Some (Ret True) \<and> passed w 1 InitSub ''u'' \<and> passes w InitSub ''u'' * secs 60 \<le> 32 * secs 60"
proof -
  obtain w P where r: "pool_reach clock_moves (limit_spawn gcra sample_calls) (limits_start 5 sample_limiter sample_initialize) (w, P)"
    "P 1 = Some (Ret True)" "lw_now w = 5" "lw_cells w InitSub = [(''u'', 5)]"
    using sample_call [of 1] by auto
  note all = initialize_quota_concurrently [OF gcra.token_bucket_axioms sample_limiter r(1), of InitSub "''u''"]
  from all r(3,4) have "passes w InitSub ''u'' * secs 60 \<le> 32 * secs 60" by simp
  moreover from all have "\<forall>t h sub. P t = Some (Ret True) \<and> sample_calls t = InitCall h sub \<longrightarrow>
      (case sub of None \<Rightarrow> passed w t InitBearer h | Some s \<Rightarrow> passed w t InitSub s)" by simp
  from this [rule_format, of 1 "''b''" "Some ''u''"] r(2) have "passed w 1 InitSub ''u''"
    by (simp add: sample_calls_def)
  ultimately show ?thesis using r by blast
qed

end
