(* ===== verification/Web_Types.thy ===== *)
theory Web_Types
  imports Rust_Str
begin

text \<open>
  The third-party types several components share.

  \<^item> \<open>url_view\<close> is what the service reads of a parsed \<open>url::Url\<close>; parsing is an argument of type
    \<open>url_parser\<close> of the definitions that parse, \<open>None\<close> when \<open>Url::parse\<close> fails.
  \<^item> \<open>http_response\<close> is an \<open>axum\<close> response: a status, headers with lower-case names, a body.
  \<^item> \<open>anyhow\<close> errors are their outermost message.
\<close>

record url_view =
  u_scheme :: string
  u_host :: "string option"
  u_path :: string
  u_query :: "string option"
  u_fragment :: "string option"
  u_username :: string
  u_password :: "string option"

type_synonym url_parser = "string \<Rightarrow> url_view option"

type_synonym anyhow = string

record http_response =
  rs_status :: nat
  rs_headers :: "(string \<times> string) list"
  rs_body :: string

definition header_of :: "string \<Rightarrow> http_response \<Rightarrow> string option" where
  "header_of name r = map_of (rs_headers r) name"

text \<open>\<open>(StatusCode, &'static str).into_response()\<close>\<close>

definition plain_response :: "nat \<Rightarrow> string \<Rightarrow> http_response" where
  "plain_response status body =
     \<lparr>rs_status = status, rs_headers = [(''content-type'', ''text/plain; charset=utf-8'')], rs_body = body\<rparr>"

text \<open>\<open>Redirect::to(uri)\<close>: 303 See Other.\<close>

definition redirect_to :: "string \<Rightarrow> http_response" where
  "redirect_to uri = \<lparr>rs_status = 303, rs_headers = [(''location'', uri)], rs_body = []\<rparr>"

text \<open>A bare \<open>StatusCode\<close>, and the 405 of a route that has no handler for the method.\<close>

definition empty_response :: "nat \<Rightarrow> http_response" where
  "empty_response status = \<lparr>rs_status = status, rs_headers = [], rs_body = []\<rparr>"

definition method_not_allowed :: "string \<Rightarrow> http_response" where
  "method_not_allowed allow = \<lparr>rs_status = 405, rs_headers = [(''allow'', allow)], rs_body = []\<rparr>"

lemma response_simps [simp]:
  "rs_status (plain_response c b) = c" "rs_status (redirect_to u) = 303"
  "header_of ''location'' (redirect_to u) = Some u"
  "header_of ''location'' (plain_response c b) = None"
  "rs_status (empty_response c) = c" "header_of n (empty_response c) = None"
  "rs_status (method_not_allowed a) = 405" "header_of ''location'' (method_not_allowed a) = None"
  by (simp_all add: plain_response_def redirect_to_def header_of_def empty_response_def method_not_allowed_def)

lemma plain_response_inj [simp]: "plain_response c b = plain_response d e \<longleftrightarrow> c = d \<and> b = e"
  by (auto simp: plain_response_def)

lemma plain_response_not_redirect [simp]: "plain_response c b \<noteq> redirect_to u"
  by (simp add: plain_response_def redirect_to_def)

text \<open>A list without duplicates, the first of each kept: \<open>if !v.contains(x) { v.push(x) }\<close>.\<close>

definition push_new :: "'a list \<Rightarrow> 'a \<Rightarrow> 'a list" where
  "push_new v x = (if x \<in> set v then v else v @ [x])"

lemma foldl_push_new:
  "distinct v \<Longrightarrow> distinct (foldl push_new v xs) \<and> set (foldl push_new v xs) = set v \<union> set xs"
  by (induction xs arbitrary: v) (auto simp: push_new_def)

end
