(* ===== verification/Oauth_Redirect.thy ===== *)
theory Oauth_Redirect
  imports Web_Types
begin

text \<open>
  Redirect URI validation for the OAuth proxy and the registration shim,
  \<open>src/src/oauth_redirect.rs\<close>. \<open>Url::parse\<close> is the argument \<open>P\<close>; nothing is assumed of it.
\<close>

definition is_loopback_host :: "string \<Rightarrow> bool" where
  "is_loopback_host host \<longleftrightarrow> host \<in> {''localhost'', ''127.0.0.1'', ''[::1]'', ''::1''}"

definition validate_redirect_uri :: "url_parser \<Rightarrow> string \<Rightarrow> string \<Rightarrow> anyhow + unit" where
  "validate_redirect_uri P uri key =
     (if trim uri \<noteq> uri \<or> uri = []
      then Err (key @ '' entries must be non-empty absolute URLs without surrounding whitespace'')
      else and_then (ok_or (P uri) (''invalid '' @ key @ '' redirect URI: '' @ uri)) (\<lambda>url.
        and_then
          (if u_scheme url = ''https''
           then (if u_host url = None then Err (key @ '' https entries must include a host: '' @ uri)
                 else Ok ())
           else if u_scheme url = ''http''
           then (let host = (case u_host url of Some h \<Rightarrow> h | None \<Rightarrow> []) in
                 if \<not> is_loopback_host host
                 then Err (key @ '' http entries are only allowed on loopback hosts (localhost, 127.0.0.1, [::1]): '' @ uri)
                 else Ok ())
           else (if u_scheme url = [] then Err (key @ '' entries must have a scheme: '' @ uri) else Ok ()))
          (\<lambda>_.
        if u_fragment url \<noteq> None
        then Err (key @ '' entries must not contain URI fragments: '' @ uri)
        else if u_username url \<noteq> [] \<or> u_password url \<noteq> None
        then Err (key @ '' entries must not contain user info: '' @ uri)
        else Ok ())))"

fun allowlist_loop :: "url_parser \<Rightarrow> string \<Rightarrow> string list \<Rightarrow> string list \<Rightarrow> anyhow + string list" where
  "allowlist_loop P key [] uris = Ok uris"
| "allowlist_loop P key (uri # rest) uris =
     and_then (validate_redirect_uri P uri key) (\<lambda>_. allowlist_loop P key rest (push_new uris uri))"

definition allowlist_entries :: "string \<Rightarrow> string list" where
  "allowlist_entries raw = filter (\<lambda>u. u \<noteq> []) (map trim (split_on (CHR '','') raw))"

definition parse_allowlist :: "url_parser \<Rightarrow> string \<Rightarrow> string \<Rightarrow> anyhow + string list" where
  "parse_allowlist P raw key =
     and_then (allowlist_loop P key (allowlist_entries raw) []) (\<lambda>uris.
       if uris = [] then Err (key @ '' must contain at least one redirect URI'') else Ok uris)"

definition same_loopback :: "url_parser \<Rightarrow> url_view \<Rightarrow> string \<Rightarrow> string \<Rightarrow> bool" where
  "same_loopback P candidate host entry =
     (case P entry of
        None \<Rightarrow> False
      | Some e \<Rightarrow> u_scheme e = ''http'' \<and> u_host e = Some host
          \<and> u_path e = u_path candidate \<and> u_query e = u_query candidate)"

definition matches_loopback_entry :: "url_parser \<Rightarrow> string list \<Rightarrow> string \<Rightarrow> bool" where
  "matches_loopback_entry P allowed uri =
     (case P uri of
        None \<Rightarrow> False
      | Some candidate \<Rightarrow>
          if u_scheme candidate \<noteq> ''http'' then False
          else (case u_host candidate of
              None \<Rightarrow> False
            | Some host \<Rightarrow> is_loopback_host host \<and> list_ex (same_loopback P candidate host) allowed))"

definition is_allowed_redirect_uri :: "url_parser \<Rightarrow> string list \<Rightarrow> string \<Rightarrow> bool" where
  "is_allowed_redirect_uri P allowed uri =
     (if \<not> is_ok (validate_redirect_uri P uri ''redirect_uri'') then False
      else if list_ex (\<lambda>e. e = uri) allowed then True
      else matches_loopback_entry P allowed uri)"

lemma validate_ok:
  "is_ok (validate_redirect_uri P uri key) \<longleftrightarrow>
     trim uri = uri \<and> uri \<noteq> [] \<and> (\<exists>u. P uri = Some u
       \<and> (u_scheme u = ''https'' \<longrightarrow> u_host u \<noteq> None)
       \<and> (u_scheme u = ''http'' \<longrightarrow> is_loopback_host (case u_host u of Some h \<Rightarrow> h | None \<Rightarrow> []))
       \<and> u_scheme u \<noteq> [] \<and> u_fragment u = None \<and> u_username u = [] \<and> u_password u = None)"
  by (cases "P uri") (auto simp: validate_redirect_uri_def Let_def)

lemma allowlist_loop_Ok:
  "allowlist_loop P key us acc = Ok uris \<longleftrightarrow>
     list_all (\<lambda>u. is_ok (validate_redirect_uri P u key)) us \<and> uris = foldl push_new acc us"
proof (induction us arbitrary: acc)
  case (Cons u us)
  then show ?case by (cases "validate_redirect_uri P u key") auto
qed auto

lemma foldl_push_new_Nil: "foldl push_new [] us = [] \<longleftrightarrow> us = []"
  using foldl_push_new [of "[]" us] by (metis distinct.simps(1) empty_set set_empty Un_empty_left)

text \<open>What the allowlist parser accepts.\<close>

lemma parse_allowlist_Ok:
  "parse_allowlist P raw key = Ok uris \<longleftrightarrow>
     allowlist_entries raw \<noteq> [] \<and> uris = foldl push_new [] (allowlist_entries raw)
     \<and> list_all (\<lambda>u. is_ok (validate_redirect_uri P u key)) (allowlist_entries raw)"
  by (auto simp: parse_allowlist_def and_then_Ok allowlist_loop_Ok foldl_push_new_Nil)

subsection \<open>Properties\<close>

text \<open>
  C23: what a client may be redirected to. An accepted URI parses, has no fragment and no user
  info, is on a loopback host if it is cleartext http, and is an allowlist entry byte for byte,
  the one exception being an http loopback URI that differs from an http entry in its port only:
  same host, same path, same query. An https or private-use URI is always an entry itself.
\<close>

theorem allowed_redirect_sound:
  assumes "is_allowed_redirect_uri P allowed uri"
  shows "\<exists>u. P uri = Some u \<and> u_fragment u = None \<and> u_username u = [] \<and> u_password u = None
     \<and> (u_scheme u = ''https'' \<longrightarrow> u_host u \<noteq> None)
     \<and> (u_scheme u = ''http'' \<longrightarrow> (\<exists>h. u_host u = Some h \<and> is_loopback_host h))
     \<and> (u_scheme u \<noteq> ''http'' \<longrightarrow> uri \<in> set allowed)
     \<and> (uri \<notin> set allowed \<longrightarrow> (\<exists>entry \<in> set allowed. \<exists>e. P entry = Some e \<and> u_scheme e = ''http''
           \<and> u_host e = u_host u \<and> u_path e = u_path u \<and> u_query e = u_query u))"
proof -
  have v: "is_ok (validate_redirect_uri P uri ''redirect_uri'')"
    and m: "uri \<in> set allowed \<or> matches_loopback_entry P allowed uri"
    using assms by (auto simp: is_allowed_redirect_uri_def list_ex_iff split: if_splits)
  from v obtain u where u: "P uri = Some u" "u_scheme u = ''https'' \<longrightarrow> u_host u \<noteq> None"
    "u_scheme u = ''http'' \<longrightarrow> is_loopback_host (case u_host u of Some h \<Rightarrow> h | None \<Rightarrow> [])"
    "u_fragment u = None" "u_username u = []" "u_password u = None"
    by (auto simp: validate_ok)
  have "u_scheme u = ''http'' \<longrightarrow> (\<exists>h. u_host u = Some h \<and> is_loopback_host h)"
    using u(3) by (cases "u_host u") (auto simp: is_loopback_host_def)
  with u m show ?thesis
    by (auto simp: matches_loopback_entry_def same_loopback_def list_ex_iff split: option.splits if_splits)
qed

definition sample_parser :: url_parser where
  "sample_parser s =
     (if s = ''http://localhost:1/cb'' \<or> s = ''http://localhost:52831/cb''
      then Some \<lparr>u_scheme = ''http'', u_host = Some ''localhost'', u_path = ''/cb'', u_query = None,
                 u_fragment = None, u_username = [], u_password = None\<rparr>
      else if s = ''https://claude.ai/cb''
      then Some \<lparr>u_scheme = ''https'', u_host = Some ''claude.ai'', u_path = ''/cb'', u_query = None,
                 u_fragment = None, u_username = [], u_password = None\<rparr>
      else None)"

lemma sample_trim: "trim ''http://localhost:52831/cb'' = ''http://localhost:52831/cb''"
  "trim ''https://claude.ai/cb'' = ''https://claude.ai/cb''"
  "trim ''http://localhost:1/cb'' = ''http://localhost:1/cb''"
  by (rule trim_graphic; simp add: graphic_def code_def)+

lemma sample_allowed:
  "is_allowed_redirect_uri sample_parser [''http://localhost:1/cb''] ''http://localhost:52831/cb''"
  by (simp add: is_allowed_redirect_uri_def validate_ok sample_trim matches_loopback_entry_def
      same_loopback_def sample_parser_def is_loopback_host_def)

theorem allowed_redirect_sound_witness:
  "\<exists>u. sample_parser ''http://localhost:52831/cb'' = Some u \<and> (\<exists>h. u_host u = Some h \<and> is_loopback_host h)
     \<and> u_fragment u = None"
  using allowed_redirect_sound [OF sample_allowed] by (auto simp: sample_parser_def)

text \<open>
  The configured allowlist. It is accepted exactly when it has an entry and every entry is
  valid; the result has every entry once, in order of first appearance, and the proxy then accepts
  each of them.
\<close>

theorem allowlist_entries_accepted:
  assumes "parse_allowlist P raw key = Ok uris"
  shows "uris \<noteq> [] \<and> distinct uris \<and> set uris = set (allowlist_entries raw)
     \<and> (\<forall>u \<in> set uris. is_allowed_redirect_uri P uris u)"
proof -
  from assms have r: "allowlist_entries raw \<noteq> []" "uris = foldl push_new [] (allowlist_entries raw)"
    "list_all (\<lambda>u. is_ok (validate_redirect_uri P u key)) (allowlist_entries raw)"
    by (auto simp: parse_allowlist_Ok)
  with foldl_push_new [of "[]" "allowlist_entries raw"] foldl_push_new_Nil [of "allowlist_entries raw"]
  have s: "uris \<noteq> []" "distinct uris" "set uris = set (allowlist_entries raw)" by auto
  with r(3) have "\<forall>u \<in> set uris. is_ok (validate_redirect_uri P u ''redirect_uri'')"
    by (simp add: list_all_iff validate_ok)
  with s show ?thesis by (auto simp: is_allowed_redirect_uri_def list_ex_iff)
qed

theorem allowlist_entries_accepted_witness:
  "\<exists>uris. parse_allowlist sample_parser ''https://claude.ai/cb'' ''K'' = Ok uris
     \<and> set uris = {''https://claude.ai/cb''}"
proof -
  have e: "allowlist_entries ''https://claude.ai/cb'' = [''https://claude.ai/cb'']"
    by (simp add: allowlist_entries_def sample_trim)
  have "parse_allowlist sample_parser ''https://claude.ai/cb'' ''K'' = Ok [''https://claude.ai/cb'']"
    by (simp add: parse_allowlist_Ok e push_new_def validate_ok sample_trim sample_parser_def)
  from this allowlist_entries_accepted [OF this] e show ?thesis by auto
qed

end
