(* ===== verification/Config_Env.thy ===== *)
theory Config_Env
  imports Oauth_Redirect "HOL-Library.List_Lexorder" "HOL-Library.Char_ord"
begin

text \<open>
  Process configuration, \<open>src/src/config.rs\<close>, with \<open>mcp_resource\<close> of
  \<open>src/src/oauth_metadata.rs\<close>, which it calls.

  The environment is a function from names to \<open>env_value\<close>, the three outcomes of
  \<open>std::env::var\<close>. Socket and IP addresses are the standard library's, of an abstract type \<open>'a\<close>:
  the record \<open>addr_ops\<close> holds the three operations used, and nothing is assumed of them.
\<close>

datatype env_value = NotPresent | NotUnicode | EnvVal string

type_synonym environment = "string \<Rightarrow> env_value"

definition env_ok :: "env_value \<Rightarrow> string option" where
  "env_ok v = (case v of EnvVal s \<Rightarrow> Some s | _ \<Rightarrow> None)"

record 'a addr_ops =
  ao_parse :: "string \<Rightarrow> 'a option"
  ao_loopback_metrics :: 'a
  ao_ip_is_loopback :: "string \<Rightarrow> bool"

definition ENV_RESOURCE_URL :: string where "ENV_RESOURCE_URL = ''CARDDAV_MCP_RESOURCE_URL''"
definition ENV_AUTH_SERVER_URL :: string where "ENV_AUTH_SERVER_URL = ''CARDDAV_MCP_AUTHORIZATION_SERVER''"
definition ENV_STALWART_DAV_BASE_URL :: string where
  "ENV_STALWART_DAV_BASE_URL = ''CARDDAV_MCP_STALWART_DAV_BASE_URL''"
definition ENV_BIND_ADDR :: string where "ENV_BIND_ADDR = ''CARDDAV_MCP_BIND_ADDR''"
definition ENV_METRICS_BIND_ADDR :: string where "ENV_METRICS_BIND_ADDR = ''CARDDAV_MCP_METRICS_BIND_ADDR''"
definition ENV_POD_IP :: string where "ENV_POD_IP = ''POD_IP''"
definition ENV_DCR_CLIENT_ID :: string where "ENV_DCR_CLIENT_ID = ''CARDDAV_MCP_DCR_CLIENT_ID''"
definition ENV_RATE_LIMIT_READS :: string where "ENV_RATE_LIMIT_READS = ''CARDDAV_MCP_RATE_LIMIT_READS_PER_MIN''"
definition ENV_RATE_LIMIT_WRITES :: string where "ENV_RATE_LIMIT_WRITES = ''CARDDAV_MCP_RATE_LIMIT_WRITES_PER_MIN''"
definition ENV_DAV_MAX_RESPONSE_BYTES :: string where
  "ENV_DAV_MAX_RESPONSE_BYTES = ''CARDDAV_MCP_DAV_MAX_RESPONSE_BYTES''"
definition ENV_TRUSTED_PROXY_HOPS :: string where "ENV_TRUSTED_PROXY_HOPS = ''CARDDAV_MCP_TRUSTED_PROXY_HOPS''"
definition ENV_STALWART_CONNECT_IP :: string where "ENV_STALWART_CONNECT_IP = ''CARDDAV_MCP_STALWART_CONNECT_IP''"
definition ENV_STALWART_AUDIENCE :: string where "ENV_STALWART_AUDIENCE = ''CARDDAV_MCP_STALWART_AUDIENCE''"
definition ENV_OAUTH_REDIRECT_URIS :: string where "ENV_OAUTH_REDIRECT_URIS = ''CARDDAV_MCP_OAUTH_REDIRECT_URIS''"

definition DEFAULT_RATE_LIMIT_READS :: nat where "DEFAULT_RATE_LIMIT_READS = 60"
definition DEFAULT_RATE_LIMIT_WRITES :: nat where "DEFAULT_RATE_LIMIT_WRITES = 30"
definition DEFAULT_DAV_MAX_RESPONSE_BYTES :: nat where "DEFAULT_DAV_MAX_RESPONSE_BYTES = 8 * 1024 * 1024"
definition DEFAULT_TRUSTED_PROXY_HOPS :: nat where "DEFAULT_TRUSTED_PROXY_HOPS = 2"

record 'a config =
  cf_resource_url :: string
  cf_authorization_server :: string
  cf_stalwart_dav_base_url :: string
  cf_bind_addr :: 'a
  cf_metrics_bind_addr :: 'a
  cf_rate_limit_reads_per_min :: nat
  cf_rate_limit_writes_per_min :: nat
  cf_dav_max_response_bytes :: nat
  cf_trusted_proxy_hops :: nat
  cf_stalwart_connect_ip :: "string option"
  cf_dcr_client_id :: "string option"
  cf_oauth_redirect_uris :: "string list"
  cf_stalwart_audience :: string

subsection \<open>URLs\<close>

definition is_absolute_http_uri :: "url_parser \<Rightarrow> string \<Rightarrow> bool" where
  "is_absolute_http_uri P url =
     (if trim url \<noteq> url \<or> has_whitespace url then False
      else case P url of
          None \<Rightarrow> False
        | Some parsed \<Rightarrow> (u_scheme parsed = ''https'' \<or> u_scheme parsed = ''http'')
            \<and> u_host parsed \<noteq> None \<and> u_username parsed = [] \<and> u_password parsed = None
            \<and> u_fragment parsed = None)"

definition eq_ignore_ascii_case :: "string \<Rightarrow> string \<Rightarrow> bool" where
  "eq_ignore_ascii_case a b \<longleftrightarrow> to_ascii_uppercase a = to_ascii_uppercase b"

definition cfg_loopback_host :: "'a addr_ops \<Rightarrow> string \<Rightarrow> bool" where
  "cfg_loopback_host A host \<longleftrightarrow> eq_ignore_ascii_case host ''localhost''
     \<or> ao_ip_is_loopback A (trim_end_matches (CHR '']'') (trim_start_matches (CHR ''['') host))"

definition validate_url :: "url_parser \<Rightarrow> 'a addr_ops \<Rightarrow> string \<Rightarrow> string \<Rightarrow> anyhow + unit" where
  "validate_url P A url key =
     (if \<not> is_absolute_http_uri P url
      then Err (key @ '' must be an absolute http(s) URL, got: '' @ url)
      else and_then (ok_or (P url) (''invalid '' @ key @ '': '' @ url)) (\<lambda>parsed.
        if u_scheme parsed = ''http''
           \<and> \<not> cfg_loopback_host A (case u_host parsed of Some h \<Rightarrow> h | None \<Rightarrow> [])
        then Err (key @ '' must use https except for loopback development URLs, got: '' @ url)
        else Ok ()))"

definition strip_trailing_slash :: "string \<Rightarrow> string" where
  "strip_trailing_slash s = trim_end_matches (CHR ''/'') s"

definition mcp_resource :: "string \<Rightarrow> string" where
  "mcp_resource resource_url = trim_end_matches (CHR ''/'') resource_url @ ''/mcp''"

subsection \<open>Reading the environment\<close>

definition require_env :: "environment \<Rightarrow> string \<Rightarrow> anyhow + string" where
  "require_env env key = ok_or (env_ok (env key)) (''required env var '' @ key @ '' is not set'')"

definition parse_rate_limit :: "environment \<Rightarrow> string \<Rightarrow> nat \<Rightarrow> anyhow + nat" where
  "parse_rate_limit env key dflt =
     (case env_ok (env key) of
        None \<Rightarrow> Ok dflt
      | Some raw \<Rightarrow> and_then (ok_or (parse_uint 32 (trim raw)) (key @ '' must be a positive integer, got: '' @ raw))
          (\<lambda>v. if v = 0 then Err (key @ '' must be > 0'') else Ok v))"

definition parse_u64_env :: "environment \<Rightarrow> string \<Rightarrow> nat \<Rightarrow> anyhow + nat" where
  "parse_u64_env env key dflt =
     (case env_ok (env key) of
        None \<Rightarrow> Ok dflt
      | Some raw \<Rightarrow> ok_or (parse_uint 64 (trim raw)) (key @ '' must be a non-negative integer, got: '' @ raw))"

definition parse_redirect_uris_env :: "url_parser \<Rightarrow> environment \<Rightarrow> anyhow + string list" where
  "parse_redirect_uris_env P env =
     (case env ENV_OAUTH_REDIRECT_URIS of
        EnvVal raw \<Rightarrow> parse_allowlist P raw ENV_OAUTH_REDIRECT_URIS
      | NotPresent \<Rightarrow> Ok []
      | NotUnicode \<Rightarrow> Err (''invalid '' @ ENV_OAUTH_REDIRECT_URIS))"

definition parse_trusted_proxy_hops :: "environment \<Rightarrow> anyhow + nat" where
  "parse_trusted_proxy_hops env =
     (case env_ok (env ENV_TRUSTED_PROXY_HOPS) of
        None \<Rightarrow> Ok DEFAULT_TRUSTED_PROXY_HOPS
      | Some raw \<Rightarrow> ok_or (parse_uint 64 (trim raw))
          (ENV_TRUSTED_PROXY_HOPS @ '' must be a non-negative integer, got: '' @ raw))"

definition resolve_metrics_bind_addr ::
  "'a addr_ops \<Rightarrow> string option \<Rightarrow> string option \<Rightarrow> anyhow + 'a" where
  "resolve_metrics_bind_addr A explicit_addr pod_ip =
     (let addr_str = (case explicit_addr of Some a \<Rightarrow> a
            | None \<Rightarrow> (case pod_ip of None \<Rightarrow> ''127.0.0.1:9090'' | Some ip \<Rightarrow> ip @ '':9090''))
      in ok_or (ao_parse A addr_str) (''invalid '' @ ENV_METRICS_BIND_ADDR @ '': '' @ addr_str))"

subsection \<open>The configuration\<close>

definition config_new ::
  "url_parser \<Rightarrow> 'a addr_ops \<Rightarrow> string \<Rightarrow> string \<Rightarrow> string \<Rightarrow> 'a \<Rightarrow> anyhow + 'a config" where
  "config_new P A resource authz dav bind_addr =
     (let resource_url = strip_trailing_slash resource;
          authorization_server = strip_trailing_slash authz;
          stalwart_dav_base_url = strip_trailing_slash dav in
      and_then (validate_url P A resource_url ENV_RESOURCE_URL) (\<lambda>_.
      and_then (validate_url P A authorization_server ENV_AUTH_SERVER_URL) (\<lambda>_.
      and_then (validate_url P A stalwart_dav_base_url ENV_STALWART_DAV_BASE_URL) (\<lambda>_.
        Ok \<lparr>cf_resource_url = resource_url, cf_authorization_server = authorization_server,
            cf_stalwart_dav_base_url = stalwart_dav_base_url, cf_bind_addr = bind_addr,
            cf_metrics_bind_addr = ao_loopback_metrics A,
            cf_rate_limit_reads_per_min = DEFAULT_RATE_LIMIT_READS,
            cf_rate_limit_writes_per_min = DEFAULT_RATE_LIMIT_WRITES,
            cf_dav_max_response_bytes = DEFAULT_DAV_MAX_RESPONSE_BYTES,
            cf_trusted_proxy_hops = DEFAULT_TRUSTED_PROXY_HOPS,
            cf_stalwart_connect_ip = None, cf_dcr_client_id = None, cf_oauth_redirect_uris = [],
            cf_stalwart_audience = resource_url\<rparr>))))"

definition accepted_token_audiences :: "'a config \<Rightarrow> string list" where
  "accepted_token_audiences cfg =
     remdups_adj (sort [cf_resource_url cfg, mcp_resource (cf_resource_url cfg), cf_stalwart_audience cfg])"

definition env_nonblank :: "environment \<Rightarrow> string \<Rightarrow> string option" where
  "env_nonblank env key =
     (case env_ok (env key) of Some s \<Rightarrow> (if trim s \<noteq> [] then Some s else None) | None \<Rightarrow> None)"

text \<open>\<open>{raw:?}\<close>, without the escapes Rust writes for the characters that need them.\<close>

definition debug_str :: "string \<Rightarrow> string" where
  "debug_str s = [QUOT] @ s @ [QUOT]"

definition audience_from_env :: "url_parser \<Rightarrow> environment \<Rightarrow> string \<Rightarrow> anyhow + string" where
  "audience_from_env P env resource_url =
     (case map_option trim (env_nonblank env ENV_STALWART_AUDIENCE) of
        Some raw \<Rightarrow>
          if raw = ''stalwart'' \<or> \<not> is_absolute_http_uri P raw
          then Err (ENV_STALWART_AUDIENCE
                 @ '' must be an absolute http(s) URI (RFC 8707 resource indicator); got ''
                 @ debug_str raw @ ''. Do not use the bare string '' @ [QUOT] @ ''stalwart'' @ [QUOT] @ ''.'')
          else Ok (strip_trailing_slash raw)
      | None \<Rightarrow> Ok resource_url)"

definition config_from_env :: "url_parser \<Rightarrow> 'a addr_ops \<Rightarrow> environment \<Rightarrow> anyhow + 'a config" where
  "config_from_env P A env =
     and_then (require_env env ENV_RESOURCE_URL) (\<lambda>resource_url.
     and_then (require_env env ENV_AUTH_SERVER_URL) (\<lambda>authorization_server.
     and_then (require_env env ENV_STALWART_DAV_BASE_URL) (\<lambda>stalwart_dav_base_url.
     let bind_addr_str = (case env_ok (env ENV_BIND_ADDR) of Some a \<Rightarrow> a | None \<Rightarrow> ''0.0.0.0:3000'') in
     and_then (ok_or (ao_parse A bind_addr_str) (''invalid '' @ ENV_BIND_ADDR @ '': '' @ bind_addr_str)) (\<lambda>bind_addr.
     and_then (resolve_metrics_bind_addr A (env_ok (env ENV_METRICS_BIND_ADDR)) (env_ok (env ENV_POD_IP))) (\<lambda>metrics.
     and_then (config_new P A resource_url authorization_server stalwart_dav_base_url bind_addr) (\<lambda>cfg.
     and_then (parse_rate_limit env ENV_RATE_LIMIT_READS DEFAULT_RATE_LIMIT_READS) (\<lambda>reads.
     and_then (parse_rate_limit env ENV_RATE_LIMIT_WRITES DEFAULT_RATE_LIMIT_WRITES) (\<lambda>writes.
     and_then (parse_u64_env env ENV_DAV_MAX_RESPONSE_BYTES DEFAULT_DAV_MAX_RESPONSE_BYTES) (\<lambda>max_bytes.
     and_then (parse_trusted_proxy_hops env) (\<lambda>hops.
     and_then (parse_redirect_uris_env P env) (\<lambda>uris.
     and_then (audience_from_env P env (cf_resource_url cfg)) (\<lambda>audience.
       Ok (cfg\<lparr>cf_metrics_bind_addr := metrics, cf_rate_limit_reads_per_min := reads,
               cf_rate_limit_writes_per_min := writes, cf_dav_max_response_bytes := max_bytes,
               cf_trusted_proxy_hops := hops,
               cf_stalwart_connect_ip := env_nonblank env ENV_STALWART_CONNECT_IP,
               cf_dcr_client_id := env_nonblank env ENV_DCR_CLIENT_ID,
               cf_oauth_redirect_uris := uris, cf_stalwart_audience := audience\<rparr>)))))))))))))"

subsection \<open>What a loaded configuration satisfies\<close>

definition good_url :: "url_parser \<Rightarrow> 'a addr_ops \<Rightarrow> string \<Rightarrow> bool" where
  "good_url P A u \<longleftrightarrow> is_absolute_http_uri P u \<and> (u = [] \<or> last u \<noteq> CHR ''/'')
     \<and> (\<exists>v. P u = Some v \<and> (u_scheme v = ''https'' \<or>
          u_scheme v = ''http'' \<and> (\<exists>h. u_host v = Some h \<and> cfg_loopback_host A h)))"

lemma strip_trailing_slash_last: "strip_trailing_slash s = [] \<or> last (strip_trailing_slash s) \<noteq> CHR ''/''"
  unfolding strip_trailing_slash_def by (rule trim_end_matches_last)

lemma validate_url_good:
  assumes "validate_url P A (strip_trailing_slash s) key = Ok ()"
  shows "good_url P A (strip_trailing_slash s)"
  using assms strip_trailing_slash_last [of s]
  by (auto simp: validate_url_def good_url_def is_absolute_http_uri_def split: if_splits option.splits)

lemma config_new_Ok:
  assumes "config_new P A r a d b = Ok cfg"
  shows "good_url P A (cf_resource_url cfg) \<and> good_url P A (cf_authorization_server cfg)
    \<and> good_url P A (cf_stalwart_dav_base_url cfg)"
  using assms by (auto simp: config_new_def Let_def and_then_Ok intro!: validate_url_good)

lemma parse_rate_limit_Ok:
  "parse_rate_limit env key dflt = Ok v \<Longrightarrow> 0 < dflt \<Longrightarrow> dflt < 2 ^ 32 \<Longrightarrow> 0 < v \<and> v < 2 ^ 32"
  by (auto simp: parse_rate_limit_def and_then_Ok parse_uint_def Let_def split: option.splits if_splits)

lemma parse_redirect_uris_Ok:
  assumes "parse_redirect_uris_env P env = Ok uris"
  shows "distinct uris \<and> (\<forall>u \<in> set uris. is_ok (validate_redirect_uri P u ENV_OAUTH_REDIRECT_URIS))"
proof (cases "env ENV_OAUTH_REDIRECT_URIS")
  case (EnvVal raw)
  with assms have "uris = foldl push_new [] (allowlist_entries raw)"
    "list_all (\<lambda>u. is_ok (validate_redirect_uri P u ENV_OAUTH_REDIRECT_URIS)) (allowlist_entries raw)"
    by (auto simp: parse_redirect_uris_env_def parse_allowlist_Ok)
  then show ?thesis using foldl_push_new [of "[]" "allowlist_entries raw"] by (auto simp: list_all_iff)
qed (use assms in \<open>simp_all add: parse_redirect_uris_env_def\<close>)

lemma audience_from_env_Ok:
  "audience_from_env P env r = Ok a \<Longrightarrow>
     a = r \<or> (\<exists>raw. a = strip_trailing_slash raw \<and> raw \<noteq> ''stalwart'' \<and> is_absolute_http_uri P raw)"
  by (auto simp: audience_from_env_def split: option.splits if_splits)

lemma audiences_set:
  "set (accepted_token_audiences cfg) = {cf_resource_url cfg, mcp_resource (cf_resource_url cfg), cf_stalwart_audience cfg}"
  by (simp only: accepted_token_audiences_def remdups_adj_set set_sort) simp

lemma distinct_dedup: "sorted xs \<Longrightarrow> distinct (remdups_adj xs)"
proof (induction xs rule: remdups_adj.induct)
  case (3 x y xs)
  then show ?case by (cases "x = y") (auto dest: order.antisym)
qed simp_all

lemma audiences_distinct: "distinct (accepted_token_audiences cfg)"
  unfolding accepted_token_audiences_def by (rule distinct_dedup) (rule sorted_sort)

lemma config_from_env_resource_url:
  "config_from_env P A env = Ok cfg \<Longrightarrow> good_url P A (cf_resource_url cfg)"
  unfolding config_from_env_def Let_def and_then_Ok by (auto dest!: config_new_Ok)

subsection \<open>Properties\<close>

text \<open>
  C35: a configuration that loads is usable. Its three URLs are absolute, carry no trailing slash
  and are https, or plain http when they name a loopback host; both quotas are positive 32-bit numbers, so the
  limiter accepts them; every redirect URI is valid and listed once; the token audience is never
  the bare API name; and the accepted audiences are exactly the origin, the MCP resource and that
  audience, each once.
\<close>

theorem config_from_env_sound:
  assumes "config_from_env P A env = Ok cfg"
  shows "good_url P A (cf_resource_url cfg) \<and> good_url P A (cf_authorization_server cfg)
    \<and> good_url P A (cf_stalwart_dav_base_url cfg)
    \<and> 0 < cf_rate_limit_reads_per_min cfg \<and> cf_rate_limit_reads_per_min cfg < 2 ^ 32
    \<and> 0 < cf_rate_limit_writes_per_min cfg \<and> cf_rate_limit_writes_per_min cfg < 2 ^ 32
    \<and> distinct (cf_oauth_redirect_uris cfg)
    \<and> (\<forall>u \<in> set (cf_oauth_redirect_uris cfg). is_ok (validate_redirect_uri P u ENV_OAUTH_REDIRECT_URIS))
    \<and> (cf_stalwart_audience cfg = cf_resource_url cfg \<or>
        (\<exists>raw. cf_stalwart_audience cfg = strip_trailing_slash raw \<and> raw \<noteq> ''stalwart'' \<and> is_absolute_http_uri P raw))
    \<and> distinct (accepted_token_audiences cfg)
    \<and> set (accepted_token_audiences cfg)
        = {cf_resource_url cfg, mcp_resource (cf_resource_url cfg), cf_stalwart_audience cfg}"
proof -
  obtain r a d b m cfg0 reads writes mx hops uris aud where
    c: "config_new P A r a d b = Ok cfg0"
    and q: "parse_rate_limit env ENV_RATE_LIMIT_READS DEFAULT_RATE_LIMIT_READS = Ok reads"
      "parse_rate_limit env ENV_RATE_LIMIT_WRITES DEFAULT_RATE_LIMIT_WRITES = Ok writes"
    and u: "parse_redirect_uris_env P env = Ok uris"
    and aud: "audience_from_env P env (cf_resource_url cfg0) = Ok aud"
    and cfg: "cfg = cfg0\<lparr>cf_metrics_bind_addr := m, cf_rate_limit_reads_per_min := reads,
               cf_rate_limit_writes_per_min := writes, cf_dav_max_response_bytes := mx,
               cf_trusted_proxy_hops := hops,
               cf_stalwart_connect_ip := env_nonblank env ENV_STALWART_CONNECT_IP,
               cf_dcr_client_id := env_nonblank env ENV_DCR_CLIENT_ID,
               cf_oauth_redirect_uris := uris, cf_stalwart_audience := aud\<rparr>"
    using assms unfolding config_from_env_def Let_def and_then_Ok by blast
  have "0 < reads \<and> reads < 2 ^ 32" "0 < writes \<and> writes < 2 ^ 32"
    using parse_rate_limit_Ok [OF q(1)] parse_rate_limit_Ok [OF q(2)]
    by (simp_all add: DEFAULT_RATE_LIMIT_READS_def DEFAULT_RATE_LIMIT_WRITES_def)
  with config_new_Ok [OF c] parse_redirect_uris_Ok [OF u] audience_from_env_Ok [OF aud]
    audiences_set [of cfg] audiences_distinct [of cfg] cfg
  show ?thesis by auto
qed

definition sample_settings :: environment where
  "sample_settings k =
     (if k = ENV_RESOURCE_URL then EnvVal ''https://h''
      else if k = ENV_AUTH_SERVER_URL then EnvVal ''https://h''
      else if k = ENV_STALWART_DAV_BASE_URL then EnvVal ''https://h'' else NotPresent)"

definition sample_url_parser :: url_parser where
  "sample_url_parser s =
     (if s = ''https://h'' then Some \<lparr>u_scheme = ''https'', u_host = Some ''h'', u_path = ''/'', u_query = None,
                 u_fragment = None, u_username = [], u_password = None\<rparr> else None)"

definition sample_addrs :: "string addr_ops" where
  "sample_addrs = \<lparr>ao_parse = Some, ao_loopback_metrics = [], ao_ip_is_loopback = (\<lambda>_. False)\<rparr>"

lemma sample_strip: "strip_trailing_slash ''https://h'' = ''https://h''"
  by (simp add: strip_trailing_slash_def trim_end_matches_def)

lemma sample_absolute: "is_absolute_http_uri sample_url_parser ''https://h''"
proof -
  have "trim ''https://h'' = ''https://h''" by (rule trim_graphic) (simp_all add: graphic_def code_def)
  moreover have "\<not> has_whitespace ''https://h''" by (simp add: ws1_def ws2_def ws3_def code_def)
  ultimately show ?thesis by (simp add: is_absolute_http_uri_def sample_url_parser_def)
qed

lemma sample_validate: "validate_url sample_url_parser sample_addrs ''https://h'' key = Ok ()"
  using sample_absolute by (simp add: validate_url_def) (simp add: sample_url_parser_def)

lemma sample_settings_loaded:
  "\<exists>cfg. config_from_env sample_url_parser sample_addrs sample_settings = Ok cfg
     \<and> cf_stalwart_dav_base_url cfg = ''https://h'' \<and> cf_dav_max_response_bytes cfg = DEFAULT_DAV_MAX_RESPONSE_BYTES
     \<and> cf_stalwart_connect_ip cfg = None \<and> cf_rate_limit_reads_per_min cfg = DEFAULT_RATE_LIMIT_READS
     \<and> cf_rate_limit_writes_per_min cfg = DEFAULT_RATE_LIMIT_WRITES"
proof -
  have e: "env_ok (sample_settings ENV_RESOURCE_URL) = Some ''https://h''"
    "env_ok (sample_settings ENV_AUTH_SERVER_URL) = Some ''https://h''"
    "env_ok (sample_settings ENV_STALWART_DAV_BASE_URL) = Some ''https://h''"
    by (simp_all add: sample_settings_def env_ok_def)
  have n: "sample_settings ENV_BIND_ADDR = NotPresent" "sample_settings ENV_METRICS_BIND_ADDR = NotPresent"
    "sample_settings ENV_POD_IP = NotPresent" "sample_settings ENV_RATE_LIMIT_READS = NotPresent"
    "sample_settings ENV_RATE_LIMIT_WRITES = NotPresent" "sample_settings ENV_DAV_MAX_RESPONSE_BYTES = NotPresent"
    "sample_settings ENV_TRUSTED_PROXY_HOPS = NotPresent" "sample_settings ENV_OAUTH_REDIRECT_URIS = NotPresent"
    "sample_settings ENV_STALWART_AUDIENCE = NotPresent" "sample_settings ENV_STALWART_CONNECT_IP = NotPresent"
    by (simp_all add: sample_settings_def ENV_STALWART_CONNECT_IP_def ENV_RESOURCE_URL_def ENV_AUTH_SERVER_URL_def ENV_STALWART_DAV_BASE_URL_def
        ENV_BIND_ADDR_def ENV_METRICS_BIND_ADDR_def ENV_POD_IP_def ENV_RATE_LIMIT_READS_def
        ENV_RATE_LIMIT_WRITES_def ENV_DAV_MAX_RESPONSE_BYTES_def ENV_TRUSTED_PROXY_HOPS_def
        ENV_OAUTH_REDIRECT_URIS_def ENV_STALWART_AUDIENCE_def)
  have np: "env_ok NotPresent = None" by (simp add: env_ok_def)
  show ?thesis
    by (simp add: config_from_env_def require_env_def e n np resolve_metrics_bind_addr_def sample_addrs_def
        config_new_def Let_def sample_strip parse_rate_limit_def parse_u64_env_def parse_trusted_proxy_hops_def
        parse_redirect_uris_env_def audience_from_env_def env_nonblank_def
        sample_validate [unfolded sample_addrs_def])
qed

lemma sample_settings_accepted: "\<exists>cfg. config_from_env sample_url_parser sample_addrs sample_settings = Ok cfg"
  using sample_settings_loaded by blast

theorem config_from_env_sound_witness:
  "\<exists>cfg. config_from_env sample_url_parser sample_addrs sample_settings = Ok cfg
     \<and> good_url sample_url_parser sample_addrs (cf_resource_url cfg) \<and> 0 < cf_rate_limit_reads_per_min cfg"
  using sample_settings_accepted config_from_env_sound by blast

end
