(* ===== verification/Oauth_Meta.thy ===== *)
theory Oauth_Meta
  imports Config_Env
begin

text \<open>
  OAuth metadata documents and the dynamic client registration shim, \<open>src/src/oauth_metadata.rs\<close>.
  A JSON value is the datatype \<open>json\<close> (\<open>serde_json::Value\<close>); the responses are the records that are
  serialised, so \<open>register\<close> returns either a plain response or the registration it answers with.
\<close>

datatype json =
    JNull
  | JBool bool
  | JNumber string
  | JString string
  | JArray "json list"
  | JObject "(string \<times> json) list"

definition json_get :: "json \<Rightarrow> string \<Rightarrow> json option" where
  "json_get v k = (case v of JObject ms \<Rightarrow> map_of ms k | _ \<Rightarrow> None)"

definition json_array :: "json \<Rightarrow> json list option" where
  "json_array v = (case v of JArray xs \<Rightarrow> Some xs | _ \<Rightarrow> None)"

definition json_str :: "json \<Rightarrow> string option" where
  "json_str v = (case v of JString s \<Rightarrow> Some s | _ \<Rightarrow> None)"

definition scopes_supported :: "string list" where
  "scopes_supported = [''openid'', ''profile'', ''email'', ''offline_access'']"

record protected_resource_metadata =
  pr_resource :: string
  pr_authorization_servers :: "string list"
  pr_bearer_methods_supported :: "string list"
  pr_scopes_supported :: "string list"

definition protected_resource_from_config :: "'a config \<Rightarrow> protected_resource_metadata" where
  "protected_resource_from_config cfg =
     \<lparr>pr_resource = mcp_resource (cf_resource_url cfg),
      pr_authorization_servers = [cf_resource_url cfg],
      pr_bearer_methods_supported = [''header''],
      pr_scopes_supported = scopes_supported\<rparr>"

record authorization_server_metadata =
  as_issuer :: string
  as_authorization_endpoint :: string
  as_token_endpoint :: string
  as_jwks_uri :: string
  as_userinfo_endpoint :: string
  as_registration_endpoint :: "string option"
  as_response_types_supported :: "string list"
  as_grant_types_supported :: "string list"
  as_code_challenge_methods_supported :: "string list"
  as_token_endpoint_auth_methods_supported :: "string list"
  as_scopes_supported :: "string list"

definition authorization_server_from_config :: "'a config \<Rightarrow> authorization_server_metadata" where
  "authorization_server_from_config cfg =
     (let logto = cf_authorization_server cfg; us = cf_resource_url cfg in
      \<lparr>as_issuer = us,
       as_authorization_endpoint = us @ ''/authorize'',
       as_token_endpoint = us @ ''/token'',
       as_jwks_uri = logto @ ''/jwks'',
       as_userinfo_endpoint = logto @ ''/me'',
       as_registration_endpoint = map_option (\<lambda>_. us @ ''/register'') (cf_dcr_client_id cfg),
       as_response_types_supported = [''code''],
       as_grant_types_supported = [''authorization_code'', ''refresh_token''],
       as_code_challenge_methods_supported = [''S256''],
       as_token_endpoint_auth_methods_supported = [''none''],
       as_scopes_supported = scopes_supported\<rparr>)"

record registration =
  rg_client_id :: string
  rg_token_endpoint_auth_method :: string
  rg_grant_types :: "string list"
  rg_response_types :: "string list"
  rg_redirect_uris :: "string list"
  rg_scope :: string
  rg_client_id_issued_at :: int

text \<open>\<open>now_unix\<close>: whole seconds as an \<open>i64\<close>, saturating.\<close>

definition now_unix :: "instant \<Rightarrow> int" where
  "now_unix now = (let s = int (now div 1000000000) in if s < 2 ^ 63 then s else 2 ^ 63 - 1)"

definition requested_uris :: "json option \<Rightarrow> string list" where
  "requested_uris body =
     (case Option.bind (Option.bind body (\<lambda>v. json_get v ''redirect_uris'')) json_array of
        Some a \<Rightarrow> List.map_filter json_str a
      | None \<Rightarrow> [])"

definition register ::
  "url_parser \<Rightarrow> 'a config \<Rightarrow> instant \<Rightarrow> json option \<Rightarrow> http_response + registration" where
  "register P cfg now body =
     (case cf_dcr_client_id cfg of
        None \<Rightarrow> Inl (plain_response 404 (''dynamic client registration is not configured'' @ [LF]))
      | Some client_id \<Rightarrow>
          let redirect_uris = requested_uris body in
          if list_ex (\<lambda>uri. \<not> is_allowed_redirect_uri P (cf_oauth_redirect_uris cfg) uri) redirect_uris
          then Inl (plain_response 400 (''unregistered redirect_uri'' @ [LF]))
          else Inr \<lparr>rg_client_id = client_id, rg_token_endpoint_auth_method = ''none'',
                    rg_grant_types = [''authorization_code'', ''refresh_token''],
                    rg_response_types = [''code''], rg_redirect_uris = redirect_uris,
                    rg_scope = ''openid profile email offline_access'',
                    rg_client_id_issued_at = now_unix now\<rparr>)"

definition www_authenticate_header :: "string \<Rightarrow> string" where
  "www_authenticate_header resource_url =
     ''Bearer resource_metadata='' @ [QUOT] @ resource_url @ ''/.well-known/oauth-protected-resource/mcp'' @ [QUOT]"

subsection \<open>Properties\<close>

text \<open>
  C36: registration and metadata agree. The endpoint is advertised exactly when \<open>register\<close> is
  configured; it then answers with the configured client and echoes every string the caller asked
  for, all of them allowlisted, or refuses with 400 and registers nothing if one of them is not;
  the advertised authorize and token endpoints are on the issuer's own origin, and the advertised
  resource is one of the audiences the service accepts.
\<close>

theorem registration_sound:
  "(as_registration_endpoint (authorization_server_from_config cfg) = None
      \<longleftrightarrow> register P cfg now body = Inl (plain_response 404 (''dynamic client registration is not configured'' @ [LF])))
   \<and> (\<forall>reg. register P cfg now body = Inr reg \<longrightarrow>
        cf_dcr_client_id cfg = Some (rg_client_id reg) \<and> rg_redirect_uris reg = requested_uris body
        \<and> (\<forall>uri \<in> set (rg_redirect_uris reg). is_allowed_redirect_uri P (cf_oauth_redirect_uris cfg) uri))
   \<and> (\<forall>uri \<in> set (requested_uris body). \<not> is_allowed_redirect_uri P (cf_oauth_redirect_uris cfg) uri
        \<longrightarrow> (\<exists>r. register P cfg now body = Inl r \<and> rs_status r \<in> {400, 404}))
   \<and> as_issuer (authorization_server_from_config cfg) = cf_resource_url cfg
   \<and> as_authorization_endpoint (authorization_server_from_config cfg) = cf_resource_url cfg @ ''/authorize''
   \<and> as_token_endpoint (authorization_server_from_config cfg) = cf_resource_url cfg @ ''/token''
   \<and> pr_resource (protected_resource_from_config cfg) \<in> set (accepted_token_audiences cfg)
   \<and> pr_authorization_servers (protected_resource_from_config cfg) = [as_issuer (authorization_server_from_config cfg)]"
  by (auto simp: register_def authorization_server_from_config_def Let_def list_ex_iff
      protected_resource_from_config_def audiences_set split: option.splits)

theorem registration_sound_witness:
  "\<exists>cfg. config_from_env sample_url_parser sample_addrs sample_settings = Ok cfg
     \<and> register sample_url_parser (cfg\<lparr>cf_dcr_client_id := Some ''spa''\<rparr>) 0
         (Some (JObject [(''redirect_uris'', JArray [JString ''https://evil/''])]))
       = Inl (plain_response 400 (''unregistered redirect_uri'' @ [LF]))
     \<and> as_registration_endpoint (authorization_server_from_config (cfg\<lparr>cf_dcr_client_id := Some ''spa''\<rparr>)) \<noteq> None"
proof -
  obtain cfg where c: "config_from_env sample_url_parser sample_addrs sample_settings = Ok cfg"
    using sample_settings_accepted by blast
  let ?cfg = "cfg\<lparr>cf_dcr_client_id := Some ''spa''\<rparr>"
    and ?b = "Some (JObject [(''redirect_uris'', JArray [JString ''https://evil/''])])"
  have r: "requested_uris ?b = [''https://evil/'']"
    by (simp add: requested_uris_def json_get_def json_array_def json_str_def List.map_filter_def)
  have n: "\<not> is_allowed_redirect_uri sample_url_parser (cf_oauth_redirect_uris ?cfg) ''https://evil/''"
    by (simp add: is_allowed_redirect_uri_def validate_ok sample_url_parser_def)
  then have e: "register sample_url_parser ?cfg 0 ?b = Inl (plain_response 400 (''unregistered redirect_uri'' @ [LF]))"
    using r by (simp add: register_def)
  from registration_sound [of ?cfg sample_url_parser 0 ?b, THEN conjunct1] e
  have "as_registration_endpoint (authorization_server_from_config ?cfg) \<noteq> None" by simp
  with c e show ?thesis by blast
qed

end
