(* ===== verification/Oauth_Proxy.thy ===== *)
theory Oauth_Proxy
  imports Config_Env Rust_Map
begin

text \<open>
  The OAuth 2.0 proxy in front of Logto, \<open>src/src/oauth_proxy.rs\<close>.

  The state is the map of pending authorizations behind its mutex; \<open>insert\<close> and \<open>take\<close> hold the
  lock for their whole body, and each handler calls one of them at most once, so a handler is one
  atomic step. A poisoned lock is not a state of the model. Third-party code is the record
  \<open>oauth_ops\<close>: URL parsing, form encoding, appending query pairs to a URL. The random state of a
  flow and the clock reading are arguments of the handlers, and so is the upstream exchange of
  \<open>token\<close>. Nothing is assumed of any of them.
\<close>

definition PENDING_TTL :: duration where "PENDING_TTL = secs 600"
definition PENDING_CAP :: nat where "PENDING_CAP = 2048"
definition MAX_CLIENT_STATE_BYTES :: nat where "MAX_CLIENT_STATE_BYTES = 4096"

type_synonym pairs = "(string \<times> string) list"

record oauth_ops =
  oo_url :: url_parser
  oo_form_parse :: "string \<Rightarrow> pairs"
  oo_form_serialize :: "pairs \<Rightarrow> string"
  oo_append_pairs :: "string \<Rightarrow> pairs \<Rightarrow> string"

record pending =
  pd_client_redirect_uri :: string
  pd_client_state :: "string option"
  pd_created :: instant

record proxy_state =
  px_logto_base :: string
  px_callback_url :: string
  px_allowed_redirect_uris :: "string list"
  px_dav_audience :: string
  px_pending :: "(string, pending) hmap"

definition proxy_new :: "string \<Rightarrow> string \<Rightarrow> string list \<Rightarrow> string \<Rightarrow> proxy_state" where
  "proxy_new logto_base resource_url allowed dav_audience =
     \<lparr>px_logto_base = trim_end_matches (CHR ''/'') logto_base,
      px_callback_url = trim_end_matches (CHR ''/'') resource_url @ ''/oauth/callback'',
      px_allowed_redirect_uris = allowed, px_dav_audience = dav_audience, px_pending = []\<rparr>"

text \<open>
  One reading of the clock serves the creation time and the expiry of others; the source reads it twice
  in a row.
\<close>

definition pending_insert :: "instant \<Rightarrow> string \<Rightarrow> pending \<Rightarrow> proxy_state \<Rightarrow> bool \<times> proxy_state" where
  "pending_insert now state p st =
     (let g = px_pending st;
          g1 = (if hm_len g \<ge> PENDING_CAP
                then hm_retain (\<lambda>_ p. now - pd_created p < PENDING_TTL) g else g) in
      if hm_len g1 \<ge> PENDING_CAP then (False, st\<lparr>px_pending := g1\<rparr>)
      else (True, st\<lparr>px_pending := hm_insert state p g1\<rparr>))"

definition pending_take :: "instant \<Rightarrow> string \<Rightarrow> proxy_state \<Rightarrow> pending option \<times> proxy_state" where
  "pending_take now state st =
     (case hm_get (px_pending st) state of
        None \<Rightarrow> (None, st)
      | Some p \<Rightarrow>
          let st' = st\<lparr>px_pending := hm_remove state (px_pending st)\<rparr> in
          if now - pd_created p \<ge> PENDING_TTL then (None, st') else (Some p, st'))"

definition find_pair :: "string \<Rightarrow> pairs \<Rightarrow> string option" where
  "find_pair key ps = map_option snd (find (\<lambda>(k, _). k = key) ps)"

definition apply_dav_resource :: "url_parser \<Rightarrow> string \<Rightarrow> pairs \<Rightarrow> pairs" where
  "apply_dav_resource P dav_audience ps =
     (if \<not> is_absolute_http_uri P dav_audience then ps
      else let ps' = map (\<lambda>(k, v). if k = ''resource'' then (k, dav_audience) else (k, v)) ps in
           if list_ex (\<lambda>(k, _). k = ''resource'') ps then ps' else ps' @ [(''resource'', dav_audience)])"

definition rewrite_authorize :: "string \<Rightarrow> string \<Rightarrow> pairs \<Rightarrow> pairs" where
  "rewrite_authorize callback_url proxy_state ps =
     (let ps' = map (\<lambda>(k, v). if k = ''redirect_uri'' then (k, callback_url)
                              else if k = ''state'' then (k, proxy_state) else (k, v)) ps
      in if list_ex (\<lambda>(k, _). k = ''state'') ps then ps' else ps' @ [(''state'', proxy_state)])"

definition authorize ::
  "oauth_ops \<Rightarrow> instant \<Rightarrow> string \<Rightarrow> string option \<Rightarrow> proxy_state \<Rightarrow> http_response \<times> proxy_state" where
  "authorize W now random_state q st =
     (let ps = oo_form_parse W (case q of Some s \<Rightarrow> s | None \<Rightarrow> []) in
      case find_pair ''redirect_uri'' ps of
        None \<Rightarrow> (plain_response 400 (''missing redirect_uri'' @ [LF]), st)
      | Some client_redirect_uri \<Rightarrow>
        if \<not> is_allowed_redirect_uri (oo_url W) (px_allowed_redirect_uris st) client_redirect_uri
        then (plain_response 400 (''unregistered redirect_uri'' @ [LF]), st)
        else let client_state = find_pair ''state'' ps in
          if (case client_state of Some s \<Rightarrow> length s > MAX_CLIENT_STATE_BYTES | None \<Rightarrow> False)
          then (plain_response 400 (''state is too large'' @ [LF]), st)
          else let (inserted, st') = pending_insert now random_state
                 \<lparr>pd_client_redirect_uri = client_redirect_uri, pd_client_state = client_state,
                  pd_created = now\<rparr> st in
            if \<not> inserted
            then (plain_response 503 (''too many pending authorizations; try again later'' @ [LF]), st')
            else (redirect_to (px_logto_base st @ ''/auth?'' @ oo_form_serialize W
                    (apply_dav_resource (oo_url W) (px_dav_audience st)
                       (rewrite_authorize (px_callback_url st) random_state ps))), st'))"

text \<open>A pair list collected into a map: the last of several equal keys wins.\<close>

definition collect_pairs :: "pairs \<Rightarrow> string \<Rightarrow> string option" where
  "collect_pairs ps = map_of (rev ps)"

definition opt_pair :: "string \<Rightarrow> string option \<Rightarrow> pairs" where
  "opt_pair k v = (case v of Some s \<Rightarrow> [(k, s)] | None \<Rightarrow> [])"

definition callback_pairs :: "(string \<Rightarrow> string option) \<Rightarrow> string option \<Rightarrow> pairs" where
  "callback_pairs m client_state =
     opt_pair ''code'' (m ''code'') @ opt_pair ''error'' (m ''error'')
     @ opt_pair ''error_description'' (m ''error_description'') @ opt_pair ''state'' client_state"

definition callback ::
  "oauth_ops \<Rightarrow> instant \<Rightarrow> string option \<Rightarrow> proxy_state \<Rightarrow> http_response \<times> proxy_state" where
  "callback W now q st =
     (let m = collect_pairs (oo_form_parse W (case q of Some s \<Rightarrow> s | None \<Rightarrow> [])) in
      case m ''state'' of
        None \<Rightarrow> (plain_response 400 (''missing state'' @ [LF]), st)
      | Some state \<Rightarrow>
        (case pending_take now state st of
           (None, st') \<Rightarrow> (plain_response 400 (''unknown or expired state'' @ [LF]), st')
         | (Some p, st') \<Rightarrow>
           (case oo_url W (pd_client_redirect_uri p) of
              None \<Rightarrow> (plain_response 400 (''bad client redirect_uri'' @ [LF]), st')
            | Some _ \<Rightarrow>
                (redirect_to (oo_append_pairs W (pd_client_redirect_uri p)
                   (callback_pairs m (pd_client_state p))), st'))))"

subsection \<open>The token relay\<close>

record upstream_reply =
  ur_status :: nat
  ur_content_type :: "string option"
  ur_body :: string

text \<open>\<open>None\<close> when a redirect URI is refused.\<close>

fun rewrite_token :: "(string \<Rightarrow> bool) \<Rightarrow> string \<Rightarrow> pairs \<Rightarrow> pairs option" where
  "rewrite_token allowed callback_url [] = Some []"
| "rewrite_token allowed callback_url ((k, v) # ps) =
     (if k = ''redirect_uri'' \<and> \<not> allowed v then None
      else map_option (\<lambda>r. (k, if k = ''redirect_uri'' then callback_url else v) # r)
             (rewrite_token allowed callback_url ps))"

definition token_request :: "oauth_ops \<Rightarrow> string \<Rightarrow> proxy_state \<Rightarrow> http_response + (string \<times> string)" where
  "token_request W body st =
     (let ps = oo_form_parse W body;
          is_authorization_code = list_ex (\<lambda>(k, v). k = ''grant_type'' \<and> v = ''authorization_code'') ps in
      case rewrite_token (is_allowed_redirect_uri (oo_url W) (px_allowed_redirect_uris st)) (px_callback_url st) ps of
        None \<Rightarrow> Inl (plain_response 400 (''unregistered redirect_uri'' @ [LF]))
      | Some ps' \<Rightarrow>
          if is_authorization_code \<and> \<not> list_ex (\<lambda>(k, _). k = ''redirect_uri'') ps
          then Inl (plain_response 400 (''missing redirect_uri'' @ [LF]))
          else Inr (px_logto_base st @ ''/token'',
                    oo_form_serialize W (apply_dav_resource (oo_url W) (px_dav_audience st) ps')))"

definition token_reply :: "upstream_reply option \<Rightarrow> http_response" where
  "token_reply resp =
     (case resp of
        Some r \<Rightarrow> \<lparr>rs_status = ur_status r,
                   rs_headers = [(''content-type'', case ur_content_type r of Some c \<Rightarrow> c | None \<Rightarrow> ''application/json''),
                                 (''cache-control'', ''no-store''), (''pragma'', ''no-cache'')],
                   rs_body = ur_body r\<rparr>
      | None \<Rightarrow> plain_response 502 (''token endpoint upstream error'' @ [LF]))"

text \<open>\<open>token\<close>, with the requests it sends upstream.\<close>

definition token ::
  "oauth_ops \<Rightarrow> (string \<times> string \<Rightarrow> upstream_reply option) \<Rightarrow> string \<Rightarrow> proxy_state
     \<Rightarrow> http_response \<times> (string \<times> string) list" where
  "token W send body st =
     (case token_request W body st of Inl r \<Rightarrow> (r, []) | Inr req \<Rightarrow> (token_reply (send req), [req]))"

subsection \<open>The pending map\<close>

lemma PENDING_CAP_pos: "0 < PENDING_CAP"
  by (simp add: PENDING_CAP_def)

definition same_config :: "proxy_state \<Rightarrow> proxy_state \<Rightarrow> bool" where
  "same_config st st' \<longleftrightarrow> px_logto_base st' = px_logto_base st \<and> px_callback_url st' = px_callback_url st
     \<and> px_allowed_redirect_uris st' = px_allowed_redirect_uris st \<and> px_dav_audience st' = px_dav_audience st"

lemma same_config_simps [simp]:
  "same_config st st" "same_config st (st\<lparr>px_pending := g\<rparr>)"
  by (simp_all add: same_config_def)

lemma same_config_trans: "same_config a b \<Longrightarrow> same_config b c \<Longrightarrow> same_config a c"
  by (simp add: same_config_def)

definition pending_ok :: "proxy_state \<Rightarrow> bool" where
  "pending_ok st \<longleftrightarrow> hm_wf (px_pending st) \<and> hm_len (px_pending st) \<le> PENDING_CAP"

lemma pending_insert_cases:
  assumes "pending_insert now s p st = (ok, st')" "pending_ok st"
  shows "pending_ok st' \<and> same_config st st'
    \<and> (\<forall>k v. hm_get (px_pending st') k = Some v \<longrightarrow> hm_get (px_pending st) k = Some v \<or> ok \<and> k = s \<and> v = p)
    \<and> (ok \<longrightarrow> hm_get (px_pending st') s = Some p)"
proof -
  define g1 where "g1 = (if hm_len (px_pending st) \<ge> PENDING_CAP
      then hm_retain (\<lambda>_ p. now - pd_created p < PENDING_TTL) (px_pending st) else px_pending st)"
  have wf: "hm_wf g1" and le: "hm_len g1 \<le> PENDING_CAP"
    and sub: "\<And>k v. hm_get g1 k = Some v \<Longrightarrow> hm_get (px_pending st) k = Some v"
    using assms(2) hm_len_retain [of "\<lambda>_ p. now - pd_created p < PENDING_TTL" "px_pending st"]
    by (auto simp: g1_def pending_ok_def dest: hm_get_retain_le split: if_splits)
  have e: "(if hm_len g1 \<ge> PENDING_CAP then (False, st\<lparr>px_pending := g1\<rparr>)
      else (True, st\<lparr>px_pending := hm_insert s p g1\<rparr>)) = (ok, st')"
    using assms(1) unfolding pending_insert_def Let_def g1_def .
  show ?thesis
  proof (cases "hm_len g1 \<ge> PENDING_CAP")
    case True
    with e wf le sub show ?thesis by (auto simp: pending_ok_def)
  next
    case False
    with hm_len_insert_le [of s p g1] have "hm_len (hm_insert s p g1) \<le> PENDING_CAP" by simp
    with e False wf sub show ?thesis by (auto simp: pending_ok_def split: if_splits)
  qed
qed

lemma pending_take_cases:
  assumes "pending_take now s st = (r, st')" "pending_ok st"
  shows "pending_ok st' \<and> same_config st st'
    \<and> px_pending st' = (if hm_get (px_pending st) s = None then px_pending st else hm_remove s (px_pending st))
    \<and> (\<forall>p. r = Some p \<longleftrightarrow> hm_get (px_pending st) s = Some p \<and> now - pd_created p < PENDING_TTL)"
proof (cases "hm_get (px_pending st) s")
  case None
  with assms show ?thesis by (auto simp: pending_take_def)
next
  case (Some p)
  with assms hm_len_remove_le [of s "px_pending st"] show ?thesis
    by (auto simp: pending_take_def pending_ok_def Let_def split: if_splits)
qed

subsection \<open>Runs of the two browser-facing handlers\<close>

text \<open>
  What one request did. A flow is \<open>Started\<close> with the state drawn for it, the redirect URI and state
  of the client, and \<open>Finished\<close> with the state it came back with and where the browser is sent.
\<close>

datatype flow_event =
    Started instant string string "string option"
  | Finished instant string string
  | Refused nat

definition authorize_event ::
  "oauth_ops \<Rightarrow> instant \<Rightarrow> string \<Rightarrow> string option \<Rightarrow> proxy_state \<Rightarrow> flow_event" where
  "authorize_event W now rnd q st =
     (let r = fst (authorize W now rnd q st);
          ps = oo_form_parse W (case q of Some s \<Rightarrow> s | None \<Rightarrow> []) in
      if rs_status r = 303
      then Started now rnd (the (find_pair ''redirect_uri'' ps)) (find_pair ''state'' ps)
      else Refused (rs_status r))"

definition callback_event :: "oauth_ops \<Rightarrow> instant \<Rightarrow> string option \<Rightarrow> proxy_state \<Rightarrow> flow_event" where
  "callback_event W now q st =
     (let r = fst (callback W now q st);
          m = collect_pairs (oo_form_parse W (case q of Some s \<Rightarrow> s | None \<Rightarrow> [])) in
      if rs_status r = 303 then Finished now (the (m ''state'')) (the (header_of ''location'' r))
      else Refused (rs_status r))"

inductive proxy_reach :: "oauth_ops \<Rightarrow> proxy_state \<Rightarrow> flow_event list \<Rightarrow> proxy_state \<Rightarrow> bool"
  for W st0 where
  reach_start: "proxy_reach W st0 [] st0"
| reach_authorize: "proxy_reach W st0 h st \<Longrightarrow> authorize W now rnd q st = (r, st') \<Longrightarrow>
    proxy_reach W st0 (authorize_event W now rnd q st # h) st'"
| reach_callback: "proxy_reach W st0 h st \<Longrightarrow> callback W now q st = (r, st') \<Longrightarrow>
    proxy_reach W st0 (callback_event W now q st # h) st'"

lemma authorize_cases:
  assumes "authorize W now rnd q st = (r, st')" "pending_ok st"
    and "ps = oo_form_parse W (case q of Some s \<Rightarrow> s | None \<Rightarrow> [])"
  obtains (refused) "rs_status r \<in> {400, 503}" "header_of ''location'' r = None" "pending_ok st'"
      "same_config st st'"
      "\<And>k v. hm_get (px_pending st') k = Some v \<Longrightarrow> hm_get (px_pending st) k = Some v"
  | (started) u where "find_pair ''redirect_uri'' ps = Some u"
      "is_allowed_redirect_uri (oo_url W) (px_allowed_redirect_uris st) u"
      "pending_insert now rnd \<lparr>pd_client_redirect_uri = u, pd_client_state = find_pair ''state'' ps,
                               pd_created = now\<rparr> st = (True, st')"
      "r = redirect_to (px_logto_base st @ ''/auth?'' @ oo_form_serialize W
                    (apply_dav_resource (oo_url W) (px_dav_audience st)
                       (rewrite_authorize (px_callback_url st) rnd ps)))"
proof (cases "find_pair ''redirect_uri'' ps")
  case None
  with assms show ?thesis by (intro refused) (auto simp: authorize_def Let_def)
next
  case (Some u)
  note u = this
  let ?p = "\<lparr>pd_client_redirect_uri = u, pd_client_state = find_pair ''state'' ps, pd_created = now\<rparr>"
  obtain ok st2 where ins: "pending_insert now rnd ?p st = (ok, st2)" by fastforce
  let ?bad = "\<not> is_allowed_redirect_uri (oo_url W) (px_allowed_redirect_uris st) u
     \<or> (case find_pair ''state'' ps of Some s \<Rightarrow> length s > MAX_CLIENT_STATE_BYTES | None \<Rightarrow> False)"
  show ?thesis
  proof (cases ?bad)
    case True
    with assms u show ?thesis by (intro refused) (auto simp: authorize_def Let_def split: if_splits)
  next
    case False
    note good = this
    show ?thesis
    proof (cases ok)
      case True
      with assms u good ins show ?thesis
        by (intro started [of u]) (auto simp: authorize_def Let_def split: if_splits)
    next
      case False
      with assms u good ins have r: "r = plain_response 503 (''too many pending authorizations; try again later'' @ [LF])"
        "st' = st2" by (auto simp: authorize_def Let_def split: if_splits)
      with pending_insert_cases [OF ins assms(2)] False show ?thesis by (intro refused) auto
    qed
  qed
qed

lemma callback_cases:
  assumes "callback W now q st = (r, st')" "pending_ok st"
    and "m = collect_pairs (oo_form_parse W (case q of Some s \<Rightarrow> s | None \<Rightarrow> []))"
  obtains (refused) "rs_status r = 400" "header_of ''location'' r = None" "pending_ok st'"
      "same_config st st'"
      "\<And>k v. hm_get (px_pending st') k = Some v \<Longrightarrow> hm_get (px_pending st) k = Some v"
  | (finished) s p where "m ''state'' = Some s" "hm_get (px_pending st) s = Some p"
      "now - pd_created p < PENDING_TTL"
      "same_config st st' \<and> px_pending st' = hm_remove s (px_pending st)"
      "r = redirect_to (oo_append_pairs W (pd_client_redirect_uri p) (callback_pairs m (pd_client_state p)))"
      "pending_ok st'"
proof (cases "m ''state''")
  case None
  with assms show ?thesis by (intro refused) (auto simp: callback_def Let_def)
next
  case (Some s)
  note s = this
  obtain po st2 where tk: "pending_take now s st = (po, st2)" by fastforce
  note tc = pending_take_cases [OF tk assms(2)]
  have st2: "st' = st2"
    using assms(1,3) s tk by (auto simp: callback_def Let_def split: option.splits)
  show ?thesis
  proof (cases "\<exists>p. po = Some p \<and> oo_url W (pd_client_redirect_uri p) \<noteq> None")
    case True
    then obtain p where p: "po = Some p" "oo_url W (pd_client_redirect_uri p) \<noteq> None" by blast
    have r: "r = redirect_to (oo_append_pairs W (pd_client_redirect_uri p) (callback_pairs m (pd_client_state p)))"
      using assms(1,3) s tk p by (auto simp: callback_def Let_def)
    from tc p(1) have g: "hm_get (px_pending st) s = Some p" "now - pd_created p < PENDING_TTL" by auto
    with tc have "px_pending st2 = hm_remove s (px_pending st)" by simp
    show ?thesis
      by (rule finished [OF s g _ r])
         (use st2 tc \<open>px_pending st2 = _\<close> in auto)
  next
    case False
    then have r: "rs_status r = 400 \<and> header_of ''location'' r = None"
    proof (cases po)
      case None
      with assms(1,3) s tk have "plain_response 400 (''unknown or expired state'' @ [LF]) = r"
        by (simp add: callback_def Let_def)
      then show ?thesis by auto
    next
      case (Some p)
      with False have "oo_url W (pd_client_redirect_uri p) = None" by blast
      with Some assms(1,3) s tk have "plain_response 400 (''bad client redirect_uri'' @ [LF]) = r"
        by (simp add: callback_def Let_def)
      then show ?thesis by auto
    qed
    have "\<And>k v. hm_get (px_pending st2) k = Some v \<Longrightarrow> hm_get (px_pending st) k = Some v"
      using tc by (simp split: if_splits)
    with r tc st2 show ?thesis by (intro refused) blast+
  qed
qed

definition started_count :: "string \<Rightarrow> flow_event list \<Rightarrow> nat" where
  "started_count s h = length (filter (\<lambda>e. case e of Started _ k _ _ \<Rightarrow> k = s | _ \<Rightarrow> False) h)"

definition finished_count :: "string \<Rightarrow> flow_event list \<Rightarrow> nat" where
  "finished_count s h = length (filter (\<lambda>e. case e of Finished _ k _ \<Rightarrow> k = s | _ \<Rightarrow> False) h)"

definition flow_ok :: "oauth_ops \<Rightarrow> proxy_state \<Rightarrow> flow_event list \<Rightarrow> flow_event \<Rightarrow> bool" where
  "flow_ok W st0 h e \<longleftrightarrow>
     (case e of
        Finished now s loc \<Rightarrow> \<exists>t u cs m. Started t s u cs \<in> set h
          \<and> is_allowed_redirect_uri (oo_url W) (px_allowed_redirect_uris st0) u
          \<and> now - t < PENDING_TTL \<and> loc = oo_append_pairs W u (callback_pairs m cs)
      | _ \<Rightarrow> True)"

definition proxy_inv :: "oauth_ops \<Rightarrow> proxy_state \<Rightarrow> flow_event list \<Rightarrow> proxy_state \<Rightarrow> bool" where
  "proxy_inv W st0 h st \<longleftrightarrow> pending_ok st \<and> same_config st0 st
     \<and> (\<forall>k p. hm_get (px_pending st) k = Some p \<longrightarrow>
          Started (pd_created p) k (pd_client_redirect_uri p) (pd_client_state p) \<in> set h
          \<and> is_allowed_redirect_uri (oo_url W) (px_allowed_redirect_uris st0) (pd_client_redirect_uri p))
     \<and> (\<forall>e \<in> set h. flow_ok W st0 h e)
     \<and> (\<forall>s. finished_count s h + (if hm_get (px_pending st) s = None then 0 else 1) \<le> started_count s h)"

lemma flow_ok_mono: "flow_ok W st0 h e \<Longrightarrow> flow_ok W st0 (x # h) e"
  unfolding flow_ok_def by (cases e) (auto, blast?)

lemma counts_Cons [simp]:
  "started_count s (Started t k u cs # h) = (if k = s then 1 else 0) + started_count s h"
  "started_count s (Finished t k l # h) = started_count s h"
  "started_count s (Refused n # h) = started_count s h"
  "finished_count s (Started t k u cs # h) = finished_count s h"
  "finished_count s (Finished t k l # h) = (if k = s then 1 else 0) + finished_count s h"
  "finished_count s (Refused n # h) = finished_count s h"
  by (simp_all add: started_count_def finished_count_def)

lemma proxy_inv_refused:
  assumes "proxy_inv W st0 h st" "pending_ok st'" "same_config st st'"
    and "\<And>k v. hm_get (px_pending st') k = Some v \<Longrightarrow> hm_get (px_pending st) k = Some v"
  shows "proxy_inv W st0 (Refused n # h) st'"
proof -
  have "finished_count s h + (if hm_get (px_pending st') s = None then 0 else 1) \<le> started_count s h" for s
  proof -
    have "finished_count s h + (if hm_get (px_pending st) s = None then 0 else 1) \<le> started_count s h"
      using assms(1) by (simp add: proxy_inv_def)
    with assms(4) [of s] show ?thesis by (cases "hm_get (px_pending st') s") auto
  qed
  moreover have "flow_ok W st0 (Refused n # h) e" if "e \<in> set (Refused n # h)" for e
    using that assms(1) flow_ok_mono by (auto simp: proxy_inv_def) (simp add: flow_ok_def)
  moreover have "same_config st0 st'" using assms(1,3) same_config_trans by (auto simp: proxy_inv_def)
  moreover have "Started (pd_created p) k (pd_client_redirect_uri p) (pd_client_state p) \<in> set (Refused n # h)
      \<and> is_allowed_redirect_uri (oo_url W) (px_allowed_redirect_uris st0) (pd_client_redirect_uri p)"
    if "hm_get (px_pending st') k = Some p" for k p
    using assms(1) assms(4) [OF that] by (auto simp: proxy_inv_def)
  ultimately show ?thesis
    using assms(2) unfolding proxy_inv_def by (simp only: counts_Cons) blast
qed

lemma proxy_inv_started:
  assumes inv: "proxy_inv W st0 h st"
    and ins: "pending_insert now rnd \<lparr>pd_client_redirect_uri = u, pd_client_state = cs, pd_created = now\<rparr> st
        = (True, st')"
    and al: "is_allowed_redirect_uri (oo_url W) (px_allowed_redirect_uris st) u"
  shows "proxy_inv W st0 (Started now rnd u cs # h) st'"
proof -
  let ?p = "\<lparr>pd_client_redirect_uri = u, pd_client_state = cs, pd_created = now\<rparr>"
  have ok: "pending_ok st" and cfg: "same_config st0 st" using inv by (auto simp: proxy_inv_def)
  note c = pending_insert_cases [OF ins ok]
  have al0: "is_allowed_redirect_uri (oo_url W) (px_allowed_redirect_uris st0) u"
    using al cfg by (simp add: same_config_def)
  have old: "Started (pd_created p) k (pd_client_redirect_uri p) (pd_client_state p) \<in> set (Started now rnd u cs # h)
      \<and> is_allowed_redirect_uri (oo_url W) (px_allowed_redirect_uris st0) (pd_client_redirect_uri p)"
    if "hm_get (px_pending st') k = Some p" for k p
  proof (cases "k = rnd \<and> p = ?p")
    case True
    with al0 show ?thesis by simp
  next
    case False
    with c that have "hm_get (px_pending st) k = Some p" by blast
    with inv show ?thesis by (auto simp: proxy_inv_def)
  qed
  have cnt: "finished_count s (Started now rnd u cs # h) + (if hm_get (px_pending st') s = None then 0 else 1)
      \<le> started_count s (Started now rnd u cs # h)" for s
  proof -
    have i: "finished_count s h + (if hm_get (px_pending st) s = None then 0 else 1) \<le> started_count s h"
      using inv by (simp add: proxy_inv_def)
    show ?thesis
    proof (cases "s = rnd")
      case False
      have "hm_get (px_pending st') s \<noteq> None \<Longrightarrow> hm_get (px_pending st) s \<noteq> None"
        using c False by blast
      with i False show ?thesis by (cases "hm_get (px_pending st') s") auto
    qed (use i in auto)
  qed
  have fl: "flow_ok W st0 (Started now rnd u cs # h) e" if "e \<in> set (Started now rnd u cs # h)" for e
    using that inv flow_ok_mono by (auto simp: proxy_inv_def) (simp add: flow_ok_def)
  show ?thesis
    unfolding proxy_inv_def using c old cnt fl same_config_trans [OF cfg] by blast
qed

lemma proxy_inv_finished:
  assumes inv: "proxy_inv W st0 h st"
    and p: "hm_get (px_pending st) s = Some p" "now - pd_created p < PENDING_TTL"
    and st': "pending_ok st'" "same_config st st'" "px_pending st' = hm_remove s (px_pending st)"
  shows "proxy_inv W st0 (Finished now s (oo_append_pairs W (pd_client_redirect_uri p)
      (callback_pairs m (pd_client_state p))) # h) st'" (is "proxy_inv W st0 (?e # h) st'")
proof -
  have src: "Started (pd_created p) s (pd_client_redirect_uri p) (pd_client_state p) \<in> set h"
    "is_allowed_redirect_uri (oo_url W) (px_allowed_redirect_uris st0) (pd_client_redirect_uri p)"
    using inv p(1) by (auto simp: proxy_inv_def)
  have new: "flow_ok W st0 (?e # h) ?e"
    using src p(2) unfolding flow_ok_def by (simp, blast)
  have fl: "flow_ok W st0 (?e # h) e" if "e \<in> set (?e # h)" for e
    using that inv flow_ok_mono [of W st0 h e ?e] new by (auto simp: proxy_inv_def)
  have old: "Started (pd_created v) k (pd_client_redirect_uri v) (pd_client_state v) \<in> set (?e # h)
      \<and> is_allowed_redirect_uri (oo_url W) (px_allowed_redirect_uris st0) (pd_client_redirect_uri v)"
    if "hm_get (px_pending st') k = Some v" for k v
    using that inv st'(3) by (auto simp: proxy_inv_def split: if_splits)
  have cnt: "finished_count k (?e # h) + (if hm_get (px_pending st') k = None then 0 else 1)
      \<le> started_count k (?e # h)" for k
  proof -
    have "finished_count k h + (if hm_get (px_pending st) k = None then 0 else 1) \<le> started_count k h"
      using inv by (simp add: proxy_inv_def)
    with p(1) st'(3) show ?thesis by (cases "k = s") auto
  qed
  have "same_config st0 st'" using inv st'(2) same_config_trans by (auto simp: proxy_inv_def)
  then show ?thesis
    unfolding proxy_inv_def using st'(1) old cnt fl by blast
qed

lemma proxy_reach_inv:
  assumes "proxy_reach W st0 h st" "px_pending st0 = []"
  shows "proxy_inv W st0 h st"
  using assms
proof (induction rule: proxy_reach.induct)
  case reach_start
  then show ?case by (simp add: proxy_inv_def pending_ok_def started_count_def finished_count_def)
next
  case (reach_authorize h st now rnd q r st')
  then have inv: "proxy_inv W st0 h st" and ok: "pending_ok st" by (auto simp: proxy_inv_def)
  from reach_authorize.hyps(2) ok refl show ?case
  proof (cases rule: authorize_cases)
    case refused
    then have "authorize_event W now rnd q st = Refused (rs_status r)"
      using reach_authorize.hyps(2) by (auto simp: authorize_event_def Let_def)
    with proxy_inv_refused [OF inv refused(3,4,5)] show ?thesis by simp
  next
    case (started u)
    then have "authorize_event W now rnd q st
        = Started now rnd u (find_pair ''state'' (oo_form_parse W (case q of Some s \<Rightarrow> s | None \<Rightarrow> [])))"
      using reach_authorize.hyps(2) by (simp add: authorize_event_def Let_def)
    with proxy_inv_started [OF inv started(3,2)] show ?thesis by simp
  qed
next
  case (reach_callback h st now q r st')
  then have inv: "proxy_inv W st0 h st" and ok: "pending_ok st" by (auto simp: proxy_inv_def)
  from reach_callback.hyps(2) ok refl show ?case
  proof (cases rule: callback_cases)
    case refused
    then have "callback_event W now q st = Refused (rs_status r)"
      using reach_callback.hyps(2) by (simp add: callback_event_def Let_def)
    with proxy_inv_refused [OF inv refused(3,4,5)] show ?thesis by simp
  next
    case (finished s p)
    then have "callback_event W now q st = Finished now s (oo_append_pairs W (pd_client_redirect_uri p)
        (callback_pairs (collect_pairs (oo_form_parse W (case q of Some s \<Rightarrow> s | None \<Rightarrow> []))) (pd_client_state p)))"
      using reach_callback.hyps(2) by (simp add: callback_event_def Let_def)
    with proxy_inv_finished [OF inv finished(2,3,6)] finished(4) show ?thesis by simp
  qed
qed

subsection \<open>Rewriting\<close>

definition resource_rule :: "url_parser \<Rightarrow> string \<Rightarrow> pairs \<Rightarrow> bool" where
  "resource_rule P dav_audience ps \<longleftrightarrow>
     is_absolute_http_uri P dav_audience \<longrightarrow>
       (\<exists>v. (''resource'', v) \<in> set ps) \<and> (\<forall>v. (''resource'', v) \<in> set ps \<longrightarrow> v = dav_audience)"

lemma apply_dav_resource_rule: "resource_rule P a (apply_dav_resource P a ps)"
  by (force simp: resource_rule_def apply_dav_resource_def Let_def list_ex_iff split: if_splits)

lemma apply_dav_resource_other:
  "k \<noteq> ''resource'' \<Longrightarrow> (k, v) \<in> set (apply_dav_resource P a ps) \<longleftrightarrow> (k, v) \<in> set ps"
  by (force simp: apply_dav_resource_def Let_def split: if_splits)

lemma rewrite_authorize_other:
  "k \<noteq> ''redirect_uri'' \<Longrightarrow> k \<noteq> ''state'' \<Longrightarrow> (k, v) \<in> set (rewrite_authorize cb rnd ps) \<longleftrightarrow> (k, v) \<in> set ps"
  by (force simp: rewrite_authorize_def Let_def split: if_splits)

lemma rewrite_authorize_own:
  "(''redirect_uri'', v) \<in> set (rewrite_authorize cb rnd ps) \<Longrightarrow> v = cb"
  "(''state'', v) \<in> set (rewrite_authorize cb rnd ps) \<Longrightarrow> v = rnd"
  by (auto simp: rewrite_authorize_def Let_def split: if_splits)

lemma rewrite_authorize_state: "(''state'', rnd) \<in> set (rewrite_authorize cb rnd ps)"
  by (force simp: rewrite_authorize_def Let_def list_ex_iff)

lemma rewrite_token_Some:
  "rewrite_token al cb ps = Some ps' \<Longrightarrow>
     (\<forall>v. (''redirect_uri'', v) \<in> set ps \<longrightarrow> al v) \<and> (\<forall>v. (''redirect_uri'', v) \<in> set ps' \<longrightarrow> v = cb)
     \<and> (\<forall>k v. k \<noteq> ''redirect_uri'' \<longrightarrow> (k, v) \<in> set ps' \<longleftrightarrow> (k, v) \<in> set ps) \<and> map fst ps' = map fst ps"
  by (induction al cb ps arbitrary: ps' rule: rewrite_token.induct) (auto split: if_splits)

lemma rewrite_token_None:
  "rewrite_token al cb ps = None \<longleftrightarrow> (\<exists>v. (''redirect_uri'', v) \<in> set ps \<and> \<not> al v)"
  by (induction al cb ps rule: rewrite_token.induct) auto

subsection \<open>Properties\<close>

text \<open>
  C5: where an authorization code can go. In every reachable state, when the callback redirects a
  browser, the state it came back with was drawn by an earlier authorization that passed the
  redirect allowlist and is less than 600 seconds old; the browser goes to that authorization's
  own redirect URI and gets back that client's own state; and the state cannot be used again: it
  is gone, no state finishes more flows than were started with it, and the map never holds more
  than 2048 flows.
\<close>

theorem callback_delivery:
  assumes "proxy_reach W (proxy_new base res allowed aud) h st" "callback W now q st = (r, st')"
    and "header_of ''location'' r = Some loc"
    and "m = collect_pairs (oo_form_parse W (case q of Some s \<Rightarrow> s | None \<Rightarrow> []))"
  shows "\<exists>s t u cs. m ''state'' = Some s \<and> Started t s u cs \<in> set h
     \<and> is_allowed_redirect_uri (oo_url W) allowed u \<and> now - t < secs 600
     \<and> loc = oo_append_pairs W u (callback_pairs m cs)
     \<and> hm_get (px_pending st') s = None \<and> finished_count s h < started_count s h
     \<and> hm_len (px_pending st') \<le> 2048"
proof -
  have inv: "proxy_inv W (proxy_new base res allowed aud) h st"
    using proxy_reach_inv [OF assms(1)] by (simp add: proxy_new_def)
  then have ok: "pending_ok st" by (simp add: proxy_inv_def)
  from assms(2) ok assms(4) show ?thesis
  proof (cases rule: callback_cases)
    case refused
    with assms(3) show ?thesis by simp
  next
    case (finished s p)
    have "Started (pd_created p) s (pd_client_redirect_uri p) (pd_client_state p) \<in> set h"
      "is_allowed_redirect_uri (oo_url W) allowed (pd_client_redirect_uri p)"
      "finished_count s h + 1 \<le> started_count s h"
      using inv finished(2) by (auto simp: proxy_inv_def proxy_new_def dest: spec [of _ s])
    with finished assms(3) show ?thesis
      by (intro exI [of _ s] exI [of _ "pd_created p"] exI [of _ "pd_client_redirect_uri p"]
            exI [of _ "pd_client_state p"])
         (auto simp: PENDING_TTL_def pending_ok_def PENDING_CAP_def)
  qed
qed

definition plain_form_parse :: "string \<Rightarrow> pairs" where
  "plain_form_parse s =
     map (\<lambda>p. case split_once (CHR ''='') p of Some kv \<Rightarrow> kv | None \<Rightarrow> (p, []))
       (filter (\<lambda>p. p \<noteq> []) (split_on (CHR ''&'') s))"

definition plain_form_serialize :: "pairs \<Rightarrow> string" where
  "plain_form_serialize ps = concat (map (\<lambda>(k, v). ''&'' @ k @ ''='' @ v) ps)"

definition sample_ops :: oauth_ops where
  "sample_ops = \<lparr>oo_url = sample_parser, oo_form_parse = plain_form_parse,
                 oo_form_serialize = plain_form_serialize,
                 oo_append_pairs = (\<lambda>u ps. u @ ''?'' @ plain_form_serialize ps)\<rparr>"

definition sample_proxy :: proxy_state where
  "sample_proxy = proxy_new ''https://l'' ''https://r'' [''https://claude.ai/cb''] ''aud''"

definition sample_query :: string where
  "sample_query = ''redirect_uri=https://claude.ai/cb&state=xyz''"

lemma sample_query_parse:
  "plain_form_parse sample_query = [(''redirect_uri'', ''https://claude.ai/cb''), (''state'', ''xyz'')]"
  by (simp add: plain_form_parse_def sample_query_def)

lemma sample_uri_allowed: "is_allowed_redirect_uri sample_parser [''https://claude.ai/cb''] ''https://claude.ai/cb''"
  by (simp add: is_allowed_redirect_uri_def validate_ok sample_trim sample_parser_def)

lemma sample_authorize:
  "\<exists>loc st'. authorize sample_ops 5 ''rnd'' (Some sample_query) sample_proxy = (redirect_to loc, st')
     \<and> px_pending st' = [(''rnd'', \<lparr>pd_client_redirect_uri = ''https://claude.ai/cb'',
          pd_client_state = Some ''xyz'', pd_created = 5\<rparr>)]"
  by (simp add: authorize_def sample_ops_def sample_query_parse find_pair_def sample_proxy_def proxy_new_def
      sample_uri_allowed MAX_CLIENT_STATE_BYTES_def pending_insert_def PENDING_CAP_def hm_insert_def) (rule exI, rule refl)

theorem callback_delivery_witness:
  "\<exists>st loc st'. callback sample_ops 9 (Some ''state=rnd&code=c'') st = (redirect_to loc, st')
     \<and> hm_get (px_pending st') ''rnd'' = None \<and> hm_len (px_pending st') \<le> 2048"
proof -
  obtain l1 st where a: "authorize sample_ops 5 ''rnd'' (Some sample_query) sample_proxy = (redirect_to l1, st)"
    "px_pending st = [(''rnd'', \<lparr>pd_client_redirect_uri = ''https://claude.ai/cb'',
          pd_client_state = Some ''xyz'', pd_created = 5\<rparr>)]"
    using sample_authorize by blast
  have reach: "proxy_reach sample_ops sample_proxy [authorize_event sample_ops 5 ''rnd'' (Some sample_query) sample_proxy] st"
    by (rule reach_authorize [OF reach_start a(1)])
  have p: "oo_form_parse sample_ops ''state=rnd&code=c'' = [(''state'', ''rnd''), (''code'', ''c'')]"
    by (simp add: sample_ops_def plain_form_parse_def)
  let ?p = "\<lparr>pd_client_redirect_uri = ''https://claude.ai/cb'', pd_client_state = Some ''xyz'', pd_created = 5\<rparr>"
  have "\<not> 9 - 5 \<ge> PENDING_TTL" by (simp add: PENDING_TTL_def secs_def)
  then have "pending_take 9 ''rnd'' st = (Some ?p, st\<lparr>px_pending := hm_remove ''rnd'' (px_pending st)\<rparr>)"
    using a(2) by (simp add: pending_take_def hm_get_def)
  moreover have "\<exists>u. oo_url sample_ops ''https://claude.ai/cb'' = Some u"
    by (simp add: sample_ops_def sample_parser_def)
  moreover have "collect_pairs (oo_form_parse sample_ops ''state=rnd&code=c'') ''state'' = Some ''rnd''"
    using p by (simp add: collect_pairs_def)
  ultimately have "\<exists>loc st'. callback sample_ops 9 (Some ''state=rnd&code=c'') st = (redirect_to loc, st')"
    by (auto simp: callback_def Let_def)
  then obtain loc st' where c: "callback sample_ops 9 (Some ''state=rnd&code=c'') st = (redirect_to loc, st')"
    by blast
  from callback_delivery [OF reach [unfolded sample_proxy_def] c _ refl] p
  have "hm_get (px_pending st') ''rnd'' = None \<and> hm_len (px_pending st') \<le> 2048"
    by (auto simp: collect_pairs_def)
  with c show ?thesis by blast
qed

text \<open>
  C26: what is forwarded to the identity provider. When \<open>authorize\<close> redirects, it goes to the
  provider's own endpoint, every redirect URI sent is our callback, every state sent is the fresh
  one, so the client's own values for both never leave the proxy; the resource sent is the
  configured audience and nothing else; every other parameter, the PKCE challenge included, is
  passed through unchanged; and the client's values are what is stored under the fresh state.
\<close>

theorem authorize_forwards:
  assumes "authorize W now rnd q st = (r, st')" "header_of ''location'' r = Some loc" "pending_ok st"
    and "ps = oo_form_parse W (case q of Some s \<Rightarrow> s | None \<Rightarrow> [])"
  shows "\<exists>ps' u. loc = px_logto_base st @ ''/auth?'' @ oo_form_serialize W ps'
     \<and> (\<forall>v. (''redirect_uri'', v) \<in> set ps' \<longrightarrow> v = px_callback_url st)
     \<and> (\<forall>v. (''state'', v) \<in> set ps' \<longleftrightarrow> v = rnd)
     \<and> resource_rule (oo_url W) (px_dav_audience st) ps'
     \<and> (\<forall>k v. k \<notin> {''redirect_uri'', ''state'', ''resource''} \<longrightarrow> (k, v) \<in> set ps' \<longleftrightarrow> (k, v) \<in> set ps)
     \<and> find_pair ''redirect_uri'' ps = Some u \<and> is_allowed_redirect_uri (oo_url W) (px_allowed_redirect_uris st) u
     \<and> hm_get (px_pending st') rnd = Some \<lparr>pd_client_redirect_uri = u,
          pd_client_state = find_pair ''state'' ps, pd_created = now\<rparr>"
  using assms(1,3,4)
proof (cases rule: authorize_cases)
  case refused
  with assms(2) show ?thesis by simp
next
  case (started u)
  let ?rw = "rewrite_authorize (px_callback_url st) rnd ps"
  let ?ps = "apply_dav_resource (oo_url W) (px_dav_audience st) ?rw"
  have "v = px_callback_url st" if "(''redirect_uri'', v) \<in> set ?ps" for v
    using that rewrite_authorize_own(1) by (simp add: apply_dav_resource_other)
  moreover have "(''state'', v) \<in> set ?ps \<longleftrightarrow> v = rnd" for v
    using rewrite_authorize_own(2) rewrite_authorize_state by (auto simp: apply_dav_resource_other)
  moreover have "(k, v) \<in> set ?ps \<longleftrightarrow> (k, v) \<in> set ps" if "k \<notin> {''redirect_uri'', ''state'', ''resource''}" for k v
    using that by (simp add: apply_dav_resource_other rewrite_authorize_other)
  moreover have "loc = px_logto_base st @ ''/auth?'' @ oo_form_serialize W ?ps"
    using assms(2) started(4) by simp
  moreover note apply_dav_resource_rule [of "oo_url W" "px_dav_audience st" ?rw] started(1,2)
    pending_insert_cases [OF started(3) assms(3)]
  ultimately show ?thesis by blast
qed

theorem authorize_forwards_witness:
  "\<exists>loc st'. authorize sample_ops 5 ''rnd'' (Some sample_query) sample_proxy = (redirect_to loc, st')
     \<and> (\<exists>ps'. loc = ''https://l/auth?'' @ plain_form_serialize ps' \<and> (''state'', ''rnd'') \<in> set ps'
          \<and> (''state'', ''xyz'') \<notin> set ps')"
proof -
  obtain loc st' where a: "authorize sample_ops 5 ''rnd'' (Some sample_query) sample_proxy = (redirect_to loc, st')"
    using sample_authorize by blast
  have ok: "pending_ok sample_proxy" by (simp add: pending_ok_def sample_proxy_def proxy_new_def)
  have b: "px_logto_base sample_proxy = ''https://l''"
    by (simp add: sample_proxy_def proxy_new_def trim_end_matches_def)
  from authorize_forwards [OF a _ ok refl] obtain ps' where
    "loc = px_logto_base sample_proxy @ ''/auth?'' @ oo_form_serialize sample_ops ps'"
    "\<forall>v. (''state'', v) \<in> set ps' \<longleftrightarrow> v = ''rnd''" by auto
  then have "loc = ''https://l/auth?'' @ plain_form_serialize ps'" "(''state'', ''rnd'') \<in> set ps'"
    "(''state'', ''xyz'') \<notin> set ps'"
    using b by (simp_all add: sample_ops_def)
  with a show ?thesis by blast
qed

lemma token_sends:
  assumes t: "token W send body st = (r, sent)" and ps: "ps = oo_form_parse W body"
    and r: "rewrite_token al (px_callback_url st) ps = Some ps1"
    and al: "al = is_allowed_redirect_uri (oo_url W) (px_allowed_redirect_uris st)"
    and uri: "\<not> (list_ex (\<lambda>(k, v). k = ''grant_type'' \<and> v = ''authorization_code'') ps
        \<and> \<not> list_ex (\<lambda>(k, _). k = ''redirect_uri'') ps)"
  shows "\<exists>ps'. sent = [(px_logto_base st @ ''/token'', oo_form_serialize W ps')]
          \<and> (\<forall>v. (''redirect_uri'', v) \<in> set ps' \<longrightarrow> v = px_callback_url st)
          \<and> resource_rule (oo_url W) (px_dav_audience st) ps'
          \<and> (\<forall>k v. k \<notin> {''redirect_uri'', ''resource''} \<longrightarrow> (k, v) \<in> set ps' \<longleftrightarrow> (k, v) \<in> set ps)
          \<and> (\<forall>reply. send (hd sent) = Some reply \<longrightarrow> rs_status r = ur_status reply \<and> rs_body r = ur_body reply
               \<and> header_of ''cache-control'' r = Some ''no-store'')"
proof -
  note s1 = rewrite_token_Some [OF r]
  let ?ps = "apply_dav_resource (oo_url W) (px_dav_audience st) ps1"
  let ?req = "(px_logto_base st @ ''/token'', oo_form_serialize W ?ps)"
  have e: "r = token_reply (send ?req)" "sent = [?req]"
    using t ps al r uri by (auto simp: token_def token_request_def Let_def split: if_splits)
  have "v = px_callback_url st" if "(''redirect_uri'', v) \<in> set ?ps" for v
    using that s1 by (simp add: apply_dav_resource_other)
  moreover have "(k, v) \<in> set ?ps \<longleftrightarrow> (k, v) \<in> set ps" if "k \<notin> {''redirect_uri'', ''resource''}" for k v
    using that s1 by (simp add: apply_dav_resource_other)
  moreover have "rs_status r = ur_status reply \<and> rs_body r = ur_body reply
           \<and> header_of ''cache-control'' r = Some ''no-store''" if "send (hd sent) = Some reply" for reply
    using that e by (simp add: token_reply_def header_of_def)
  moreover note apply_dav_resource_rule [of "oo_url W" "px_dav_audience st" ps1]
  ultimately show ?thesis using e(2) by (intro exI [of _ ?ps] conjI) simp_all
qed

text \<open>
  C25: what the token relay sends and answers. It sends at most one request, to the provider's
  token endpoint; it sends none if any redirect URI in the form is not allowlisted, or if an
  authorization-code exchange carries none; in what it sends every redirect URI is our callback,
  the resource is the configured audience, every other field is unchanged; and what the provider
  answers is passed on with its status and body, and is marked not to be stored.
\<close>

theorem token_relay:
  assumes "token W send body st = (r, sent)" "ps = oo_form_parse W body"
  shows "(\<forall>v. (''redirect_uri'', v) \<in> set ps \<and> \<not> is_allowed_redirect_uri (oo_url W) (px_allowed_redirect_uris st) v
            \<longrightarrow> sent = [] \<and> rs_status r = 400)
    \<and> ((''grant_type'', ''authorization_code'') \<in> set ps \<and> ''redirect_uri'' \<notin> fst ` set ps
            \<longrightarrow> sent = [] \<and> rs_status r = 400)
    \<and> (sent = [] \<or> (\<exists>ps'. sent = [(px_logto_base st @ ''/token'', oo_form_serialize W ps')]
          \<and> (\<forall>v. (''redirect_uri'', v) \<in> set ps' \<longrightarrow> v = px_callback_url st)
          \<and> resource_rule (oo_url W) (px_dav_audience st) ps'
          \<and> (\<forall>k v. k \<notin> {''redirect_uri'', ''resource''} \<longrightarrow> (k, v) \<in> set ps' \<longleftrightarrow> (k, v) \<in> set ps)
          \<and> (\<forall>reply. send (hd sent) = Some reply \<longrightarrow> rs_status r = ur_status reply \<and> rs_body r = ur_body reply
               \<and> header_of ''cache-control'' r = Some ''no-store'')))"
proof -
  let ?al = "is_allowed_redirect_uri (oo_url W) (px_allowed_redirect_uris st)"
  let ?bad = "list_ex (\<lambda>(k, v). k = ''grant_type'' \<and> v = ''authorization_code'') ps
      \<and> \<not> list_ex (\<lambda>(k, _). k = ''redirect_uri'') ps"
  have bad: "?bad \<longleftrightarrow> (''grant_type'', ''authorization_code'') \<in> set ps \<and> ''redirect_uri'' \<notin> fst ` set ps"
    by (force simp: list_ex_iff)
  show ?thesis
  proof (cases "rewrite_token ?al (px_callback_url st) ps")
    case None
    with assms have "(r, sent) = (plain_response 400 (''unregistered redirect_uri'' @ [LF]), [])"
      by (simp add: token_def token_request_def Let_def)
    then show ?thesis by simp
  next
    case (Some ps1)
    note al = rewrite_token_Some [OF Some, THEN conjunct1]
    show ?thesis
    proof (cases ?bad)
      case True
      with assms Some have "(r, sent) = (plain_response 400 (''missing redirect_uri'' @ [LF]), [])"
        by (simp add: token_def token_request_def Let_def)
      then show ?thesis by simp
    next
      case False
      show ?thesis
        by (intro conjI disjI2 token_sends [OF assms Some refl False]) (use al False in \<open>unfold bad; blast\<close>)+
    qed
  qed
qed

theorem token_relay_witness:
  "snd (token sample_ops (\<lambda>_. None) ''grant_type=authorization_code&redirect_uri=https://evil/'' sample_proxy) = []"
proof -
  let ?b = "''grant_type=authorization_code&redirect_uri=https://evil/''"
  obtain r sent where t: "token sample_ops (\<lambda>_. None) ?b sample_proxy = (r, sent)" by fastforce
  have p: "(''redirect_uri'', ''https://evil/'') \<in> set (oo_form_parse sample_ops ?b)"
    by (simp add: sample_ops_def plain_form_parse_def)
  have n: "\<not> is_allowed_redirect_uri (oo_url sample_ops) (px_allowed_redirect_uris sample_proxy) ''https://evil/''"
    by (simp add: is_allowed_redirect_uri_def validate_ok sample_ops_def sample_parser_def)
  from token_relay [OF t refl, THEN conjunct1, THEN spec, of "''https://evil/''"] p n
  have "sent = []" by (simp only: simp_thms)
  with t show ?thesis by simp
qed

end
