(* ===== verification/Logto_Oidc.thy ===== *)
theory Logto_Oidc
  imports Rust_Str Rust_Map
begin

text \<open>
  Logto access-token validation, \<open>src/src/logto_oidc.rs\<close>.

  \<^item> JWT decoding, JWK conversion and SHA-256 are third-party: the record \<open>jwt_ops\<close>. \<open>jw_decode\<close> is
    \<open>jsonwebtoken::decode\<close> with the validation the code sets up (audiences, issuer, the required
    claims) at a Unix time; nothing is assumed of it.
  \<^item> A validation reads three clocks: \<open>ck_now\<close> before any network wait, \<open>ck_done\<close> after it, and the
    Unix time \<open>ck_unix\<close>. The reply to a JWKS request is an argument, used only if one is sent.
  \<^item> Refreshes hold \<open>jwks_refresh_gate\<close> from the re-check to the end of the fetch, and nothing else
    writes the JWKS cache, so \<open>slow_key\<close> is a critical section; the validation cache is behind a
    lock each of whose uses is atomic. Poisoned locks are not modelled.
\<close>

definition MAX_CACHE_TTL :: duration where "MAX_CACHE_TTL = secs 60"
definition CACHE_CAP :: nat where "CACHE_CAP = 256"
definition JWKS_TTL :: duration where "JWKS_TTL = secs 3600"
definition JWKS_MIN_REFRESH_INTERVAL :: duration where "JWKS_MIN_REFRESH_INTERVAL = secs 5"

datatype aud_field = Single string | Multi "string list"

fun aud_matches :: "aud_field \<Rightarrow> string \<Rightarrow> bool" where
  "aud_matches (Single s) expected = (s = expected)"
| "aud_matches (Multi xs) expected = list_ex (\<lambda>s. s = expected) xs"

record claims =
  cl_sub :: string
  cl_aud :: aud_field
  cl_exp :: int
  cl_email :: "string option"
  cl_name :: "string option"
  cl_username :: "string option"

record authenticated_identity =
  ai_user_id :: string
  ai_email :: "string option"
  ai_name :: "string option"
  ai_exp :: "int option"

text \<open>\<open>jsonwebtoken::Algorithm\<close>: the six the code accepts, and the others (HMAC, PSS).\<close>

datatype algorithm = ES256 | ES384 | RS256 | RS384 | RS512 | EdDSA | OtherAlg nat

datatype validation_error = Http | JwksUpstream nat

datatype 'j jwks_reply = TransportError | UpstreamStatus nat | InvalidJson | JwkSet "'j list"

record ('h, 'k, 'j) jwt_ops =
  jw_sha :: "string \<Rightarrow> 'h"
  jw_decode_header :: "string \<Rightarrow> (algorithm \<times> string option) option"
  jw_decode :: "string \<Rightarrow> 'k \<Rightarrow> algorithm \<Rightarrow> string list \<Rightarrow> string \<Rightarrow> int \<Rightarrow> claims option"
  jw_kid :: "'j \<Rightarrow> string option"
  jw_from_jwk :: "'j \<Rightarrow> 'k option"

record 'k jwks_cache =
  jk_keys :: "(string, 'k) hmap"
  jk_fetched_at :: "instant option"
  jk_last_refresh_attempt :: "instant option"

record cache_entry =
  ce_identity :: authenticated_identity
  ce_expires_at :: instant

record ('h, 'k) logto_client =
  lc_jwks_url :: string
  lc_expected_audiences :: "string list"
  lc_expected_issuer :: string
  lc_jwks :: "'k jwks_cache"
  lc_cache :: "('h, cache_entry) hmap"

record clocks =
  ck_now :: instant
  ck_done :: instant
  ck_unix :: int

definition logto_new :: "string \<Rightarrow> string list \<Rightarrow> ('h, 'k) logto_client option" where
  "logto_new authorization_server expected_audiences =
     (if expected_audiences = [] then None
      else let issuer = trim_end_matches (CHR ''/'') authorization_server in
        Some \<lparr>lc_jwks_url = issuer @ ''/jwks'', lc_expected_audiences = expected_audiences,
              lc_expected_issuer = issuer,
              lc_jwks = \<lparr>jk_keys = [], jk_fetched_at = None, jk_last_refresh_attempt = None\<rparr>,
              lc_cache = []\<rparr>)"

subsection \<open>The JWKS cache\<close>

definition jwks_fresh :: "instant \<Rightarrow> 'k jwks_cache \<Rightarrow> bool" where
  "jwks_fresh now g = (case jk_fetched_at g of Some t \<Rightarrow> now - t < JWKS_TTL | None \<Rightarrow> False)"

text \<open>The read both paths of \<open>decoding_key_for\<close> start with.\<close>

definition fresh_key :: "instant \<Rightarrow> string \<Rightarrow> 'k jwks_cache \<Rightarrow> 'k option" where
  "fresh_key now kid g = (if jwks_fresh now g then hm_get (jk_keys g) kid else None)"

fun jwk_keys :: "('h, 'k, 'j) jwt_ops \<Rightarrow> 'j list \<Rightarrow> (string, 'k) hmap \<Rightarrow> (string, 'k) hmap" where
  "jwk_keys J [] keys = keys"
| "jwk_keys J (jwk # rest) keys =
     jwk_keys J rest
       (case jw_kid J jwk of
          None \<Rightarrow> keys
        | Some kid \<Rightarrow> (case jw_from_jwk J jwk of None \<Rightarrow> keys | Some key \<Rightarrow> hm_insert kid key keys))"

definition refresh_jwks ::
  "('h, 'k, 'j) jwt_ops \<Rightarrow> instant \<Rightarrow> 'j jwks_reply \<Rightarrow> 'k jwks_cache
     \<Rightarrow> (validation_error + unit) \<times> 'k jwks_cache" where
  "refresh_jwks J done reply g =
     (case reply of
        TransportError \<Rightarrow> (Err Http, g)
      | UpstreamStatus s \<Rightarrow> (Err (JwksUpstream s), g)
      | InvalidJson \<Rightarrow> (Err Http, g)
      | JwkSet jwks \<Rightarrow> (Ok (), g\<lparr>jk_keys := jwk_keys J jwks [], jk_fetched_at := Some done\<rparr>))"

text \<open>The part under the gate; the last component says whether a request was sent.\<close>

definition slow_key ::
  "('h, 'k, 'j) jwt_ops \<Rightarrow> instant \<Rightarrow> instant \<Rightarrow> 'j jwks_reply \<Rightarrow> string \<Rightarrow> 'k jwks_cache
     \<Rightarrow> (validation_error + 'k option) \<times> 'k jwks_cache \<times> bool" where
  "slow_key J now done reply kid g =
     (case fresh_key now kid g of
        Some k \<Rightarrow> (Ok (Some k), g, False)
      | None \<Rightarrow>
          if (case jk_last_refresh_attempt g of Some t \<Rightarrow> now - t < JWKS_MIN_REFRESH_INTERVAL | None \<Rightarrow> False)
          then (Ok (hm_get (jk_keys g) kid), g, False)
          else let (r, g') = refresh_jwks J done reply (g\<lparr>jk_last_refresh_attempt := Some now\<rparr>) in
            (and_then r (\<lambda>_. Ok (hm_get (jk_keys g') kid)), g', True))"

definition decoding_key_for ::
  "('h, 'k, 'j) jwt_ops \<Rightarrow> instant \<Rightarrow> instant \<Rightarrow> 'j jwks_reply \<Rightarrow> string \<Rightarrow> 'k jwks_cache
     \<Rightarrow> (validation_error + 'k option) \<times> 'k jwks_cache \<times> bool" where
  "decoding_key_for J now done reply kid g =
     (case fresh_key now kid g of
        Some k \<Rightarrow> (Ok (Some k), g, False)
      | None \<Rightarrow> slow_key J now done reply kid g)"

subsection \<open>The validation cache\<close>

definition cache_lookup :: "instant \<Rightarrow> 'h \<Rightarrow> ('h, cache_entry) hmap \<Rightarrow> authenticated_identity option" where
  "cache_lookup now key cache =
     (case hm_get cache key of
        Some e \<Rightarrow> if ce_expires_at e > now then Some (ce_identity e) else None
      | None \<Rightarrow> None)"

definition cache_ttl :: "int \<Rightarrow> int option \<Rightarrow> duration" where
  "cache_ttl unix exp =
     (case exp of None \<Rightarrow> MAX_CACHE_TTL
      | Some x \<Rightarrow> min (secs (nat (max (x - unix) 0))) MAX_CACHE_TTL)"

definition cache_entry_of ::
  "instant \<Rightarrow> int \<times> authenticated_identity \<times> int option \<Rightarrow> cache_entry" where
  "cache_entry_of now a = (case a of (unix, identity, exp) \<Rightarrow>
     \<lparr>ce_identity = identity, ce_expires_at = now + cache_ttl unix exp\<rparr>)"

definition cache_insert ::
  "instant \<Rightarrow> 'h \<Rightarrow> int \<times> authenticated_identity \<times> int option \<Rightarrow> ('h, cache_entry) hmap
     \<Rightarrow> ('h, cache_entry) hmap" where
  "cache_insert now key a cache =
     (let g1 = (if hm_len cache \<ge> CACHE_CAP then hm_retain (\<lambda>_ e. ce_expires_at e > now) cache else cache);
          g2 = (if hm_len g1 \<ge> CACHE_CAP \<and> \<not> hm_contains g1 key then evict_min ce_expires_at g1 else g1)
      in hm_insert key (cache_entry_of now a) g2)"

definition drop_token :: "('h, 'k, 'j) jwt_ops \<Rightarrow> string \<Rightarrow> ('h, 'k) logto_client \<Rightarrow> ('h, 'k) logto_client" where
  "drop_token J token c = c\<lparr>lc_cache := hm_remove (jw_sha J token) (lc_cache c)\<rparr>"

subsection \<open>Validation\<close>

definition accepted_alg :: "algorithm \<Rightarrow> bool" where
  "accepted_alg a \<longleftrightarrow> a \<in> {ES384, ES256, RS256, RS384, RS512, EdDSA}"

definition identity_of :: "claims \<Rightarrow> authenticated_identity" where
  "identity_of c =
     \<lparr>ai_user_id = cl_sub c,
      ai_email = (case cl_email c of Some e \<Rightarrow> Some e | None \<Rightarrow> cl_username c),
      ai_name = cl_name c, ai_exp = Some (cl_exp c)\<rparr>"

text \<open>Everything after the key was found: \<open>None\<close> rejects the token.\<close>

definition verify_claims ::
  "('h, 'k, 'j) jwt_ops \<Rightarrow> ('h, 'k) logto_client \<Rightarrow> int \<Rightarrow> string \<Rightarrow> algorithm \<Rightarrow> 'k \<Rightarrow> claims option" where
  "verify_claims J c unix token alg key =
     (if \<not> accepted_alg alg then None
      else case jw_decode J token key alg (lc_expected_audiences c) (lc_expected_issuer c) unix of
          None \<Rightarrow> None
        | Some cl \<Rightarrow>
            if \<not> list_ex (aud_matches (cl_aud cl)) (lc_expected_audiences c) then None else Some cl)"

definition validate_token ::
  "('h, 'k, 'j) jwt_ops \<Rightarrow> clocks \<Rightarrow> 'j jwks_reply \<Rightarrow> string \<Rightarrow> ('h, 'k) logto_client
     \<Rightarrow> (validation_error + authenticated_identity option) \<times> ('h, 'k) logto_client \<times> bool" where
  "validate_token J ck reply token c =
     (let key = jw_sha J token in
      case cache_lookup (ck_now ck) key (lc_cache c) of
        Some hit \<Rightarrow> (Ok (Some hit), c, False)
      | None \<Rightarrow>
        (case jw_decode_header J token of
           None \<Rightarrow> (Ok None, c, False)
         | Some (alg, None) \<Rightarrow> (Ok None, c, False)
         | Some (alg, Some kid) \<Rightarrow>
             (let (r, jwks, sent) = decoding_key_for J (ck_now ck) (ck_done ck) reply kid (lc_jwks c);
                  c' = c\<lparr>lc_jwks := jwks\<rparr> in
              case r of
                Inl e \<Rightarrow> (Err e, c', sent)
              | Inr None \<Rightarrow> (Ok None, c', sent)
              | Inr (Some decoding_key) \<Rightarrow>
                  (case verify_claims J c' (ck_unix ck) token alg decoding_key of
                     None \<Rightarrow> (Ok None, c', sent)
                   | Some cl \<Rightarrow>
                       (Ok (Some (identity_of cl)),
                        c'\<lparr>lc_cache := cache_insert (ck_done ck) key
                              (ck_unix ck, identity_of cl, Some (cl_exp cl)) (lc_cache c')\<rparr>, sent)))))"

subsection \<open>The validation cache is a bounded map\<close>

lemma CACHE_CAP_pos: "0 < CACHE_CAP"
  by (simp add: CACHE_CAP_def)

lemma cache_insert_put:
  "cache_insert now k a m = capped_put CACHE_CAP (\<lambda>_ e. ce_expires_at e > now) ce_expires_at k (cache_entry_of now a) m"
  by (simp only: cache_insert_def capped_put_def)

lemma cache_insert_other:
  "hm_wf m \<Longrightarrow> k' \<noteq> k \<Longrightarrow> hm_get (cache_insert now k a m) k' = Some e \<Longrightarrow> hm_get m k' = Some e"
  by (simp add: cache_insert_put hm_get_capped_put_other)

interpretation token_cache: capped_insert CACHE_CAP cache_insert cache_entry_of
  by unfold_locales
     (auto simp: CACHE_CAP_pos cache_insert_put hm_wf_capped_put hm_len_capped_put hm_get_capped_put
       dest: hm_get_capped_put_other)

lemma token_cache_remove: "token_cache.inv m \<Longrightarrow> token_cache.inv (hm_remove k m)"
  using hm_len_remove_le [of k m] by (auto simp: token_cache.inv_def)

lemma cache_ttl_le: "cache_ttl unix exp \<le> MAX_CACHE_TTL"
  by (cases exp) (simp_all add: cache_ttl_def)

lemma cache_ttl_exp: "cache_ttl unix (Some x) \<le> secs (nat (x - unix))"
  by (simp add: cache_ttl_def max_def)

subsection \<open>Runs of validations\<close>

text \<open>
  What each request to the client did: a token was verified, with the clocks, the identity and the
  expiry it was verified with; found in the cache; turned down; or dropped.
\<close>

datatype 'h oidc_event =
    Verified clocks 'h string authenticated_identity int
  | CacheHit clocks 'h authenticated_identity
  | TurnedDown
  | Dropped 'h

definition validate_event ::
  "('h, 'k, 'j) jwt_ops \<Rightarrow> clocks \<Rightarrow> string \<Rightarrow> ('h, 'k) logto_client
     \<Rightarrow> (validation_error + authenticated_identity option) \<Rightarrow> 'h oidc_event" where
  "validate_event J ck token c r =
     (case r of
        Inr (Some i) \<Rightarrow>
          if cache_lookup (ck_now ck) (jw_sha J token) (lc_cache c) = None
          then Verified ck (jw_sha J token) token i (the (ai_exp i)) else CacheHit ck (jw_sha J token) i
      | _ \<Rightarrow> TurnedDown)"

inductive oidc_reach ::
  "('h, 'k, 'j) jwt_ops \<Rightarrow> ('h, 'k) logto_client \<Rightarrow> 'h oidc_event list \<Rightarrow> 'j list \<Rightarrow> ('h, 'k) logto_client \<Rightarrow> bool"
  for J c0 where
  oidc_start: "oidc_reach J c0 [] [] c0"
| oidc_validate: "oidc_reach J c0 h served c \<Longrightarrow> validate_token J ck reply token c = (r, c', sent) \<Longrightarrow>
    oidc_reach J c0 (validate_event J ck token c r # h)
      ((case reply of JwkSet js \<Rightarrow> js | _ \<Rightarrow> []) @ served) c'"
| oidc_drop: "oidc_reach J c0 h served c \<Longrightarrow> oidc_reach J c0 (Dropped (jw_sha J token) # h) served (drop_token J token c)"

text \<open>What it takes to verify a token: the key, served by the issuer for the token's own key id.\<close>

definition genuine ::
  "('h, 'k, 'j) jwt_ops \<Rightarrow> ('h, 'k) logto_client \<Rightarrow> 'j list \<Rightarrow> int \<Rightarrow> string \<Rightarrow> authenticated_identity \<Rightarrow> int \<Rightarrow> bool" where
  "genuine J c0 served unix token i x \<longleftrightarrow>
     (\<exists>alg kid jwk key cl. jw_decode_header J token = Some (alg, Some kid) \<and> accepted_alg alg
        \<and> jwk \<in> set served \<and> jw_kid J jwk = Some kid \<and> jw_from_jwk J jwk = Some key
        \<and> jw_decode J token key alg (lc_expected_audiences c0) (lc_expected_issuer c0) unix = Some cl
        \<and> (\<exists>a \<in> set (lc_expected_audiences c0). aud_matches (cl_aud cl) a)
        \<and> i = identity_of cl \<and> x = cl_exp cl)"

lemma genuine_mono: "genuine J c0 served unix token i x \<Longrightarrow> set served \<subseteq> set served' \<Longrightarrow> genuine J c0 served' unix token i x"
  unfolding genuine_def by blast

definition keys_served :: "('h, 'k, 'j) jwt_ops \<Rightarrow> 'j list \<Rightarrow> (string, 'k) hmap \<Rightarrow> bool" where
  "keys_served J served keys \<longleftrightarrow>
     (\<forall>kid key. hm_get keys kid = Some key \<longrightarrow>
        (\<exists>jwk \<in> set served. jw_kid J jwk = Some kid \<and> jw_from_jwk J jwk = Some key))"

lemma keys_served_mono: "keys_served J served keys \<Longrightarrow> set served \<subseteq> set served' \<Longrightarrow> keys_served J served' keys"
  unfolding keys_served_def by blast

lemma keys_served_jwk_keys: "keys_served J served keys \<Longrightarrow> set js \<subseteq> set served \<Longrightarrow> keys_served J served (jwk_keys J js keys)"
proof (induction js arbitrary: keys)
  case (Cons jwk js)
  let ?keys = "case jw_kid J jwk of None \<Rightarrow> keys
        | Some kid \<Rightarrow> (case jw_from_jwk J jwk of None \<Rightarrow> keys | Some key \<Rightarrow> hm_insert kid key keys)"
  have "keys_served J served ?keys"
    using Cons.prems by (auto simp: keys_served_def split: option.splits if_splits)
  with Cons show ?case by simp
qed simp

lemma decoding_key_for_served:
  assumes "decoding_key_for J now done reply kid g = (r, g', sent)" "keys_served J served (jk_keys g)"
    and "served' = (case reply of JwkSet js \<Rightarrow> js | _ \<Rightarrow> []) @ served"
  shows "keys_served J served' (jk_keys g') \<and> (\<forall>key. r = Ok (Some key) \<longrightarrow> hm_get (jk_keys g') kid = Some key)"
proof -
  have sub: "keys_served J served' (jk_keys g)"
    using keys_served_mono [OF assms(2)] assms(3) by auto
  have ref: "keys_served J served' (jk_keys g2)"
    if "refresh_jwks J done reply g1 = (r1, g2)" "jk_keys g1 = jk_keys g" for g1 g2 r1
  proof (cases reply)
    case (JwkSet js)
    then have "keys_served J served' (jwk_keys J js [])"
      using assms(3) by (intro keys_served_jwk_keys) (auto simp: keys_served_def)
    with JwkSet that show ?thesis by (auto simp: refresh_jwks_def)
  qed (use that sub in \<open>auto simp: refresh_jwks_def\<close>)
  show ?thesis
  proof (cases "fresh_key now kid g")
    case (Some k)
    with assms(1) sub show ?thesis
      by (auto simp: decoding_key_for_def fresh_key_def split: if_splits)
  next
    case None
    show ?thesis
    proof (cases "case jk_last_refresh_attempt g of Some t \<Rightarrow> now - t < JWKS_MIN_REFRESH_INTERVAL | None \<Rightarrow> False")
      case True
      with None assms(1) sub show ?thesis by (auto simp: decoding_key_for_def slow_key_def)
    next
      case False
      obtain r1 g2 where r1: "refresh_jwks J done reply (g\<lparr>jk_last_refresh_attempt := Some now\<rparr>) = (r1, g2)"
        by fastforce
      from ref [OF this] have "keys_served J served' (jk_keys g2)" by simp
      moreover have "g' = g2 \<and> r = and_then r1 (\<lambda>_. Ok (hm_get (jk_keys g2) kid))"
        using assms(1) None False r1 by (auto simp: decoding_key_for_def slow_key_def)
      ultimately show ?thesis by (cases r1) auto
    qed
  qed
qed

subsection \<open>The invariant of a client\<close>

definition backed :: "'h oidc_event list \<Rightarrow> 'h \<Rightarrow> cache_entry \<Rightarrow> bool" where
  "backed h k e \<longleftrightarrow>
     (\<exists>pre ck token x post. h = pre @ Verified ck k token (ce_identity e) x # post \<and> Dropped k \<notin> set pre
        \<and> ce_expires_at e = ck_done ck + cache_ttl (ck_unix ck) (Some x))"

definition event_ok ::
  "('h, 'k, 'j) jwt_ops \<Rightarrow> ('h, 'k) logto_client \<Rightarrow> 'j list \<Rightarrow> 'h oidc_event \<Rightarrow> bool" where
  "event_ok J c0 served ev \<longleftrightarrow>
     (case ev of Verified ck k token i x \<Rightarrow> k = jw_sha J token \<and> genuine J c0 served (ck_unix ck) token i x
      | _ \<Rightarrow> True)"

definition oidc_inv ::
  "('h, 'k, 'j) jwt_ops \<Rightarrow> ('h, 'k) logto_client \<Rightarrow> 'h oidc_event list \<Rightarrow> 'j list \<Rightarrow> ('h, 'k) logto_client \<Rightarrow> bool" where
  "oidc_inv J c0 h served c \<longleftrightarrow>
     lc_expected_audiences c = lc_expected_audiences c0 \<and> lc_expected_issuer c = lc_expected_issuer c0
     \<and> token_cache.inv (lc_cache c) \<and> keys_served J served (jk_keys (lc_jwks c))
     \<and> (\<forall>k e. hm_get (lc_cache c) k = Some e \<longrightarrow> backed h k e) \<and> (\<forall>ev \<in> set h. event_ok J c0 served ev)"

lemma backed_Cons: "backed h k e \<Longrightarrow> ev \<noteq> Dropped k \<Longrightarrow> backed (ev # h) k e"
  unfolding backed_def by (metis append_Cons set_ConsD)

lemma event_ok_simps [simp]:
  "event_ok J c0 served TurnedDown" "event_ok J c0 served (CacheHit a b i)" "event_ok J c0 served (Dropped k)"
  by (simp_all add: event_ok_def)

lemma event_ok_mono: "event_ok J c0 served ev \<Longrightarrow> set served \<subseteq> set served' \<Longrightarrow> event_ok J c0 served' ev"
  by (auto simp: event_ok_def genuine_mono split: oidc_event.splits)

text \<open>The four ways a validation ends.\<close>

lemma validate_token_cases:
  assumes "validate_token J ck reply token c = (r, c', sent)"
  obtains (hit) e where "hm_get (lc_cache c) (jw_sha J token) = Some e" "ce_expires_at e > ck_now ck"
      "r = Ok (Some (ce_identity e))" "c' = c"
      "cache_lookup (ck_now ck) (jw_sha J token) (lc_cache c) = Some (ce_identity e)"
  | (denied) "\<And>i. r \<noteq> Ok (Some i)" "c' = c \<or> (\<exists>kid kr jwks s. c' = c\<lparr>lc_jwks := jwks\<rparr>
        \<and> decoding_key_for J (ck_now ck) (ck_done ck) reply kid (lc_jwks c) = (kr, jwks, s))"
  | (verified) alg kid key jwks cl where "cache_lookup (ck_now ck) (jw_sha J token) (lc_cache c) = None"
      "jw_decode_header J token = Some (alg, Some kid)"
      "decoding_key_for J (ck_now ck) (ck_done ck) reply kid (lc_jwks c) = (Ok (Some key), jwks, sent)"
      "verify_claims J (c\<lparr>lc_jwks := jwks\<rparr>) (ck_unix ck) token alg key = Some cl"
      "r = Ok (Some (identity_of cl))"
      "c' = c\<lparr>lc_jwks := jwks, lc_cache := cache_insert (ck_done ck) (jw_sha J token)
                (ck_unix ck, identity_of cl, Some (cl_exp cl)) (lc_cache c)\<rparr>"
proof (cases "cache_lookup (ck_now ck) (jw_sha J token) (lc_cache c)")
  case (Some i)
  then obtain e where "hm_get (lc_cache c) (jw_sha J token) = Some e" "ce_expires_at e > ck_now ck" "i = ce_identity e"
    by (auto simp: cache_lookup_def split: option.splits if_splits)
  with Some assms show ?thesis by (intro hit [of e]) (auto simp: validate_token_def Let_def)
next
  case miss: None
  show ?thesis
  proof (cases "\<exists>alg kid. jw_decode_header J token = Some (alg, Some kid)")
    case False
    with miss assms have "r = Ok None \<and> c' = c"
      by (auto simp: validate_token_def Let_def split: option.splits prod.splits)
    then show ?thesis by (intro denied) auto
  next
    case True
    then obtain alg kid where hd: "jw_decode_header J token = Some (alg, Some kid)" by blast
    obtain kr jwks s where k: "decoding_key_for J (ck_now ck) (ck_done ck) reply kid (lc_jwks c) = (kr, jwks, s)"
      by (metis prod_cases3)
    show ?thesis
    proof (cases "\<exists>key cl. kr = Ok (Some key) \<and> verify_claims J (c\<lparr>lc_jwks := jwks\<rparr>) (ck_unix ck) token alg key = Some cl")
      case True
      then obtain key cl where v: "kr = Ok (Some key)"
        "verify_claims J (c\<lparr>lc_jwks := jwks\<rparr>) (ck_unix ck) token alg key = Some cl" by blast
      with miss hd k assms show ?thesis
        by (intro verified [of alg kid key jwks cl]) (auto simp: validate_token_def Let_def)
    next
      case False
      with miss hd k assms have "(\<forall>i. r \<noteq> Ok (Some i)) \<and> c' = c\<lparr>lc_jwks := jwks\<rparr>"
        by (auto simp: validate_token_def Let_def split: option.splits sum.splits)
      with k show ?thesis by (intro denied) auto
    qed
  qed
qed

lemma oidc_inv_other:
  assumes "oidc_inv J c0 h served c" "set served \<subseteq> set served'" "ev = TurnedDown \<or> (\<exists>a b i. ev = CacheHit a b i)"
    and "keys_served J served' (jk_keys jwks)"
  shows "oidc_inv J c0 (ev # h) served' (c\<lparr>lc_jwks := jwks\<rparr>)"
proof -
  have "backed (ev # h) k e" if "hm_get (lc_cache c) k = Some e" for k e
    using that assms(1,3) by (intro backed_Cons) (auto simp: oidc_inv_def)
  moreover have "event_ok J c0 served' x" if "x \<in> set (ev # h)" for x
    using that assms(1,2,3) event_ok_mono [of J c0 served x served']
    by (auto simp: oidc_inv_def)
  ultimately show ?thesis using assms(1,4) by (simp add: oidc_inv_def)
qed

lemma oidc_inv_verified:
  assumes inv: "oidc_inv J c0 h served c" and sub: "set served \<subseteq> set served'"
    and ks: "keys_served J served' (jk_keys jwks)" "hm_get (jk_keys jwks) kid = Some key"
    and hd: "jw_decode_header J token = Some (alg, Some kid)"
    and v: "verify_claims J (c\<lparr>lc_jwks := jwks\<rparr>) (ck_unix ck) token alg key = Some cl"
  shows "genuine J c0 served' (ck_unix ck) token (identity_of cl) (cl_exp cl)
    \<and> oidc_inv J c0 (Verified ck (jw_sha J token) token (identity_of cl) (cl_exp cl) # h) served'
        (c\<lparr>lc_jwks := jwks, lc_cache := cache_insert (ck_done ck) (jw_sha J token)
                (ck_unix ck, identity_of cl, Some (cl_exp cl)) (lc_cache c)\<rparr>)"
proof -
  let ?k = "jw_sha J token"
  let ?a = "(ck_unix ck, identity_of cl, Some (cl_exp cl))"
  let ?ev = "Verified ck ?k token (identity_of cl) (cl_exp cl)"
  have aud: "lc_expected_audiences c = lc_expected_audiences c0" "lc_expected_issuer c = lc_expected_issuer c0"
    and cinv: "token_cache.inv (lc_cache c)" using inv by (auto simp: oidc_inv_def)
  obtain jwk where jwk: "jwk \<in> set served'" "jw_kid J jwk = Some kid" "jw_from_jwk J jwk = Some key"
    using ks by (auto simp: keys_served_def)
  have g: "genuine J c0 served' (ck_unix ck) token (identity_of cl) (cl_exp cl)"
    using v jwk hd aud unfolding genuine_def
    by (intro exI [of _ alg] exI [of _ kid] exI [of _ jwk] exI [of _ key] exI [of _ cl])
       (auto simp: verify_claims_def list_ex_iff split: if_splits option.splits)
  have wf: "hm_wf (lc_cache c)" using cinv by (simp add: token_cache.inv_def)
  have "backed (?ev # h) k e" if "hm_get (cache_insert (ck_done ck) ?k ?a (lc_cache c)) k = Some e" for k e
  proof (cases "k = ?k")
    case True
    with that have "e = cache_entry_of (ck_done ck) ?a" by (simp add: cache_insert_put hm_get_capped_put)
    then have "?ev # h = [] @ Verified ck k token (ce_identity e) (cl_exp cl) # h"
      "ce_expires_at e = ck_done ck + cache_ttl (ck_unix ck) (Some (cl_exp cl))"
      using True by (simp_all add: cache_entry_of_def)
    then show ?thesis unfolding backed_def by (metis empty_iff list.set(1))
  next
    case False
    from cache_insert_other [OF wf False that] inv show ?thesis
      by (intro backed_Cons) (auto simp: oidc_inv_def)
  qed
  moreover have "event_ok J c0 served' x" if "x \<in> set (?ev # h)" for x
    using that inv g event_ok_mono [OF _ sub, of J c0 x]
    by (auto simp: oidc_inv_def) (simp add: event_ok_def)
  moreover have "token_cache.inv (cache_insert (ck_done ck) ?k ?a (lc_cache c))"
    using cinv by (rule token_cache.inv_ins)
  ultimately show ?thesis using g aud ks(1) by (simp add: oidc_inv_def)
qed

lemma oidc_inv_drop:
  assumes "oidc_inv J c0 h served c"
  shows "oidc_inv J c0 (Dropped (jw_sha J token) # h) served (drop_token J token c)"
proof -
  let ?k = "jw_sha J token"
  have "backed (Dropped ?k # h) k e" if "hm_get (hm_remove ?k (lc_cache c)) k = Some e" for k e
    using that assms by (intro backed_Cons) (auto simp: oidc_inv_def split: if_splits)
  moreover have "event_ok J c0 served x" if "x \<in> set (Dropped ?k # h)" for x
    using that assms by (auto simp: oidc_inv_def)
  ultimately show ?thesis
    using assms token_cache_remove [of "lc_cache c" ?k] by (simp add: oidc_inv_def drop_token_def)
qed

definition reply_keys :: "'j jwks_reply \<Rightarrow> 'j list" where
  "reply_keys reply = (case reply of JwkSet js \<Rightarrow> js | _ \<Rightarrow> [])"

lemma oidc_validate_inv:
  assumes inv: "oidc_inv J c0 h served c" and st: "validate_token J ck reply token c = (r, c', sent)"
  shows "oidc_inv J c0 (validate_event J ck token c r # h) (reply_keys reply @ served) c'
    \<and> (\<forall>i. r = Ok (Some i) \<longrightarrow>
        genuine J c0 (reply_keys reply @ served) (ck_unix ck) token i (the (ai_exp i))
        \<or> (\<exists>e. hm_get (lc_cache c) (jw_sha J token) = Some e \<and> ce_expires_at e > ck_now ck \<and> ce_identity e = i))"
  using st
proof (cases rule: validate_token_cases)
  case (hit e)
  have ks: "keys_served J (reply_keys reply @ served) (jk_keys (lc_jwks c))"
    using inv keys_served_mono [of J served "jk_keys (lc_jwks c)"] by (auto simp: oidc_inv_def)
  have "validate_event J ck token c r = CacheHit ck (jw_sha J token) (ce_identity e)"
    using hit by (simp add: validate_event_def)
  with oidc_inv_other [OF inv _ _ ks] hit show ?thesis by auto
next
  case denied
  have ev: "validate_event J ck token c r = TurnedDown"
    using denied(1) by (auto simp: validate_event_def split: sum.splits option.splits)
  have ks0: "keys_served J served (jk_keys (lc_jwks c))" using inv by (simp add: oidc_inv_def)
  have "\<exists>jwks. c' = c\<lparr>lc_jwks := jwks\<rparr> \<and> keys_served J (reply_keys reply @ served) (jk_keys jwks)"
    using denied(2)
  proof
    assume "c' = c"
    with keys_served_mono [OF ks0] show ?thesis by (intro exI [of _ "lc_jwks c"]) auto
  next
    assume "\<exists>kid kr jwks s. c' = c\<lparr>lc_jwks := jwks\<rparr>
        \<and> decoding_key_for J (ck_now ck) (ck_done ck) reply kid (lc_jwks c) = (kr, jwks, s)"
    then show ?thesis using decoding_key_for_served [OF _ ks0 refl] unfolding reply_keys_def by blast
  qed
  then obtain jwks where j: "c' = c\<lparr>lc_jwks := jwks\<rparr>" "keys_served J (reply_keys reply @ served) (jk_keys jwks)"
    by blast
  have "oidc_inv J c0 (TurnedDown # h) (reply_keys reply @ served) (c\<lparr>lc_jwks := jwks\<rparr>)"
    by (rule oidc_inv_other [OF inv _ _ j(2)]) auto
  with ev j(1) denied(1) show ?thesis by simp
next
  case (verified alg kid key jwks cl)
  have ks0: "keys_served J served (jk_keys (lc_jwks c))" using inv by (simp add: oidc_inv_def)
  have k: "keys_served J (reply_keys reply @ served) (jk_keys jwks)" "hm_get (jk_keys jwks) kid = Some key"
    using decoding_key_for_served [OF verified(3) ks0 refl] unfolding reply_keys_def by auto
  have sub: "set served \<subseteq> set (reply_keys reply @ served)" by simp
  have "validate_event J ck token c r = Verified ck (jw_sha J token) token (identity_of cl) (cl_exp cl)"
    using verified by (simp add: validate_event_def identity_of_def)
  with oidc_inv_verified [OF inv sub k verified(2,4)] verified(5,6) show ?thesis
    by (simp add: identity_of_def)
qed

lemma oidc_reach_inv:
  assumes "oidc_reach J c0 h served c" "lc_cache c0 = []" "jk_keys (lc_jwks c0) = []"
  shows "oidc_inv J c0 h served c"
  using assms
proof (induction rule: oidc_reach.induct)
  case oidc_start
  then show ?case by (simp add: oidc_inv_def keys_served_def token_cache.inv_empty)
next
  case (oidc_validate h served c ck reply token r c' sent)
  from oidc_validate_inv [OF oidc_validate.IH [OF oidc_validate.prems] oidc_validate.hyps(2)]
  show ?case by (simp add: reply_keys_def)
next
  case (oidc_drop h served c token)
  from oidc_inv_drop [OF oidc_drop.IH [OF oidc_drop.prems]] show ?case .
qed

lemma logto_new_fields:
  "logto_new a auds = Some c0 \<Longrightarrow> lc_cache c0 = [] \<and> jk_keys (lc_jwks c0) = [] \<and> lc_expected_audiences c0 = auds
     \<and> lc_expected_issuer c0 = trim_end_matches (CHR ''/'') a \<and> auds \<noteq> [] \<and> jk_last_refresh_attempt (lc_jwks c0) = None"
  by (auto simp: logto_new_def Let_def split: if_splits)

subsection \<open>Refresh attempts\<close>

record 'j key_request =
  kr_now :: instant
  kr_done :: instant
  kr_reply :: "'j jwks_reply"
  kr_kid :: string

fun slow_run :: "('h, 'k, 'j) jwt_ops \<Rightarrow> 'j key_request list \<Rightarrow> 'k jwks_cache \<Rightarrow> instant list" where
  "slow_run J [] g = []"
| "slow_run J (q # qs) g =
     (let (r, g', sent) = slow_key J (kr_now q) (kr_done q) (kr_reply q) (kr_kid q) g
      in (if sent then [kr_now q] else []) @ slow_run J qs g')"

lemma slow_key_sent:
  assumes "slow_key J now done reply kid g = (r, g', sent)"
  shows "(sent \<longrightarrow> jk_last_refresh_attempt g' = Some now
        \<and> (\<forall>t. jk_last_refresh_attempt g = Some t \<longrightarrow> now - t \<ge> JWKS_MIN_REFRESH_INTERVAL))
    \<and> (\<not> sent \<longrightarrow> g' = g \<and> (r = Ok (fresh_key now kid g) \<or> r = Ok (hm_get (jk_keys g) kid)))"
proof (cases "fresh_key now kid g")
  case (Some k)
  with assms show ?thesis by (simp add: slow_key_def)
next
  case None
  have rf: "refresh_jwks J done reply g1 = (r1, g2) \<Longrightarrow> jk_last_refresh_attempt g2 = jk_last_refresh_attempt g1" for g1 r1 g2
    by (auto simp: refresh_jwks_def split: jwks_reply.splits)
  from None assms show ?thesis
    by (auto simp: slow_key_def split: if_splits option.splits prod.splits dest: rf)
qed

lemma slow_run_spaced:
  assumes "sorted (map kr_now qs)"
  shows "sorted_wrt (\<lambda>a b. a + JWKS_MIN_REFRESH_INTERVAL \<le> b) (slow_run J qs g)
    \<and> (\<forall>x \<in> set (slow_run J qs g). x \<in> kr_now ` set qs)
    \<and> (\<forall>t. jk_last_refresh_attempt g = Some t \<and> (\<forall>q \<in> set qs. t \<le> kr_now q)
          \<longrightarrow> (\<forall>x \<in> set (slow_run J qs g). t + JWKS_MIN_REFRESH_INTERVAL \<le> x))"
  using assms
proof (induction qs arbitrary: g)
  case (Cons q qs)
  obtain r g' sent where s: "slow_key J (kr_now q) (kr_done q) (kr_reply q) (kr_kid q) g = (r, g', sent)"
    by (metis prod_cases3)
  have later: "\<forall>p \<in> set qs. kr_now q \<le> kr_now p" and st: "sorted (map kr_now qs)" using Cons.prems by auto
  note IH = Cons.IH [OF st, of g'] and sent = slow_key_sent [OF s]
  show ?case
  proof (cases sent)
    case True
    with sent have l: "jk_last_refresh_attempt g' = Some (kr_now q)"
      "\<And>t. jk_last_refresh_attempt g = Some t \<Longrightarrow> kr_now q - t \<ge> JWKS_MIN_REFRESH_INTERVAL" by auto
    have n: "\<forall>x \<in> set (slow_run J qs g'). kr_now q + JWKS_MIN_REFRESH_INTERVAL \<le> x"
      using IH l(1) later by blast
    have "t + JWKS_MIN_REFRESH_INTERVAL \<le> kr_now q" if "jk_last_refresh_attempt g = Some t" "t \<le> kr_now q" for t
      using l(2) [OF that(1)] that(2) by linarith
    with n have "\<forall>t. jk_last_refresh_attempt g = Some t \<and> (\<forall>p \<in> set (q # qs). t \<le> kr_now p)
        \<longrightarrow> (\<forall>x \<in> set (kr_now q # slow_run J qs g'). t + JWKS_MIN_REFRESH_INTERVAL \<le> x)"
      by fastforce
    with IH n s True show ?thesis by auto
  next
    case False
    with sent have "g' = g" by simp
    with IH s False show ?thesis by auto
  qed
qed simp

lemma accepted_identity:
  assumes "logto_new authz auds = Some c0" "oidc_reach J c0 h served c"
    and "validate_token J ck reply token c = (Ok (Some i), c', sent)"
  shows "genuine J c0 (reply_keys reply @ served) (ck_unix ck) token i (the (ai_exp i))
    \<or> (\<exists>pre ck0 token0 x post. h = pre @ Verified ck0 (jw_sha J token) token0 i x # post
         \<and> Dropped (jw_sha J token) \<notin> set pre \<and> jw_sha J token0 = jw_sha J token
         \<and> genuine J c0 served (ck_unix ck0) token0 i x
         \<and> ck_now ck < ck_done ck0 + secs 60 \<and> ck_now ck < ck_done ck0 + secs (nat (x - ck_unix ck0)))"
proof -
  have inv: "oidc_inv J c0 h served c"
    using oidc_reach_inv [OF assms(2)] logto_new_fields [OF assms(1)] by blast
  from oidc_validate_inv [OF inv assms(3)] consider
    "genuine J c0 (reply_keys reply @ served) (ck_unix ck) token i (the (ai_exp i))"
  | e where "hm_get (lc_cache c) (jw_sha J token) = Some e" "ce_expires_at e > ck_now ck" "ce_identity e = i"
    by blast
  then show ?thesis
  proof cases
    case 2
    with inv have "backed h (jw_sha J token) e" by (auto simp: oidc_inv_def)
    then obtain pre ck0 token0 x post where
      b: "h = pre @ Verified ck0 (jw_sha J token) token0 i x # post" "Dropped (jw_sha J token) \<notin> set pre"
        "ce_expires_at e = ck_done ck0 + cache_ttl (ck_unix ck0) (Some x)"
      using 2(3) unfolding backed_def by blast
    from b(1) have "Verified ck0 (jw_sha J token) token0 i x \<in> set h" by simp
    with inv have "event_ok J c0 served (Verified ck0 (jw_sha J token) token0 i x)"
      unfolding oidc_inv_def by blast
    then have g: "jw_sha J token0 = jw_sha J token" "genuine J c0 served (ck_unix ck0) token0 i x"
      by (simp_all add: event_ok_def)
    have "ck_now ck < ck_done ck0 + secs 60" "ck_now ck < ck_done ck0 + secs (nat (x - ck_unix ck0))"
      using 2(2) b(3) cache_ttl_le [of "ck_unix ck0" "Some x"] cache_ttl_exp [of "ck_unix ck0" x]
      by (simp_all add: MAX_CACHE_TTL_def)
    with b g show ?thesis by blast
  qed blast
qed

subsection \<open>Properties\<close>

text \<open>
  Who is let in. In every reachable state, an identity the client returns was established by
  a full verification: an asymmetric algorithm of the accepted list, a key that the issuer's JWKS
  served under the token's own key id, and claims the JWT library accepted for our issuer with one
  of our audiences; the identity is those claims'. Either that happened in this very call, or it
  happened for a token with the same hash less than 60 seconds ago, before the token's own expiry,
  and the token has not been dropped since.
\<close>

theorem accepted_identity_verified:
  assumes "logto_new authz auds = Some c0" "oidc_reach J c0 h served c"
    and "validate_token J ck reply token c = (Ok (Some i), c', sent)"
  shows "genuine J c0 (reply_keys reply @ served) (ck_unix ck) token i (the (ai_exp i))
    \<or> (\<exists>pre ck0 token0 x post. h = pre @ Verified ck0 (jw_sha J token) token0 i x # post
         \<and> Dropped (jw_sha J token) \<notin> set pre \<and> jw_sha J token0 = jw_sha J token
         \<and> genuine J c0 served (ck_unix ck0) token0 i x
         \<and> ck_now ck < ck_done ck0 + secs 60 \<and> ck_now ck < ck_done ck0 + secs (nat (x - ck_unix ck0)))"
  by (rule accepted_identity [OF assms])

definition sample_claims :: claims where
  "sample_claims = \<lparr>cl_sub = ''u1'', cl_aud = Single ''https://r'', cl_exp = 1000, cl_email = None,
                    cl_name = None, cl_username = Some ''al''\<rparr>"

definition sample_jwt :: "(string, string, string) jwt_ops" where
  "sample_jwt = \<lparr>jw_sha = (\<lambda>t. t), jw_decode_header = (\<lambda>t. if t = ''tok'' then Some (RS256, Some ''kid'') else None),
                 jw_decode = (\<lambda>t k a auds iss unix. if k = ''KEY'' \<and> unix < 1000 then Some sample_claims else None),
                 jw_kid = (\<lambda>_. Some ''kid''), jw_from_jwk = Some\<rparr>"

definition sample_clocks :: clocks where
  "sample_clocks = \<lparr>ck_now = 10, ck_done = 10, ck_unix = 900\<rparr>"

lemma sample_validated_for:
  assumes "''https://r'' \<in> set auds"
  shows "\<exists>c0 c'. logto_new ''https://l'' auds = Some c0
     \<and> validate_token sample_jwt sample_clocks (JwkSet [''KEY'']) ''tok'' c0
        = (Ok (Some (identity_of sample_claims)), c', True)"
proof -
  have "list_ex (aud_matches (Single ''https://r'')) auds" "auds \<noteq> []"
    using assms by (auto simp: list_ex_iff)
  then show ?thesis
    by (simp add: logto_new_def validate_token_def Let_def cache_lookup_def sample_jwt_def sample_clocks_def
        decoding_key_for_def slow_key_def fresh_key_def jwks_fresh_def refresh_jwks_def verify_claims_def
        accepted_alg_def hm_get_def hm_insert_def sample_claims_def)
qed

lemma sample_validated:
  "\<exists>c0 c'. logto_new ''https://l'' [''https://r''] = Some c0
     \<and> validate_token sample_jwt sample_clocks (JwkSet [''KEY'']) ''tok'' c0
        = (Ok (Some (identity_of sample_claims)), c', True)"
  by (rule sample_validated_for) simp

theorem accepted_identity_verified_witness:
  "\<exists>c0 c'. logto_new ''https://l'' [''https://r''] = Some c0
     \<and> validate_token sample_jwt sample_clocks (JwkSet [''KEY'']) ''tok'' c0
        = (Ok (Some (identity_of sample_claims)), c', True)
     \<and> genuine sample_jwt c0 [''KEY''] 900 ''tok'' (identity_of sample_claims) 1000"
proof -
  obtain c0 c' where v: "logto_new ''https://l'' [''https://r''] = Some c0"
    "validate_token sample_jwt sample_clocks (JwkSet [''KEY'']) ''tok'' c0
        = (Ok (Some (identity_of sample_claims)), c', True)"
    using sample_validated by blast
  from accepted_identity_verified [OF v(1) oidc_start v(2)]
  have "genuine sample_jwt c0 [''KEY''] 900 ''tok'' (identity_of sample_claims) 1000"
    by (simp add: reply_keys_def sample_clocks_def identity_of_def sample_claims_def)
  with v show ?thesis by blast
qed

text \<open>
  The validation cache holds at most 256 entries in every reachable state, whatever tokens
  were presented, and a dropped token is verified from scratch at its next presentation.
\<close>

theorem validation_cache_bounded:
  assumes "logto_new authz auds = Some c0" "oidc_reach J c0 h served c"
  shows "hm_len (lc_cache c) \<le> 256
    \<and> cache_lookup now (jw_sha J token) (lc_cache (drop_token J token c)) = None
    \<and> (\<forall>k. k \<noteq> jw_sha J token \<longrightarrow> cache_lookup now k (lc_cache (drop_token J token c)) = cache_lookup now k (lc_cache c))"
proof -
  have "oidc_inv J c0 h served c"
    using oidc_reach_inv [OF assms(2)] logto_new_fields [OF assms(1)] by blast
  then have "token_cache.inv (lc_cache c)" by (simp add: oidc_inv_def)
  then have "hm_len (lc_cache c) \<le> 256" unfolding token_cache.inv_def by (simp add: CACHE_CAP_def)
  then show ?thesis by (simp add: drop_token_def cache_lookup_def)
qed

theorem validation_cache_bounded_witness:
  "\<exists>c0 c'. logto_new ''https://l'' [''https://r''] = Some c0
     \<and> fst (validate_token sample_jwt sample_clocks (JwkSet [''KEY'']) ''tok'' c0) = Ok (Some (identity_of sample_claims))
     \<and> c' = fst (snd (validate_token sample_jwt sample_clocks (JwkSet [''KEY'']) ''tok'' c0))
     \<and> hm_len (lc_cache c') \<le> 256 \<and> cache_lookup 12 ''tok'' (lc_cache (drop_token sample_jwt ''tok'' c')) = None"
proof -
  obtain c0 c' where v: "logto_new ''https://l'' [''https://r''] = Some c0"
    "validate_token sample_jwt sample_clocks (JwkSet [''KEY'']) ''tok'' c0
        = (Ok (Some (identity_of sample_claims)), c', True)"
    using sample_validated by blast
  have s: "jw_sha sample_jwt ''tok'' = ''tok''" by (simp add: sample_jwt_def)
  from validation_cache_bounded [OF v(1) oidc_validate [OF oidc_start v(2)], of 12 "''tok''"] v s
  show ?thesis by auto
qed

text \<open>
  Unknown key ids cannot make the service flood the issuer. Over any sequence of key lookups in
  the order they pass the refresh gate, any two requests to the JWKS endpoint are at least five
  seconds apart, failed ones included, and a lookup that sends none leaves the cache as it is and
  answers from the keys already held.
\<close>

theorem jwks_refresh_spaced:
  assumes "sorted (map kr_now qs)"
  shows "sorted_wrt (\<lambda>a b. a + secs 5 \<le> b) (slow_run J qs g)
    \<and> (\<forall>now done reply kid r g'. slow_key J now done reply kid g = (r, g', False) \<longrightarrow>
          g' = g \<and> (\<forall>e. r \<noteq> Err e) \<and> (\<forall>key. r = Ok (Some key) \<longrightarrow> hm_get (jk_keys g) kid = Some key))"
proof -
  have "g' = g \<and> (\<forall>e. r \<noteq> Err e) \<and> (\<forall>key. r = Ok (Some key) \<longrightarrow> hm_get (jk_keys g) kid = Some key)"
    if "slow_key J now fin reply kid g = (r, g', False)" for now fin reply kid r g'
    using slow_key_sent [OF that] by (auto simp: fresh_key_def split: if_splits)
  with slow_run_spaced [OF assms, of J g] show ?thesis
    unfolding JWKS_MIN_REFRESH_INTERVAL_def by blast
qed

theorem jwks_refresh_spaced_witness:
  "sorted_wrt (\<lambda>a b. a + secs 5 \<le> b)
     (slow_run sample_jwt [\<lparr>kr_now = 1, kr_done = 2, kr_reply = TransportError, kr_kid = ''x''\<rparr>,
        \<lparr>kr_now = 7000000000, kr_done = 7000000001, kr_reply = JwkSet [], kr_kid = ''x''\<rparr>]
        \<lparr>jk_keys = [], jk_fetched_at = None, jk_last_refresh_attempt = None\<rparr>)"
  using jwks_refresh_spaced [of "[\<lparr>kr_now = 1, kr_done = 2, kr_reply = TransportError, kr_kid = ''x''\<rparr>,
        \<lparr>kr_now = 7000000000, kr_done = 7000000001, kr_reply = JwkSet [], kr_kid = ''x''\<rparr>]" sample_jwt
        "\<lparr>jk_keys = [], jk_fetched_at = None, jk_last_refresh_attempt = None\<rparr>"]
  by simp

end
