(* ===== verification/Logto_Tasks.thy ===== *)
theory Logto_Tasks
  imports Logto_Oidc Rust_Tasks
begin

text \<open>
  Concurrent token validations, \<open>src/src/logto_oidc.rs\<close>: \<open>validate_token\<close> and \<open>drop_token\<close> cut at
  every lock, clock read and network wait, over the client all requests share.

  \<^item> The Rust locks around the two caches are held for one step each; \<open>jwks_refresh_gate\<close> is held
    across awaits, so it is part of the world (\<open>ow_gate\<close>, the task that holds it), and dropping a
    future that holds it releases it.
  \<^item> \<open>ow_attempts\<close> (the instants of the refresh attempts, newest first), \<open>ow_sent\<close> (how many JWKS
    requests went out) and \<open>ow_events\<close> are history: no step reads them, except that a request's
    number picks its reply from \<open>reply\<close>.
  \<^item> Uninterrupted, the programs are the functions of \<open>Logto_Oidc\<close> (\<open>run_validate_prog\<close>).
\<close>

datatype ('t, 'h) oidc_log =
    Decoded 't instant int string authenticated_identity int
  | Timed instant int 'h authenticated_identity int
  | Stored 'h cache_entry
  | Found 't instant 'h authenticated_identity
  | Removed 'h

record ('h, 'k, 't) oidc_world =
  ow_client :: "('h, 'k) logto_client"
  ow_gate :: "'t option"
  ow_now :: instant
  ow_unix :: int
  ow_attempts :: "instant list"
  ow_sent :: nat
  ow_events :: "('t, 'h) oidc_log list"

abbreviation ow_jwks :: "('h, 'k, 't) oidc_world \<Rightarrow> 'k jwks_cache" where
  "ow_jwks w \<equiv> lc_jwks (ow_client w)"

abbreviation ow_cache :: "('h, 'k, 't) oidc_world \<Rightarrow> ('h, cache_entry) hmap" where
  "ow_cache w \<equiv> lc_cache (ow_client w)"

definition ow_set_jwks :: "'k jwks_cache \<Rightarrow> ('h, 'k, 't) oidc_world \<Rightarrow> ('h, 'k, 't) oidc_world" where
  "ow_set_jwks g w = w\<lparr>ow_client := (ow_client w)\<lparr>lc_jwks := g\<rparr>\<rparr>"

definition ow_set_cache :: "('h, cache_entry) hmap \<Rightarrow> ('h, 'k, 't) oidc_world \<Rightarrow> ('h, 'k, 't) oidc_world" where
  "ow_set_cache m w = w\<lparr>ow_client := (ow_client w)\<lparr>lc_cache := m\<rparr>\<rparr>"

definition ow_log :: "('t, 'h) oidc_log \<Rightarrow> ('h, 'k, 't) oidc_world \<Rightarrow> ('h, 'k, 't) oidc_world" where
  "ow_log ev w = w\<lparr>ow_events := ev # ow_events w\<rparr>"

lemma ow_simps [simp]:
  "ow_client (ow_log ev w) = ow_client w" "ow_gate (ow_log ev w) = ow_gate w" "ow_now (ow_log ev w) = ow_now w"
  "ow_attempts (ow_log ev w) = ow_attempts w" "ow_sent (ow_log ev w) = ow_sent w" "ow_unix (ow_log ev w) = ow_unix w"
  "ow_events (ow_log ev w) = ev # ow_events w"
  "ow_client (ow_set_jwks g w) = (ow_client w)\<lparr>lc_jwks := g\<rparr>" "ow_gate (ow_set_jwks g w) = ow_gate w"
  "ow_now (ow_set_jwks g w) = ow_now w" "ow_attempts (ow_set_jwks g w) = ow_attempts w" "ow_sent (ow_set_jwks g w) = ow_sent w"
  "ow_unix (ow_set_jwks g w) = ow_unix w" "ow_events (ow_set_jwks g w) = ow_events w"
  "ow_client (ow_set_cache m w) = (ow_client w)\<lparr>lc_cache := m\<rparr>" "ow_gate (ow_set_cache m w) = ow_gate w"
  "ow_now (ow_set_cache m w) = ow_now w" "ow_attempts (ow_set_cache m w) = ow_attempts w" "ow_sent (ow_set_cache m w) = ow_sent w"
  "ow_unix (ow_set_cache m w) = ow_unix w" "ow_events (ow_set_cache m w) = ow_events w"
  by (simp_all add: ow_log_def ow_set_jwks_def ow_set_cache_def)

subsection \<open>The programs\<close>

definition lookup_step :: "'t \<Rightarrow> 'h \<Rightarrow> ('h, 'k, 't) oidc_world \<Rightarrow> authenticated_identity option \<times> ('h, 'k, 't) oidc_world" where
  "lookup_step t key w =
     (case cache_lookup (ow_now w) key (ow_cache w) of
        Some i \<Rightarrow> (Some i, ow_log (Found t (ow_now w) key i) w)
      | None \<Rightarrow> (None, w))"

text \<open>The read under the gate: \<open>Some\<close> is an early return.\<close>

definition slow_check :: "instant \<Rightarrow> string \<Rightarrow> 'k jwks_cache \<Rightarrow> 'k option option" where
  "slow_check now kid g =
     (case fresh_key now kid g of
        Some k \<Rightarrow> Some (Some k)
      | None \<Rightarrow>
          if (case jk_last_refresh_attempt g of Some t \<Rightarrow> now - t < JWKS_MIN_REFRESH_INTERVAL | None \<Rightarrow> False)
          then Some (hm_get (jk_keys g) kid) else None)"

definition mark_step :: "('h, 'k, 't) oidc_world \<Rightarrow> unit \<times> ('h, 'k, 't) oidc_world" where
  "mark_step w = ((), ow_set_jwks ((ow_jwks w)\<lparr>jk_last_refresh_attempt := Some (ow_now w)\<rparr>)
                        (w\<lparr>ow_attempts := ow_now w # ow_attempts w\<rparr>))"

definition send_step :: "('h, 'k, 't) oidc_world \<Rightarrow> nat \<times> ('h, 'k, 't) oidc_world" where
  "send_step w = (ow_sent w, w\<lparr>ow_sent := ow_sent w + 1\<rparr>)"

definition receive_step ::
  "('h, 'k, 'j) jwt_ops \<Rightarrow> 'j jwks_reply \<Rightarrow> ('h, 'k, 't) oidc_world \<Rightarrow> (validation_error + unit) \<times> ('h, 'k, 't) oidc_world" where
  "receive_step J reply w = (case refresh_jwks J (ow_now w) reply (ow_jwks w) of (r, g) \<Rightarrow> (r, ow_set_jwks g w))"

definition refresh_prog ::
  "('h, 'k, 'j) jwt_ops \<Rightarrow> (nat \<Rightarrow> 'j jwks_reply) \<Rightarrow> (('h, 'k, 't) oidc_world, validation_error + unit) prog" where
  "refresh_prog J reply = bind_prog (act send_step) (\<lambda>n. act (receive_step J (reply n)))"

definition slow_prog ::
  "('h, 'k, 'j) jwt_ops \<Rightarrow> (nat \<Rightarrow> 'j jwks_reply) \<Rightarrow> string \<Rightarrow> (('h, 'k, 't) oidc_world, validation_error + 'k option) prog" where
  "slow_prog J reply kid =
     bind_prog (act (\<lambda>w. (slow_check (ow_now w) kid (ow_jwks w), w))) (\<lambda>early. case early of
       Some k \<Rightarrow> Ret (Ok k)
     | None \<Rightarrow>
         bind_prog (act mark_step) (\<lambda>_.
         try_prog (refresh_prog J reply) (\<lambda>_.
         act (\<lambda>w. (Ok (hm_get (jk_keys (ow_jwks w)) kid), w)))))"

definition decoding_key_prog ::
  "('h, 'k, 'j) jwt_ops \<Rightarrow> (nat \<Rightarrow> 'j jwks_reply) \<Rightarrow> 't \<Rightarrow> string \<Rightarrow> (('h, 'k, 't) oidc_world, validation_error + 'k option) prog" where
  "decoding_key_prog J reply t kid =
     bind_prog (act (\<lambda>w. (fresh_key (ow_now w) kid (ow_jwks w), w))) (\<lambda>fast. case fast of
       Some k \<Rightarrow> Ret (Ok (Some k))
     | None \<Rightarrow>
         with_gate (\<lambda>w. ow_gate w = None) (\<lambda>w. w\<lparr>ow_gate := Some t\<rparr>) (\<lambda>w. w\<lparr>ow_gate := None\<rparr>)
           (slow_prog J reply kid))"

text \<open>The JWT library reads the Unix time when it checks the claims.\<close>

definition decode_step ::
  "('h, 'k, 'j) jwt_ops \<Rightarrow> 't \<Rightarrow> string \<Rightarrow> algorithm \<Rightarrow> 'k \<Rightarrow> ('h, 'k, 't) oidc_world \<Rightarrow> claims option \<times> ('h, 'k, 't) oidc_world" where
  "decode_step J t token alg key w =
     (case verify_claims J (ow_client w) (ow_unix w) token alg key of
        Some cl \<Rightarrow> (Some cl, ow_log (Decoded t (ow_now w) (ow_unix w) token (identity_of cl) (cl_exp cl)) w)
      | None \<Rightarrow> (None, w))"

text \<open>\<open>cache_insert\<close>: the Unix time, the instant and the lock are three steps.\<close>

definition entry_step ::
  "'h \<Rightarrow> int \<Rightarrow> authenticated_identity \<Rightarrow> int \<Rightarrow> ('h, 'k, 't) oidc_world \<Rightarrow> cache_entry \<times> ('h, 'k, 't) oidc_world" where
  "entry_step key unix i x w =
     (\<lparr>ce_identity = i, ce_expires_at = ow_now w + cache_ttl unix (Some x)\<rparr>, ow_log (Timed (ow_now w) unix key i x) w)"

definition put_step :: "'h \<Rightarrow> cache_entry \<Rightarrow> ('h, 'k, 't) oidc_world \<Rightarrow> unit \<times> ('h, 'k, 't) oidc_world" where
  "put_step key entry w =
     ((), ow_log (Stored key entry)
            (ow_set_cache (capped_put CACHE_CAP (\<lambda>_ e. ce_expires_at e > ow_now w) ce_expires_at key entry (ow_cache w)) w))"

definition cache_insert_prog ::
  "'h \<Rightarrow> authenticated_identity \<Rightarrow> int \<Rightarrow> (('h, 'k, 't) oidc_world, unit) prog" where
  "cache_insert_prog key i x =
     bind_prog (act (\<lambda>w. (ow_unix w, w))) (\<lambda>unix.
     bind_prog (act (entry_step key unix i x)) (\<lambda>entry.
     act (put_step key entry)))"

text \<open>Everything after the key was found.\<close>

definition accept_prog ::
  "('h, 'k, 'j) jwt_ops \<Rightarrow> 't \<Rightarrow> string \<Rightarrow> algorithm \<Rightarrow> 'k
     \<Rightarrow> (('h, 'k, 't) oidc_world, validation_error + authenticated_identity option) prog" where
  "accept_prog J t token alg decoding_key =
     bind_prog (act (decode_step J t token alg decoding_key)) (\<lambda>checked. case checked of
       None \<Rightarrow> Ret (Ok None)
     | Some cl \<Rightarrow>
         bind_prog (cache_insert_prog (jw_sha J token) (identity_of cl) (cl_exp cl))
           (\<lambda>_. Ret (Ok (Some (identity_of cl)))))"

definition validate_prog ::
  "('h, 'k, 'j) jwt_ops \<Rightarrow> (nat \<Rightarrow> 'j jwks_reply) \<Rightarrow> 't \<Rightarrow> string
     \<Rightarrow> (('h, 'k, 't) oidc_world, validation_error + authenticated_identity option) prog" where
  "validate_prog J reply t token =
     bind_prog (act (lookup_step t (jw_sha J token))) (\<lambda>hit. case hit of
       Some i \<Rightarrow> Ret (Ok (Some i))
     | None \<Rightarrow>
       (case jw_decode_header J token of
          None \<Rightarrow> Ret (Ok None)
        | Some (alg, None) \<Rightarrow> Ret (Ok None)
        | Some (alg, Some kid) \<Rightarrow>
            try_prog (decoding_key_prog J reply t kid) (\<lambda>found. case found of
              None \<Rightarrow> Ret (Ok None)
            | Some decoding_key \<Rightarrow> accept_prog J t token alg decoding_key)))"

definition drop_prog ::
  "('h, 'k, 'j) jwt_ops \<Rightarrow> string \<Rightarrow> (('h, 'k, 't) oidc_world, validation_error + authenticated_identity option) prog" where
  "drop_prog J token =
     act (\<lambda>w. (Ok None, ow_log (Removed (jw_sha J token)) (ow_set_cache (hm_remove (jw_sha J token) (ow_cache w)) w)))"

subsection \<open>Uninterrupted, they are the functions of the client\<close>

lemma run_decoding_key_prog:
  assumes "run (decoding_key_prog J reply t kid) w = (r, w')" "ow_gate w = None"
    and "decoding_key_for J (ow_now w) (ow_now w) (reply (ow_sent w)) kid (ow_jwks w) = (r', g', sent)"
  shows "r = r' \<and> ow_client w' = (ow_client w)\<lparr>lc_jwks := g'\<rparr> \<and> ow_gate w' = None \<and> ow_now w' = ow_now w
    \<and> ow_unix w' = ow_unix w \<and> ow_sent w' = ow_sent w + (if sent then 1 else 0)
    \<and> ow_attempts w' = (if sent then [ow_now w] else []) @ ow_attempts w"
proof (cases "fresh_key (ow_now w) kid (ow_jwks w)")
  case (Some k)
  with assms show ?thesis by (auto simp: decoding_key_prog_def decoding_key_for_def run_bind)
next
  case miss: None
  show ?thesis
  proof (cases "slow_check (ow_now w) kid (ow_jwks w)")
    case (Some k)
    with miss assms show ?thesis
      by (auto simp: decoding_key_prog_def decoding_key_for_def slow_key_def slow_prog_def run_bind run_with_gate)
        (auto simp: slow_check_def split: if_splits)
  next
    case None
    then have late: "\<not> (case jk_last_refresh_attempt (ow_jwks w) of Some t \<Rightarrow> ow_now w - t < JWKS_MIN_REFRESH_INTERVAL | None \<Rightarrow> False)"
      by (simp add: slow_check_def miss split: if_splits)
    obtain r1 g1 where g: "refresh_jwks J (ow_now w) (reply (ow_sent w)) ((ow_jwks w)\<lparr>jk_last_refresh_attempt := Some (ow_now w)\<rparr>) = (r1, g1)"
      by fastforce
    have slow: "slow_key J (ow_now w) (ow_now w) (reply (ow_sent w)) kid (ow_jwks w)
        = (and_then r1 (\<lambda>_. Ok (hm_get (jk_keys g1) kid)), g1, True)"
      unfolding slow_key_def using miss late g by simp
    show ?thesis
      using miss None g slow assms
      by (cases r1) (auto simp: decoding_key_prog_def decoding_key_for_def slow_prog_def
          refresh_prog_def mark_step_def send_step_def receive_step_def run_bind run_with_gate run_try)
  qed
qed

definition clocks_of :: "('h, 'k, 't) oidc_world \<Rightarrow> clocks" where
  "clocks_of w = \<lparr>ck_now = ow_now w, ck_done = ow_now w, ck_unix = ow_unix w\<rparr>"

lemma run_cache_insert_prog:
  "run (cache_insert_prog key i x) w =
     (let e = cache_entry_of (ow_now w) (ow_unix w, i, Some x) in
      ((), ow_log (Stored key e) (ow_set_cache (cache_insert (ow_now w) key (ow_unix w, i, Some x) (ow_cache w))
             (ow_log (Timed (ow_now w) (ow_unix w) key i x) w))))"
  by (simp add: cache_insert_prog_def run_bind entry_step_def put_step_def cache_insert_put cache_entry_of_def)

lemma run_validate_prog:
  assumes "run (validate_prog J reply t token) w = (r, w')" "ow_gate w = None"
    and "validate_token J (clocks_of w) (reply (ow_sent w)) token (ow_client w) = (r', c', sent)"
  shows "r = r' \<and> ow_client w' = c' \<and> ow_gate w' = None \<and> ow_now w' = ow_now w \<and> ow_unix w' = ow_unix w
    \<and> ow_sent w' = ow_sent w + (if sent then 1 else 0) \<and> ow_attempts w' = (if sent then [ow_now w] else []) @ ow_attempts w"
proof -
  have ck: "ck_now (clocks_of w) = ow_now w" "ck_done (clocks_of w) = ow_now w" "ck_unix (clocks_of w) = ow_unix w"
    by (simp_all add: clocks_of_def)
  show ?thesis
  proof (cases "\<exists>alg kid. cache_lookup (ow_now w) (jw_sha J token) (ow_cache w) = None
      \<and> jw_decode_header J token = Some (alg, Some kid)")
    case False
    with assms show ?thesis
      by (auto simp: validate_prog_def accept_prog_def validate_token_def Let_def run_bind lookup_step_def ck split: option.splits prod.splits)
  next
    case True
    then obtain alg kid where h: "cache_lookup (ow_now w) (jw_sha J token) (ow_cache w) = None"
      "jw_decode_header J token = Some (alg, Some kid)" by blast
    obtain k g s where k: "decoding_key_for J (ow_now w) (ow_now w) (reply (ow_sent w)) kid (ow_jwks w) = (k, g, s)"
      by (metis prod_cases3)
    obtain k' v where p: "run (decoding_key_prog J reply t kid) w = (k', v)" by fastforce
    note v = run_decoding_key_prog [OF p assms(2) k]
    from v have v': "k' = k" "ow_client v = (ow_client w)\<lparr>lc_jwks := g\<rparr>" "ow_unix v = ow_unix w" "ow_now v = ow_now w" by simp_all
    consider e where "k = Inl e" | "k = Inr None" | d where "k = Inr (Some d)" by (metis sum.exhaust option.exhaust)
    then show ?thesis
    proof cases
      case (3 d)
      show ?thesis
      proof (cases "verify_claims J ((ow_client w)\<lparr>lc_jwks := g\<rparr>) (ow_unix w) token alg d")
        case None
        with 3 h p k v v' assms show ?thesis
          by (auto simp: validate_prog_def accept_prog_def validate_token_def Let_def run_bind run_try lookup_step_def decode_step_def ck)
      next
        case (Some cl)
        with 3 h p k v v' assms show ?thesis
          by (auto simp: validate_prog_def accept_prog_def validate_token_def Let_def run_bind run_try lookup_step_def decode_step_def
              run_cache_insert_prog ck ow_log_def)
      qed
    qed (use h p k v v' assms in \<open>auto simp: validate_prog_def accept_prog_def validate_token_def Let_def run_bind run_try lookup_step_def ck\<close>)
  qed
qed

subsection \<open>What every step keeps\<close>

definition served :: "(nat \<Rightarrow> 'j jwks_reply) \<Rightarrow> nat \<Rightarrow> 'j list" where
  "served reply n = concat (map (\<lambda>i. reply_keys (reply i)) [0..<n])"

lemma served_mono: "m \<le> n \<Longrightarrow> set (served reply m) \<subseteq> set (served reply n)"
  unfolding served_def by fastforce

lemma served_reply: "i < n \<Longrightarrow> set (reply_keys (reply i)) \<subseteq> set (served reply n)"
  by (auto simp: served_def)

text \<open>
  What a logged event vouches for, by the events before it. A decoded token was genuine; the
  lifetime of a cache entry was computed, from the clocks read at one instant, for the claims of a
  token decoded before it; a token was found in the cache within the lifetime of an entry that had
  been stored and not removed since.
\<close>

definition log_ok ::
  "('h, 'k, 'j) jwt_ops \<Rightarrow> (nat \<Rightarrow> 'j jwks_reply) \<Rightarrow> ('h, 'k) logto_client \<Rightarrow> ('h, 'k, 't) oidc_world
     \<Rightarrow> ('t, 'h) oidc_log list \<Rightarrow> ('t, 'h) oidc_log \<Rightarrow> bool" where
  "log_ok J reply c0 w past ev =
     (case ev of
        Decoded t at unix token i x \<Rightarrow> at \<le> ow_now w \<and> genuine J c0 (served reply (ow_sent w)) unix token i x
      | Timed at unix k i x \<Rightarrow> at \<le> ow_now w
          \<and> (\<exists>t d u token. Decoded t d u token i x \<in> set past \<and> jw_sha J token = k \<and> d \<le> at)
      | Stored k e \<Rightarrow>
          (\<exists>n unix x. Timed n unix k (ce_identity e) x \<in> set past \<and> ce_expires_at e = n + cache_ttl unix (Some x))
      | Found t at k i \<Rightarrow> at \<le> ow_now w
          \<and> (\<exists>mid e old n unix x. past = mid @ Stored k e # old \<and> Removed k \<notin> set mid
               \<and> Timed n unix k i x \<in> set old \<and> n \<le> at \<and> at < n + cache_ttl unix (Some x))
      | Removed k \<Rightarrow> True)"

primrec log_good ::
  "('h, 'k, 'j) jwt_ops \<Rightarrow> (nat \<Rightarrow> 'j jwks_reply) \<Rightarrow> ('h, 'k) logto_client \<Rightarrow> ('h, 'k, 't) oidc_world
     \<Rightarrow> ('t, 'h) oidc_log list \<Rightarrow> bool" where
  "log_good J reply c0 w [] = True"
| "log_good J reply c0 w (ev # past) = (log_ok J reply c0 w past ev \<and> log_good J reply c0 w past)"

lemma log_good_split: "log_good J reply c0 w (pre @ ev # past) \<Longrightarrow> log_ok J reply c0 w past ev \<and> log_good J reply c0 w past"
  by (induction pre) auto

lemma log_good_mem: "log_good J reply c0 w evs \<Longrightarrow> ev \<in> set evs \<Longrightarrow> \<exists>past. log_ok J reply c0 w past ev \<and> set past \<subseteq> set evs"
  by (induction evs) auto

definition entry_ok :: "('h, 'k, 't) oidc_world \<Rightarrow> 'h \<Rightarrow> cache_entry \<Rightarrow> bool" where
  "entry_ok w k e \<longleftrightarrow> (\<exists>mid old. ow_events w = mid @ Stored k e # old \<and> Removed k \<notin> set mid)"

definition spaced :: "('h, 'k, 't) oidc_world \<Rightarrow> bool" where
  "spaced w \<longleftrightarrow> sorted_wrt (\<lambda>later earlier. earlier + JWKS_MIN_REFRESH_INTERVAL \<le> later) (ow_attempts w)
     \<and> (\<forall>a \<in> set (ow_attempts w). a \<le> ow_now w)
     \<and> jk_last_refresh_attempt (ow_jwks w) = (case ow_attempts w of [] \<Rightarrow> None | a # _ \<Rightarrow> Some a)
     \<and> ow_sent w \<le> length (ow_attempts w)"

definition world_inv ::
  "('h, 'k, 'j) jwt_ops \<Rightarrow> (nat \<Rightarrow> 'j jwks_reply) \<Rightarrow> ('h, 'k) logto_client \<Rightarrow> ('h, 'k, 't) oidc_world \<Rightarrow> bool" where
  "world_inv J reply c0 w \<longleftrightarrow>
     lc_expected_audiences (ow_client w) = lc_expected_audiences c0
     \<and> lc_expected_issuer (ow_client w) = lc_expected_issuer c0
     \<and> token_cache.inv (ow_cache w) \<and> keys_served J (served reply (ow_sent w)) (jk_keys (ow_jwks w))
     \<and> (\<forall>k e. hm_get (ow_cache w) k = Some e \<longrightarrow> entry_ok w k e)
     \<and> log_good J reply c0 w (ow_events w) \<and> spaced w"

definition grows :: "('h, 'k, 't) oidc_world \<Rightarrow> ('h, 'k, 't) oidc_world \<Rightarrow> bool" where
  "grows w w' \<longleftrightarrow> ow_now w \<le> ow_now w' \<and> ow_sent w \<le> ow_sent w' \<and> set (ow_events w) \<subseteq> set (ow_events w')"

definition held :: "('h, 'k, 't) oidc_world \<Rightarrow> ('h, 'k, 't) oidc_world \<Rightarrow> bool" where
  "held w w' \<longleftrightarrow> ow_gate w' = ow_gate w \<and> ow_jwks w' = ow_jwks w \<and> ow_attempts w' = ow_attempts w
     \<and> ow_sent w' = ow_sent w"

text \<open>What a task relies on: what the gate protects does not move while it holds the gate.\<close>

definition oidc_rely :: "'t \<Rightarrow> ('h, 'k, 't) oidc_world \<Rightarrow> ('h, 'k, 't) oidc_world \<Rightarrow> bool" where
  "oidc_rely t w w' \<longleftrightarrow> grows w w' \<and> (ow_gate w = Some t \<longrightarrow> held w w')"

definition oidc_guar :: "'t \<Rightarrow> ('h, 'k, 't) oidc_world \<Rightarrow> ('h, 'k, 't) oidc_world \<Rightarrow> bool" where
  "oidc_guar t w w' \<longleftrightarrow> grows w w' \<and> ow_now w' = ow_now w \<and> (\<forall>u. ow_gate w = Some u \<and> u \<noteq> t \<longrightarrow> held w w')"

lemma grows_refl [simp]: "grows w w" and held_refl [simp]: "held w w"
  by (simp_all add: grows_def held_def)

lemma oidc_rely_refl: "reflp (oidc_rely t)"
  by (auto simp: oidc_rely_def intro: reflpI)

lemma oidc_rely_trans: "transp (oidc_rely t)"
  by (rule transpI) (auto simp: oidc_rely_def grows_def held_def)

lemma oidc_guar_refl [simp]: "oidc_guar t w w"
  by (simp add: oidc_guar_def)

lemma oidc_others: "t \<noteq> u \<Longrightarrow> oidc_guar t w w' \<Longrightarrow> oidc_rely u w w'"
  by (auto simp: oidc_guar_def oidc_rely_def)

lemma rely_grows: "oidc_rely t w w' \<Longrightarrow> grows w w'"
  by (simp add: oidc_rely_def)

lemma guar_held: "held w w' \<Longrightarrow> grows w w' \<Longrightarrow> ow_now w' = ow_now w \<Longrightarrow> oidc_guar t w w'"
  by (simp add: oidc_guar_def)

lemma log_ok_grows:
  assumes "log_ok J reply c0 w past ev" "grows w w'"
  shows "log_ok J reply c0 w' past ev"
proof -
  from assms(2) have "set (served reply (ow_sent w)) \<subseteq> set (served reply (ow_sent w'))" "ow_now w \<le> ow_now w'"
    by (simp_all add: grows_def served_mono)
  with assms(1) show ?thesis by (cases ev) (auto simp: log_ok_def elim: genuine_mono)
qed

lemma log_good_grows: "log_good J reply c0 w evs \<Longrightarrow> grows w w' \<Longrightarrow> log_good J reply c0 w' evs"
  by (induction evs) (auto intro: log_ok_grows)

lemma world_inv_step:
  assumes inv: "world_inv J reply c0 w" and g: "grows w w'"
    and "lc_expected_audiences (ow_client w') = lc_expected_audiences (ow_client w)"
    and "lc_expected_issuer (ow_client w') = lc_expected_issuer (ow_client w)"
    and "token_cache.inv (ow_cache w')" "keys_served J (served reply (ow_sent w')) (jk_keys (ow_jwks w'))" "spaced w'"
    and "\<And>k e. hm_get (ow_cache w') k = Some e \<Longrightarrow> entry_ok w' k e"
    and "ow_events w' = ow_events w \<or> (\<exists>ev. ow_events w' = ev # ow_events w \<and> log_ok J reply c0 w' (ow_events w) ev)"
  shows "world_inv J reply c0 w'"
proof -
  have "log_good J reply c0 w' (ow_events w)"
    using inv log_good_grows [OF _ g, of J reply c0] unfolding world_inv_def by blast
  with assms(3-9) inv show ?thesis by (auto simp: world_inv_def)
qed

lemma world_inv_gate [simp]: "world_inv J reply c0 (w\<lparr>ow_gate := g\<rparr>) = world_inv J reply c0 w"
proof -
  have "log_good J reply c0 (w\<lparr>ow_gate := g\<rparr>) evs = log_good J reply c0 w evs" for evs
    by (induction evs) (auto simp: log_ok_def split: oidc_log.splits)
  then show ?thesis by (simp add: world_inv_def entry_ok_def spaced_def)
qed

lemma entry_ok_log: "entry_ok w k e \<Longrightarrow> ev \<noteq> Removed k \<Longrightarrow> entry_ok (ow_log ev w) k e"
  unfolding entry_ok_def by (metis append_Cons ow_simps(7) set_ConsD)

lemma entry_ok_set_cache [simp]: "entry_ok (ow_set_cache m w) = entry_ok w"
  by (intro ext) (simp add: entry_ok_def)

lemma world_inv_log:
  assumes "world_inv J reply c0 w" "log_ok J reply c0 w (ow_events w) ev" "\<And>k. ev \<noteq> Removed k"
  shows "world_inv J reply c0 (ow_log ev w)"
proof -
  have g: "grows w (ow_log ev w)" by (auto simp: grows_def)
  from log_ok_grows [OF assms(2) g] assms show ?thesis
    by (intro world_inv_step [OF assms(1) g]) (auto simp: world_inv_def spaced_def intro: entry_ok_log)
qed

text \<open>A new content of the validation cache, with its event.\<close>

lemma world_inv_cache:
  assumes "world_inv J reply c0 w" "token_cache.inv m" "log_ok J reply c0 w (ow_events w) ev"
    and "\<And>k e. hm_get m k = Some e \<Longrightarrow> ev = Stored k e \<or> hm_get (ow_cache w) k = Some e \<and> ev \<noteq> Removed k"
  shows "world_inv J reply c0 (ow_log ev (ow_set_cache m w))"
proof -
  have g: "grows w (ow_log ev (ow_set_cache m w))" by (auto simp: grows_def)
  have "entry_ok (ow_log ev (ow_set_cache m w)) k e" if "hm_get m k = Some e" for k e
  proof (cases "ev = Stored k e")
    case True
    then have "ow_events (ow_log ev (ow_set_cache m w)) = [] @ Stored k e # ow_events w" by simp
    then show ?thesis unfolding entry_ok_def by (metis empty_iff empty_set)
  next
    case False
    with assms(4) [OF that] assms(1) show ?thesis by (auto simp: world_inv_def intro: entry_ok_log)
  qed
  with log_ok_grows [OF assms(3) g] assms(1,2) show ?thesis
    by (intro world_inv_step [OF assms(1) g]) (auto simp: world_inv_def spaced_def)
qed

text \<open>A key the issuer served under a key id.\<close>

definition key_known ::
  "('h, 'k, 'j) jwt_ops \<Rightarrow> (nat \<Rightarrow> 'j jwks_reply) \<Rightarrow> string \<Rightarrow> ('h, 'k, 't) oidc_world \<Rightarrow> 'k \<Rightarrow> bool" where
  "key_known J reply kid w key \<longleftrightarrow>
     (\<exists>jwk \<in> set (served reply (ow_sent w)). jw_kid J jwk = Some kid \<and> jw_from_jwk J jwk = Some key)"

lemma key_known_gate [simp]: "key_known J reply kid (w\<lparr>ow_gate := g\<rparr>) key = key_known J reply kid w key"
  by (simp add: key_known_def)

lemma key_known_grows: "key_known J reply kid w key \<Longrightarrow> grows w w' \<Longrightarrow> key_known J reply kid w' key"
  using served_mono [of "ow_sent w" "ow_sent w'" reply] unfolding key_known_def grows_def by blast

lemma key_known_get: "world_inv J reply c0 w \<Longrightarrow> hm_get (jk_keys (ow_jwks w)) kid = Some key \<Longrightarrow> key_known J reply kid w key"
  by (simp add: world_inv_def keys_served_def key_known_def)

lemma fresh_key_known: "world_inv J reply c0 w \<Longrightarrow> fresh_key now kid (ow_jwks w) = Some key \<Longrightarrow> key_known J reply kid w key"
  by (auto simp: fresh_key_def intro: key_known_get split: if_splits)

text \<open>The steps under the gate.\<close>

lemma mark_step_ok:
  assumes "world_inv J reply c0 w" "slow_check now kid (ow_jwks w) = None" "now \<le> ow_now w"
  shows "world_inv J reply c0 (snd (mark_step w))" "ow_sent w < length (ow_attempts (snd (mark_step w)))"
proof -
  let ?v = "snd (mark_step w)"
  have v: "ow_attempts ?v = ow_now w # ow_attempts w" "ow_now ?v = ow_now w" "ow_sent ?v = ow_sent w"
    "ow_client ?v = (ow_client w)\<lparr>lc_jwks := (ow_jwks w)\<lparr>jk_last_refresh_attempt := Some (ow_now w)\<rparr>\<rparr>"
    "ow_events ?v = ow_events w"
    by (simp_all add: mark_step_def)
  have sp: "spaced w" using assms(1) by (simp add: world_inv_def)
  have "a + JWKS_MIN_REFRESH_INTERVAL \<le> ow_now w" if "a \<in> set (ow_attempts w)" for a
  proof -
    from that obtain b bs where bs: "ow_attempts w = b # bs" by (cases "ow_attempts w") auto
    with sp have "jk_last_refresh_attempt (ow_jwks w) = Some b" "a \<le> b"
      using that by (auto simp: spaced_def)
    moreover from this assms(2) have "JWKS_MIN_REFRESH_INTERVAL \<le> now - b"
      by (auto simp: slow_check_def split: option.splits if_splits)
    moreover have "0 < JWKS_MIN_REFRESH_INTERVAL" by (simp add: JWKS_MIN_REFRESH_INTERVAL_def secs_def)
    ultimately show ?thesis using assms(3) by linarith
  qed
  with sp v have "spaced ?v" by (auto simp: spaced_def)
  then show "world_inv J reply c0 ?v"
    by (rule world_inv_step [OF assms(1), rotated 5]) (use assms(1) in \<open>auto simp: grows_def world_inv_def entry_ok_def v\<close>)
  show "ow_sent w < length (ow_attempts ?v)" using sp by (simp add: v spaced_def)
qed

lemma send_step_ok:
  assumes "world_inv J reply c0 w" "ow_sent w < length (ow_attempts w)"
  shows "world_inv J reply c0 (w\<lparr>ow_sent := ow_sent w + 1\<rparr>)"
proof (rule world_inv_step [OF assms(1)])
  have "keys_served J (served reply (ow_sent w)) (jk_keys (ow_jwks w))" using assms(1) by (simp add: world_inv_def)
  from keys_served_mono [OF this served_mono [of _ "ow_sent w + 1"]]
  show "keys_served J (served reply (ow_sent (w\<lparr>ow_sent := ow_sent w + 1\<rparr>))) (jk_keys (ow_jwks (w\<lparr>ow_sent := ow_sent w + 1\<rparr>)))"
    by simp
qed (use assms in \<open>auto simp: grows_def world_inv_def spaced_def entry_ok_def\<close>)

lemma receive_step_ok:
  assumes "world_inv J reply c0 w" "n < ow_sent w" "receive_step J (reply n) w = (r, w')"
  shows "world_inv J reply c0 w'" "grows w w'" "ow_now w' = ow_now w" "ow_gate w' = ow_gate w"
proof -
  obtain g where g: "refresh_jwks J (ow_now w) (reply n) (ow_jwks w) = (r, g)" "w' = ow_set_jwks g w"
    using assms(3) by (auto simp: receive_step_def split: prod.splits)
  have ks: "keys_served J (served reply (ow_sent w)) (jk_keys g) \<and> jk_last_refresh_attempt g = jk_last_refresh_attempt (ow_jwks w)"
  proof (cases "reply n")
    case (JwkSet js)
    then have "set js \<subseteq> set (served reply (ow_sent w))"
      using served_reply [OF assms(2), of reply] by (simp add: reply_keys_def)
    then have "keys_served J (served reply (ow_sent w)) (jwk_keys J js [])"
      by (intro keys_served_jwk_keys) (auto simp: keys_served_def)
    with JwkSet g show ?thesis by (auto simp: refresh_jwks_def)
  qed (use g assms(1) in \<open>auto simp: refresh_jwks_def world_inv_def\<close>)
  show gr: "grows w w'" and "ow_now w' = ow_now w" "ow_gate w' = ow_gate w" by (simp_all add: g(2) grows_def)
  show "world_inv J reply c0 w'"
    by (rule world_inv_step [OF assms(1) gr]) (use assms(1) ks in \<open>auto simp: world_inv_def spaced_def entry_ok_def g(2)\<close>)
qed

subsection \<open>The programs are safe whatever the others do\<close>

abbreviation oidc_safe where
  "oidc_safe J reply c0 t \<equiv> safe (world_inv J reply c0) (oidc_rely t) (oidc_guar t)"

abbreviation gated_safe where
  "gated_safe J reply c0 t \<equiv> safe (\<lambda>w. world_inv J reply c0 w \<and> ow_gate w = Some t) (oidc_rely t) (oidc_guar t)"

lemma oidc_act:
  assumes "\<And>w a w'. oidc_rely t w0 w \<Longrightarrow> world_inv J reply c0 w \<Longrightarrow> f w = (a, w') \<Longrightarrow>
      world_inv J reply c0 w' \<and> oidc_guar t w w' \<and> Q a w'"
  shows "oidc_safe J reply c0 t Q (act f) w0"
  by (rule safe_act) (use assms in auto)

lemma gated_act:
  assumes "\<And>w a w'. oidc_rely t w0 w \<Longrightarrow> world_inv J reply c0 w \<Longrightarrow> ow_gate w = Some t \<Longrightarrow> f w = (a, w') \<Longrightarrow>
      world_inv J reply c0 w' \<and> grows w w' \<and> ow_now w' = ow_now w \<and> ow_gate w' = Some t \<and> Q a w'"
  shows "gated_safe J reply c0 t Q (act f) w0"
  by (rule safe_act) (use assms in \<open>auto simp: oidc_guar_def\<close>)

lemma refresh_prog_safe:
  fixes w0 :: "('h, 'k, 't) oidc_world"
  assumes "ow_gate w0 = Some t" "ow_sent w0 < length (ow_attempts w0)"
  shows "gated_safe J reply c0 t (\<lambda>_ w. True) (refresh_prog J reply) w0"
  unfolding refresh_prog_def
proof (rule safe_bind [where Q = "\<lambda>n w. n < ow_sent w"])
  show "gated_safe J reply c0 t (\<lambda>n w. n < ow_sent w) (act send_step) w0"
  proof (rule gated_act)
    fix w a w' assume w: "oidc_rely t w0 w" "world_inv J reply c0 w" "ow_gate w = Some t" "send_step w = (a, w')"
    from w(1) assms have "ow_sent w < length (ow_attempts w)" by (simp add: oidc_rely_def held_def)
    with send_step_ok [OF w(2)] w(3,4)
    show "world_inv J reply c0 w' \<and> grows w w' \<and> ow_now w' = ow_now w \<and> ow_gate w' = Some t \<and> a < ow_sent w'"
      by (auto simp: send_step_def grows_def)
  qed
next
  fix n and v :: "('h, 'k, 't) oidc_world" assume n: "n < ow_sent v"
  show "gated_safe J reply c0 t (\<lambda>_ w. True) (act (receive_step J (reply n))) v"
  proof (rule gated_act)
    fix w a w' assume w: "oidc_rely t v w" "world_inv J reply c0 w" "ow_gate w = Some t" "receive_step J (reply n) w = (a, w')"
    from w(1) n have "n < ow_sent w" by (simp add: oidc_rely_def grows_def)
    from receive_step_ok [OF w(2) this w(4)] w(3)
    show "world_inv J reply c0 w' \<and> grows w w' \<and> ow_now w' = ow_now w \<and> ow_gate w' = Some t \<and> True" by simp
  qed
qed

abbreviation key_post where
  "key_post J reply kid r w \<equiv> \<forall>key. r = Ok (Some key) \<longrightarrow> key_known J reply kid w key"

lemma slow_prog_safe:
  fixes w0 :: "('h, 'k, 't) oidc_world"
  assumes "ow_gate w0 = Some t"
  shows "gated_safe J reply c0 t (key_post J reply kid) (slow_prog J reply kid) w0"
  unfolding slow_prog_def
proof (rule safe_bind [where Q = "\<lambda>early w. case early of Some r \<Rightarrow> key_post J reply kid (Ok r :: validation_error + _) w
      | None \<Rightarrow> ow_gate w = Some t \<and> (\<exists>now \<le> ow_now w. slow_check now kid (ow_jwks w) = None)"])
  show "gated_safe J reply c0 t (\<lambda>early w. case early of Some r \<Rightarrow> key_post J reply kid (Ok r :: validation_error + _) w
      | None \<Rightarrow> ow_gate w = Some t \<and> (\<exists>now \<le> ow_now w. slow_check now kid (ow_jwks w) = None))
    (act (\<lambda>w. (slow_check (ow_now w) kid (ow_jwks w), w))) w0"
  proof (rule gated_act)
    fix w a w' assume w: "oidc_rely t w0 w" "world_inv J reply c0 w" "ow_gate w = Some t"
      "(slow_check (ow_now w) kid (ow_jwks w), w) = (a, w')"
    have "key_known J reply kid w key" if "a = Some (Some key)" for key
      using that w(4) fresh_key_known [OF w(2)] key_known_get [OF w(2)]
      by (auto simp: slow_check_def split: option.splits if_splits)
    with w show "world_inv J reply c0 w' \<and> grows w w' \<and> ow_now w' = ow_now w \<and> ow_gate w' = Some t
      \<and> (case a of Some r \<Rightarrow> key_post J reply kid (Ok r :: validation_error + _) w'
      | None \<Rightarrow> ow_gate w' = Some t \<and> (\<exists>now \<le> ow_now w'. slow_check now kid (ow_jwks w') = None))"
      by (cases a) auto
  qed
next
  fix early and v :: "('h, 'k, 't) oidc_world"
  assume q: "case early of Some r \<Rightarrow> key_post J reply kid (Ok r :: validation_error + _) v
      | None \<Rightarrow> ow_gate v = Some t \<and> (\<exists>now \<le> ow_now v. slow_check now kid (ow_jwks v) = None)"
  show "gated_safe J reply c0 t (key_post J reply kid) (case early of Some k \<Rightarrow> Ret (Ok k)
     | None \<Rightarrow> bind_prog (act mark_step) (\<lambda>_. try_prog (refresh_prog J reply) (\<lambda>_.
         act (\<lambda>w. (Ok (hm_get (jk_keys (ow_jwks w)) kid), w))))) v"
  proof (cases early)
    case (Some r)
    with q show ?thesis by simp
  next
    case None
    have mark: "gated_safe J reply c0 t (\<lambda>_ w. ow_gate w = Some t \<and> ow_sent w < length (ow_attempts w)) (act mark_step) v"
    proof (rule gated_act)
      fix w a w' assume w: "oidc_rely t v w" "world_inv J reply c0 w" "ow_gate w = Some t" "mark_step w = (a, w')"
      from None q w(1) obtain now where "now \<le> ow_now w" "slow_check now kid (ow_jwks w) = None"
        by (auto simp: oidc_rely_def held_def grows_def) (meson le_trans)
      from mark_step_ok [OF w(2) this(2,1)] w(3,4)
      show "world_inv J reply c0 w' \<and> grows w w' \<and> ow_now w' = ow_now w \<and> ow_gate w' = Some t
        \<and> ow_gate w' = Some t \<and> ow_sent w' < length (ow_attempts w')"
        by (auto simp: mark_step_def grows_def)
    qed
    have rest: "gated_safe J reply c0 t (key_post J reply kid) (try_prog (refresh_prog J reply) (\<lambda>_.
         act (\<lambda>w. (Ok (hm_get (jk_keys (ow_jwks w)) kid), w)))) v'"
      if "ow_gate v' = Some t \<and> ow_sent v' < length (ow_attempts v')" for v'
    proof (rule safe_try [where Q = "\<lambda>_ _. True"])
      show "gated_safe J reply c0 t (\<lambda>r s'. case r of Inl e \<Rightarrow> key_post J reply kid (Inl e :: validation_error + _) s' | Inr a \<Rightarrow> True)
          (refresh_prog J reply) v'"
        by (rule safe_weaken [OF refresh_prog_safe]) (use that in \<open>auto split: sum.splits\<close>)
      show "gated_safe J reply c0 t (key_post J reply kid) (act (\<lambda>w. (Ok (hm_get (jk_keys (ow_jwks w)) kid), w))) s'" for s'
        by (rule gated_act) (auto intro: key_known_get)
    qed
    from None show ?thesis by (simp add: safe_bind [OF mark rest])
  qed
qed

lemma decoding_key_prog_safe:
  fixes w0 :: "('h, 'k, 't) oidc_world"
  shows "oidc_safe J reply c0 t (key_post J reply kid) (decoding_key_prog J reply t kid) w0"
  unfolding decoding_key_prog_def
proof (rule safe_bind [where Q = "\<lambda>fast w. \<forall>key. fast = Some key \<longrightarrow> key_known J reply kid w key"])
  show "oidc_safe J reply c0 t (\<lambda>fast w. \<forall>key. fast = Some key \<longrightarrow> key_known J reply kid w key)
      (act (\<lambda>w. (fresh_key (ow_now w) kid (ow_jwks w), w))) w0"
    by (rule oidc_act) (auto intro: fresh_key_known)
next
  fix fast and v :: "('h, 'k, 't) oidc_world" assume q: "\<forall>key. fast = Some key \<longrightarrow> key_known J reply kid v key"
  have gate: "oidc_safe J reply c0 t (key_post J reply kid)
      (with_gate (\<lambda>w. ow_gate w = None) (\<lambda>w. w\<lparr>ow_gate := Some t\<rparr>) (\<lambda>w. w\<lparr>ow_gate := None\<rparr>) (slow_prog J reply kid)) v"
  proof (rule safe_with_gate [where H = "\<lambda>w. ow_gate w = Some t" and Q = "key_post J reply kid"])
    show "transp (oidc_rely t)" by (rule oidc_rely_trans)
    show "ow_gate s' = Some t" if "ow_gate s = Some t" "oidc_rely t s s'" for s s' :: "('h, 'k, 't) oidc_world"
      using that by (simp add: oidc_rely_def held_def)
    show "world_inv J reply c0 (s\<lparr>ow_gate := Some t\<rparr>) \<and> ow_gate (s\<lparr>ow_gate := Some t\<rparr>) = Some t
      \<and> oidc_guar t s (s\<lparr>ow_gate := Some t\<rparr>)
      \<and> gated_safe J reply c0 t (key_post J reply kid) (slow_prog J reply kid) (s\<lparr>ow_gate := Some t\<rparr>)"
      if "world_inv J reply c0 s" "ow_gate s = None" for s
      using that slow_prog_safe [of "s\<lparr>ow_gate := Some t\<rparr>" t J reply c0 kid] by (simp add: oidc_guar_def grows_def)
    show "world_inv J reply c0 (s'\<lparr>ow_gate := None\<rparr>) \<and> oidc_guar t s (s'\<lparr>ow_gate := None\<rparr>)"
      if "ow_gate s = Some t" "oidc_guar t s s'" "world_inv J reply c0 s'" for s s'
      using that by (simp add: oidc_guar_def grows_def)
    show "key_post J reply kid a (s'\<lparr>ow_gate := None\<rparr>)" if "key_post J reply kid a s" "oidc_rely t s s'"
      for a :: "validation_error + 'k option" and s s' :: "('h, 'k, 't) oidc_world"
      using that key_known_grows [OF _ rely_grows [OF that(2)], of J reply kid] by simp
  qed simp
  show "oidc_safe J reply c0 t (key_post J reply kid) (case fast of Some k \<Rightarrow> Ret (Ok (Some k))
      | None \<Rightarrow> with_gate (\<lambda>w. ow_gate w = None) (\<lambda>w. w\<lparr>ow_gate := Some t\<rparr>) (\<lambda>w. w\<lparr>ow_gate := None\<rparr>) (slow_prog J reply kid)) v"
    by (cases fast) (use q gate in auto)
qed

text \<open>What an accepted identity rests on: this task decoded the token, or found it in the cache.\<close>

definition accepted_by :: "('h, 'k, 'j) jwt_ops \<Rightarrow> 't \<Rightarrow> string \<Rightarrow> authenticated_identity \<Rightarrow> ('h, 'k, 't) oidc_world \<Rightarrow> bool" where
  "accepted_by J t token i w \<longleftrightarrow>
     (\<exists>d u x. Decoded t d u token i x \<in> set (ow_events w)) \<or> (\<exists>a. Found t a (jw_sha J token) i \<in> set (ow_events w))"

abbreviation accept_post where
  "accept_post J t token r w \<equiv> \<forall>i. r = Ok (Some i) \<longrightarrow> accepted_by J t token i w"

lemma accepted_by_grows: "accepted_by J t token i w \<Longrightarrow> grows w w' \<Longrightarrow> accepted_by J t token i w'"
  unfolding accepted_by_def grows_def by blast

lemma lookup_step_ok:
  assumes "world_inv J reply c0 w" "lookup_step t key w = (hit, w')"
  shows "world_inv J reply c0 w' \<and> oidc_guar t w w' \<and> (\<forall>i. hit = Some i \<longrightarrow> (\<exists>a. Found t a key i \<in> set (ow_events w')))"
proof (cases "cache_lookup (ow_now w) key (ow_cache w)")
  case None
  with assms show ?thesis by (simp add: lookup_step_def)
next
  case (Some i)
  then obtain e where e: "hm_get (ow_cache w) key = Some e" "ce_expires_at e > ow_now w" "i = ce_identity e"
    by (auto simp: cache_lookup_def split: option.splits if_splits)
  with assms(1) have "entry_ok w key e" by (simp add: world_inv_def)
  then obtain mid old where m: "ow_events w = mid @ Stored key e # old" "Removed key \<notin> set mid"
    by (auto simp: entry_ok_def)
  from assms(1) have good: "log_good J reply c0 w (ow_events w)" by (simp add: world_inv_def)
  with m(1) have "log_ok J reply c0 w old (Stored key e)" by (metis log_good_split)
  then obtain n unix x where n: "Timed n unix key i x \<in> set old" "ow_now w < n + cache_ttl unix (Some x)"
    using e by (auto simp: log_ok_def)
  then have "Timed n unix key i x \<in> set (ow_events w)" by (simp add: m(1))
  from log_good_mem [OF good this] have "n \<le> ow_now w" by (auto simp: log_ok_def)
  with n m have "log_ok J reply c0 w (ow_events w) (Found t (ow_now w) key i)"
    unfolding log_ok_def by auto blast
  from world_inv_log [OF assms(1) this] Some assms(2) show ?thesis
    by (auto simp: lookup_step_def oidc_guar_def grows_def held_def)
qed

lemma decode_step_ok:
  assumes "world_inv J reply c0 w" "jw_decode_header J token = Some (alg, Some kid)" "key_known J reply kid w key"
    and "decode_step J t token alg key w = (checked, w')"
  shows "world_inv J reply c0 w' \<and> oidc_guar t w w' \<and> (\<forall>cl. checked = Some cl \<longrightarrow>
    Decoded t (ow_now w') (ow_unix w') token (identity_of cl) (cl_exp cl) \<in> set (ow_events w'))"
proof (cases "verify_claims J (ow_client w) (ow_unix w) token alg key")
  case None
  with assms show ?thesis by (simp add: decode_step_def)
next
  case (Some cl)
  then have v: "accepted_alg alg" "jw_decode J token key alg (lc_expected_audiences (ow_client w)) (lc_expected_issuer (ow_client w)) (ow_unix w) = Some cl"
    "\<exists>a \<in> set (lc_expected_audiences (ow_client w)). aud_matches (cl_aud cl) a"
    by (auto simp: verify_claims_def list_ex_iff split: if_splits option.splits)
  have "genuine J c0 (served reply (ow_sent w)) (ow_unix w) token (identity_of cl) (cl_exp cl)"
    using v assms(1-3) unfolding genuine_def key_known_def world_inv_def by auto
  then have "log_ok J reply c0 w (ow_events w)
      (Decoded t (ow_now w) (ow_unix w) token (identity_of cl) (cl_exp cl))"
    by (simp add: log_ok_def)
  from world_inv_log [OF assms(1) this] Some assms(4) show ?thesis
    by (auto simp: decode_step_def oidc_guar_def grows_def held_def)
qed

lemma cache_insert_prog_safe:
  fixes w0 :: "('h, 'k, 't) oidc_world"
  assumes "Decoded t d u token i x \<in> set (ow_events w0)" "d \<le> ow_now w0"
  shows "oidc_safe J reply c0 t (\<lambda>_ w. Decoded t d u token i x \<in> set (ow_events w)) (cache_insert_prog (jw_sha J token) i x) w0"
  unfolding cache_insert_prog_def
proof (rule safe_bind [where Q = "\<lambda>_ w. Decoded t d u token i x \<in> set (ow_events w) \<and> d \<le> ow_now w"])
  show "oidc_safe J reply c0 t (\<lambda>_ w. Decoded t d u token i x \<in> set (ow_events w) \<and> d \<le> ow_now w) (act (\<lambda>w. (ow_unix w, w))) w0"
    by (rule oidc_act) (use assms in \<open>auto simp: oidc_rely_def grows_def\<close>)
next
  fix unix and v :: "('h, 'k, 't) oidc_world"
  assume v: "Decoded t d u token i x \<in> set (ow_events v) \<and> d \<le> ow_now v"
  let ?Q = "\<lambda>(entry :: cache_entry) w. Timed (ce_expires_at entry - cache_ttl unix (Some x)) unix (jw_sha J token) (ce_identity entry) x \<in> set (ow_events w)
      \<and> cache_ttl unix (Some x) \<le> ce_expires_at entry \<and> Decoded t d u token i x \<in> set (ow_events w)"
  show "oidc_safe J reply c0 t (\<lambda>_ w. Decoded t d u token i x \<in> set (ow_events w))
      (bind_prog (act (entry_step (jw_sha J token) unix i x)) (\<lambda>entry. act (put_step (jw_sha J token) entry))) v"
  proof (rule safe_bind [where Q = ?Q])
    show "oidc_safe J reply c0 t ?Q (act (entry_step (jw_sha J token) unix i x)) v"
    proof (rule oidc_act)
      fix w a w' assume w: "oidc_rely t v w" "world_inv J reply c0 w" "entry_step (jw_sha J token) unix i x w = (a, w')"
      from w(1) v have d: "Decoded t d u token i x \<in> set (ow_events w)" "d \<le> ow_now w"
        by (auto simp: oidc_rely_def grows_def)
      then have "log_ok J reply c0 w (ow_events w) (Timed (ow_now w) unix (jw_sha J token) i x)"
        by (auto simp: log_ok_def)
      from world_inv_log [OF w(2) this] w(3) d show "world_inv J reply c0 w' \<and> oidc_guar t w w' \<and> ?Q a w'"
        by (auto simp: entry_step_def oidc_guar_def grows_def held_def)
    qed
  next
    fix entry :: cache_entry and v' :: "('h, 'k, 't) oidc_world" assume q: "?Q entry v'"
    show "oidc_safe J reply c0 t (\<lambda>_ w. Decoded t d u token i x \<in> set (ow_events w)) (act (put_step (jw_sha J token) entry)) v'"
    proof (rule oidc_act)
      fix w a w' assume w: "oidc_rely t v' w" "world_inv J reply c0 w" "put_step (jw_sha J token) entry w = (a, w')"
      let ?m = "capped_put CACHE_CAP (\<lambda>_ e. ce_expires_at e > ow_now w) ce_expires_at (jw_sha J token) entry (ow_cache w)"
      from w(2) have wf: "hm_wf (ow_cache w)" "hm_len (ow_cache w) \<le> CACHE_CAP" by (simp_all add: world_inv_def token_cache.inv_def)
      then have inv: "token_cache.inv ?m"
        by (simp add: token_cache.inv_def hm_wf_capped_put hm_len_capped_put CACHE_CAP_pos)
      from q w(1) have ev: "log_ok J reply c0 w (ow_events w) (Stored (jw_sha J token) entry)"
        unfolding log_ok_def oidc_log.case oidc_rely_def grows_def by (metis le_add_diff_inverse2 subsetD)
      have "world_inv J reply c0 (ow_log (Stored (jw_sha J token) entry) (ow_set_cache ?m w))"
      proof (rule world_inv_cache [OF w(2) inv ev])
        fix k e assume "hm_get ?m k = Some e"
        then show "Stored (jw_sha J token) entry = Stored k e
            \<or> hm_get (ow_cache w) k = Some e \<and> Stored (jw_sha J token) entry \<noteq> Removed k"
          using hm_get_capped_put_other [OF wf(1)] by (cases "k = jw_sha J token") (auto simp: hm_get_capped_put)
      qed
      with w q show "world_inv J reply c0 w' \<and> oidc_guar t w w' \<and> Decoded t d u token i x \<in> set (ow_events w')"
        by (auto simp: put_step_def oidc_guar_def oidc_rely_def grows_def held_def)
    qed
  qed
qed

lemma accept_prog_safe:
  fixes w0 :: "('h, 'k, 't) oidc_world"
  assumes hd: "jw_decode_header J token = Some (alg, Some kid)" and key: "key_known J reply kid w0 key"
  shows "oidc_safe J reply c0 t (accept_post J t token) (accept_prog J t token alg key) w0"
  unfolding accept_prog_def
proof (rule safe_bind [where Q = "\<lambda>checked w. \<forall>cl. checked = Some cl \<longrightarrow>
    (\<exists>u. Decoded t (ow_now w) u token (identity_of cl) (cl_exp cl) \<in> set (ow_events w))"])
  show "oidc_safe J reply c0 t (\<lambda>checked w. \<forall>cl. checked = Some cl \<longrightarrow>
    (\<exists>u. Decoded t (ow_now w) u token (identity_of cl) (cl_exp cl) \<in> set (ow_events w))) (act (decode_step J t token alg key)) w0"
  proof (rule oidc_act)
    fix w a w' assume w: "oidc_rely t w0 w" "world_inv J reply c0 w" "decode_step J t token alg key w = (a, w')"
    from decode_step_ok [OF w(2) hd key_known_grows [OF key rely_grows [OF w(1)]] w(3)]
    show "world_inv J reply c0 w' \<and> oidc_guar t w w' \<and> (\<forall>cl. a = Some cl \<longrightarrow>
      (\<exists>u. Decoded t (ow_now w') u token (identity_of cl) (cl_exp cl) \<in> set (ow_events w')))" by blast
  qed
next
  fix checked and v :: "('h, 'k, 't) oidc_world"
  assume c: "\<forall>cl. checked = Some cl \<longrightarrow> (\<exists>u. Decoded t (ow_now v) u token (identity_of cl) (cl_exp cl) \<in> set (ow_events v))"
  have "oidc_safe J reply c0 t (accept_post J t token)
      (bind_prog (cache_insert_prog (jw_sha J token) (identity_of cl) (cl_exp cl)) (\<lambda>_. Ret (Ok (Some (identity_of cl))))) v"
    if cl: "checked = Some cl" for cl
  proof -
    from c cl obtain u where "Decoded t (ow_now v) u token (identity_of cl) (cl_exp cl) \<in> set (ow_events v)" by blast
    from cache_insert_prog_safe [OF this le_refl] show ?thesis by (rule safe_bind) (auto simp: accepted_by_def)
  qed
  then show "oidc_safe J reply c0 t (accept_post J t token) (case checked of None \<Rightarrow> Ret (Ok None)
       | Some cl \<Rightarrow> bind_prog (cache_insert_prog (jw_sha J token) (identity_of cl) (cl_exp cl)) (\<lambda>_. Ret (Ok (Some (identity_of cl))))) v"
    by (cases checked) auto
qed

lemma validate_prog_safe:
  fixes w0 :: "('h, 'k, 't) oidc_world"
  shows "oidc_safe J reply c0 t (accept_post J t token) (validate_prog J reply t token) w0"
  unfolding validate_prog_def
proof (rule safe_bind [where Q = "\<lambda>hit w. \<forall>i. hit = Some i \<longrightarrow> accepted_by J t token i w"])
  show "oidc_safe J reply c0 t (\<lambda>hit w. \<forall>i. hit = Some i \<longrightarrow> accepted_by J t token i w) (act (lookup_step t (jw_sha J token))) w0"
    by (rule oidc_act) (use lookup_step_ok in \<open>fastforce simp: accepted_by_def\<close>)
next
  fix hit and v :: "('h, 'k, 't) oidc_world" assume hit: "\<forall>i. hit = Some i \<longrightarrow> accepted_by J t token i v"
  let ?rest = "\<lambda>alg found. case found of None \<Rightarrow> Ret (Ok None) | Some key \<Rightarrow> accept_prog J t token alg key"
  have keyed: "oidc_safe J reply c0 t (accept_post J t token) (try_prog (decoding_key_prog J reply t kid) (?rest alg)) v"
    if hd: "jw_decode_header J token = Some (alg, Some kid)" for alg kid
  proof (rule safe_try [where Q = "\<lambda>found w. \<forall>key. found = Some key \<longrightarrow> key_known J reply kid w key"])
    show "oidc_safe J reply c0 t (\<lambda>r s'. case r of Inl e \<Rightarrow> accept_post J t token (Inl e) s'
        | Inr found \<Rightarrow> \<forall>key. found = Some key \<longrightarrow> key_known J reply kid s' key) (decoding_key_prog J reply t kid) v"
      by (rule safe_weaken [OF decoding_key_prog_safe]) (auto split: sum.splits)
    show "oidc_safe J reply c0 t (accept_post J t token) (?rest alg found) v'"
      if "\<forall>key. found = Some key \<longrightarrow> key_known J reply kid v' key" for found and v' :: "('h, 'k, 't) oidc_world"
      using that accept_prog_safe [OF hd] by (cases found) auto
  qed
  show "oidc_safe J reply c0 t (accept_post J t token) (case hit of Some i \<Rightarrow> Ret (Ok (Some i))
      | None \<Rightarrow> (case jw_decode_header J token of None \<Rightarrow> Ret (Ok None) | Some (alg, None) \<Rightarrow> Ret (Ok None)
        | Some (alg, Some kid) \<Rightarrow> try_prog (decoding_key_prog J reply t kid) (?rest alg))) v"
    using hit keyed by (auto split: option.splits)
qed

lemma drop_prog_safe:
  fixes w0 :: "('h, 'k, 't) oidc_world"
  shows "oidc_safe J reply c0 t (accept_post J t token) (drop_prog J token) w0"
  unfolding drop_prog_def
proof (rule oidc_act)
  fix w w' :: "('h, 'k, 't) oidc_world" and a
  let ?v = "ow_log (Removed (jw_sha J token)) (ow_set_cache (hm_remove (jw_sha J token) (ow_cache w)) w)"
  assume w: "world_inv J reply c0 w" "(Ok None, ?v) = (a :: validation_error + authenticated_identity option, w')"
  from w(1) have "token_cache.inv (hm_remove (jw_sha J token) (ow_cache w))"
    by (intro token_cache_remove) (simp add: world_inv_def)
  with w(1) have "world_inv J reply c0 ?v"
    by (intro world_inv_cache) (auto simp: log_ok_def split: if_splits)
  with w(2) show "world_inv J reply c0 w' \<and> oidc_guar t w w' \<and> accept_post J t token a w'"
    by (auto simp: oidc_guar_def grows_def held_def)
qed

subsection \<open>Progress\<close>

lemma validate_prog_within: "within (validate_prog J reply t token) 13"
proof -
  have refresh: "within (refresh_prog J reply) 2"
    unfolding refresh_prog_def by (intro within_act_bind) simp_all
  have "within (try_prog (refresh_prog J reply) (\<lambda>_. act (\<lambda>w. (Ok (hm_get (jk_keys (ow_jwks w)) kid), w)))) (2 + 1)" for kid
    by (rule within_try [OF refresh]) simp
  then have slow: "within (slow_prog J reply kid) 5" for kid
    unfolding slow_prog_def by (intro within_act_bind) (auto intro!: within_act_bind split: option.splits)
  have key: "within (decoding_key_prog J reply t kid) 8" for kid
    unfolding decoding_key_prog_def using within_with_gate [OF slow]
    by (intro within_act_bind) (auto split: option.splits)
  have ins: "within (cache_insert_prog key i x) 3" for key i x
    unfolding cache_insert_prog_def by (intro within_act_bind) simp_all
  have "within (bind_prog (cache_insert_prog key i x) (\<lambda>_. Ret r)) 3" for key i x and r :: "validation_error + authenticated_identity option"
    using within_bind [OF ins, of "\<lambda>_. Ret r" 0] by simp
  then have acc: "within (accept_prog J t token alg key) 4" for alg key
    unfolding accept_prog_def by (intro within_act_bind) (auto split: option.splits)
  have "within (try_prog (decoding_key_prog J reply t kid) (\<lambda>found. case found of None \<Rightarrow> Ret (Ok None)
      | Some decoding_key \<Rightarrow> accept_prog J t token alg decoding_key)) (8 + 4)" for kid alg
    by (rule within_try [OF key]) (use acc in \<open>auto split: option.splits\<close>)
  then show ?thesis
    unfolding validate_prog_def by (intro within_act_bind) (auto split: option.splits)
qed

abbreviation gate_held :: "'t \<Rightarrow> ('h, 'k, 't) oidc_world \<Rightarrow> bool" where
  "gate_held t w \<equiv> ow_gate w = Some t"

lemma slow_prog_quiet: "quiet gate_held (slow_prog J reply kid)"
  unfolding slow_prog_def refresh_prog_def
  by (intro quiet_bind quiet_act)
    (auto intro!: quiet_bind quiet_try quiet_act simp: mark_step_def send_step_def receive_step_def split: option.splits prod.splits)

lemma decoding_key_prog_tidy: "tidy gate_held t False (decoding_key_prog J reply t kid) False"
proof -
  have "tidy gate_held t False (with_gate (\<lambda>w. ow_gate w = None) (\<lambda>w. w\<lparr>ow_gate := Some t\<rparr>) (\<lambda>w. w\<lparr>ow_gate := None\<rparr>)
      (slow_prog J reply kid)) False"
    by (rule tidy_with_gate [OF _ _ _ _ slow_prog_quiet]) auto
  then show ?thesis
    unfolding decoding_key_prog_def by (intro tidy_act_bind) (auto split: option.splits)
qed

lemma accept_prog_tidy: "tidy gate_held t False (accept_prog J t token alg key) False"
  unfolding accept_prog_def cache_insert_prog_def
  by (intro tidy_act_bind)
    (auto intro!: tidy_bind tidy_act_bind tidy_act simp: decode_step_def entry_step_def put_step_def split: option.splits)

lemma validate_prog_tidy: "tidy gate_held t False (validate_prog J reply t token) False"
  unfolding validate_prog_def
  by (intro tidy_act_bind)
    (auto intro!: tidy_try decoding_key_prog_tidy accept_prog_tidy simp: lookup_step_def split: option.splits)

lemma drop_prog_tidy: "tidy gate_held t False (drop_prog J token) False"
  unfolding drop_prog_def by (rule tidy_act) simp

subsection \<open>The pool of validations\<close>

text \<open>Task \<open>t\<close> validates or drops the token \<open>tok t\<close>; the clocks move on their own.\<close>

definition oidc_spawn ::
  "('h, 'k, 'j) jwt_ops \<Rightarrow> (nat \<Rightarrow> 'j jwks_reply) \<Rightarrow> ('t \<Rightarrow> string) \<Rightarrow> 't
     \<Rightarrow> (('h, 'k, 't) oidc_world, validation_error + authenticated_identity option) prog \<Rightarrow> bool" where
  "oidc_spawn J reply tok t p \<longleftrightarrow> p = validate_prog J reply t (tok t) \<or> p = drop_prog J (tok t)"

definition oidc_outside :: "('h, 'k, 't) oidc_world \<Rightarrow> ('h, 'k, 't) oidc_world \<Rightarrow> bool" where
  "oidc_outside w w' \<longleftrightarrow> (\<exists>n unix. ow_now w \<le> n \<and> w' = w\<lparr>ow_now := n, ow_unix := unix\<rparr>)"

definition oidc_world_start :: "('h, 'k) logto_client \<Rightarrow> instant \<Rightarrow> int \<Rightarrow> ('h, 'k, 't) oidc_world" where
  "oidc_world_start c now unix =
     \<lparr>ow_client = c, ow_gate = None, ow_now = now, ow_unix = unix, ow_attempts = [], ow_sent = 0, ow_events = []\<rparr>"

lemma oidc_outside_ok:
  assumes "oidc_outside w w'" "world_inv J reply c0 w"
  shows "world_inv J reply c0 w' \<and> oidc_rely t w w'"
proof -
  from assms(1) obtain n unix where w': "ow_now w \<le> n" "w' = w\<lparr>ow_now := n, ow_unix := unix\<rparr>" by (auto simp: oidc_outside_def)
  then have g: "grows w w'" and h: "held w w'" by (simp_all add: grows_def held_def)
  have "world_inv J reply c0 w'"
    by (rule world_inv_step [OF assms(2) g]) (use assms(2) w' in \<open>auto simp: world_inv_def spaced_def entry_ok_def\<close>)
  with g h show ?thesis by (simp add: oidc_rely_def)
qed

lemma world_inv_start: "logto_new authz auds = Some c0 \<Longrightarrow> world_inv J reply c0 (oidc_world_start c0 n unix)"
  using logto_new_fields [of authz auds c0]
  by (auto simp: world_inv_def oidc_world_start_def spaced_def token_cache.inv_empty keys_served_def)

lemma oidc_pool_safe:
  assumes "logto_new authz auds = Some c0"
    and "pool_reach oidc_outside (oidc_spawn J reply tok) (oidc_world_start c0 n unix) c"
  shows "pool_safe (world_inv J reply c0) oidc_rely oidc_guar (\<lambda>t. accept_post J t (tok t)) c"
proof (rule pool_invariant [where outside = oidc_outside and start = "oidc_spawn J reply tok"])
  show "world_inv J reply c0 (oidc_world_start c0 n unix)" by (rule world_inv_start [OF assms(1)])
  show "oidc_safe J reply c0 t (accept_post J t (tok t)) p s" if "oidc_spawn J reply tok t p" for t p s
    using that by (auto simp: oidc_spawn_def intro: validate_prog_safe drop_prog_safe)
qed (auto intro: assms(2) oidc_rely_refl oidc_rely_trans dest: oidc_outside_ok oidc_others)

text \<open>What stands behind an identity a task was given, and behind one it found in the cache.\<close>

lemma decoded_genuine:
  "world_inv J reply c0 w \<Longrightarrow> Decoded t d unix token i x \<in> set (ow_events w)
     \<Longrightarrow> genuine J c0 (served reply (ow_sent w)) unix token i x"
  using log_good_mem [of J reply c0 w "ow_events w" "Decoded t d unix token i x"] by (auto simp: world_inv_def log_ok_def)

lemma found_backed:
  assumes inv: "world_inv J reply c0 w" and "ow_events w = pre @ Found t a k i # past"
  shows "\<exists>mid e old m unix x t0 d unix0 token0. past = mid @ Stored k e # old \<and> Removed k \<notin> set mid
    \<and> Timed m unix k i x \<in> set old \<and> Decoded t0 d unix0 token0 i x \<in> set old \<and> jw_sha J token0 = k
    \<and> genuine J c0 (served reply (ow_sent w)) unix0 token0 i x
    \<and> d \<le> m \<and> m \<le> a \<and> a < m + secs 60 \<and> a < m + secs (nat (x - unix))"
proof -
  from inv have good: "log_good J reply c0 w (ow_events w)" by (simp add: world_inv_def)
  with assms(2) have f: "log_ok J reply c0 w past (Found t a k i)" "log_good J reply c0 w past" by (metis log_good_split)+
  from f(1) obtain mid e old m unix x where m: "past = mid @ Stored k e # old" "Removed k \<notin> set mid"
    "Timed m unix k i x \<in> set old" "m \<le> a" "a < m + cache_ttl unix (Some x)" by (auto simp: log_ok_def)
  with f(2) have "log_good J reply c0 w old" by (metis log_good_split)
  from log_good_mem [OF this m(3)] obtain t0 d unix0 token0 where d: "Decoded t0 d unix0 token0 i x \<in> set old"
    "jw_sha J token0 = k" "d \<le> m" by (auto simp: log_ok_def)
  then have "Decoded t0 d unix0 token0 i x \<in> set (ow_events w)" by (simp add: assms(2) m(1))
  from decoded_genuine [OF inv this] have "genuine J c0 (served reply (ow_sent w)) unix0 token0 i x" .
  moreover have "a < m + secs 60" "a < m + secs (nat (x - unix))"
    using m(5) cache_ttl_le [of unix "Some x"] cache_ttl_exp [of unix x] by (simp_all add: MAX_CACHE_TTL_def)
  ultimately show ?thesis using m d by blast
qed

text \<open>How many instants of a spaced list fit in a window.\<close>

lemma spaced_window:
  assumes "sorted_wrt (\<lambda>later earlier. earlier + d \<le> later) xs" "\<forall>a \<in> set xs. a \<le> now" "0 < d"
  shows "length (filter (\<lambda>a. lo \<le> a) xs) \<le> (now - lo) div d + (1::nat)"
  using assms(1,2)
proof (induction xs arbitrary: now)
  case (Cons a xs)
  show ?case
  proof (cases "filter (\<lambda>a. lo \<le> a) xs = [] \<or> \<not> lo \<le> a")
    case True
    then show ?thesis
    proof
      assume "\<not> lo \<le> a"
      with Cons.prems(1) assms(3) have "filter (\<lambda>a. lo \<le> a) (a # xs) = []" by (force simp: filter_empty_conv)
      then show ?thesis by simp
    qed auto
  next
    case False
    then obtain b where b: "b \<in> set xs" "lo \<le> b" by (auto simp: filter_empty_conv)
    with Cons.prems have a: "b + d \<le> a" "a \<le> now" by auto
    have "\<forall>y \<in> set xs. y \<le> a - d" using Cons.prems(1) assms(3) by (auto simp: Nat.le_diff_conv2)
    with Cons.IH [of "a - d"] Cons.prems(1)
    have n: "length (filter (\<lambda>a. lo \<le> a) xs) \<le> (a - d - lo) div d + 1" by simp
    have "(a - d - lo) div d + 1 = (a - lo) div d"
      using a b assms(3) by (simp add: le_div_geq add.commute)
    also have "\<dots> \<le> (now - lo) div d" using a by (intro div_le_mono) simp
    finally show ?thesis using n False by simp
  qed
qed simp

lemma sample_task:
  "\<exists>c0 w. logto_new ''https://l'' [''https://r''] = Some c0
     \<and> pool_reach oidc_outside (oidc_spawn sample_jwt (\<lambda>_. JwkSet [''KEY'']) (\<lambda>_. ''tok'')) (oidc_world_start c0 10 900)
         (w, [(1::nat) \<mapsto> Ret (Ok (Some (identity_of sample_claims)))])
     \<and> ow_attempts w = [10] \<and> ow_sent w = 1"
proof -
  let ?p = "validate_prog sample_jwt (\<lambda>_. JwkSet [''KEY'']) (1::nat) ''tok''"
  obtain c0 :: "(string, string) logto_client" where c0: "logto_new ''https://l'' [''https://r''] = Some c0"
    by (auto simp: logto_new_def Let_def)
  let ?w = "oidc_world_start c0 10 900 :: (string, string, nat) oidc_world"
  have s: "clear ?p ?w" "fst (run ?p ?w) = Ok (Some (identity_of sample_claims))"
    "ow_attempts (snd (run ?p ?w)) = [10] \<and> ow_sent (snd (run ?p ?w)) = 1"
    using c0 by (auto simp: logto_new_def validate_prog_def oidc_world_start_def lookup_step_def cache_lookup_def
        sample_jwt_def decoding_key_prog_def slow_prog_def slow_check_def fresh_key_def jwks_fresh_def refresh_prog_def
        mark_step_def send_step_def receive_step_def refresh_jwks_def accept_prog_def decode_step_def verify_claims_def
        accepted_alg_def sample_claims_def hm_get_def hm_insert_def clear_bind clear_try clear_with_gate
        run_bind run_try run_with_gate cache_insert_prog_def entry_step_def put_step_def ow_set_jwks_def ow_set_cache_def ow_log_def Let_def)
  have "pool_reach oidc_outside (oidc_spawn sample_jwt (\<lambda>_. JwkSet [''KEY'']) (\<lambda>_. ''tok'')) ?w
      (snd (run ?p ?w), [(1::nat) \<mapsto> Ret (fst (run ?p ?w))])"
    by (rule lone_task [OF _ s(1)]) (simp add: oidc_spawn_def)
  with c0 s(2,3) show ?thesis by auto
qed

subsection \<open>Properties\<close>

text \<open>
  C4: who is let in, when requests overlap. Any number of validations and evictions run on one
  client, interleaved at every lock, clock read and network wait, and any of them may be dropped
  half way. An identity a task ends with was established by a full verification: an accepted
  asymmetric algorithm, a key the issuer's JWKS served under the token's own key id, and claims the
  JWT library accepted for our issuer and one of our audiences. Either this task did it, for its
  own token; or it found the identity in the cache, stored from such a verification of a token with
  the same hash, not removed between the two, less than 60 seconds after the clocks were read for
  the entry and before the token's own expiry.
\<close>

theorem identities_verified_concurrently:
  assumes "logto_new authz auds = Some c0"
    and "pool_reach oidc_outside (oidc_spawn J reply tok) (oidc_world_start c0 n0 unix0) (w, P)"
    and "P t = Some (Ret (Ok (Some i)))"
  shows "(\<exists>d unix x. Decoded t d unix (tok t) i x \<in> set (ow_events w) \<and> genuine J c0 (served reply (ow_sent w)) unix (tok t) i x)
    \<or> (\<exists>pre a mid e old m unix x t0 d unix1 token.
         ow_events w = pre @ Found t a (jw_sha J (tok t)) i # mid @ Stored (jw_sha J (tok t)) e # old
         \<and> Removed (jw_sha J (tok t)) \<notin> set mid \<and> Timed m unix (jw_sha J (tok t)) i x \<in> set old
         \<and> Decoded t0 d unix1 token i x \<in> set old \<and> jw_sha J token = jw_sha J (tok t)
         \<and> genuine J c0 (served reply (ow_sent w)) unix1 token i x
         \<and> d \<le> m \<and> m \<le> a \<and> a < m + secs 60 \<and> a < m + secs (nat (x - unix)))"
proof -
  from oidc_pool_safe [OF assms(1,2)]
  have inv: "world_inv J reply c0 w" and post: "\<exists>s. oidc_rely t s w \<and> accepted_by J t (tok t) i s"
    using assms(3) by (force simp: pool_safe_def)+
  from post have "accepted_by J t (tok t) i w" by (auto intro: accepted_by_grows rely_grows)
  then show ?thesis
    unfolding accepted_by_def
  proof
    assume "\<exists>d u x. Decoded t d u (tok t) i x \<in> set (ow_events w)"
    then obtain d u x where "Decoded t d u (tok t) i x \<in> set (ow_events w)" by blast
    with decoded_genuine [OF inv this] show ?thesis by (intro disjI1) blast
  next
    assume "\<exists>a. Found t a (jw_sha J (tok t)) i \<in> set (ow_events w)"
    then obtain a pre past where f: "ow_events w = pre @ Found t a (jw_sha J (tok t)) i # past" by (meson split_list)
    from found_backed [OF inv f] f show ?thesis by blast
  qed
qed

theorem identities_verified_concurrently_witness:
  "\<exists>c0 w. logto_new ''https://l'' [''https://r''] = Some c0
     \<and> pool_reach oidc_outside (oidc_spawn sample_jwt (\<lambda>_. JwkSet [''KEY'']) (\<lambda>_. ''tok'')) (oidc_world_start c0 10 900)
         (w, [(1::nat) \<mapsto> Ret (Ok (Some (identity_of sample_claims)))])
     \<and> ((\<exists>unix x. genuine sample_jwt c0 (served (\<lambda>_. JwkSet [''KEY'']) 1) unix ''tok'' (identity_of sample_claims) x)
        \<or> (\<exists>unix x token. genuine sample_jwt c0 (served (\<lambda>_. JwkSet [''KEY'']) 1) unix token (identity_of sample_claims) x))"
proof -
  obtain c0 w where w: "logto_new ''https://l'' [''https://r''] = Some c0"
    "pool_reach oidc_outside (oidc_spawn sample_jwt (\<lambda>_. JwkSet [''KEY'']) (\<lambda>_. ''tok'')) (oidc_world_start c0 10 900)
       (w, [(1::nat) \<mapsto> Ret (Ok (Some (identity_of sample_claims)))])" "ow_sent w = 1"
    using sample_task by blast
  from identities_verified_concurrently [OF w(1,2), of 1 "identity_of sample_claims"] w show ?thesis by auto
qed

text \<open>
  C32: unknown key ids cannot make the service flood the issuer, however many requests arrive at
  once and whichever are dropped while they wait. The refresh attempts are at least five seconds
  apart, so any window holds at most one for every five seconds and one more; each request to the
  JWKS endpoint belongs to an attempt; and the validation cache never exceeds 256 entries.
\<close>

theorem refreshes_spaced_concurrently:
  assumes "logto_new authz auds = Some c0"
    and "pool_reach oidc_outside (oidc_spawn J reply tok) (oidc_world_start c0 n0 unix0) (w, P)"
  shows "sorted_wrt (\<lambda>later earlier. earlier + secs 5 \<le> later) (ow_attempts w)
    \<and> length (filter (\<lambda>a. since \<le> a) (ow_attempts w)) \<le> (ow_now w - since) div secs 5 + 1
    \<and> ow_sent w \<le> length (ow_attempts w) \<and> hm_len (ow_cache w) \<le> 256"
proof -
  from oidc_pool_safe [OF assms] have inv: "world_inv J reply c0 w" by (simp add: pool_safe_def)
  then have sp: "spaced w" by (simp add: world_inv_def)
  from spaced_window [of JWKS_MIN_REFRESH_INTERVAL "ow_attempts w" "ow_now w" since] sp
  have "length (filter (\<lambda>a. since \<le> a) (ow_attempts w)) \<le> (ow_now w - since) div secs 5 + 1"
    by (simp add: spaced_def JWKS_MIN_REFRESH_INTERVAL_def secs_def)
  moreover have "token_cache.inv (ow_cache w)" using inv by (simp add: world_inv_def)
  then have "hm_len (ow_cache w) \<le> 256" unfolding token_cache.inv_def by (simp add: CACHE_CAP_def)
  ultimately show ?thesis using sp by (simp add: spaced_def JWKS_MIN_REFRESH_INTERVAL_def)
qed

theorem refreshes_spaced_concurrently_witness:
  "\<exists>c0 w P. logto_new ''https://l'' [''https://r''] = Some c0
     \<and> pool_reach oidc_outside (oidc_spawn sample_jwt (\<lambda>_. JwkSet [''KEY'']) (\<lambda>_. ''tok'')) (oidc_world_start c0 10 900)
         (w :: (string, string, nat) oidc_world, P)
     \<and> ow_sent w = 1 \<and> length (ow_attempts w) = 1 \<and> hm_len (ow_cache w) \<le> 256"
proof -
  obtain c0 w where w: "logto_new ''https://l'' [''https://r''] = Some c0"
    "pool_reach oidc_outside (oidc_spawn sample_jwt (\<lambda>_. JwkSet [''KEY'']) (\<lambda>_. ''tok'')) (oidc_world_start c0 10 900)
       (w, [(1::nat) \<mapsto> Ret (Ok (Some (identity_of sample_claims)))])" "ow_sent w = 1" "ow_attempts w = [10]"
    using sample_task by blast
  from refreshes_spaced_concurrently [OF w(1,2)] w show ?thesis by auto
qed

text \<open>
  Validations do not block each other for good. A validation takes at most 13 steps. In every
  reachable state the task that holds the refresh gate is still running and its next step can be
  taken at once, so no dropped or finished task has leaked the gate; and a task that has to wait
  waits for that one.
\<close>

theorem validations_progress:
  assumes "pool_reach oidc_outside (oidc_spawn J reply tok) (oidc_world_start c0 n0 unix0) (w, P)"
  shows "(\<forall>t. ow_gate w = Some t \<longrightarrow> (\<exists>g d f. P t = Some (Step g d f) \<and> g w))
    \<and> (\<forall>t g d f. P t = Some (Step g d f) \<longrightarrow> g w \<or> (\<exists>u. ow_gate w = Some u))
    \<and> within (validate_prog J reply t token) 13"
proof -
  have "(\<forall>t. ow_gate w = Some t \<longrightarrow> (\<exists>g d f. P t = Some (Step g d f) \<and> g w))
    \<and> (\<forall>t g d f. P t = Some (Step g d f) \<longrightarrow> g w \<or> (\<exists>u. ow_gate w = Some u))"
  proof (rule pool_progress [OF _ _ _ assms])
    show "tidy gate_held t False p False" if "oidc_spawn J reply tok t p" for t p
      using that by (auto simp: oidc_spawn_def intro: validate_prog_tidy drop_prog_tidy)
  qed (auto simp: oidc_outside_def oidc_world_start_def)
  from conjunct1 [OF this] conjunct2 [OF this] validate_prog_within show ?thesis by (intro conjI)
qed

theorem validations_progress_witness:
  "\<exists>c0 w P. pool_reach oidc_outside (oidc_spawn sample_jwt (\<lambda>_. JwkSet [''KEY'']) (\<lambda>_. ''tok'')) (oidc_world_start c0 10 900)
         (w :: (string, string, nat) oidc_world, P)
     \<and> P 1 \<noteq> None \<and> ow_gate w \<noteq> Some 1"
proof -
  obtain c0 w where w: "pool_reach oidc_outside (oidc_spawn sample_jwt (\<lambda>_. JwkSet [''KEY'']) (\<lambda>_. ''tok'')) (oidc_world_start c0 10 900)
       (w :: (string, string, nat) oidc_world, [(1::nat) \<mapsto> Ret (Ok (Some (identity_of sample_claims)))])"
    using sample_task by blast
  have "ow_gate w \<noteq> Some 1"
  proof
    assume "ow_gate w = Some 1"
    with conjunct1 [OF validations_progress [OF w, of 1 "''tok''"]] show False by auto
  qed
  with w show ?thesis by (intro exI [of _ c0] exI [of _ w] exI [of _ "[1 \<mapsto> Ret (Ok (Some (identity_of sample_claims)))]"]) simp
qed

end
