(* ===== verification/Session_Cap.thy ===== *)
theory Session_Cap
  imports Rust_Str
begin

text \<open>
  The capped session manager, \<open>src/src/session.rs\<close>, as an interleaving of tasks.

  \<open>rmcp\<close>'s \<open>LocalSessionManager\<close> is third-party; what is modelled of it is its table of live session
  ids. \<open>create_session\<close> of a task \<open>t\<close> takes the steps of its body one at a time: it waits for the
  gate, takes it, reads the number of sessions, and then refuses, or lets the inner manager create
  a session (which may fail). Between any two steps other tasks run: they create sessions the same
  way, and sessions end, by \<open>close_session\<close> or by the idle timeout the inner manager applies. A task
  can be cancelled at any await, which drops its guard. \<open>restore_session\<close> hands a stored session to
  the inner manager without the gate; the server configures no session store, so no step of the
  model restores one. The other methods are pass-throughs to the inner manager, whose operations are
  the record \<open>inner_ops\<close>.
\<close>

definition MAX_SESSIONS :: nat where "MAX_SESSIONS = 256"
definition SESSION_KEEP_ALIVE :: duration where "SESSION_KEEP_ALIVE = secs (30 * 60)"

type_synonym session_id = string

datatype 'e capped_session_error = Inner 'e | CapReached

text \<open>The program counter of a task in \<open>create_session\<close>.\<close>

datatype 'e task_pc =
    Idle
  | Waiting
  | Holding
  | Counted nat
  | Finished "'e capped_session_error + session_id"

record ('t, 'e) manager =
  sm_sessions :: "session_id list"
  sm_gate :: "'t option"
  sm_pc :: "'t \<Rightarrow> 'e task_pc"

definition manager_new :: "('t, 'e) manager" where
  "manager_new = \<lparr>sm_sessions = [], sm_gate = None, sm_pc = (\<lambda>_. Idle)\<rparr>"

definition set_pc :: "'t \<Rightarrow> 'e task_pc \<Rightarrow> ('t, 'e) manager \<Rightarrow> ('t, 'e) manager" where
  "set_pc t p m = m\<lparr>sm_pc := (sm_pc m)(t := p)\<rparr>"

definition in_gate :: "'e task_pc \<Rightarrow> bool" where
  "in_gate p = (case p of Holding \<Rightarrow> True | Counted _ \<Rightarrow> True | _ \<Rightarrow> False)"

definition release :: "'t \<Rightarrow> ('t, 'e) manager \<Rightarrow> ('t, 'e) manager" where
  "release t m = (if sm_gate m = Some t then m\<lparr>sm_gate := None\<rparr> else m)"

text \<open>What \<open>create_session\<close> does after it has read the count; \<open>inner\<close> is the inner manager's answer.\<close>

definition create_after_count ::
  "'t \<Rightarrow> nat \<Rightarrow> ('e + session_id) \<Rightarrow> ('t, 'e) manager \<Rightarrow> ('t, 'e) manager" where
  "create_after_count t count inner m =
     (if count \<ge> MAX_SESSIONS then release t (set_pc t (Finished (Err CapReached)) m)
      else case inner of
          Inl e \<Rightarrow> release t (set_pc t (Finished (Err (Inner e))) m)
        | Inr i \<Rightarrow> release t (set_pc t (Finished (Ok i)) (m\<lparr>sm_sessions := i # sm_sessions m\<rparr>)))"

inductive session_step :: "('t, 'e) manager \<Rightarrow> ('t, 'e) manager \<Rightarrow> bool" where
  call: "sm_pc m t = Idle \<or> (\<exists>r. sm_pc m t = Finished r) \<Longrightarrow> session_step m (set_pc t Waiting m)"
| lock: "sm_pc m t = Waiting \<Longrightarrow> sm_gate m = None \<Longrightarrow>
    session_step m (set_pc t Holding (m\<lparr>sm_gate := Some t\<rparr>))"
| count: "sm_pc m t = Holding \<Longrightarrow> session_step m (set_pc t (Counted (length (sm_sessions m))) m)"
| finish: "sm_pc m t = Counted n \<Longrightarrow> (\<forall>i. inner = Inr i \<longrightarrow> i \<notin> set (sm_sessions m)) \<Longrightarrow>
    session_step m (create_after_count t n inner m)"
| cancel: "sm_pc m t \<noteq> Idle \<Longrightarrow> session_step m (release t (set_pc t Idle m))"
| close: "session_step m (m\<lparr>sm_sessions := filter (\<lambda>j. j \<noteq> i) (sm_sessions m)\<rparr>)"

inductive session_reach :: "('t, 'e) manager \<Rightarrow> bool" where
  reach_new: "session_reach manager_new"
| reach_step: "session_reach m \<Longrightarrow> session_step m m' \<Longrightarrow> session_reach m'"

text \<open>The same call with nothing in between.\<close>

definition create_session ::
  "('e + session_id) \<Rightarrow> session_id list \<Rightarrow> ('e capped_session_error + session_id) \<times> session_id list" where
  "create_session inner sessions =
     (if length sessions \<ge> MAX_SESSIONS then (Err CapReached, sessions)
      else case inner of Inl e \<Rightarrow> (Err (Inner e), sessions) | Inr i \<Rightarrow> (Ok i, i # sessions))"

subsection \<open>The invariant\<close>

definition session_inv :: "('t, 'e) manager \<Rightarrow> bool" where
  "session_inv m \<longleftrightarrow> distinct (sm_sessions m) \<and> length (sm_sessions m) \<le> MAX_SESSIONS
     \<and> (\<forall>t. in_gate (sm_pc m t) \<longleftrightarrow> sm_gate m = Some t)
     \<and> (\<forall>t n. sm_pc m t = Counted n \<longrightarrow> length (sm_sessions m) \<le> n)"

lemma in_gate_simps [simp]:
  "\<not> in_gate Idle" "\<not> in_gate Waiting" "in_gate Holding" "in_gate (Counted n)" "\<not> in_gate (Finished r)"
  by (simp_all add: in_gate_def)

lemma set_pc_fields [simp]:
  "sm_sessions (set_pc t p m) = sm_sessions m" "sm_gate (set_pc t p m) = sm_gate m"
  "sm_pc (set_pc t p m) = (sm_pc m)(t := p)"
  by (simp_all add: set_pc_def)

lemma release_fields [simp]:
  "sm_sessions (release t m) = sm_sessions m" "sm_pc (release t m) = sm_pc m"
  "sm_gate (release t m) = (if sm_gate m = Some t then None else sm_gate m)"
  by (simp_all add: release_def)

lemma session_inv_new: "session_inv manager_new"
  by (simp add: session_inv_def manager_new_def)

text \<open>A task that leaves the gate keeps the invariant, and may add one session if it counted room.\<close>

lemma session_inv_leave:
  assumes "session_inv m" "\<not> in_gate p" "ss = sm_sessions m \<or> (\<exists>i n. ss = i # sm_sessions m
      \<and> i \<notin> set (sm_sessions m) \<and> sm_pc m t = Counted n \<and> n < MAX_SESSIONS)"
  shows "session_inv (release t (set_pc t p (m\<lparr>sm_sessions := ss\<rparr>)))"
proof -
  have g: "sm_gate m = Some t \<longleftrightarrow> in_gate (sm_pc m t)" using assms(1) by (simp add: session_inv_def)
  have others: "\<not> in_gate (sm_pc m u)" if "sm_gate m = Some t" "u \<noteq> t" for u
    using that assms(1) by (auto simp: session_inv_def)
  have gate: "in_gate (((sm_pc m)(t := p)) u) \<longleftrightarrow>
      (if sm_gate m = Some t then None else sm_gate m) = Some u" for u
    using assms(1,2) others by (auto simp: session_inv_def)
  from assms(3) show ?thesis
  proof
    assume "ss = sm_sessions m"
    with assms(1,2) gate show ?thesis by (auto simp: session_inv_def split: if_splits)
  next
    assume "\<exists>i n. ss = i # sm_sessions m \<and> i \<notin> set (sm_sessions m) \<and> sm_pc m t = Counted n \<and> n < MAX_SESSIONS"
    then obtain i n where s: "ss = i # sm_sessions m" "i \<notin> set (sm_sessions m)" "sm_pc m t = Counted n"
      "n < MAX_SESSIONS" by blast
    have "length (sm_sessions m) \<le> n" using assms(1) s(3) unfolding session_inv_def by blast
    with s(4) have le: "length (sm_sessions m) < MAX_SESSIONS" by simp
    have "sm_gate m = Some t" using g s(3) by simp
    with others have "\<And>u k. u \<noteq> t \<Longrightarrow> sm_pc m u \<noteq> Counted k" by (metis in_gate_simps(4))
    with assms(1,2) s le gate show ?thesis by (auto simp: session_inv_def split: if_splits)
  qed
qed

lemma session_inv_step:
  assumes "session_inv m" "session_step m m'"
  shows "session_inv m'"
  using assms(2)
proof (cases rule: session_step.cases)
  case (call t)
  then have "\<not> in_gate (sm_pc m t)" by auto
  with call assms(1) show ?thesis by (auto simp: session_inv_def)
next
  case (lock t)
  then show ?thesis using assms(1) by (auto simp: session_inv_def)
next
  case (count t)
  then show ?thesis using assms(1) by (auto simp: session_inv_def)
next
  case (finish t n inner)
  have m: "m = m\<lparr>sm_sessions := sm_sessions m\<rparr>" by simp
  show ?thesis
  proof (cases "n \<ge> MAX_SESSIONS")
    case True
    with finish(1) session_inv_leave [OF assms(1), of "Finished (Err CapReached)" "sm_sessions m" t]
    show ?thesis by (simp add: create_after_count_def)
  next
    case False
    note room = this
    show ?thesis
    proof (cases inner)
      case (Inl e)
      with finish(1) room session_inv_leave [OF assms(1), of "Finished (Err (Inner e))" "sm_sessions m" t]
      show ?thesis by (simp add: create_after_count_def)
    next
      case (Inr i)
      with finish room session_inv_leave [OF assms(1), of "Finished (Ok i)" "i # sm_sessions m" t]
      show ?thesis by (simp add: create_after_count_def)
    qed
  qed
next
  case (cancel t)
  with session_inv_leave [OF assms(1), of Idle "sm_sessions m" t] show ?thesis by simp
next
  case (close i)
  have "length (filter (\<lambda>j. j \<noteq> i) (sm_sessions m)) \<le> length (sm_sessions m)" by (rule length_filter_le)
  from assms(1) close order.trans [OF this] show ?thesis by (auto simp: session_inv_def)
qed

lemma session_reach_inv: "session_reach m \<Longrightarrow> session_inv m"
  by (induction rule: session_reach.induct) (auto intro: session_inv_new session_inv_step)

subsection \<open>Properties\<close>

text \<open>
  C9: the session cap holds under every interleaving. Whatever tasks create sessions concurrently,
  are cancelled, or end sessions, the manager never holds more than 256; at most one task is
  between reading the count and creating, and the gate is held exactly while one is, so a task that
  finished or was cancelled never keeps it; and a task that has read a count below the cap still
  has room when it creates.
\<close>

theorem session_cap_holds:
  assumes "session_reach m"
  shows "length (sm_sessions m) \<le> 256 \<and> distinct (sm_sessions m)
    \<and> (in_gate (sm_pc m t) \<longleftrightarrow> sm_gate m = Some t)
    \<and> (in_gate (sm_pc m t) \<and> in_gate (sm_pc m u) \<longrightarrow> t = u)
    \<and> (sm_pc m t = Counted n \<longrightarrow> length (sm_sessions m) \<le> n)"
  using session_reach_inv [OF assms] by (auto simp: session_inv_def MAX_SESSIONS_def)

theorem session_cap_holds_witness:
  "\<exists>m :: (nat, nat) manager. session_reach m \<and> sm_pc m 0 = Counted 0 \<and> length (sm_sessions m) \<le> 256"
proof -
  let ?m1 = "set_pc 0 Waiting manager_new :: (nat, nat) manager"
  let ?m2 = "set_pc 0 Holding (?m1\<lparr>sm_gate := Some 0\<rparr>)"
  let ?m3 = "set_pc 0 (Counted (length (sm_sessions ?m2))) ?m2"
  have "session_reach ?m1" by (rule reach_step [OF reach_new]) (rule session_step.call, simp add: manager_new_def)
  then have "session_reach ?m2" by (rule reach_step) (rule session_step.lock, simp_all add: manager_new_def)
  then have "session_reach ?m3" by (rule reach_step) (rule session_step.count, simp)
  with session_cap_holds [OF this] show ?thesis by (intro exI [of _ ?m3]) (simp add: manager_new_def)
qed

text \<open>
  \<open>create_session\<close> run without interruption does what its sequential reading says: it refuses
  exactly when 256 sessions are live, leaving them alone; otherwise it returns the inner manager's
  answer, and a session it returns is the one added.
\<close>

theorem create_session_refines:
  assumes "sm_gate m = None" "sm_pc m t = Waiting"
    and "m1 = set_pc t Holding (m\<lparr>sm_gate := Some t\<rparr>)"
    and "m2 = set_pc t (Counted (length (sm_sessions m1))) m1"
    and "m3 = create_after_count t (length (sm_sessions m1)) inner m2"
  shows "sm_pc m3 t = Finished (fst (create_session inner (sm_sessions m)))
    \<and> sm_sessions m3 = snd (create_session inner (sm_sessions m)) \<and> sm_gate m3 = None
    \<and> (fst (create_session inner (sm_sessions m)) = Err CapReached \<longleftrightarrow> 256 \<le> length (sm_sessions m))"
  using assms
  by (auto simp: create_after_count_def create_session_def MAX_SESSIONS_def split: sum.splits)

theorem create_session_refines_witness:
  "sm_pc (create_after_count 0 0 (Inr ''s'') (set_pc 0 (Counted 0) (set_pc 0 Holding
      ((set_pc 0 Waiting manager_new :: (nat, nat) manager)\<lparr>sm_gate := Some 0\<rparr>)))) 0 = Finished (Ok ''s'')"
  using create_session_refines [of "set_pc 0 Waiting manager_new :: (nat, nat) manager" 0 _ _ _ "Inr ''s''",
      OF _ _ refl refl refl]
  by (simp add: manager_new_def create_session_def MAX_SESSIONS_def)

subsection \<open>The manager around the inner one\<close>

text \<open>
  The operations of \<open>LocalSessionManager\<close>, on its state \<open>'s\<close>: each may fail with its error. Messages, replies,
  streams and transports are its own types.
\<close>

record ('s, 'e, 'tr, 'm, 'rp, 'st, 'ro) inner_ops =
  in_session_count :: "'s \<Rightarrow> nat"
  in_create_session :: "'s \<Rightarrow> ('e + (session_id \<times> 'tr)) \<times> 's"
  in_initialize_session :: "session_id \<Rightarrow> 'm \<Rightarrow> 's \<Rightarrow> ('e + 'rp) \<times> 's"
  in_close_session :: "session_id \<Rightarrow> 's \<Rightarrow> ('e + unit) \<times> 's"
  in_has_session :: "session_id \<Rightarrow> 's \<Rightarrow> ('e + bool) \<times> 's"
  in_create_stream :: "session_id \<Rightarrow> 'm \<Rightarrow> 's \<Rightarrow> ('e + 'st) \<times> 's"
  in_accept_message :: "session_id \<Rightarrow> 'm \<Rightarrow> 's \<Rightarrow> ('e + unit) \<times> 's"
  in_create_standalone_stream :: "session_id \<Rightarrow> 's \<Rightarrow> ('e + 'st) \<times> 's"
  in_resume :: "session_id \<Rightarrow> string \<Rightarrow> 's \<Rightarrow> ('e + 'st) \<times> 's"
  in_restore_session :: "session_id \<Rightarrow> 's \<Rightarrow> ('e + 'ro) \<times> 's"

text \<open>\<open>LocalSessionManager::default()\<close> with its idle timeout set; \<open>'c\<close> is the rest of its configuration.\<close>

record 'c session_config =
  sc_keep_alive :: "duration option"
  sc_rest :: 'c

definition inner_manager :: "'c session_config \<Rightarrow> 'c session_config" where
  "inner_manager dflt = dflt\<lparr>sc_keep_alive := Some SESSION_KEEP_ALIVE\<rparr>"

record 'c capped_session_manager =
  cm_inner :: "'c session_config"
  cm_create_gate :: bool

definition capped_session_manager_new :: "'c session_config \<Rightarrow> 'c capped_session_manager" where
  "capped_session_manager_new dflt = \<lparr>cm_inner = inner_manager dflt, cm_create_gate = False\<rparr>"

definition from_inner :: "'e \<Rightarrow> 'e capped_session_error" where
  "from_inner e = Inner e"

fun capped_error_text :: "('e \<Rightarrow> string) \<Rightarrow> 'e capped_session_error \<Rightarrow> string" where
  "capped_error_text disp (Inner e) = ''inner session manager error: '' @ disp e"
| "capped_error_text disp CapReached =
     ''session cap reached ('' @ digits_of MAX_SESSIONS @ '' sessions active); try again later''"

fun capped_error_source :: "'e capped_session_error \<Rightarrow> 'e option" where
  "capped_error_source (Inner e) = Some e"
| "capped_error_source CapReached = None"

text \<open>\<open>std::io::Error::other(e.to_string())\<close>: the text is all that is left.\<close>

definition to_io_error :: "('e \<Rightarrow> string) \<Rightarrow> 'e capped_session_error \<Rightarrow> string" where
  "to_io_error disp e = capped_error_text disp e"

text \<open>\<open>Ok(self.inner.op(..).await?)\<close>\<close>

definition pass_through :: "('s \<Rightarrow> ('e + 'a) \<times> 's) \<Rightarrow> 's \<Rightarrow> ('e capped_session_error + 'a) \<times> 's" where
  "pass_through f s = (let (r, s') = f s in (map_err from_inner r, s'))"

definition capped_create_session where
  "capped_create_session I s =
     (if in_session_count I s \<ge> MAX_SESSIONS then (Err CapReached, s) else pass_through (in_create_session I) s)"

definition initialize_session where "initialize_session I i message = pass_through (in_initialize_session I i message)"
definition close_session where "close_session I i = pass_through (in_close_session I i)"
definition has_session where "has_session I i = pass_through (in_has_session I i)"
definition create_stream where "create_stream I i message = pass_through (in_create_stream I i message)"
definition accept_message where "accept_message I i message = pass_through (in_accept_message I i message)"
definition create_standalone_stream where "create_standalone_stream I i = pass_through (in_create_standalone_stream I i)"
definition resume where "resume I i last_event_id = pass_through (in_resume I i last_event_id)"
definition restore_session where "restore_session I i = pass_through (in_restore_session I i)"

lemma pass_through_iff:
  "pass_through f s = (r, s') \<longleftrightarrow> (\<exists>r0. f s = (r0, s') \<and> r = map_err from_inner r0)"
  by (auto simp: pass_through_def split: prod.splits)

lemma pass_through_not_cap: "fst (pass_through f s) \<noteq> Err CapReached"
  by (cases "f s"; cases "fst (f s)") (auto simp: pass_through_def from_inner_def)

lemmas pass_through_defs = initialize_session_def close_session_def has_session_def create_stream_def
  accept_message_def create_standalone_stream_def resume_def restore_session_def

text \<open>
  Only \<open>create_session\<close> refuses for the cap, it does so exactly when 256 sessions are live, and then
  the inner manager is not asked; every other error is the inner manager's.
\<close>

theorem cap_refuses_creation_only:
  "(fst (capped_create_session I s) = Err CapReached \<longleftrightarrow> 256 \<le> in_session_count I s)
   \<and> (256 \<le> in_session_count I s \<longrightarrow> snd (capped_create_session I s) = s)
   \<and> fst (initialize_session I i m s) \<noteq> Err CapReached \<and> fst (close_session I i s) \<noteq> Err CapReached
   \<and> fst (has_session I i s) \<noteq> Err CapReached \<and> fst (create_stream I i m s) \<noteq> Err CapReached
   \<and> fst (accept_message I i m s) \<noteq> Err CapReached \<and> fst (create_standalone_stream I i s) \<noteq> Err CapReached
   \<and> fst (resume I i ev s) \<noteq> Err CapReached \<and> fst (restore_session I i s) \<noteq> Err CapReached"
  by (auto simp: capped_create_session_def MAX_SESSIONS_def pass_through_not_cap pass_through_defs)

text \<open>With the table as the inner manager's state, \<open>create_session\<close> above is this one.\<close>

theorem capped_create_refines:
  assumes "in_session_count I = (\<lambda>s. length (tbl s))" "in_create_session I s = (map_sum id (\<lambda>i. (i, tr)) inner, s')"
    and "tbl s' = (case inner of Inl e \<Rightarrow> tbl s | Inr i \<Rightarrow> i # tbl s)"
    and "capped_create_session I s = (r, s'')"
  shows "create_session inner (tbl s) = (map_sum id fst r, tbl s'')"
  using assms
  by (cases inner) (auto simp: capped_create_session_def create_session_def pass_through_def from_inner_def split: if_splits)

lemma inner_manager_keep_alive: "sc_keep_alive (cm_inner (capped_session_manager_new dflt)) = Some (secs 1800)"
  by (simp add: capped_session_manager_new_def inner_manager_def SESSION_KEEP_ALIVE_def)

end
