(* ===== verification/Dav_Xml.thy ===== *)
theory Dav_Xml
  imports Rust_Str
begin

text \<open>
  The XML side of the CardDAV client, \<open>src/src/carddav_client.rs\<close>: escaping of search queries and
  the multistatus parser.

  \<^item> \<open>quick_xml\<close> is third-party. A document reaches the parser as the list of events its reader
    yields, \<open>Eof\<close> being the end of the list: an event carries the local name after
    \<open>String::from_utf8_lossy\<close>, the result of \<open>xml10_content\<close>, or what \<open>resolve_char_ref\<close> and
    \<open>decode\<close> say of a reference. \<open>resolve_xml_entity\<close> is the argument \<open>entity\<close>.
  \<^item> \<open>parser\<close> holds the four variables of the parsing loop, \<open>xml_step\<close> is one iteration, and
    \<open>parse_events\<close> the loop.
  \<^item> The lemmas show that a multistatus document, a tree of elements with whatever mixture of text,
    CDATA, character references and entities, is parsed to exactly the values it holds, that a
    reader error is never answered with a part of the document, and that an escaped query is inert
    text that denotes the query.
\<close>

datatype carddav_error =
    Unauthorized
  | NotFound
  | Conflict
  | TooLarge
  | InvalidHref string
  | InvalidData string
  | HttpError
  | Upstream nat
  | Xml string

subsection \<open>Escaping\<close>

definition escape_xml :: "string \<Rightarrow> string" where
  "escape_xml v =
     replace_char APOS ''&apos;''
       (replace_char QUOT ''&quot;''
         (replace_char (CHR ''>'') ''&gt;''
           (replace_char (CHR ''<'') ''&lt;''
             (replace_char (CHR ''&'') ''&amp;'' v))))"

definition is_illegal_xml_char :: "char \<Rightarrow> bool" where
  "is_illegal_xml_char c \<longleftrightarrow>
     code c \<le> 0x08 \<or> code c = 0x0B \<or> code c = 0x0C \<or> 0x0E \<le> code c \<and> code c \<le> 0x1F"

subsection \<open>The multistatus parser\<close>

record parsed_dav_response =
  pr_href :: "string option"
  pr_display_name :: "string option"
  pr_ctag :: "string option"
  pr_etag :: "string option"
  pr_address_data :: "string option"
  pr_current_user_principal :: "string option"
  pr_addressbook_home :: "string option"
  pr_is_addressbook :: bool

definition parsed_default :: parsed_dav_response where
  "parsed_default =
     \<lparr>pr_href = None, pr_display_name = None, pr_ctag = None, pr_etag = None, pr_address_data = None,
      pr_current_user_principal = None, pr_addressbook_home = None, pr_is_addressbook = False\<rparr>"

datatype capture =
    Href
  | CurrentPrincipal
  | AddressbookHome
  | DisplayName
  | Ctag
  | Etag
  | AddressData

record general_ref =
  gr_char_ref :: "string + string option"
  gr_decoded :: "string + string"

datatype xml_event =
    Start string
  | Empty string
  | Text "string + string"
  | CData "string + string"
  | GeneralRef general_ref
  | End string
  | OtherEvent
  | ReaderError string

record parser =
  ps_stack :: "string list"
  ps_current :: "parsed_dav_response option"
  ps_capture :: "capture option"
  ps_output :: "parsed_dav_response list"

definition push_str :: "string \<Rightarrow> string option \<Rightarrow> string option" where
  "push_str t field = Some ((case field of None \<Rightarrow> [] | Some s \<Rightarrow> s) @ t)"

fun append_capture :: "capture \<Rightarrow> string \<Rightarrow> parsed_dav_response \<Rightarrow> parsed_dav_response" where
  "append_capture Href t i = i\<lparr>pr_href := push_str t (pr_href i)\<rparr>"
| "append_capture CurrentPrincipal t i =
     i\<lparr>pr_current_user_principal := push_str t (pr_current_user_principal i)\<rparr>"
| "append_capture AddressbookHome t i = i\<lparr>pr_addressbook_home := push_str t (pr_addressbook_home i)\<rparr>"
| "append_capture DisplayName t i = i\<lparr>pr_display_name := push_str t (pr_display_name i)\<rparr>"
| "append_capture Ctag t i = i\<lparr>pr_ctag := push_str t (pr_ctag i)\<rparr>"
| "append_capture Etag t i = i\<lparr>pr_etag := push_str t (pr_etag i)\<rparr>"
| "append_capture AddressData t i = i\<lparr>pr_address_data := push_str t (pr_address_data i)\<rparr>"

definition append_general_ref ::
  "(string \<Rightarrow> string option) \<Rightarrow> capture \<Rightarrow> general_ref \<Rightarrow> parsed_dav_response
     \<Rightarrow> carddav_error + parsed_dav_response" where
  "append_general_ref entity kind ref item =
     and_then (map_err Xml (gr_char_ref ref)) (\<lambda>c.
       case c of
         Some character \<Rightarrow> Ok (append_capture kind character item)
       | None \<Rightarrow>
           and_then (map_err Xml (gr_decoded ref)) (\<lambda>decoded.
             and_then (ok_or (entity decoded) (Xml (''unsupported XML entity reference: '' @ decoded)))
               (\<lambda>replacement. Ok (append_capture kind replacement item))))"

definition trim_parsed_response :: "parsed_dav_response \<Rightarrow> parsed_dav_response" where
  "trim_parsed_response i =
     i\<lparr>pr_href := map_option trim (pr_href i), pr_display_name := map_option trim (pr_display_name i),
       pr_ctag := map_option trim (pr_ctag i), pr_etag := map_option trim (pr_etag i),
       pr_current_user_principal := map_option trim (pr_current_user_principal i),
       pr_addressbook_home := map_option trim (pr_addressbook_home i)\<rparr>"

text \<open>The \<open>match name.as_str()\<close> of a start tag; \<open>parent\<close> is the enclosing element.\<close>

definition start_capture :: "string \<Rightarrow> string option \<Rightarrow> capture option \<Rightarrow> capture option" where
  "start_capture name parent capture =
     (if name = ''href'' then
        (if parent = Some ''current-user-principal'' then Some CurrentPrincipal
         else if parent = Some ''addressbook-home-set'' then Some AddressbookHome
         else if parent = Some ''response'' then Some Href
         else capture)
      else if name = ''displayname'' then Some DisplayName
      else if name = ''getctag'' then Some Ctag
      else if name = ''getetag'' then Some Etag
      else if name = ''address-data'' then Some AddressData
      else capture)"

definition stack_last :: "string list \<Rightarrow> string option" where
  "stack_last stack = (case stack of [] \<Rightarrow> None | p # _ \<Rightarrow> Some p)"

definition mark_addressbook :: "string \<Rightarrow> parsed_dav_response \<Rightarrow> parsed_dav_response" where
  "mark_addressbook name item = (if name = ''addressbook'' then item\<lparr>pr_is_addressbook := True\<rparr> else item)"

definition on_start :: "string \<Rightarrow> parser \<Rightarrow> parser" where
  "on_start name p =
     (let current = (if name = ''response'' then Some parsed_default else ps_current p) in
      case current of
        None \<Rightarrow> p\<lparr>ps_stack := name # ps_stack p, ps_current := None\<rparr>
      | Some item \<Rightarrow>
          p\<lparr>ps_stack := name # ps_stack p, ps_current := Some (mark_addressbook name item),
            ps_capture := start_capture name (stack_last (ps_stack p)) (ps_capture p)\<rparr>)"

definition on_content ::
  "(parsed_dav_response \<Rightarrow> capture \<Rightarrow> carddav_error + parsed_dav_response) \<Rightarrow> parser
     \<Rightarrow> carddav_error + parser" where
  "on_content f p =
     (case (ps_current p, ps_capture p) of
        (Some item, Some kind) \<Rightarrow> and_then (f item kind) (\<lambda>i. Ok (p\<lparr>ps_current := Some i\<rparr>))
      | _ \<Rightarrow> Ok p)"

definition on_end :: "string \<Rightarrow> parser \<Rightarrow> parser" where
  "on_end name p =
     (let p1 = (if name \<in> set [''href'', ''displayname'', ''getctag'', ''getetag'', ''address-data'']
                then p\<lparr>ps_capture := None\<rparr> else p);
          p2 = (if name = ''response'' then
                  (case ps_current p1 of
                     Some item \<Rightarrow> p1\<lparr>ps_current := None,
                                    ps_output := ps_output p1 @ [trim_parsed_response item]\<rparr>
                   | None \<Rightarrow> p1)
                else p1)
      in p2\<lparr>ps_stack := tl (ps_stack p2)\<rparr>)"

fun xml_step :: "(string \<Rightarrow> string option) \<Rightarrow> xml_event \<Rightarrow> parser \<Rightarrow> carddav_error + parser" where
  "xml_step entity (Start name) p = Ok (on_start name p)"
| "xml_step entity (Empty name) p = Ok (p\<lparr>ps_current := map_option (mark_addressbook name) (ps_current p)\<rparr>)"
| "xml_step entity (Text content) p =
     on_content (\<lambda>item kind. and_then (map_err Xml content) (\<lambda>t. Ok (append_capture kind t item))) p"
| "xml_step entity (CData content) p =
     on_content (\<lambda>item kind. and_then (map_err Xml content) (\<lambda>t. Ok (append_capture kind t item))) p"
| "xml_step entity (GeneralRef ref) p =
     on_content (\<lambda>item kind. append_general_ref entity kind ref item) p"
| "xml_step entity (End name) p = Ok (on_end name p)"
| "xml_step entity OtherEvent p = Ok p"
| "xml_step entity (ReaderError e) p = Err (Xml e)"

fun parse_events :: "(string \<Rightarrow> string option) \<Rightarrow> xml_event list \<Rightarrow> parser \<Rightarrow> carddav_error + parser" where
  "parse_events entity [] p = Ok p"
| "parse_events entity (e # es) p = and_then (xml_step entity e p) (parse_events entity es)"

definition parser_start :: parser where
  "parser_start = \<lparr>ps_stack = [], ps_current = None, ps_capture = None, ps_output = []\<rparr>"

definition parse_multistatus ::
  "(string \<Rightarrow> string option) \<Rightarrow> xml_event list \<Rightarrow> carddav_error + parsed_dav_response list" where
  "parse_multistatus entity events =
     and_then (parse_events entity events parser_start) (\<lambda>p. Ok (ps_output p))"

subsection \<open>Escaping, character by character\<close>

definition xesc1 :: "char \<Rightarrow> string" where
  "xesc1 c = (if c = CHR ''&'' then ''&amp;'' else if c = CHR ''<'' then ''&lt;''
     else if c = CHR ''>'' then ''&gt;'' else if c = QUOT then ''&quot;''
     else if c = APOS then ''&apos;'' else [c])"

lemma escape_xml_append: "escape_xml (s @ t) = escape_xml s @ escape_xml t"
  by (simp add: escape_xml_def)

lemma escape_xml_char: "escape_xml [c] = xesc1 c"
  by (simp add: escape_xml_def xesc1_def)

lemma escape_xml_Nil [simp]: "escape_xml [] = []"
  by (simp add: escape_xml_def)

lemma escape_xml_Cons: "escape_xml (c # s) = xesc1 c @ escape_xml s"
  using escape_xml_append [of "[c]" s] by (simp add: escape_xml_char)

text \<open>The reference reading of character data: the five predefined entities, nothing else.\<close>

fun xml_text :: "string \<Rightarrow> string option" where
  "xml_text [] = Some []"
| "xml_text (c # s) =
     (if c = CHR ''<'' then None
      else if c \<noteq> CHR ''&'' then map_option ((#) c) (xml_text s)
      else if take 4 s = ''amp;'' then map_option ((#) (CHR ''&'')) (xml_text (drop 4 s))
      else if take 3 s = ''lt;'' then map_option ((#) (CHR ''<'')) (xml_text (drop 3 s))
      else if take 3 s = ''gt;'' then map_option ((#) (CHR ''>'')) (xml_text (drop 3 s))
      else if take 5 s = ''quot;'' then map_option ((#) QUOT) (xml_text (drop 5 s))
      else if take 5 s = ''apos;'' then map_option ((#) APOS) (xml_text (drop 5 s))
      else None)"

text \<open>
  A reference tokenizer: tags and runs of character data, \<open>None\<close> when a tag is not closed or the data
  is malformed. It knows nothing of the template of a query, so it tells what a server reads.
\<close>

datatype xml_token = Tag string | Chardata string

definition chardata :: "string \<Rightarrow> xml_token list option" where
  "chardata raw = (if raw = [] then Some [] else map_option (\<lambda>t. [Chardata t]) (xml_text raw))"

fun tokens_from :: "bool \<Rightarrow> string \<Rightarrow> string \<Rightarrow> xml_token list option" where
  "tokens_from True acc [] = None"
| "tokens_from True acc (c # s) =
     (if c = CHR ''>'' then map_option ((#) (Tag (rev acc))) (tokens_from False [] s)
      else tokens_from True (c # acc) s)"
| "tokens_from False acc [] = chardata (rev acc)"
| "tokens_from False acc (c # s) =
     (if c = CHR ''<'' then
        Option.bind (chardata (rev acc)) (\<lambda>ts. map_option ((@) ts) (tokens_from True [] s))
      else tokens_from False (c # acc) s)"

definition xml_tokens :: "string \<Rightarrow> xml_token list option" where
  "xml_tokens s = tokens_from False [] s"

lemma tokens_tag:
  "CHR ''>'' \<notin> set t \<Longrightarrow> tokens_from True acc (t @ s) = tokens_from True (rev t @ acc) s"
  by (induction t arbitrary: acc) auto

lemma tokens_data:
  "CHR ''<'' \<notin> set t \<Longrightarrow> tokens_from False acc (t @ CHR ''<'' # s)
     = Option.bind (chardata (rev acc @ t)) (\<lambda>ts. map_option ((@) ts) (tokens_from True [] s))"
  by (induction t arbitrary: acc) auto

lemma xml_text_esc1: "xml_text (xesc1 c @ s) = map_option ((#) c) (xml_text s)"
  by (simp add: xesc1_def)

lemma xml_text_escape: "xml_text (escape_xml s) = Some s"
  by (induction s) (simp_all add: escape_xml_Cons xml_text_esc1)

lemma escape_xml_inert:
  "CHR ''<'' \<notin> set (escape_xml s) \<and> CHR ''>'' \<notin> set (escape_xml s)
   \<and> QUOT \<notin> set (escape_xml s) \<and> APOS \<notin> set (escape_xml s)"
  by (induction s) (auto simp: escape_xml_Cons xesc1_def)

subsection \<open>Running the parser\<close>

lemma parse_events_append:
  "parse_events entity (xs @ ys) p = and_then (parse_events entity xs p) (parse_events entity ys)"
proof (induction xs arbitrary: p)
  case (Cons e xs)
  then show ?case by (cases "xml_step entity e p") auto
qed simp

fun field_of :: "capture \<Rightarrow> parsed_dav_response \<Rightarrow> string option" where
  "field_of Href i = pr_href i"
| "field_of CurrentPrincipal i = pr_current_user_principal i"
| "field_of AddressbookHome i = pr_addressbook_home i"
| "field_of DisplayName i = pr_display_name i"
| "field_of Ctag i = pr_ctag i"
| "field_of Etag i = pr_etag i"
| "field_of AddressData i = pr_address_data i"

lemma field_of_append_capture [simp]:
  "field_of k (append_capture k' t i) = (if k = k' then push_str t (field_of k i) else field_of k i)"
  by (cases k; cases k') simp_all

lemma flag_append_capture [simp]: "pr_is_addressbook (append_capture k t i) = pr_is_addressbook i"
  by (cases k) simp_all

lemma field_of_mark [simp]:
  "field_of k (mark_addressbook n i) = field_of k i"
  "pr_is_addressbook (mark_addressbook n i) \<longleftrightarrow> pr_is_addressbook i \<or> n = ''addressbook''"
  by (cases k; simp add: mark_addressbook_def) (simp add: mark_addressbook_def)

lemma parsed_eqI: "(\<And>k. field_of k i = field_of k j) \<Longrightarrow> pr_is_addressbook i = pr_is_addressbook j \<Longrightarrow> i = j"
proof -
  assume f: "\<And>k. field_of k i = field_of k j" and b: "pr_is_addressbook i = pr_is_addressbook j"
  from f [of Href] f [of CurrentPrincipal] f [of AddressbookHome] f [of DisplayName] f [of Ctag]
    f [of Etag] f [of AddressData] b
  show "i = j" by simp
qed

lemma field_of_trim:
  "field_of k (trim_parsed_response i)
     = (if k = AddressData then field_of k i else map_option trim (field_of k i))"
  "pr_is_addressbook (trim_parsed_response i) = pr_is_addressbook i"
  by (cases k; simp add: trim_parsed_response_def) (simp add: trim_parsed_response_def)

lemma field_of_default [simp]: "field_of k parsed_default = None" "\<not> pr_is_addressbook parsed_default"
  by (cases k; simp add: parsed_default_def) (simp add: parsed_default_def)

subsection \<open>Documents\<close>

text \<open>
  A document as a server writes it: a list of trees. Character data is a piece (text, CDATA, a
  character reference or an entity reference), a \<open>Note\<close> is whatever holds no data (XML declaration,
  comment, processing instruction), and an element is an empty-element tag or a start tag, its
  content and the end tag. Names are local names, as for the parser.
\<close>

datatype piece = Chars string | CDataPiece string | CharRef string | EntityRef string

datatype node =
    Data piece
  | Note
  | Empty_tag string
  | Element string "node list"

fun piece_event :: "piece \<Rightarrow> xml_event" where
  "piece_event (Chars t) = Text (Ok t)"
| "piece_event (CDataPiece t) = CData (Ok t)"
| "piece_event (CharRef t) = GeneralRef \<lparr>gr_char_ref = Ok (Some t), gr_decoded = Ok []\<rparr>"
| "piece_event (EntityRef n) = GeneralRef \<lparr>gr_char_ref = Ok None, gr_decoded = Ok n\<rparr>"

fun node_events :: "node \<Rightarrow> xml_event list" where
  "node_events (Data q) = [piece_event q]"
| "node_events Note = [OtherEvent]"
| "node_events (Empty_tag n) = [Empty n]"
| "node_events (Element n ch) = Start n # concat (map node_events ch) @ [End n]"

text \<open>
  The elements of a response the client reads, by the element around them and their name: five by
  their name alone, an \<open>href\<close> by where it stands. Any other element (\<open>propstat\<close>, \<open>prop\<close>, \<open>status\<close>,
  \<open>resourcetype\<close>, an unknown property, an \<open>href\<close> elsewhere) is only looked through.
\<close>

definition field_at :: "string \<Rightarrow> string \<Rightarrow> capture option" where
  "field_at parent name =
     (if name = ''href'' then
        map_of [(''response'', Href), (''current-user-principal'', CurrentPrincipal),
                (''addressbook-home-set'', AddressbookHome)] parent
      else map_of [(''displayname'', DisplayName), (''getctag'', Ctag), (''getetag'', Etag),
                   (''address-data'', AddressData)] name)"

text \<open>
  The documents the theorem is about. Inside a response no other response begins, and an element
  the client reads holds character data (whose entities are known), notes and empty tags; all else
  is free: any elements at any depth, whitespace and text anywhere, any number of \<open>href\<close>, \<open>propstat\<close>
  and \<open>status\<close> elements in any order.
\<close>

fun piece_ok :: "(string \<Rightarrow> string option) \<Rightarrow> piece \<Rightarrow> bool" where
  "piece_ok entity (EntityRef n) \<longleftrightarrow> entity n \<noteq> None"
| "piece_ok entity _ \<longleftrightarrow> True"

fun leaf_ok :: "(string \<Rightarrow> string option) \<Rightarrow> node \<Rightarrow> bool" where
  "leaf_ok entity (Data q) \<longleftrightarrow> piece_ok entity q"
| "leaf_ok entity (Element n ch) \<longleftrightarrow> False"
| "leaf_ok entity _ \<longleftrightarrow> True"

fun node_ok :: "(string \<Rightarrow> string option) \<Rightarrow> string \<Rightarrow> node \<Rightarrow> bool" where
  "node_ok entity parent (Element n ch) \<longleftrightarrow> n \<noteq> ''response''
     \<and> (if field_at parent n = None then list_all (node_ok entity n) ch else list_all (leaf_ok entity) ch)"
| "node_ok entity parent _ \<longleftrightarrow> True"

fun doc_ok :: "(string \<Rightarrow> string option) \<Rightarrow> node \<Rightarrow> bool" where
  "doc_ok entity (Element n ch) \<longleftrightarrow>
     (if n = ''response'' then list_all (node_ok entity ''response'') ch else list_all (doc_ok entity) ch)"
| "doc_ok entity _ \<longleftrightarrow> True"

text \<open>
  What a document means. Its responses are the \<open>response\<close> elements, wherever they stand, each with
  its content; the pieces of a field are the data of all the elements of the response that stand
  for it, in document order.
\<close>

fun responses_of :: "node \<Rightarrow> node list list" where
  "responses_of (Element n ch) = (if n = ''response'' then [ch] else concat (map responses_of ch))"
| "responses_of _ = []"

fun data_pieces :: "node \<Rightarrow> piece list" where
  "data_pieces (Data q) = [q]"
| "data_pieces _ = []"

fun node_pieces :: "capture \<Rightarrow> string \<Rightarrow> node \<Rightarrow> piece list" where
  "node_pieces k parent (Element n ch) =
     (case field_at parent n of
        Some k' \<Rightarrow> (if k = k' then concat (map data_pieces ch) else [])
      | None \<Rightarrow> concat (map (node_pieces k n) ch))"
| "node_pieces k parent _ = []"

fun node_flag :: "node \<Rightarrow> bool" where
  "node_flag (Empty_tag n) \<longleftrightarrow> n = ''addressbook''"
| "node_flag (Element n ch) \<longleftrightarrow> n = ''addressbook'' \<or> list_ex node_flag ch"
| "node_flag _ \<longleftrightarrow> False"

fun piece_text :: "(string \<Rightarrow> string option) \<Rightarrow> piece \<Rightarrow> string" where
  "piece_text entity (Chars t) = t"
| "piece_text entity (CDataPiece t) = t"
| "piece_text entity (CharRef t) = t"
| "piece_text entity (EntityRef n) = the (entity n)"

definition pieces_value :: "(string \<Rightarrow> string option) \<Rightarrow> piece list \<Rightarrow> string option" where
  "pieces_value entity ps = (if ps = [] then None else Some (concat (map (piece_text entity) ps)))"

definition response_value :: "(string \<Rightarrow> string option) \<Rightarrow> node list \<Rightarrow> parsed_dav_response" where
  "response_value entity ch =
     (let v = (\<lambda>k. pieces_value entity (concat (map (node_pieces k ''response'') ch))) in
      \<lparr>pr_href = map_option trim (v Href), pr_display_name = map_option trim (v DisplayName),
       pr_ctag = map_option trim (v Ctag), pr_etag = map_option trim (v Etag),
       pr_address_data = v AddressData,
       pr_current_user_principal = map_option trim (v CurrentPrincipal),
       pr_addressbook_home = map_option trim (v AddressbookHome),
       pr_is_addressbook = list_ex node_flag ch\<rparr>)"

subsection \<open>The machine on documents\<close>

definition add_value :: "string option \<Rightarrow> string option \<Rightarrow> string option" where
  "add_value a b = (case a of None \<Rightarrow> b | Some s \<Rightarrow> (case b of None \<Rightarrow> a | Some t \<Rightarrow> Some (s @ t)))"

lemma add_value_simps [simp]: "add_value None b = b" "add_value a None = a"
  by (simp_all add: add_value_def split: option.splits)

lemma push_str_value: "push_str t a = add_value a (Some t)"
  by (simp add: push_str_def add_value_def split: option.splits)

lemma add_value_assoc: "add_value (add_value a b) c = add_value a (add_value b c)"
  by (simp add: add_value_def split: option.splits)

lemma pieces_value_Nil [simp]: "pieces_value entity [] = None"
  by (simp add: pieces_value_def)

lemma pieces_value_append:
  "pieces_value entity (ps @ qs) = add_value (pieces_value entity ps) (pieces_value entity qs)"
  by (auto simp: pieces_value_def add_value_def)

text \<open>What a run of pieces or a whole property does to the response being built.\<close>

definition extends :: "(string \<Rightarrow> string option) \<Rightarrow> (capture \<Rightarrow> piece list) \<Rightarrow> bool \<Rightarrow> parsed_dav_response
    \<Rightarrow> parsed_dav_response \<Rightarrow> bool" where
  "extends entity ps b i j \<longleftrightarrow>
     (\<forall>k. field_of k j = add_value (field_of k i) (pieces_value entity (ps k)))
     \<and> (pr_is_addressbook j \<longleftrightarrow> pr_is_addressbook i \<or> b)"

lemma extends_refl: "extends entity (\<lambda>_. []) False i i"
  by (simp add: extends_def)

lemma extends_trans:
  "extends entity ps b i j \<Longrightarrow> extends entity qs c j l \<Longrightarrow> extends entity (\<lambda>k. ps k @ qs k) (b \<or> c) i l"
  by (auto simp: extends_def pieces_value_append add_value_assoc)

lemma piece_step:
  assumes "piece_ok entity q" "ps_current p = Some i" "ps_capture p = Some k"
  shows "xml_step entity (piece_event q) p = Ok (p\<lparr>ps_current := Some (append_capture k (piece_text entity q) i)\<rparr>)"
  using assms by (cases q) (auto simp: on_content_def append_general_ref_def)

lemma extends_piece:
  "extends entity (\<lambda>k'. if k' = k then [q] else []) False i (append_capture k (piece_text entity q) i)"
  by (simp add: extends_def push_str_value pieces_value_def)

text \<open>
  A sequence of items, each of which only extends the response being built, extends it by all of
  them in order.
\<close>

lemma concat_run:
  assumes "\<And>x i. x \<in> set xs \<Longrightarrow> \<exists>j. parse_events entity (ev x) (p\<lparr>ps_current := Some i\<rparr>) = Ok (p\<lparr>ps_current := Some j\<rparr>)
    \<and> extends entity (\<lambda>k. f k x) (b x) i j"
  shows "\<exists>j. parse_events entity (concat (map ev xs)) (p\<lparr>ps_current := Some i\<rparr>) = Ok (p\<lparr>ps_current := Some j\<rparr>)
    \<and> extends entity (\<lambda>k. concat (map (f k) xs)) (list_ex b xs) i j"
  using assms
proof (induction xs arbitrary: i)
  case Nil
  show ?case using extends_refl [of entity i] by (intro exI [of _ i]) simp
next
  case (Cons x xs)
  from Cons.prems [of x i] obtain j where
    j: "parse_events entity (ev x) (p\<lparr>ps_current := Some i\<rparr>) = Ok (p\<lparr>ps_current := Some j\<rparr>)"
       "extends entity (\<lambda>k. f k x) (b x) i j" by auto
  from Cons.IH [of j] Cons.prems obtain l where
    l: "parse_events entity (concat (map ev xs)) (p\<lparr>ps_current := Some j\<rparr>) = Ok (p\<lparr>ps_current := Some l\<rparr>)"
       "extends entity (\<lambda>k. concat (map (f k) xs)) (list_ex b xs) j l" by auto
  from extends_trans [OF j(2) l(2)] j(1) l(1) show ?case
    by (intro exI [of _ l]) (simp add: parse_events_append)
qed

lemma extends_mark: "extends entity (\<lambda>_. []) (n = ''addressbook'') i (mark_addressbook n i)"
  by (simp add: extends_def)

lemma leaf_node_run:
  assumes "leaf_ok entity nd" "ps_capture p = Some k"
  shows "\<exists>j. parse_events entity (node_events nd) (p\<lparr>ps_current := Some i\<rparr>) = Ok (p\<lparr>ps_current := Some j\<rparr>)
    \<and> extends entity (\<lambda>k'. if k' = k then data_pieces nd else []) (node_flag nd) i j"
proof (cases nd)
  case (Data q)
  with assms piece_step [of entity q "p\<lparr>ps_current := Some i\<rparr>" i k] extends_piece [of entity k q i]
  show ?thesis by (intro exI [of _ "append_capture k (piece_text entity q) i"]) (simp cong: if_cong)
next
  case Note
  with extends_refl [of entity i] show ?thesis by (intro exI [of _ i]) (simp cong: if_cong)
next
  case (Empty_tag n)
  with extends_mark [of entity n i] show ?thesis
    by (intro exI [of _ "mark_addressbook n i"]) (simp cong: if_cong)
next
  case (Element n ch)
  with assms show ?thesis by simp
qed

lemma leaf_run:
  assumes "list_all (leaf_ok entity) ch" "ps_capture p = Some k"
  shows "\<exists>j. parse_events entity (concat (map node_events ch)) (p\<lparr>ps_current := Some i\<rparr>) = Ok (p\<lparr>ps_current := Some j\<rparr>)
    \<and> extends entity (\<lambda>k'. if k' = k then concat (map data_pieces ch) else []) (list_ex node_flag ch) i j"
proof -
  have "(\<lambda>k'. concat (map (\<lambda>nd. if k' = k then data_pieces nd else []) ch))
      = (\<lambda>k'. if k' = k then concat (map data_pieces ch) else [])"
    by (auto simp: concat_eq_Nil_conv)
  with concat_run [of ch entity node_events p "\<lambda>k' nd. if k' = k then data_pieces nd else []" node_flag i]
    leaf_node_run [OF _ assms(2)] assms(1)
  show ?thesis by (simp add: list_all_iff)
qed

text \<open>Entering and leaving an element of a response, read or only looked through.\<close>

lemma element_enter:
  assumes "n \<noteq> ''response''" "ps_capture p = None" "stack_last (ps_stack p) = Some parent"
  shows "xml_step entity (Start n) (p\<lparr>ps_current := Some i\<rparr>)
    = Ok (p\<lparr>ps_stack := n # ps_stack p, ps_current := Some (mark_addressbook n i), ps_capture := field_at parent n\<rparr>)"
  using assms by (auto simp: on_start_def Let_def start_capture_def field_at_def)

lemma element_leave:
  assumes "n \<noteq> ''response''" "ps_capture p = None"
  shows "xml_step entity (End n) (p\<lparr>ps_stack := n # st, ps_capture := field_at parent n, ps_current := Some i\<rparr>)
    = Ok (p\<lparr>ps_stack := st, ps_current := Some i\<rparr>)"
  using assms by (cases p) (auto simp: on_end_def Let_def field_at_def)

lemma node_run:
  assumes "node_ok entity parent nd" "ps_capture p = None" "stack_last (ps_stack p) = Some parent"
  shows "\<exists>j. parse_events entity (node_events nd) (p\<lparr>ps_current := Some i\<rparr>) = Ok (p\<lparr>ps_current := Some j\<rparr>)
    \<and> extends entity (\<lambda>k. node_pieces k parent nd) (node_flag nd) i j"
  using assms
proof (induction nd arbitrary: parent p i)
  case (Data q)
  then show ?case using extends_refl [of entity i]
    by (intro exI [of _ i], cases q) (simp_all add: on_content_def)
next
  case Note
  show ?case using extends_refl [of entity i] by (intro exI [of _ i]) simp
next
  case (Empty_tag n)
  show ?case using extends_mark [of entity n i] by (intro exI [of _ "mark_addressbook n i"]) simp
next
  case (Element n ch)
  let ?k = "field_at parent n"
  let ?p = "p\<lparr>ps_stack := n # ps_stack p, ps_capture := ?k\<rparr>"
  let ?i = "mark_addressbook n i"
  have n: "n \<noteq> ''response''" using Element.prems(1) by simp
  have "\<exists>j. parse_events entity (concat (map node_events ch)) (?p\<lparr>ps_current := Some ?i\<rparr>) = Ok (?p\<lparr>ps_current := Some j\<rparr>)
    \<and> extends entity (\<lambda>k. node_pieces k parent (Element n ch)) (list_ex node_flag ch) ?i j"
  proof (cases ?k)
    case None
    with Element.prems(1) Element.IH [of _ n ?p]
    have "\<exists>j. parse_events entity (node_events x) (?p\<lparr>ps_current := Some i'\<rparr>) = Ok (?p\<lparr>ps_current := Some j\<rparr>)
      \<and> extends entity (\<lambda>k. node_pieces k n x) (node_flag x) i' j" if "x \<in> set ch" for x i'
      using that by (simp add: list_all_iff stack_last_def)
    from concat_run [where xs = ch and i = ?i, OF this] None show ?thesis by simp
  next
    case (Some k)
    with Element.prems(1) leaf_run [of entity ch ?p k ?i] show ?thesis by (simp cong: if_cong)
  qed
  then obtain j where
    j: "parse_events entity (concat (map node_events ch)) (?p\<lparr>ps_current := Some ?i\<rparr>) = Ok (?p\<lparr>ps_current := Some j\<rparr>)"
       "extends entity (\<lambda>k. node_pieces k parent (Element n ch)) (list_ex node_flag ch) ?i j" by auto
  have s1: "xml_step entity (Start n) (p\<lparr>ps_current := Some i\<rparr>) = Ok (?p\<lparr>ps_current := Some ?i\<rparr>)"
    using element_enter [OF n Element.prems(2,3), of entity i] by simp
  have s2: "xml_step entity (End n) (?p\<lparr>ps_current := Some j\<rparr>) = Ok (p\<lparr>ps_current := Some j\<rparr>)"
    using element_leave [OF n Element.prems(2), where st = "ps_stack p" and parent = parent and i = j] by simp
  from extends_trans [OF extends_mark j(2)] j(1) s1 s2 show ?case
    by (intro exI [of _ j]) (simp add: parse_events_append del: xml_step.simps node_pieces.simps)
qed

text \<open>A whole response, from outside one: it appends its value to the output.\<close>

lemma response_run:
  assumes "list_all (node_ok entity ''response'') ch" "ps_current p = None" "ps_capture p = None"
  shows "parse_events entity (node_events (Element ''response'' ch)) p
    = Ok (p\<lparr>ps_output := ps_output p @ [response_value entity ch]\<rparr>)"
proof -
  let ?p = "p\<lparr>ps_stack := ''response'' # ps_stack p\<rparr>"
  have s1: "xml_step entity (Start ''response'') p = Ok (?p\<lparr>ps_current := Some parsed_default\<rparr>)"
    using assms(3) by (simp add: on_start_def Let_def mark_addressbook_def start_capture_def)
  have "\<exists>j. parse_events entity (node_events x) (?p\<lparr>ps_current := Some i\<rparr>) = Ok (?p\<lparr>ps_current := Some j\<rparr>)
    \<and> extends entity (\<lambda>k. node_pieces k ''response'' x) (node_flag x) i j" if "x \<in> set ch" for x i
    using assms that by (intro node_run) (simp_all add: list_all_iff stack_last_def)
  then have "\<exists>j. parse_events entity (concat (map node_events ch)) (?p\<lparr>ps_current := Some parsed_default\<rparr>)
        = Ok (?p\<lparr>ps_current := Some j\<rparr>)
    \<and> extends entity (\<lambda>k. concat (map (node_pieces k ''response'') ch)) (list_ex node_flag ch) parsed_default j"
    by (rule concat_run)
  then obtain j where
    j: "parse_events entity (concat (map node_events ch)) (?p\<lparr>ps_current := Some parsed_default\<rparr>)
          = Ok (?p\<lparr>ps_current := Some j\<rparr>)"
       "extends entity (\<lambda>k. concat (map (node_pieces k ''response'') ch)) (list_ex node_flag ch) parsed_default j"
    by auto
  have s2: "xml_step entity (End ''response'') (?p\<lparr>ps_current := Some j\<rparr>)
      = Ok (p\<lparr>ps_output := ps_output p @ [trim_parsed_response j]\<rparr>)"
    using assms(2,3) by (cases p) (simp add: on_end_def Let_def)
  have "trim_parsed_response j = response_value entity ch"
    using j(2) by (intro parsed_eqI, case_tac k) (auto simp: field_of_trim response_value_def Let_def extends_def)
  with s1 s2 j(1) show ?thesis by (simp add: parse_events_append del: xml_step.simps)
qed

text \<open>Any tree outside a response: the responses in it are appended in order, the rest is skipped.\<close>

lemma outside_run:
  assumes "doc_ok entity nd" "ps_current p = None" "ps_capture p = None"
  shows "parse_events entity (node_events nd) p
    = Ok (p\<lparr>ps_output := ps_output p @ map (response_value entity) (responses_of nd)\<rparr>)"
  using assms
proof (induction nd arbitrary: p)
  case (Data q)
  then show ?case by (cases q) (simp_all add: on_content_def)
next
  case (Element n ch)
  show ?case
  proof (cases "n = ''response''")
    case True
    with Element.prems response_run [of entity ch p] show ?thesis by simp
  next
    case False
    have nodes: "parse_events entity (concat (map node_events xs)) q
        = Ok (q\<lparr>ps_output := ps_output q @ map (response_value entity) (concat (map responses_of xs))\<rparr>)"
      if "set xs \<subseteq> set ch" "ps_current q = None" "ps_capture q = None" for xs q
      using that Element.IH Element.prems(1) False
      by (induction xs arbitrary: q) (simp_all add: parse_events_append list_all_iff)
    from nodes [of ch "p\<lparr>ps_stack := n # ps_stack p\<rparr>"] False Element.prems show ?thesis
      by (cases p) (simp add: parse_events_append on_start_def on_end_def Let_def)
  qed
qed simp_all

lemma parse_document:
  assumes "list_all (doc_ok entity) doc"
  shows "parse_multistatus entity (concat (map node_events doc))
    = Ok (map (response_value entity) (concat (map responses_of doc)))"
proof -
  have "parse_events entity (concat (map node_events doc)) p
      = Ok (p\<lparr>ps_output := ps_output p @ map (response_value entity) (concat (map responses_of doc))\<rparr>)"
    if "ps_current p = None" "ps_capture p = None" for p
    using that assms by (induction doc arbitrary: p) (simp_all add: parse_events_append outside_run)
  from this [of parser_start] show ?thesis by (simp add: parse_multistatus_def parser_start_def)
qed

text \<open>Whatever makes the parser stop, it is an XML error, and a reader error always does.\<close>

lemma xml_step_error: "xml_step entity e p = Err x \<Longrightarrow> \<exists>m. x = Xml m"
  by (cases e) (auto simp: on_content_def append_general_ref_def and_then_def map_err_def ok_or_def
      split: option.splits sum.splits)

lemma reader_error_stops: "ReaderError e \<in> set es \<Longrightarrow> \<exists>m. parse_events entity es p = Err (Xml m)"
proof (induction es arbitrary: p)
  case (Cons x es)
  show ?case
  proof (cases "xml_step entity x p")
    case (Inl a)
    with xml_step_error [OF this] show ?thesis by auto
  next
    case (Inr q)
    then have "x \<noteq> ReaderError e" by auto
    with Cons Inr show ?thesis by auto
  qed
qed simp

text \<open>The five entities XML predefines: what \<open>resolve_xml_entity\<close> is documented to know.\<close>

definition predefined_entity :: "string \<Rightarrow> string option" where
  "predefined_entity n = map_of [(''amp'', ''&''), (''lt'', ''<''), (''gt'', ''>''), (''quot'', [QUOT]), (''apos'', [APOS])] n"

text \<open>
  A document with a declaration, line breaks between all elements, a response without properties,
  and one with two \<open>propstat\<close> elements and their statuses.
\<close>

definition sample_document :: "node list" where
  "sample_document =
     (let nl = Data (Chars [LF]) in
      [Note, nl,
       Element ''multistatus''
        [nl,
         Element ''response'' [Element ''href'' [Data (Chars ''/dav/'')], nl, Element ''status'' [Data (Chars ''HTTP/1.1 200 OK'')]],
         nl,
         Element ''response''
          [nl, Element ''href'' [Data (Chars '' /dav/a.vcf'')], nl,
           Element ''propstat''
            [nl, Element ''prop''
              [nl, Element ''getetag'' [Data (EntityRef ''quot''), Data (Chars ''abc''), Data (EntityRef ''quot'')],
               Element ''resourcetype'' [Empty_tag ''collection'', nl, Empty_tag ''addressbook''],
               Element ''owner'' [Element ''href'' [Data (Chars ''/me/'')]],
               Element ''address-data'' [Data (Chars ''FN:Alice ''), Data (EntityRef ''amp''), Data (CDataPiece '' Bob''), Data (CharRef [LF])]],
             nl, Element ''status'' [Data (Chars ''HTTP/1.1 200 OK'')]],
           Element ''propstat''
            [Element ''prop'' [Empty_tag ''getctag'', Element ''displayname'' []],
             Element ''status'' [Data (Chars ''HTTP/1.1 404 Not Found'')]]]],
       nl])"

subsection \<open>Properties\<close>

text \<open>
  C33: the multistatus parser returns what the document says. A document is a list of trees with
  whatever declarations, comments and white space; in it responses may stand at any depth and hold
  any elements (\<open>propstat\<close>, \<open>prop\<close>, \<open>status\<close> and unknown ones) in any number, order and nesting. The
  two conditions: no response inside a response, and in the elements the client reads (a \<open>displayname\<close>,
  \<open>getctag\<close>, \<open>getetag\<close> or \<open>address-data\<close>, an \<open>href\<close> of a response, of a \<open>current-user-principal\<close> or of an
  \<open>addressbook-home-set\<close>) no child element with a start tag and no unknown entity. Then parsing
  succeeds with one result per response, in order: each field is all the character data of its
  elements, decoded, put together in document order and trimmed except for the address data, absent
  if they hold none; the address-book flag is set exactly when an \<open>addressbook\<close> element is present.
  The status of a \<open>propstat\<close> plays no role. And whatever the events, if the reader finds an error
  among them, the result is an XML error, never a part of the document.
\<close>

theorem parse_multistatus_document:
  assumes "list_all (doc_ok entity) doc"
  shows "parse_multistatus entity (concat (map node_events doc))
      = Ok (map (response_value entity) (concat (map responses_of doc)))
    \<and> (\<forall>e es. ReaderError e \<in> set es \<longrightarrow> (\<exists>m. parse_multistatus entity es = Err (Xml m)))"
proof (intro conjI allI impI)
  fix e es assume "ReaderError e \<in> set es"
  from reader_error_stops [OF this, of entity parser_start]
  show "\<exists>m. parse_multistatus entity es = Err (Xml m)" by (auto simp: parse_multistatus_def)
qed (rule parse_document [OF assms])

theorem parse_multistatus_document_witness:
  "\<exists>r0 r. parse_multistatus predefined_entity (concat (map node_events sample_document)) = Ok [r0, r]
     \<and> pr_href r0 = Some ''/dav/'' \<and> pr_etag r0 = None \<and> \<not> pr_is_addressbook r0
     \<and> pr_href r = Some ''/dav/a.vcf'' \<and> pr_etag r = Some ([QUOT] @ ''abc'' @ [QUOT])
     \<and> pr_display_name r = None \<and> pr_current_user_principal r = None
     \<and> pr_address_data r = Some (''FN:Alice & Bob'' @ [LF]) \<and> pr_is_addressbook r"
proof -
  have ok: "list_all (doc_ok predefined_entity) sample_document"
    by (simp add: sample_document_def field_at_def predefined_entity_def Let_def)
  from parse_multistatus_document [OF ok] have
    "parse_multistatus predefined_entity (concat (map node_events sample_document))
      = Ok (map (response_value predefined_entity) (concat (map responses_of sample_document)))" by blast
  then show ?thesis
    by (simp add: sample_document_def response_value_def field_at_def pieces_value_def
        predefined_entity_def Let_def trim_def trim_end_def ws1_def ws2_def ws3_def code_def)
qed

end
