(* ===== verification/Dav_Client.thy ===== *)
theory Dav_Client
  imports Dav_Xml Rust_Map Rust_Async
begin

text \<open>
  The CardDAV client, \<open>src/src/carddav_client.rs\<close>.

  \<^item> \<open>dav_env\<close> holds what the client gets from elsewhere: the \<open>url\<close> crate's operations on a URL,
    SHA-256, \<open>quick_xml\<close>, IP parsing, the text of a UTF-8 error, a clock, and the server: the answer
    to a request, given everything sent before it. What is assumed of the \<open>url\<close> crate is
    \<open>url_laws\<close>; nothing is assumed of the server.
  \<^item> \<open>dav_client\<close> is \<open>CardDavClient\<close> without its cache; \<open>dav_state\<close> is the discovery cache, the log of
    requests handed to \<open>reqwest\<close>, and the number of clock readings. A request of the log is what
    the client built, with its headers; redirects \<open>reqwest\<close> follows by itself are part of the answer.
  \<^item> An operation is a \<open>task\<close> on that state. A cache operation is one atomic step under its lock and
    reads the clock once. Poisoned locks and log lines are not modelled.
\<close>

definition DISCOVERY_TTL :: duration where "DISCOVERY_TTL = secs 3600"
definition DISCOVERY_CAP :: nat where "DISCOVERY_CAP = 256"
definition ERROR_SNIPPET_BYTES :: nat where "ERROR_SNIPPET_BYTES = 4096"

subsection \<open>Request bodies\<close>

definition quoted :: "string \<Rightarrow> string" where
  "quoted s = [QUOT] @ s @ [QUOT]"

fun text_lines :: "string list \<Rightarrow> string" where
  "text_lines [] = []"
| "text_lines [l] = l"
| "text_lines (l # ls) = l @ [LF] @ text_lines ls"

definition xml_declaration :: string where
  "xml_declaration = ''<?xml version='' @ quoted ''1.0'' @ '' encoding='' @ quoted ''UTF-8'' @ ''?>''"

definition xmlns_dav :: string where
  "xmlns_dav = '' xmlns:d='' @ quoted ''DAV:''"

definition xmlns_card :: string where
  "xmlns_card = '' xmlns:card='' @ quoted ''urn:ietf:params:xml:ns:carddav''"

definition CURRENT_USER_PRINCIPAL_BODY :: string where
  "CURRENT_USER_PRINCIPAL_BODY = text_lines
     [xml_declaration,
      ''<d:propfind'' @ xmlns_dav @ ''>'',
      ''  <d:prop><d:current-user-principal/></d:prop>'',
      ''</d:propfind>'']"

definition ADDRESSBOOK_HOME_BODY :: string where
  "ADDRESSBOOK_HOME_BODY = text_lines
     [xml_declaration,
      ''<d:propfind'' @ xmlns_dav @ xmlns_card @ ''>'',
      ''  <d:prop><card:addressbook-home-set/></d:prop>'',
      ''</d:propfind>'']"

definition LIST_ADDRESSBOOKS_BODY :: string where
  "LIST_ADDRESSBOOKS_BODY = text_lines
     [xml_declaration,
      ''<d:propfind'' @ xmlns_dav @ xmlns_card @ '' xmlns:cs='' @ quoted ''http://calendarserver.org/ns/'' @ ''>'',
      ''  <d:prop>'',
      ''    <d:resourcetype/>'',
      ''    <d:displayname/>'',
      ''    <cs:getctag/>'',
      ''  </d:prop>'',
      ''</d:propfind>'']"

definition LIST_CONTACTS_BODY :: string where
  "LIST_CONTACTS_BODY = text_lines
     [xml_declaration,
      ''<card:addressbook-query'' @ xmlns_dav @ xmlns_card @ ''>'',
      ''  <d:prop><d:getetag/><card:address-data/></d:prop>'',
      ''</card:addressbook-query>'']"

definition prop_filter :: "string \<Rightarrow> string \<Rightarrow> string" where
  "prop_filter name escaped =
     ''    <card:prop-filter name='' @ quoted name @ ''><card:text-match collation='' @ quoted ''i;unicode-casemap''
     @ '' match-type='' @ quoted ''contains'' @ ''>'' @ escaped @ ''</card:text-match></card:prop-filter>''"

definition search_body :: "string \<Rightarrow> string" where
  "search_body query =
     (let escaped = escape_xml query in text_lines
       [xml_declaration,
        ''<card:addressbook-query'' @ xmlns_dav @ xmlns_card @ ''>'',
        ''  <d:prop><d:getetag/><card:address-data/></d:prop>'',
        ''  <card:filter test='' @ quoted ''anyof'' @ ''>'',
        prop_filter ''FN'' escaped,
        prop_filter ''N'' escaped,
        prop_filter ''EMAIL'' escaped,
        prop_filter ''TEL'' escaped,
        prop_filter ''ORG'' escaped,
        ''  </card:filter>'',
        ''</card:addressbook-query>''])"

subsection \<open>Types\<close>

record dav_discovery =
  dd_principal_href :: string
  dd_addressbook_home_href :: string

record dav_address_book =
  ab_href :: string
  ab_display_name :: string
  ab_ctag :: "string option"

record dav_contact =
  dc_href :: string
  dc_etag :: "string option"
  dc_vcard :: string

record dav_write_result =
  wr_href :: string
  wr_etag :: "string option"

record cached_discovery =
  cd_discovery :: dav_discovery
  cd_cached_at :: instant

record dav_http_response =
  hp_status :: nat
  hp_body :: string
  hp_etag :: "string option"
  hp_location :: "string option"

text \<open>
  A request as handed to \<open>reqwest\<close>, and its answer: the status, a header's value as
  \<open>get(name).and_then(|v| v.to_str().ok())\<close> yields it, and the chunks of the body, \<open>None\<close> for a
  stream error.
\<close>

record 'u dav_request =
  rq_method :: string
  rq_url :: 'u
  rq_headers :: "(string \<times> string) list"
  rq_body :: "string option"

record raw_response =
  rw_status :: nat
  rw_header :: "string \<Rightarrow> string option"
  rw_chunks :: "string option list"

datatype exchange = SendFailed | Responded raw_response

record ('u, 'h, 'ip) dav_env =
  ev_parse :: "string \<Rightarrow> 'u option"
  ev_join :: "'u \<Rightarrow> string \<Rightarrow> 'u option"
  ev_scheme :: "'u \<Rightarrow> string"
  ev_host :: "'u \<Rightarrow> string option"
  ev_port :: "'u \<Rightarrow> nat option"
  ev_username :: "'u \<Rightarrow> string"
  ev_password :: "'u \<Rightarrow> string option"
  ev_fragment :: "'u \<Rightarrow> string option"
  ev_path :: "'u \<Rightarrow> string"
  ev_set_path :: "string \<Rightarrow> 'u \<Rightarrow> 'u"
  ev_clear_query :: "'u \<Rightarrow> 'u"
  ev_clear_fragment :: "'u \<Rightarrow> 'u"
  ev_push_segment :: "string \<Rightarrow> 'u \<Rightarrow> 'u option"
  ev_sha :: "string \<Rightarrow> 'h"
  ev_parse_ip :: "string \<Rightarrow> 'ip option"
  ev_xml_events :: "string \<Rightarrow> xml_event list"
  ev_xml_entity :: "string \<Rightarrow> string option"
  ev_utf8_error :: "string \<Rightarrow> string"
  ev_client_builds :: bool
  ev_clock :: "nat \<Rightarrow> instant"
  ev_reply :: "'u dav_request list \<Rightarrow> 'u dav_request \<Rightarrow> exchange"

record ('u, 'ip) dav_client =
  cl_base_url :: 'u
  cl_discovery_url :: 'u
  cl_max_response_bytes :: nat
  cl_resolve :: "(string \<times> 'ip \<times> nat) option"

record ('u, 'h) dav_state =
  ds_discoveries :: "('h, cached_discovery) hmap"
  ds_sent :: "'u dav_request list"
  ds_ticks :: nat

definition dav_start :: "('u, 'h) dav_state" where
  "dav_start = \<lparr>ds_discoveries = [], ds_sent = [], ds_ticks = 0\<rparr>"

type_synonym ('u, 'h, 'a) dav_task = "(('u, 'h) dav_state, carddav_error, 'a) task"

subsection \<open>Construction\<close>

definition dav_client_new ::
  "('u, 'h, 'ip) dav_env \<Rightarrow> string \<Rightarrow> string option \<Rightarrow> nat \<Rightarrow> string + ('u, 'ip) dav_client" where
  "dav_client_new E stalwart_base connect_ip max_response_bytes =
     (if \<not> max_response_bytes > 0 then Err ''CardDAV response cap must be > 0''
      else and_then (ok_or (ev_parse E stalwart_base) ''parse Stalwart DAV base URL'') (\<lambda>u.
        if \<not> (ev_scheme E u \<in> set [''http'', ''https''] \<and> ev_host E u \<noteq> None)
        then Err ''Stalwart DAV base URL must be absolute http(s)''
        else
          let u1 = ev_clear_fragment E (ev_clear_query E u);
              base = (if \<not> ends_with ''/'' (ev_path E u1) then ev_set_path E (ev_path E u1 @ ''/'') u1 else u1)
          in and_then (ok_or (ev_join E base ''.well-known/carddav'') ''build CardDAV discovery URL'') (\<lambda>disc.
             and_then
               (case connect_ip of
                  None \<Rightarrow> Ok None
                | Some ip \<Rightarrow>
                    and_then (ok_or (ev_host E base) ''Stalwart DAV base URL has no host'') (\<lambda>host.
                    and_then (ok_or (ev_parse_ip E ip) ''CARDDAV_MCP_STALWART_CONNECT_IP is not a valid IP'') (\<lambda>addr.
                      Ok (Some (host, addr, case ev_port E base of Some p \<Rightarrow> p | None \<Rightarrow> 443)))))
               (\<lambda>resolve.
                 if ev_client_builds E
                 then Ok \<lparr>cl_base_url = base, cl_discovery_url = disc,
                          cl_max_response_bytes = max_response_bytes, cl_resolve = resolve\<rparr>
                 else Err ''build CardDAV HTTP client''))))"

subsection \<open>The discovery cache\<close>

definition discovery_lookup :: "instant \<Rightarrow> 'h \<Rightarrow> ('h, cached_discovery) hmap \<Rightarrow> dav_discovery option" where
  "discovery_lookup now key cache =
     (case hm_get cache key of
        None \<Rightarrow> None
      | Some entry \<Rightarrow> if now - cd_cached_at entry < DISCOVERY_TTL then Some (cd_discovery entry) else None)"

definition discovery_insert ::
  "instant \<Rightarrow> 'h \<Rightarrow> dav_discovery \<Rightarrow> ('h, cached_discovery) hmap \<Rightarrow> ('h, cached_discovery) hmap" where
  "discovery_insert now key discovery cache =
     (let c1 = (if hm_len cache \<ge> DISCOVERY_CAP
                then hm_retain (\<lambda>_ entry. now - cd_cached_at entry < DISCOVERY_TTL) cache else cache);
          c2 = (if hm_len c1 \<ge> DISCOVERY_CAP \<and> \<not> hm_contains c1 key then evict_min cd_cached_at c1 else c1)
      in hm_insert key \<lparr>cd_discovery = discovery, cd_cached_at = now\<rparr> c2)"

definition evict :: "('u, 'h, 'ip) dav_env \<Rightarrow> string \<Rightarrow> ('u, 'h) dav_state \<Rightarrow> ('u, 'h) dav_state" where
  "evict E token s = s\<lparr>ds_discoveries := hm_remove (ev_sha E token) (ds_discoveries s)\<rparr>"

text \<open>\<open>Instant::now()\<close> and \<open>elapsed()\<close>: the next reading of the clock.\<close>

definition read_clock :: "('u, 'h, 'ip) dav_env \<Rightarrow> ('u, 'h, instant) dav_task" where
  "read_clock E s = (Ok (ev_clock E (ds_ticks s)), s\<lparr>ds_ticks := Suc (ds_ticks s)\<rparr>)"

subsection \<open>Reading bodies\<close>

definition USIZE_MAX :: nat where "USIZE_MAX = 2 ^ 64 - 1"

fun read_chunks :: "nat \<Rightarrow> string \<Rightarrow> string option list \<Rightarrow> carddav_error + string" where
  "read_chunks max_bytes body [] = Ok body"
| "read_chunks max_bytes body (None # rest) = Err HttpError"
| "read_chunks max_bytes body (Some chunk # rest) =
     (if min (length body + length chunk) USIZE_MAX > max_bytes then Err TooLarge
      else read_chunks max_bytes (body @ chunk) rest)"

definition read_limited :: "raw_response \<Rightarrow> nat \<Rightarrow> carddav_error + string" where
  "read_limited response max_bytes =
     (if (case rw_header response ''content-length'' of
            None \<Rightarrow> False
          | Some v \<Rightarrow> (case parse_uint 64 v of None \<Rightarrow> False | Some len \<Rightarrow> len > max_bytes))
      then Err TooLarge
      else read_chunks max_bytes [] (rw_chunks response))"

fun read_prefix :: "nat \<Rightarrow> string \<Rightarrow> string option list \<Rightarrow> string" where
  "read_prefix max_bytes body [] = body"
| "read_prefix max_bytes body (chunk # rest) =
     (if \<not> length body < max_bytes then body
      else case chunk of
          None \<Rightarrow> body
        | Some c \<Rightarrow>
            let remaining = max_bytes - length body;
                body' = body @ take (min (length c) remaining) c
            in if length c \<ge> remaining then body' else read_prefix max_bytes body' rest)"

subsection \<open>Sending\<close>

definition bearer_auth_header :: "string \<Rightarrow> string \<times> string" where
  "bearer_auth_header token = (''authorization'', ''Bearer '' @ token)"

definition send ::
  "('u, 'h, 'ip) dav_env \<Rightarrow> ('u, 'ip) dav_client \<Rightarrow> string \<Rightarrow> 'u dav_request
     \<Rightarrow> ('u, 'h, dav_http_response) dav_task" where
  "send E C token request s =
     (let req = request\<lparr>rq_headers := rq_headers request @ [bearer_auth_header token]\<rparr>;
          s1 = s\<lparr>ds_sent := ds_sent s @ [req]\<rparr>
      in case ev_reply E (ds_sent s) req of
           SendFailed \<Rightarrow> (Err HttpError, s1)
         | Responded response \<Rightarrow>
             if rw_status response \<in> set [401, 403]
             then (Err Unauthorized, evict E token s1)
             else (and_then (read_limited response (cl_max_response_bytes C)) (\<lambda>body.
                     Ok \<lparr>hp_status = rw_status response, hp_body = body,
                         hp_etag = rw_header response ''etag'', hp_location = rw_header response ''location''\<rparr>),
                   s1))"

definition same_origin :: "('u, 'h, 'ip) dav_env \<Rightarrow> 'u \<Rightarrow> 'u \<Rightarrow> bool" where
  "same_origin E u v \<longleftrightarrow> ev_scheme E u = ev_scheme E v \<and> ev_host E u = ev_host E v \<and> ev_port E u = ev_port E v"

definition resolve_href ::
  "('u, 'h, 'ip) dav_env \<Rightarrow> ('u, 'ip) dav_client \<Rightarrow> string \<Rightarrow> carddav_error + 'u" where
  "resolve_href E C href =
     (if trim href \<noteq> href \<or> href = [] then Err (InvalidHref href)
      else and_then (ok_or (ev_join E (cl_base_url C) href) (InvalidHref href)) (\<lambda>resolved.
        if \<not> same_origin E resolved (cl_base_url C) \<or> ev_username E resolved \<noteq> []
           \<or> ev_password E resolved \<noteq> None \<or> ev_fragment E resolved \<noteq> None
        then Err (InvalidHref href) else Ok resolved))"

definition ensure_multistatus :: "nat \<Rightarrow> carddav_error + unit" where
  "ensure_multistatus status =
     (if status = 207 \<or> status = 200 then Ok ()
      else if status = 404 then Err NotFound else Err (Upstream status))"

definition propfind ::
  "('u, 'h, 'ip) dav_env \<Rightarrow> ('u, 'ip) dav_client \<Rightarrow> string \<Rightarrow> 'u \<Rightarrow> string \<Rightarrow> string
     \<Rightarrow> ('u, 'h, dav_http_response) dav_task" where
  "propfind E C token url depth body =
     bind_task
       (send E C token
         \<lparr>rq_method = ''PROPFIND'', rq_url = url,
          rq_headers = [(''depth'', depth), (''content-type'', ''application/xml; charset=utf-8''),
                        (''accept'', ''application/xml'')],
          rq_body = Some body\<rparr>)
       (\<lambda>response. bind_task (pure_task (ensure_multistatus (hp_status response))) (\<lambda>_. return_task response))"

definition parse_body ::
  "('u, 'h, 'ip) dav_env \<Rightarrow> dav_http_response \<Rightarrow> carddav_error + parsed_dav_response list" where
  "parse_body E response = parse_multistatus (ev_xml_entity E) (ev_xml_events E (hp_body response))"

subsection \<open>Discovery and address books\<close>

text \<open>\<open>discover\<close> from the first request on, up to the check of the home set.\<close>

definition discover_fetch ::
  "('u, 'h, 'ip) dav_env \<Rightarrow> ('u, 'ip) dav_client \<Rightarrow> string \<Rightarrow> ('u, 'h, dav_discovery) dav_task" where
  "discover_fetch E C token =
     bind_task (propfind E C token (cl_discovery_url C) ''0'' CURRENT_USER_PRINCIPAL_BODY) (\<lambda>principal_response.
     bind_task (pure_task (parse_body E principal_response)) (\<lambda>responses.
     bind_task (pure_task (ok_or (find_map pr_current_user_principal responses)
         (InvalidData ''discovery response omitted current-user-principal''))) (\<lambda>principal_href.
     bind_task (pure_task (resolve_href E C principal_href)) (\<lambda>principal_url.
     bind_task (propfind E C token principal_url ''0'' ADDRESSBOOK_HOME_BODY) (\<lambda>home_response.
     bind_task (pure_task (parse_body E home_response)) (\<lambda>responses.
     bind_task (pure_task (ok_or (find_map pr_addressbook_home responses)
         (InvalidData ''principal response omitted addressbook-home-set''))) (\<lambda>home_href.
     bind_task (pure_task (resolve_href E C home_href)) (\<lambda>_.
       return_task \<lparr>dd_principal_href = principal_href, dd_addressbook_home_href = home_href\<rparr>))))))))"

definition store_discovery ::
  "('u, 'h, 'ip) dav_env \<Rightarrow> string \<Rightarrow> dav_discovery \<Rightarrow> ('u, 'h, unit) dav_task" where
  "store_discovery E token discovery =
     bind_task (read_clock E) (\<lambda>now. modify_task (\<lambda>s. s\<lparr>ds_discoveries :=
       discovery_insert now (ev_sha E token) discovery (ds_discoveries s)\<rparr>))"

definition discover ::
  "('u, 'h, 'ip) dav_env \<Rightarrow> ('u, 'ip) dav_client \<Rightarrow> string \<Rightarrow> ('u, 'h, dav_discovery) dav_task" where
  "discover E C token =
     bind_task (read_clock E) (\<lambda>now s.
       case discovery_lookup now (ev_sha E token) (ds_discoveries s) of
         Some discovery \<Rightarrow> return_task discovery s
       | None \<Rightarrow>
           bind_task (discover_fetch E C token) (\<lambda>discovery.
           bind_task (store_discovery E token discovery) (\<lambda>_. return_task discovery)) s)"

definition normalize_href :: "string \<Rightarrow> string" where
  "normalize_href href = trim_end_matches (CHR ''/'') href"

definition href_tail :: "string \<Rightarrow> string option" where
  "href_tail href =
     List.find (\<lambda>part. part \<noteq> []) (rev (split_on (CHR ''/'') (trim_end_matches (CHR ''/'') href)))"

definition filter_option :: "('a \<Rightarrow> bool) \<Rightarrow> 'a option \<Rightarrow> 'a option" where
  "filter_option P v = (case v of None \<Rightarrow> None | Some a \<Rightarrow> if P a then Some a else None)"

definition book_of :: "string \<Rightarrow> parsed_dav_response \<Rightarrow> dav_address_book" where
  "book_of href item =
     \<lparr>ab_href = href,
      ab_display_name =
        (case filter_option (\<lambda>name. trim name \<noteq> []) (pr_display_name item) of
           Some name \<Rightarrow> name
         | None \<Rightarrow> (case href_tail href of Some t \<Rightarrow> t | None \<Rightarrow> ''Contacts'')),
      ab_ctag = filter_option (\<lambda>ctag. ctag \<noteq> []) (pr_ctag item)\<rparr>"

fun collect_books ::
  "('u, 'h, 'ip) dav_env \<Rightarrow> ('u, 'ip) dav_client \<Rightarrow> string \<Rightarrow> parsed_dav_response list
     \<Rightarrow> carddav_error + dav_address_book list" where
  "collect_books E C home [] = Ok []"
| "collect_books E C home (item # rest) =
     (case pr_href item of
        None \<Rightarrow> collect_books E C home rest
      | Some href \<Rightarrow>
          if \<not> pr_is_addressbook item \<or> normalize_href href = home then collect_books E C home rest
          else and_then (resolve_href E C href) (\<lambda>_.
            and_then (collect_books E C home rest) (\<lambda>books. Ok (book_of href item # books))))"

definition list_address_books ::
  "('u, 'h, 'ip) dav_env \<Rightarrow> ('u, 'ip) dav_client \<Rightarrow> string \<Rightarrow> ('u, 'h, dav_address_book list) dav_task" where
  "list_address_books E C token =
     bind_task (discover E C token) (\<lambda>discovery.
     bind_task (pure_task (resolve_href E C (dd_addressbook_home_href discovery))) (\<lambda>home_url.
     bind_task (propfind E C token home_url ''1'' LIST_ADDRESSBOOKS_BODY) (\<lambda>response.
     bind_task (pure_task (parse_body E response)) (\<lambda>parsed.
       pure_task (collect_books E C (normalize_href (dd_addressbook_home_href discovery)) parsed)))))"

subsection \<open>Contacts\<close>

fun collect_contacts ::
  "('u, 'h, 'ip) dav_env \<Rightarrow> ('u, 'ip) dav_client \<Rightarrow> parsed_dav_response list
     \<Rightarrow> carddav_error + dav_contact list" where
  "collect_contacts E C [] = Ok []"
| "collect_contacts E C (item # rest) =
     (case (pr_href item, pr_address_data item) of
        (Some href, Some vcard) \<Rightarrow>
          and_then (resolve_href E C href) (\<lambda>_.
            and_then (collect_contacts E C rest) (\<lambda>contacts.
              Ok (\<lparr>dc_href = href, dc_etag = filter_option (\<lambda>etag. etag \<noteq> []) (pr_etag item),
                  dc_vcard = vcard\<rparr> # contacts)))
      | _ \<Rightarrow> collect_contacts E C rest)"

definition query_contacts ::
  "('u, 'h, 'ip) dav_env \<Rightarrow> ('u, 'ip) dav_client \<Rightarrow> string \<Rightarrow> string \<Rightarrow> string
     \<Rightarrow> ('u, 'h, dav_contact list) dav_task" where
  "query_contacts E C token addressbook_href body =
     bind_task (pure_task (resolve_href E C addressbook_href)) (\<lambda>url.
     bind_task
       (send E C token
         \<lparr>rq_method = ''REPORT'', rq_url = url,
          rq_headers = [(''depth'', ''1''), (''content-type'', ''application/xml; charset=utf-8''),
                        (''accept'', ''application/xml, text/vcard'')],
          rq_body = Some body\<rparr>) (\<lambda>response.
     bind_task (pure_task (ensure_multistatus (hp_status response))) (\<lambda>_.
     bind_task (pure_task (parse_body E response)) (\<lambda>items.
       pure_task (collect_contacts E C items)))))"

definition list_contacts ::
  "('u, 'h, 'ip) dav_env \<Rightarrow> ('u, 'ip) dav_client \<Rightarrow> string \<Rightarrow> string \<Rightarrow> ('u, 'h, dav_contact list) dav_task" where
  "list_contacts E C token addressbook_href = query_contacts E C token addressbook_href LIST_CONTACTS_BODY"

definition search_contacts ::
  "('u, 'h, 'ip) dav_env \<Rightarrow> ('u, 'ip) dav_client \<Rightarrow> string \<Rightarrow> string \<Rightarrow> string
     \<Rightarrow> ('u, 'h, dav_contact list) dav_task" where
  "search_contacts E C token addressbook_href query =
     (if trim query = [] then fail_task (InvalidData ''search query must not be empty'')
      else if length query > 256 \<or> list_ex is_illegal_xml_char query
      then fail_task (InvalidData ''search query is too long or contains an XML control character'')
      else query_contacts E C token addressbook_href (search_body query))"

definition get_contact ::
  "('u, 'h, 'ip) dav_env \<Rightarrow> ('u, 'ip) dav_client \<Rightarrow> string \<Rightarrow> string \<Rightarrow> ('u, 'h, dav_contact) dav_task" where
  "get_contact E C token contact_href =
     bind_task (pure_task (resolve_href E C contact_href)) (\<lambda>url.
     bind_task
       (send E C token
         \<lparr>rq_method = ''GET'', rq_url = url, rq_headers = [(''accept'', ''text/vcard, text/x-vcard'')],
          rq_body = None\<rparr>) (\<lambda>response.
       if hp_status response = 404 then fail_task NotFound
       else if hp_status response \<noteq> 200 then fail_task (Upstream (hp_status response))
       else if \<not> utf8 (hp_body response)
       then fail_task (InvalidData (''vCard is not UTF-8: '' @ ev_utf8_error E (hp_body response)))
       else return_task
         \<lparr>dc_href = contact_href, dc_etag = hp_etag response, dc_vcard = hp_body response\<rparr>))"

definition create_contact ::
  "('u, 'h, 'ip) dav_env \<Rightarrow> ('u, 'ip) dav_client \<Rightarrow> string \<Rightarrow> string \<Rightarrow> string \<Rightarrow> string
     \<Rightarrow> ('u, 'h, dav_write_result) dav_task" where
  "create_contact E C token addressbook_href uid vcard =
     bind_task (pure_task (resolve_href E C addressbook_href)) (\<lambda>url.
     bind_task (pure_task (ok_or (ev_push_segment E (uid @ ''.vcf'') url) (InvalidHref addressbook_href))) (\<lambda>url1.
       let url2 = ev_clear_fragment E (ev_clear_query E url1); href = ev_path E url2 in
     bind_task
       (send E C token
         \<lparr>rq_method = ''PUT'', rq_url = url2,
          rq_headers = [(''content-type'', ''text/vcard; charset=utf-8''), (''if-none-match'', ''*'')],
          rq_body = Some vcard\<rparr>) (\<lambda>response.
       if hp_status response \<in> set [201, 204, 200]
       then return_task
         \<lparr>wr_href = (case hp_location response of Some l \<Rightarrow> l | None \<Rightarrow> href), wr_etag = hp_etag response\<rparr>
       else if hp_status response \<in> set [412, 409] then fail_task Conflict
       else fail_task (Upstream (hp_status response)))))"

definition if_match :: "string option \<Rightarrow> string \<times> string" where
  "if_match etag = (''if-match'', case etag of Some e \<Rightarrow> e | None \<Rightarrow> ''*'')"

definition update_contact ::
  "('u, 'h, 'ip) dav_env \<Rightarrow> ('u, 'ip) dav_client \<Rightarrow> string \<Rightarrow> string \<Rightarrow> string option \<Rightarrow> string
     \<Rightarrow> ('u, 'h, dav_write_result) dav_task" where
  "update_contact E C token contact_href etag vcard =
     bind_task (pure_task (resolve_href E C contact_href)) (\<lambda>url.
     bind_task
       (send E C token
         \<lparr>rq_method = ''PUT'', rq_url = url,
          rq_headers = [(''content-type'', ''text/vcard; charset=utf-8''), if_match etag],
          rq_body = Some vcard\<rparr>) (\<lambda>response.
       if hp_status response \<in> set [200, 201, 204]
       then return_task
         \<lparr>wr_href = (case hp_location response of Some l \<Rightarrow> l | None \<Rightarrow> contact_href),
          wr_etag = hp_etag response\<rparr>
       else if hp_status response = 404 then fail_task NotFound
       else if hp_status response \<in> set [412, 409] then fail_task Conflict
       else fail_task (Upstream (hp_status response))))"

definition delete_contact ::
  "('u, 'h, 'ip) dav_env \<Rightarrow> ('u, 'ip) dav_client \<Rightarrow> string \<Rightarrow> string \<Rightarrow> string option
     \<Rightarrow> ('u, 'h, unit) dav_task" where
  "delete_contact E C token contact_href etag =
     bind_task (pure_task (resolve_href E C contact_href)) (\<lambda>url.
     bind_task
       (send E C token
         \<lparr>rq_method = ''DELETE'', rq_url = url, rq_headers = [if_match etag], rq_body = None\<rparr>) (\<lambda>response.
       if hp_status response \<in> set [200, 204] then return_task ()
       else if hp_status response = 404 then fail_task NotFound
       else if hp_status response \<in> set [412, 409] then fail_task Conflict
       else fail_task (Upstream (hp_status response))))"

end
