(* ===== verification/Dav_Trace.thy ===== *)
theory Dav_Trace
  imports Dav_Client
begin

text \<open>
  What the CardDAV client sends, and what it remembers (\<open>src/src/carddav_client.rs\<close>).

  \<^item> \<open>dav_op\<close> and \<open>dav_run\<close> are the client's public operations. \<open>run_contract\<close> is what each of them
    does to the log of requests; \<open>dav_ok\<close> is proved for \<open>send\<close> and carried through every operation
    by the rules of \<open>dav_ok_intros\<close>.
  \<^item> \<open>dav_inv\<close> is the invariant of the discovery cache over every run of operations: its cap, and
    that each entry was obtained with a bearer of its key.
  \<^item> All of it speaks of the requests the client builds and hands to \<open>reqwest\<close>. The HTTP client is built
    without a redirect policy (lines 156 to 169), so \<open>reqwest\<close> follows redirects by its default, to other origins
    as well; what it sends then is part of the answer to the request and outside the model.
  \<^item> \<open>search_tokens\<close> is what a search asks for, read back with a tokenizer.
\<close>

text \<open>An operation of the client, as the tools call it, and the error it ends with.\<close>

datatype dav_op =
    OpDiscover string
  | OpListBooks string
  | OpListContacts string string
  | OpSearch string string string
  | OpGet string string
  | OpCreate string string string string
  | OpUpdate string string "string option" string
  | OpDelete string string "string option"

fun op_token :: "dav_op \<Rightarrow> string" where
  "op_token (OpDiscover t) = t"
| "op_token (OpListBooks t) = t"
| "op_token (OpListContacts t b) = t"
| "op_token (OpSearch t b q) = t"
| "op_token (OpGet t h) = t"
| "op_token (OpCreate t b u v) = t"
| "op_token (OpUpdate t h e v) = t"
| "op_token (OpDelete t h e) = t"

definition outcome :: "(carddav_error + 'a) \<times> 's \<Rightarrow> carddav_error option \<times> 's" where
  "outcome x = (case fst x of Inl e \<Rightarrow> (Some e, snd x) | Inr _ \<Rightarrow> (None, snd x))"

fun dav_run ::
  "('u, 'h, 'ip) dav_env \<Rightarrow> ('u, 'ip) dav_client \<Rightarrow> dav_op \<Rightarrow> ('u, 'h) dav_state
     \<Rightarrow> carddav_error option \<times> ('u, 'h) dav_state" where
  "dav_run E C (OpDiscover t) s = outcome (discover E C t s)"
| "dav_run E C (OpListBooks t) s = outcome (list_address_books E C t s)"
| "dav_run E C (OpListContacts t b) s = outcome (list_contacts E C t b s)"
| "dav_run E C (OpSearch t b q) s = outcome (search_contacts E C t b q s)"
| "dav_run E C (OpGet t h) s = outcome (get_contact E C t h s)"
| "dav_run E C (OpCreate t b u v) s = outcome (create_contact E C t b u v s)"
| "dav_run E C (OpUpdate t h e v) s = outcome (update_contact E C t h e v s)"
| "dav_run E C (OpDelete t h e) s = outcome (delete_contact E C t h e s)"

subsection \<open>The contract of a request\<close>

text \<open>A request that may leave: to the configured origin, with the caller's bearer and no other.\<close>

definition confined ::
  "('u, 'h, 'ip) dav_env \<Rightarrow> ('u, 'ip) dav_client \<Rightarrow> string \<Rightarrow> 'u dav_request \<Rightarrow> bool" where
  "confined E C token r \<longleftrightarrow> same_origin E (rq_url r) (cl_base_url C)
     \<and> filter (\<lambda>h. fst h = ''authorization'') (rq_headers r) = [bearer_auth_header token]"

definition rejected :: "('u, 'h, 'ip) dav_env \<Rightarrow> 'u dav_request list \<Rightarrow> 'u dav_request \<Rightarrow> bool" where
  "rejected E before r \<longleftrightarrow>
     (case ev_reply E before r of SendFailed \<Rightarrow> False | Responded w \<Rightarrow> rw_status w \<in> set [401, 403])"

fun rejections :: "('u, 'h, 'ip) dav_env \<Rightarrow> 'u dav_request list \<Rightarrow> 'u dav_request list \<Rightarrow> bool list" where
  "rejections E before [] = []"
| "rejections E before (r # rs) = rejected E before r # rejections E (before @ [r]) rs"

lemma rejections_append:
  "rejections E before (xs @ ys) = rejections E before xs @ rejections E (before @ xs) ys"
  by (induction xs arbitrary: before) auto

lemma rejections_length [simp]: "length (rejections E before xs) = length xs"
  by (induction xs arbitrary: before) auto

text \<open>
  What a task does to the log: it appends confined requests; it ends with \<open>Unauthorized\<close> exactly when
  the last of them was rejected, nothing before was, and then the bearer has no cached discovery.
\<close>

definition run_contract ::
  "('u, 'h, 'ip) dav_env \<Rightarrow> ('u, 'ip) dav_client \<Rightarrow> string \<Rightarrow> ('u, 'h) dav_state \<Rightarrow> carddav_error option
     \<Rightarrow> ('u, 'h) dav_state \<Rightarrow> bool" where
  "run_contract E C token s e s' \<longleftrightarrow>
     (\<exists>new. ds_sent s' = ds_sent s @ new \<and> list_all (confined E C token) new
        \<and> (if e = Some Unauthorized
           then new \<noteq> [] \<and> rejections E (ds_sent s) new = replicate (length new - 1) False @ [True]
             \<and> hm_get (ds_discoveries s') (ev_sha E token) = None
           else rejections E (ds_sent s) new = replicate (length new) False))"

definition error_of :: "'e + 'a \<Rightarrow> 'e option" where
  "error_of r = (case r of Inl e \<Rightarrow> Some e | Inr _ \<Rightarrow> None)"

lemma error_of_simps [simp]: "error_of (Inl e) = Some e" "error_of (Inr a) = None"
  by (simp_all add: error_of_def)

definition dav_ok :: "('u, 'h, 'ip) dav_env \<Rightarrow> ('u, 'ip) dav_client \<Rightarrow> string \<Rightarrow> ('u, 'h, 'a) dav_task \<Rightarrow> bool" where
  "dav_ok E C token m \<longleftrightarrow> (\<forall>s r s'. m s = (r, s') \<longrightarrow> run_contract E C token s (error_of r) s')"

named_theorems dav_ok_intros \<open>the contract of the parts of a task\<close>

lemma run_contract_silent:
  "ds_sent s' = ds_sent s \<Longrightarrow> e \<noteq> Some Unauthorized \<Longrightarrow> run_contract E C token s e s'"
  unfolding run_contract_def by (intro exI [of _ "[]"]) simp

lemma run_contract_trans:
  assumes "run_contract E C token s None s1" "run_contract E C token s1 e s2"
  shows "run_contract E C token s e s2"
proof -
  from assms(1) obtain n1 where n1: "ds_sent s1 = ds_sent s @ n1" "list_all (confined E C token) n1"
    "rejections E (ds_sent s) n1 = replicate (length n1) False" by (auto simp: run_contract_def)
  from assms(2) obtain n2 where n2: "ds_sent s2 = ds_sent s1 @ n2" "list_all (confined E C token) n2"
    "if e = Some Unauthorized
     then n2 \<noteq> [] \<and> rejections E (ds_sent s1) n2 = replicate (length n2 - 1) False @ [True]
       \<and> hm_get (ds_discoveries s2) (ev_sha E token) = None
     else rejections E (ds_sent s1) n2 = replicate (length n2) False" by (auto simp: run_contract_def)
  have len: "length n1 + length n2 - Suc 0 = length n1 + (length n2 - Suc 0)" if "n2 \<noteq> []"
    using that by (cases n2) auto
  show ?thesis
    unfolding run_contract_def
    by (rule exI [of _ "n1 @ n2"]) (use n1 n2 len in \<open>auto simp: rejections_append replicate_add split: if_splits\<close>)
qed

lemma dav_ok_bind [dav_ok_intros]:
  assumes "dav_ok E C token m" "\<And>a. dav_ok E C token (f a)"
  shows "dav_ok E C token (bind_task m f)"
  unfolding dav_ok_def
proof (intro allI impI)
  fix s r s' assume b: "bind_task m f s = (r, s')"
  obtain r1 s1 where m: "m s = (r1, s1)" by (cases "m s")
  from assms(1) m have c1: "run_contract E C token s (error_of r1) s1" by (simp add: dav_ok_def)
  show "run_contract E C token s (error_of r) s'"
  proof (cases r1)
    case (Inl e)
    with b m c1 show ?thesis by auto
  next
    case (Inr a)
    with b m have "f a s1 = (r, s')" by simp
    with assms(2) [of a] have "run_contract E C token s1 (error_of r) s'" by (simp add: dav_ok_def)
    with c1 Inr show ?thesis by (auto intro: run_contract_trans)
  qed
qed

lemma dav_ok_return [dav_ok_intros]: "dav_ok E C token (return_task a)"
  by (auto simp: dav_ok_def intro: run_contract_silent)

lemma dav_ok_fail [dav_ok_intros]: "e \<noteq> Unauthorized \<Longrightarrow> dav_ok E C token (fail_task e)"
  by (auto simp: dav_ok_def intro: run_contract_silent)

lemma dav_ok_pure [dav_ok_intros]: "r \<noteq> Inl Unauthorized \<Longrightarrow> dav_ok E C token (pure_task r)"
  by (cases r) (auto simp: dav_ok_def intro!: run_contract_silent)

lemma dav_ok_clock [dav_ok_intros]: "dav_ok E C token (read_clock E)"
  by (auto simp: dav_ok_def read_clock_def intro!: run_contract_silent)

lemma read_chunks_not_Unauthorized [simp]: "read_chunks n b cs \<noteq> Inl Unauthorized"
  by (induction n b cs rule: read_chunks.induct) auto

lemma read_limited_not_Unauthorized [simp]: "read_limited r n \<noteq> Inl Unauthorized"
  by (simp add: read_limited_def)

lemma error_of_Some [simp]: "error_of r = Some e \<longleftrightarrow> r = Inl e"
  by (cases r) auto

lemma dav_ok_send:
  assumes "same_origin E (rq_url q) (cl_base_url C)" "\<forall>h \<in> set (rq_headers q). fst h \<noteq> ''authorization''"
  shows "dav_ok E C token (send E C token q)"
  unfolding dav_ok_def
proof (intro allI impI)
  fix s r s' assume m: "send E C token q s = (r, s')"
  let ?q = "q\<lparr>rq_headers := rq_headers q @ [bearer_auth_header token]\<rparr>"
  have sent: "ds_sent s' = ds_sent s @ [?q]"
    using m by (auto simp: send_def Let_def evict_def split: exchange.splits if_splits)
  have ok: "confined E C token ?q"
    using assms by (simp add: confined_def bearer_auth_header_def)
  have res: "if r = Inl Unauthorized then rejected E (ds_sent s) ?q \<and> hm_get (ds_discoveries s') (ev_sha E token) = None
      else \<not> rejected E (ds_sent s) ?q"
  proof (cases "ev_reply E (ds_sent s) ?q")
    case SendFailed
    with m show ?thesis by (auto simp: send_def Let_def rejected_def)
  next
    case (Responded w)
    show ?thesis
    proof (cases "rw_status w \<in> set [401, 403]")
      case True
      with m Responded show ?thesis by (auto simp: send_def Let_def rejected_def evict_def)
    next
      case False
      with m Responded show ?thesis
        by (cases "read_limited w (cl_max_response_bytes C)") (auto simp: send_def Let_def rejected_def)
    qed
  qed
  show "run_contract E C token s (error_of r) s'"
    unfolding run_contract_def
    by (rule exI [of _ "[?q]"]) (use sent ok res in \<open>auto split: if_splits\<close>)
qed

text \<open>
  What is assumed of the \<open>url\<close> crate: pushing a path segment and clearing the query or the fragment
  keep scheme, host and port, and a relative path joined to a base keeps them too.
\<close>

definition url_laws :: "('u, 'h, 'ip) dav_env \<Rightarrow> bool" where
  "url_laws E \<longleftrightarrow>
     (\<forall>u. same_origin E (ev_clear_query E u) u \<and> same_origin E (ev_clear_fragment E u) u)
     \<and> (\<forall>u v seg. ev_push_segment E seg u = Some v \<longrightarrow> same_origin E v u)
     \<and> (\<forall>u v. ev_join E u ''.well-known/carddav'' = Some v \<longrightarrow> same_origin E v u)"

lemma same_origin_trans: "same_origin E u v \<Longrightarrow> same_origin E v w \<Longrightarrow> same_origin E u w"
  by (simp add: same_origin_def)

lemma resolve_href_Ok: "resolve_href E C href = Inr u \<Longrightarrow> same_origin E u (cl_base_url C)"
  by (auto simp: resolve_href_def and_then_Ok split: if_splits)

lemma resolve_href_Err: "resolve_href E C href = Inl e \<Longrightarrow> e = InvalidHref href"
  by (auto simp: resolve_href_def ok_or_def and_then_Err split: if_splits option.splits)

lemma resolve_href_not_Unauthorized [simp]: "resolve_href E C href \<noteq> Inl Unauthorized"
  by (auto dest: resolve_href_Err)

lemma ok_or_not_Unauthorized [simp]: "e \<noteq> Unauthorized \<Longrightarrow> ok_or v e \<noteq> Inl Unauthorized"
  by (cases v) simp_all

lemma ensure_multistatus_not_Unauthorized [simp]: "ensure_multistatus n \<noteq> Inl Unauthorized"
  by (simp add: ensure_multistatus_def)

lemma xml_step_not_Unauthorized: "xml_step entity ev p \<noteq> Inl Unauthorized"
  by (cases ev) (auto simp: on_content_def append_general_ref_def and_then_def map_err_def ok_or_def
      split: option.splits sum.splits)

lemma parse_body_not_Unauthorized [simp]: "parse_body E r \<noteq> Inl Unauthorized"
proof -
  have "parse_events entity es p \<noteq> Inl Unauthorized" for entity es p
    by (induction es arbitrary: p) (auto simp: and_then_Err xml_step_not_Unauthorized)
  then show ?thesis by (auto simp: parse_body_def parse_multistatus_def and_then_Err)
qed

lemma collect_not_Unauthorized [simp]:
  "collect_books E C home items \<noteq> Inl Unauthorized" "collect_contacts E C items \<noteq> Inl Unauthorized"
  by (induction items) (auto simp: and_then_Err split: option.splits)

text \<open>A task that starts by resolving an href runs the rest only on a same-origin URL.\<close>

lemma dav_ok_resolve [dav_ok_intros]:
  assumes "\<And>u. same_origin E u (cl_base_url C) \<Longrightarrow> dav_ok E C token (f u)"
  shows "dav_ok E C token (bind_task (pure_task (resolve_href E C href)) f)"
proof (cases "resolve_href E C href")
  case (Inl e)
  with resolve_href_Err [OF Inl] have "bind_task (pure_task (resolve_href E C href)) f = fail_task (InvalidHref href)"
    by (intro ext) simp
  with dav_ok_fail [of "InvalidHref href"] show ?thesis by simp
next
  case (Inr u)
  then have "bind_task (pure_task (resolve_href E C href)) f = f u" by (intro ext) simp
  with assms [OF resolve_href_Ok [OF Inr]] show ?thesis by simp
qed

lemma dav_ok_propfind:
  assumes "same_origin E u (cl_base_url C)"
  shows "dav_ok E C token (propfind E C token u depth body)"
  unfolding propfind_def by (intro dav_ok_intros dav_ok_send) (simp_all add: assms)

lemma dav_ok_query [dav_ok_intros]: "dav_ok E C token (query_contacts E C token book body)"
  unfolding query_contacts_def by (intro dav_ok_intros dav_ok_send) simp_all

lemma dav_ok_list_contacts: "dav_ok E C token (list_contacts E C token book)"
  unfolding list_contacts_def by (rule dav_ok_query)

lemma dav_ok_search: "dav_ok E C token (search_contacts E C token book q)"
  unfolding search_contacts_def by (auto intro: dav_ok_intros)

lemma dav_ok_if [dav_ok_intros]:
  "(b \<Longrightarrow> dav_ok E C token m) \<Longrightarrow> (\<not> b \<Longrightarrow> dav_ok E C token n) \<Longrightarrow> dav_ok E C token (if b then m else n)"
  by simp

lemma dav_ok_get: "dav_ok E C token (get_contact E C token href)"
  unfolding get_contact_def by (intro dav_ok_intros dav_ok_send) simp_all

lemma dav_ok_update: "dav_ok E C token (update_contact E C token href etag vcard)"
  unfolding update_contact_def by (intro dav_ok_intros dav_ok_send) (simp_all add: if_match_def)

lemma dav_ok_delete: "dav_ok E C token (delete_contact E C token href etag)"
  unfolding delete_contact_def by (intro dav_ok_intros dav_ok_send) (simp_all add: if_match_def)

lemma dav_ok_create:
  assumes "url_laws E"
  shows "dav_ok E C token (create_contact E C token book uid vcard)"
proof -
  have cleared: "same_origin E (ev_clear_fragment E (ev_clear_query E v)) (cl_base_url C)"
    if "same_origin E u (cl_base_url C)" "ev_push_segment E (uid @ ''.vcf'') u = Some v" for u v
    using that assms unfolding url_laws_def by (meson same_origin_trans)
  have step: "dav_ok E C token (bind_task (pure_task (ok_or (ev_push_segment E (uid @ ''.vcf'') u) e)) f)"
    if "same_origin E u (cl_base_url C)" "e \<noteq> Unauthorized"
      "\<And>v. same_origin E (ev_clear_fragment E (ev_clear_query E v)) (cl_base_url C) \<Longrightarrow> dav_ok E C token (f v)" for u e f
  proof (cases "ev_push_segment E (uid @ ''.vcf'') u")
    case None
    then have "bind_task (pure_task (ok_or (ev_push_segment E (uid @ ''.vcf'') u) e)) f = fail_task e"
      by (intro ext) simp
    with that(2) show ?thesis by (simp add: dav_ok_fail)
  next
    case (Some v)
    then have "bind_task (pure_task (ok_or (ev_push_segment E (uid @ ''.vcf'') u) e)) f = f v"
      by (intro ext) simp
    with that(3) cleared [OF that(1) Some] show ?thesis by simp
  qed
  show ?thesis
    unfolding create_contact_def Let_def
    by (rule dav_ok_resolve, rule step) (intro dav_ok_intros dav_ok_send | simp)+
qed

subsection \<open>Discovery\<close>

definition well_formed_client :: "('u, 'h, 'ip) dav_env \<Rightarrow> ('u, 'ip) dav_client \<Rightarrow> bool" where
  "well_formed_client E C \<longleftrightarrow> same_origin E (cl_discovery_url C) (cl_base_url C)"

lemma client_new_well_formed:
  assumes "url_laws E" "dav_client_new E b ip n = Inr C"
  shows "well_formed_client E C \<and> cl_max_response_bytes C = n \<and> 0 < n"
  using assms
  by (auto simp: dav_client_new_def Let_def and_then_Ok url_laws_def well_formed_client_def split: if_splits)

lemma dav_ok_fetch: "well_formed_client E C \<Longrightarrow> dav_ok E C token (discover_fetch E C token)"
  unfolding discover_fetch_def
  by (intro dav_ok_intros dav_ok_propfind) (simp_all add: well_formed_client_def)

lemma dav_ok_store [dav_ok_intros]: "dav_ok E C token (store_discovery E token d)"
  unfolding store_discovery_def
  by (intro dav_ok_intros) (auto simp: dav_ok_def intro: run_contract_silent)

lemma dav_ok_discover:
  assumes "well_formed_client E C"
  shows "dav_ok E C token (discover E C token)"
proof -
  have miss: "dav_ok E C token (bind_task (discover_fetch E C token) (\<lambda>d.
      bind_task (store_discovery E token d) (\<lambda>_. return_task d)))"
    by (intro dav_ok_intros dav_ok_fetch assms)
  have "dav_ok E C token (\<lambda>s. case discovery_lookup now (ev_sha E token) (ds_discoveries s) of
         Some discovery \<Rightarrow> return_task discovery s
       | None \<Rightarrow> bind_task (discover_fetch E C token) (\<lambda>discovery.
           bind_task (store_discovery E token discovery) (\<lambda>_. return_task discovery)) s)" for now
    using miss by (auto simp: dav_ok_def intro!: run_contract_silent split: option.splits)
  then show ?thesis unfolding discover_def by (intro dav_ok_intros)
qed

lemma dav_ok_list_books:
  assumes "well_formed_client E C"
  shows "dav_ok E C token (list_address_books E C token)"
  unfolding list_address_books_def
  by (intro dav_ok_intros dav_ok_discover dav_ok_propfind assms) simp_all

lemma outcome_contract:
  assumes "dav_ok E C token m" "outcome (m s) = (e, s')"
  shows "run_contract E C token s e s'"
proof -
  obtain r t where m: "m s = (r, t)" by (cases "m s")
  with assms(2) have "e = error_of r" "t = s'" by (auto simp: outcome_def error_of_def split: sum.splits)
  with m assms(1) show ?thesis by (simp add: dav_ok_def)
qed

lemma dav_run_contract:
  assumes "url_laws E" "well_formed_client E C" "dav_run E C op s = (e, s')"
  shows "run_contract E C (op_token op) s e s'"
  using assms(3)
  by (cases op)
    (auto elim!: outcome_contract [rotated] intro: dav_ok_discover dav_ok_list_books dav_ok_list_contacts
      dav_ok_search dav_ok_get dav_ok_create dav_ok_update dav_ok_delete assms(1,2))

subsection \<open>The discovery cache is a bounded map\<close>

lemma discovery_insert_put:
  "discovery_insert now k d m
    = capped_put DISCOVERY_CAP (\<lambda>_ e. now - cd_cached_at e < DISCOVERY_TTL) cd_cached_at k
        \<lparr>cd_discovery = d, cd_cached_at = now\<rparr> m"
  by (simp only: discovery_insert_def capped_put_def)

lemma DISCOVERY_CAP_pos: "0 < DISCOVERY_CAP"
  by (simp add: DISCOVERY_CAP_def)

interpretation discoveries: capped_insert DISCOVERY_CAP discovery_insert
  "\<lambda>now d. \<lparr>cd_discovery = d, cd_cached_at = now\<rparr>"
  by unfold_locales
     (auto simp: DISCOVERY_CAP_pos discovery_insert_put hm_wf_capped_put hm_len_capped_put hm_get_capped_put
       dest: hm_get_capped_put_other)

subsection \<open>Where a discovery comes from\<close>

text \<open>The log holds a request to \<open>u\<close> with this bearer whose whole answer has this body.\<close>

definition answered ::
  "('u, 'h, 'ip) dav_env \<Rightarrow> ('u, 'ip) dav_client \<Rightarrow> 'u dav_request list \<Rightarrow> string \<Rightarrow> 'u \<Rightarrow> string \<Rightarrow> bool" where
  "answered E C log token u body \<longleftrightarrow>
     (\<exists>before req after w. log = before @ req # after \<and> rq_url req = u
        \<and> bearer_auth_header token \<in> set (rq_headers req)
        \<and> ev_reply E before req = Responded w \<and> rw_status w \<in> {200, 207}
        \<and> read_limited w (cl_max_response_bytes C) = Ok body)"

definition obtained ::
  "('u, 'h, 'ip) dav_env \<Rightarrow> ('u, 'ip) dav_client \<Rightarrow> 'u dav_request list \<Rightarrow> string \<Rightarrow> dav_discovery \<Rightarrow> bool" where
  "obtained E C log token d \<longleftrightarrow>
     (\<exists>body1 items1 u body2 items2.
        answered E C log token (cl_discovery_url C) body1
        \<and> parse_multistatus (ev_xml_entity E) (ev_xml_events E body1) = Ok items1
        \<and> find_map pr_current_user_principal items1 = Some (dd_principal_href d)
        \<and> resolve_href E C (dd_principal_href d) = Ok u
        \<and> answered E C log token u body2
        \<and> parse_multistatus (ev_xml_entity E) (ev_xml_events E body2) = Ok items2
        \<and> find_map pr_addressbook_home items2 = Some (dd_addressbook_home_href d)
        \<and> is_ok (resolve_href E C (dd_addressbook_home_href d)))"

lemma answered_mono: "answered E C log token u body \<Longrightarrow> answered E C (log @ later) token u body"
  unfolding answered_def by (metis append.assoc append_Cons)

lemma obtained_mono: "obtained E C log token d \<Longrightarrow> obtained E C (log @ later) token d"
  unfolding obtained_def by (meson answered_mono)

lemma propfind_Ok:
  assumes "propfind E C token u depth body s = (Inr r, s')"
  shows "\<exists>req. s' = s\<lparr>ds_sent := ds_sent s @ [req]\<rparr> \<and> answered E C (ds_sent s') token u (hp_body r)"
proof -
  let ?q = "\<lparr>rq_method = ''PROPFIND'', rq_url = u,
          rq_headers = [(''depth'', depth), (''content-type'', ''application/xml; charset=utf-8''),
                        (''accept'', ''application/xml'')], rq_body = Some body\<rparr>"
  let ?req = "?q\<lparr>rq_headers := rq_headers ?q @ [bearer_auth_header token]\<rparr>"
  from assms have sent: "send E C token ?q s = (Inr r, s')" and st: "hp_status r \<in> {200, 207}"
    by (auto simp: propfind_def bind_task_Ok ensure_multistatus_def split: sum.splits if_splits)
  from sent obtain w where w: "ev_reply E (ds_sent s) ?req = Responded w" "rw_status w = hp_status r"
    "read_limited w (cl_max_response_bytes C) = Inr (hp_body r)" "s' = s\<lparr>ds_sent := ds_sent s @ [?req]\<rparr>"
    by (auto simp: send_def Let_def and_then_Ok split: exchange.splits if_splits)
  have "answered E C (ds_sent s @ ?req # []) token u (hp_body r)"
    unfolding answered_def
    by (rule exI [of _ "ds_sent s"], rule exI [of _ ?req], rule exI [of _ "[]"], rule exI [of _ w])
       (use w st in simp)
  with w(4) show ?thesis by (intro exI [of _ ?req]) simp
qed

lemma discover_fetch_Ok:
  assumes "discover_fetch E C token s = (Inr d, s')"
  shows "\<exists>new. s' = s\<lparr>ds_sent := ds_sent s @ new\<rparr> \<and> new \<noteq> [] \<and> obtained E C (ds_sent s') token d"
proof -
  from assms obtain r1 s1 items1 p u r2 items2 h v where f:
    "propfind E C token (cl_discovery_url C) ''0'' CURRENT_USER_PRINCIPAL_BODY s = (Inr r1, s1)"
    "parse_body E r1 = Inr items1" "find_map pr_current_user_principal items1 = Some p"
    "resolve_href E C p = Inr u" "propfind E C token u ''0'' ADDRESSBOOK_HOME_BODY s1 = (Inr r2, s')"
    "parse_body E r2 = Inr items2" "find_map pr_addressbook_home items2 = Some h"
    "resolve_href E C h = Inr v"
    and d: "d = \<lparr>dd_principal_href = p, dd_addressbook_home_href = h\<rparr>"
    by (auto simp: discover_fetch_def bind_task_Ok simp del: bind_pure)
  from propfind_Ok [OF f(1)] obtain q1 where q1: "s1 = s\<lparr>ds_sent := ds_sent s @ [q1]\<rparr>"
    "answered E C (ds_sent s1) token (cl_discovery_url C) (hp_body r1)" by blast
  from propfind_Ok [OF f(5)] obtain q2 where q2: "s' = s1\<lparr>ds_sent := ds_sent s1 @ [q2]\<rparr>"
    "answered E C (ds_sent s') token u (hp_body r2)" by blast
  have "answered E C (ds_sent s') token (cl_discovery_url C) (hp_body r1)"
    using answered_mono [OF q1(2), of "[q2]"] q2(1) by simp
  with f q2(2) d have "obtained E C (ds_sent s') token d"
    unfolding obtained_def parse_body_def
    by (intro exI [of _ "hp_body r1"] exI [of _ items1] exI [of _ u] exI [of _ "hp_body r2"] exI [of _ items2]) simp
  with q1(1) q2(1) show ?thesis by (intro exI [of _ "[q1, q2]"]) simp
qed

text \<open>The invariant, and the tasks that only forget.\<close>

definition dav_inv :: "('u, 'h, 'ip) dav_env \<Rightarrow> ('u, 'ip) dav_client \<Rightarrow> ('u, 'h) dav_state \<Rightarrow> bool" where
  "dav_inv E C s \<longleftrightarrow> discoveries.inv (ds_discoveries s)
     \<and> (\<forall>k e. hm_get (ds_discoveries s) k = Some e \<longrightarrow>
          (\<exists>t n. ev_sha E t = k \<and> obtained E C (ds_sent s) t (cd_discovery e)
             \<and> n < ds_ticks s \<and> cd_cached_at e = ev_clock E n))"

definition forgets :: "('u, 'h) dav_state \<Rightarrow> ('u, 'h) dav_state \<Rightarrow> bool" where
  "forgets s s' \<longleftrightarrow> (discoveries.inv (ds_discoveries s) \<longrightarrow> discoveries.inv (ds_discoveries s'))
     \<and> (\<forall>k e. hm_get (ds_discoveries s') k = Some e \<longrightarrow> hm_get (ds_discoveries s) k = Some e)
     \<and> (\<exists>new. ds_sent s' = ds_sent s @ new) \<and> ds_ticks s \<le> ds_ticks s'"

lemma forgets_refl: "reflp forgets"
  by (simp add: reflp_def forgets_def)

lemma forgets_trans: "transp forgets"
  unfolding transp_def forgets_def by (metis append.assoc le_trans)

lemma forgets_inv: "forgets s s' \<Longrightarrow> dav_inv E C s \<Longrightarrow> dav_inv E C s'"
  unfolding dav_inv_def forgets_def by (metis obtained_mono order_less_le_trans)

lemma discoveries_inv_remove: "discoveries.inv m \<Longrightarrow> discoveries.inv (hm_remove k m)"
  using hm_len_remove_le [of k m] by (auto simp: discoveries.inv_def)

lemma forgets_send: "steps forgets (send E C token q)"
  by (auto simp: steps_def send_def Let_def forgets_def evict_def discoveries_inv_remove split: exchange.splits if_splits)

lemma forgets_clock: "steps forgets (read_clock E)"
  by (simp add: steps_def read_clock_def forgets_def)

lemmas forgets_rules =
  steps_bind [OF forgets_trans] steps_simple(1) [OF forgets_refl] steps_simple(2) [OF forgets_refl]
  steps_simple(3) [OF forgets_refl] forgets_send forgets_clock

lemma forgets_if: "steps R m \<Longrightarrow> steps R n \<Longrightarrow> steps R (if b then m else n)"
  by simp

lemma forgets_propfind: "steps forgets (propfind E C token u depth body)"
  unfolding propfind_def by (intro forgets_rules)

lemma forgets_query: "steps forgets (query_contacts E C token book body)"
  unfolding query_contacts_def by (intro forgets_rules)

lemma forgets_ops:
  "steps forgets (list_contacts E C token book)" "steps forgets (search_contacts E C token book q)"
  "steps forgets (get_contact E C token href)" "steps forgets (create_contact E C token book uid vcard)"
  "steps forgets (update_contact E C token href etag vcard)" "steps forgets (delete_contact E C token href etag)"
  "steps forgets (discover_fetch E C token)"
  unfolding list_contacts_def search_contacts_def get_contact_def create_contact_def Let_def
    update_contact_def delete_contact_def discover_fetch_def
  by (intro forgets_rules forgets_query forgets_propfind forgets_if)+

lemma inv_store:
  assumes "dav_inv E C s" "obtained E C (ds_sent s) token d" "store_discovery E token d s = (r, s')"
  shows "dav_inv E C s' \<and> ds_sent s' = ds_sent s \<and> r = Inr ()"
proof -
  let ?now = "ev_clock E (ds_ticks s)"
  from assms(3) have s': "s' = s\<lparr>ds_ticks := Suc (ds_ticks s),
      ds_discoveries := discovery_insert ?now (ev_sha E token) d (ds_discoveries s)\<rparr>" "r = Inr ()"
    by (simp_all add: store_discovery_def bind_task_def read_clock_def)
  have inv: "discoveries.inv (ds_discoveries s)" and wf: "hm_wf (ds_discoveries s)"
    using assms(1) by (simp_all add: dav_inv_def discoveries.inv_def)
  have "\<exists>t n. ev_sha E t = k \<and> obtained E C (ds_sent s) t (cd_discovery e)
      \<and> n < Suc (ds_ticks s) \<and> cd_cached_at e = ev_clock E n"
    if "hm_get (discovery_insert ?now (ev_sha E token) d (ds_discoveries s)) k = Some e" for k e
  proof (cases "k = ev_sha E token")
    case True
    with that discoveries.get_ins_same [OF wf, of ?now "ev_sha E token" d] assms(2) show ?thesis
      by (intro exI [of _ token] exI [of _ "ds_ticks s"]) auto
  next
    case False
    from discoveries.get_ins_other [OF wf False that] assms(1) show ?thesis
      unfolding dav_inv_def by (meson less_SucI)
  qed
  with s' discoveries.inv_ins [OF inv] show ?thesis by (simp add: dav_inv_def)
qed

lemma discover_cases:
  assumes "dav_inv E C s" "discover E C token s = (r, s')"
  shows "dav_inv E C s' \<and> (\<forall>d. r = Inr d \<longrightarrow>
    (\<exists>new. ds_sent s' = ds_sent s @ new \<and> new \<noteq> []) \<and> obtained E C (ds_sent s') token d
    \<or> ds_sent s' = ds_sent s \<and> ds_discoveries s' = ds_discoveries s
      \<and> discovery_lookup (ev_clock E (ds_ticks s)) (ev_sha E token) (ds_discoveries s) = Some d)"
proof -
  let ?now = "ev_clock E (ds_ticks s)" and ?s = "s\<lparr>ds_ticks := Suc (ds_ticks s)\<rparr>"
  have inv: "dav_inv E C ?s" by (rule forgets_inv [OF _ assms(1)]) (simp add: forgets_def)
  show ?thesis
  proof (cases "discovery_lookup ?now (ev_sha E token) (ds_discoveries s)")
    case (Some d)
    with assms(2) have "r = Inr d" "s' = ?s" by (auto simp: discover_def bind_task_def read_clock_def)
    with inv Some show ?thesis by simp
  next
    case None
    with assms(2) have b: "bind_task (discover_fetch E C token) (\<lambda>d.
        bind_task (store_discovery E token d) (\<lambda>_. return_task d)) ?s = (r, s')"
      by (auto simp: discover_def bind_task_def read_clock_def)
    obtain r1 s1 where f: "discover_fetch E C token ?s = (r1, s1)" by (cases "discover_fetch E C token ?s")
    have inv1: "dav_inv E C s1" using forgets_inv [OF steps_run [OF forgets_ops(7) f] inv] .
    show ?thesis
    proof (cases r1)
      case (Inl e)
      with b f inv1 show ?thesis by auto
    next
      case (Inr d)
      from discover_fetch_Ok [OF f [unfolded Inr]] obtain new where n:
        "s1 = ?s\<lparr>ds_sent := ds_sent ?s @ new\<rparr>" "new \<noteq> []" "obtained E C (ds_sent s1) token d" by blast
      obtain r2 s2 where st: "store_discovery E token d s1 = (r2, s2)" by (cases "store_discovery E token d s1")
      from inv_store [OF inv1 n(3) st] have i: "dav_inv E C s2" "ds_sent s2 = ds_sent s1" "r2 = Inr ()" by auto
      with b f Inr st have "r = Inr d" "s' = s2" by auto
      with i n show ?thesis by auto
    qed
  qed
qed

lemma list_books_inv:
  assumes "dav_inv E C s" "list_address_books E C token s = (r, s')"
  shows "dav_inv E C s'"
proof -
  obtain r1 s1 where d: "discover E C token s = (r1, s1)" by (cases "discover E C token s")
  from discover_cases [OF assms(1) d] have i: "dav_inv E C s1" by simp
  show ?thesis
  proof (cases r1)
    case (Inl e)
    with assms(2) d i show ?thesis by (auto simp: list_address_books_def)
  next
    case (Inr dd)
    let ?rest = "bind_task (pure_task (resolve_href E C (dd_addressbook_home_href dd))) (\<lambda>home_url.
       bind_task (propfind E C token home_url ''1'' LIST_ADDRESSBOOKS_BODY) (\<lambda>response.
       bind_task (pure_task (parse_body E response)) (\<lambda>parsed.
         pure_task (collect_books E C (normalize_href (dd_addressbook_home_href dd)) parsed))))"
    have "steps forgets ?rest" by (intro forgets_rules forgets_propfind)
    moreover have "?rest s1 = (r, s')" using assms(2) d Inr by (simp add: list_address_books_def del: bind_pure)
    ultimately show ?thesis using i by (meson forgets_inv steps_run)
  qed
qed

lemma outcome_inv:
  "outcome (m s) = (e, s') \<Longrightarrow> (\<And>r t. m s = (r, t) \<Longrightarrow> dav_inv E C t) \<Longrightarrow> dav_inv E C s'"
  by (cases "m s") (auto simp: outcome_def split: sum.splits)

lemma forgets_task: "steps forgets m \<Longrightarrow> m s = (r, t) \<Longrightarrow> dav_inv E C s \<Longrightarrow> dav_inv E C t"
  using forgets_inv steps_run [where R = forgets] by blast

lemma dav_run_inv:
  assumes "dav_inv E C s" "dav_run E C op s = (e, s')"
  shows "dav_inv E C s'"
  using assms(2)
proof (cases op)
  case (OpDiscover t)
  with assms(2) show ?thesis by (auto elim!: outcome_inv dest: discover_cases [OF assms(1)])
next
  case (OpListBooks t)
  with assms(2) show ?thesis by (auto elim!: outcome_inv dest: list_books_inv [OF assms(1)])
qed (auto elim!: outcome_inv intro: forgets_task [OF forgets_ops(1) _ assms(1)] forgets_task [OF forgets_ops(2) _ assms(1)]
       forgets_task [OF forgets_ops(3) _ assms(1)] forgets_task [OF forgets_ops(4) _ assms(1)]
       forgets_task [OF forgets_ops(5) _ assms(1)] forgets_task [OF forgets_ops(6) _ assms(1)])

fun dav_runs ::
  "('u, 'h, 'ip) dav_env \<Rightarrow> ('u, 'ip) dav_client \<Rightarrow> dav_op list \<Rightarrow> ('u, 'h) dav_state \<Rightarrow> ('u, 'h) dav_state" where
  "dav_runs E C [] s = s"
| "dav_runs E C (op # ops) s = dav_runs E C ops (snd (dav_run E C op s))"

lemma dav_runs_inv: "dav_inv E C s \<Longrightarrow> dav_inv E C (dav_runs E C ops s)"
proof (induction ops arbitrary: s)
  case (Cons op ops)
  obtain e s' where r: "dav_run E C op s = (e, s')" by (cases "dav_run E C op s")
  with Cons.IH [OF dav_run_inv [OF Cons.prems r]] show ?case by simp
qed simp

lemma dav_inv_start: "dav_inv E C dav_start"
  by (simp add: dav_inv_def dav_start_def discoveries.inv_empty)

subsection \<open>Bodies within the cap\<close>

definition received :: "string option list \<Rightarrow> string" where
  "received chunks = concat (map the (takeWhile (\<lambda>c. c \<noteq> None) chunks))"

lemma received_simps [simp]:
  "received [] = []" "received (None # cs) = []" "received (Some c # cs) = c @ received cs"
  by (simp_all add: received_def)

lemma read_chunks_spec:
  "max_bytes < USIZE_MAX \<Longrightarrow> length body \<le> max_bytes \<Longrightarrow>
   read_chunks max_bytes body cs =
     (if length body + length (received cs) > max_bytes then Err TooLarge
      else if None \<in> set cs then Err HttpError else Ok (body @ received cs))"
proof (induction max_bytes body cs rule: read_chunks.induct)
  case (3 max_bytes body chunk rest)
  then show ?case by (cases "length body + length chunk > max_bytes") auto
qed simp_all

lemma read_prefix_spec:
  "length body \<le> max_bytes \<Longrightarrow> read_prefix max_bytes body cs = take max_bytes (body @ received cs)"
proof (induction max_bytes body cs rule: read_prefix.induct)
  case (2 max_bytes body chunk rest)
  show ?case
  proof (cases chunk)
    case None
    with 2(2) show ?thesis by auto
  next
    case (Some c)
    show ?thesis
    proof (cases "length body < max_bytes \<and> length c < max_bytes - length body")
      case True
      then have "length (body @ c) \<le> max_bytes" by (simp add: less_diff_conv)
      with 2(1) [OF _ Some refl refl] True Some show ?thesis by (simp add: Let_def min_def)
    next
      case False
      with 2(2) Some show ?thesis by (auto simp: Let_def)
    qed
  qed
qed simp

subsection \<open>Conditional writes\<close>

fun op_precondition :: "dav_op \<Rightarrow> (string \<times> string) option" where
  "op_precondition (OpCreate t b u v) = Some (''if-none-match'', ''*'')"
| "op_precondition (OpUpdate t h e v) = Some (''if-match'', case e of Some x \<Rightarrow> x | None \<Rightarrow> ''*'')"
| "op_precondition (OpDelete t h e) = Some (''if-match'', case e of Some x \<Rightarrow> x | None \<Rightarrow> ''*'')"
| "op_precondition _ = None"

fun op_target :: "dav_op \<Rightarrow> string" where
  "op_target (OpCreate t b u v) = b"
| "op_target (OpUpdate t h e v) = h"
| "op_target (OpDelete t h e) = h"
| "op_target _ = []"

text \<open>Method, URL and body of a write; \<open>None\<close> when its URL cannot be built.\<close>

fun op_write ::
  "('u, 'h, 'ip) dav_env \<Rightarrow> ('u, 'ip) dav_client \<Rightarrow> dav_op \<Rightarrow> (string \<times> 'u \<times> string option) option" where
  "op_write E C (OpCreate t b u v) =
     (case resolve_href E C b of
        Inl _ \<Rightarrow> None
      | Inr base \<Rightarrow> map_option (\<lambda>w. (''PUT'', ev_clear_fragment E (ev_clear_query E w), Some v))
          (ev_push_segment E (u @ ''.vcf'') base))"
| "op_write E C (OpUpdate t h e v) =
     (case resolve_href E C h of Inl _ \<Rightarrow> None | Inr u \<Rightarrow> Some (''PUT'', u, Some v))"
| "op_write E C (OpDelete t h e) =
     (case resolve_href E C h of Inl _ \<Rightarrow> None | Inr u \<Rightarrow> Some (''DELETE'', u, None))"
| "op_write E C _ = None"

fun write_success :: "dav_op \<Rightarrow> nat set" where
  "write_success (OpDelete t h e) = {200, 204}"
| "write_success _ = {200, 201, 204}"

fun write_missing :: "dav_op \<Rightarrow> nat set" where
  "write_missing (OpCreate t b u v) = {}"
| "write_missing _ = {404}"

text \<open>The error, if any, an answer to a write stands for.\<close>

definition write_status :: "dav_op \<Rightarrow> nat \<Rightarrow> carddav_error option" where
  "write_status op n =
     (if n \<in> write_success op then None
      else if n \<in> {409, 412} then Some Conflict
      else if n \<in> write_missing op then Some NotFound
      else Some (Upstream n))"

definition write_outcome :: "dav_op \<Rightarrow> nat \<Rightarrow> exchange \<Rightarrow> carddav_error option" where
  "write_outcome op cap answer =
     (case answer of
        SendFailed \<Rightarrow> Some HttpError
      | Responded w \<Rightarrow>
          if rw_status w \<in> {401, 403} then Some Unauthorized
          else case read_limited w cap of
              Inl e \<Rightarrow> Some e
            | Inr _ \<Rightarrow> write_status op (rw_status w))"

text \<open>What each write does, in the form the property below states for all of them.\<close>

definition write_done ::
  "('u, 'h, 'ip) dav_env \<Rightarrow> ('u, 'ip) dav_client \<Rightarrow> dav_op \<Rightarrow> ('u, 'h) dav_state \<Rightarrow> carddav_error option
     \<Rightarrow> ('u, 'h) dav_state \<Rightarrow> bool" where
  "write_done E C op s e s' \<longleftrightarrow>
     (case op_write E C op of
        None \<Rightarrow> s' = s \<and> e = Some (InvalidHref (op_target op))
      | Some (meth, url, body) \<Rightarrow>
          (\<exists>q. ds_sent s' = ds_sent s @ [q] \<and> rq_method q = meth \<and> rq_url q = url \<and> rq_body q = body
             \<and> filter (\<lambda>h. fst h \<in> {''if-match'', ''if-none-match''}) (rq_headers q)
               = [the (op_precondition op)]
             \<and> e = write_outcome op (cl_max_response_bytes C) (ev_reply E (ds_sent s) q)))"

lemma write_done_send:
  assumes "op_write E C op = Some (rq_method q, rq_url q, rq_body q)"
    and "filter (\<lambda>h. fst h \<in> {''if-match'', ''if-none-match''}) (rq_headers q) = [the (op_precondition op)]"
    and "\<And>(r :: raw_response) y x. rw_status r \<notin> {401, 403} \<Longrightarrow>
      outcome (f \<lparr>hp_status = rw_status r, hp_body = y, hp_etag = rw_header r ''etag'',
        hp_location = rw_header r ''location''\<rparr> x) = (write_status op (rw_status r), x)"
    and o: "outcome (bind_task (send E C t q) f s) = (e, s')"
  shows "write_done E C op s e s'"
proof -
  let ?q = "q\<lparr>rq_headers := rq_headers q @ [bearer_auth_header t]\<rparr>"
  have "ds_sent s' = ds_sent s @ [?q] \<and> e = write_outcome op (cl_max_response_bytes C) (ev_reply E (ds_sent s) ?q)"
  proof (cases "ev_reply E (ds_sent s) ?q")
    case SendFailed
    with o show ?thesis by (auto simp: bind_task_def send_def Let_def outcome_def write_outcome_def)
  next
    case (Responded w)
    note answer = this
    show ?thesis
    proof (cases "rw_status w \<in> {401, 403}")
      case True
      with answer o show ?thesis
        by (auto simp: bind_task_def send_def Let_def evict_def outcome_def write_outcome_def)
    next
      case False
      show ?thesis
      proof (cases "read_limited w (cl_max_response_bytes C)")
        case (Inl y)
        with answer False o show ?thesis
          by (auto simp: bind_task_def send_def Let_def outcome_def write_outcome_def)
      next
        case (Inr y)
        from assms(3) [OF False, of y "s\<lparr>ds_sent := ds_sent s @ [?q]\<rparr>"] answer False Inr o show ?thesis
          by (auto simp: bind_task_def send_def Let_def write_outcome_def)
      qed
    qed
  qed
  then have sent: "ds_sent s' = ds_sent s @ [?q]"
    and e: "e = write_outcome op (cl_max_response_bytes C) (ev_reply E (ds_sent s) ?q)" by blast+
  have "filter (\<lambda>h. fst h \<in> {''if-match'', ''if-none-match''}) (rq_headers ?q) = [the (op_precondition op)]"
    using assms(2) by (simp add: bearer_auth_header_def)
  with sent e show ?thesis
    unfolding write_done_def assms(1) option.case prod.case by (intro exI [of _ ?q]) simp
qed

lemma outcome_simps [simp]: "outcome (Inl e, t) = (Some e, t)" "outcome (Inr a, t) = (None, t)"
  by (simp_all add: outcome_def)

lemma write_done_create:
  assumes "outcome (create_contact E C t b u v s) = (e, s')"
  shows "write_done E C (OpCreate t b u v) s e s'"
proof (cases "resolve_href E C b")
  case (Inl x)
  with assms resolve_href_Err [OF Inl] show ?thesis by (simp add: create_contact_def write_done_def)
next
  case (Inr base)
  show ?thesis
  proof (cases "ev_push_segment E (u @ ''.vcf'') base")
    case None
    with assms Inr show ?thesis by (simp add: create_contact_def write_done_def)
  next
    case (Some w)
    from assms Inr Some show ?thesis
      by (simp add: create_contact_def Let_def) (erule write_done_send [rotated 3], auto simp: write_status_def)
  qed
qed

lemma write_done_update:
  assumes "outcome (update_contact E C t h et v s) = (e, s')"
  shows "write_done E C (OpUpdate t h et v) s e s'"
proof (cases "resolve_href E C h")
  case (Inl x)
  with assms resolve_href_Err [OF Inl] show ?thesis by (simp add: update_contact_def write_done_def)
next
  case (Inr u)
  with assms show ?thesis
    by (simp add: update_contact_def) (erule write_done_send [rotated 3], auto simp: write_status_def if_match_def)
qed

lemma write_done_delete:
  assumes "outcome (delete_contact E C t h et s) = (e, s')"
  shows "write_done E C (OpDelete t h et) s e s'"
proof (cases "resolve_href E C h")
  case (Inl x)
  with assms resolve_href_Err [OF Inl] show ?thesis by (simp add: delete_contact_def write_done_def)
next
  case (Inr u)
  with assms show ?thesis
    by (simp add: delete_contact_def) (erule write_done_send [rotated 3], auto simp: write_status_def if_match_def)
qed

subsection \<open>A concrete server\<close>

text \<open>
  URLs of the sample are a host and a path; joining follows an absolute URL to its host. The server
  answers every bearer but one with a document that holds all the client looks for.
\<close>

definition sample_join :: "string \<times> string \<Rightarrow> string \<Rightarrow> (string \<times> string) option" where
  "sample_join u href =
     (case strip_prefix ''https://'' href of
        Some r \<Rightarrow> Some (takeWhile (\<lambda>c. c \<noteq> CHR ''/'') r, dropWhile (\<lambda>c. c \<noteq> CHR ''/'') r)
      | None \<Rightarrow> Some (fst u, if starts_with ''/'' href then href else snd u @ href))"

definition sample_listing :: "node list" where
  "sample_listing =
     [Note, Element ''multistatus'' [Element ''response''
       [Element ''href'' [Data (Chars ''/card/'')],
        Element ''propstat''
         [Element ''prop''
           [Element ''current-user-principal'' [Element ''href'' [Data (Chars ''/me/'')]],
            Element ''addressbook-home-set'' [Element ''href'' [Data (Chars ''/card/'')]]],
          Element ''status'' [Data (Chars ''HTTP/1.1 200 OK'')]]]]]"

definition sample_env :: "(string \<times> string, string, nat) dav_env" where
  "sample_env =
     \<lparr>ev_parse = (\<lambda>s. sample_join ([], []) s), ev_join = sample_join, ev_scheme = (\<lambda>_. ''https''),
      ev_host = (\<lambda>u. Some (fst u)), ev_port = (\<lambda>_. Some 443), ev_username = (\<lambda>_. []), ev_password = (\<lambda>_. None),
      ev_fragment = (\<lambda>_. None), ev_path = snd, ev_set_path = (\<lambda>p u. (fst u, p)), ev_clear_query = (\<lambda>u. u),
      ev_clear_fragment = (\<lambda>u. u), ev_push_segment = (\<lambda>seg u. Some (fst u, snd u @ seg)), ev_sha = (\<lambda>t. t),
      ev_parse_ip = (\<lambda>_. None), ev_xml_events = (\<lambda>_. concat (map node_events sample_listing)),
      ev_xml_entity = predefined_entity, ev_utf8_error = (\<lambda>_. []), ev_client_builds = True, ev_clock = (\<lambda>n. n),
      ev_reply = (\<lambda>_ q. Responded \<lparr>rw_status = (if bearer_auth_header ''bad'' \<in> set (rq_headers q) then 401 else 207),
        rw_header = (\<lambda>_. None), rw_chunks = [Some ''<xml/>'']\<rparr>)\<rparr>"

definition sample_client :: "(string \<times> string, nat) dav_client" where
  "sample_client = \<lparr>cl_base_url = (''dav'', ''/''), cl_discovery_url = (''dav'', ''/.well-known/carddav''),
     cl_max_response_bytes = 1000, cl_resolve = None\<rparr>"

lemma sample_laws: "url_laws sample_env"
  by (auto simp: url_laws_def sample_env_def same_origin_def sample_join_def strip_prefix_def split: if_splits)

lemma sample_client_new: "dav_client_new sample_env ''https://dav'' None 1000 = Ok sample_client"
  by (simp add: dav_client_new_def sample_env_def sample_join_def strip_prefix_def sample_client_def Let_def
      ends_with_def)

lemma sample_parse:
  "parse_multistatus predefined_entity (concat (map node_events sample_listing))
    = Ok (map (response_value predefined_entity) (concat (map responses_of sample_listing)))"
  by (rule parse_document) (simp add: sample_listing_def field_at_def)

lemma sample_values:
  "map (response_value predefined_entity) (concat (map responses_of sample_listing)) =
    [parsed_default\<lparr>pr_href := Some ''/card/'', pr_current_user_principal := Some ''/me/'',
       pr_addressbook_home := Some ''/card/''\<rparr>]"
  by (simp add: sample_listing_def response_value_def field_at_def pieces_value_def parsed_default_def
      trim_def trim_end_def ws1_def ws2_def ws3_def code_def)

lemma sample_resolve: "resolve_href sample_env sample_client ''/me/'' = Ok (''dav'', ''/me/'')"
  "resolve_href sample_env sample_client ''/card/'' = Ok (''dav'', ''/card/'')"
  by (simp_all add: resolve_href_def sample_env_def sample_client_def sample_join_def strip_prefix_def same_origin_def
      trim_def trim_end_def ws1_def ws2_def ws3_def code_def)

lemma sample_send:
  "bearer_auth_header ''bad'' \<notin> set (rq_headers q) \<Longrightarrow> t \<noteq> ''bad'' \<Longrightarrow>
   send sample_env sample_client t q s =
     (Inr \<lparr>hp_status = 207, hp_body = ''<xml/>'', hp_etag = None, hp_location = None\<rparr>,
      s\<lparr>ds_sent := ds_sent s @ [q\<lparr>rq_headers := rq_headers q @ [bearer_auth_header t]\<rparr>]\<rparr>)"
  by (simp add: send_def sample_env_def sample_client_def read_limited_def USIZE_MAX_def bearer_auth_header_def Let_def)

lemma sample_parse_body:
  "parse_body sample_env r = Ok
    [parsed_default\<lparr>pr_href := Some ''/card/'', pr_current_user_principal := Some ''/me/'',
       pr_addressbook_home := Some ''/card/''\<rparr>]"
proof -
  have "ev_xml_entity sample_env = predefined_entity" "ev_xml_events sample_env b = concat (map node_events sample_listing)" for b
    by (simp_all add: sample_env_def)
  then show ?thesis by (simp only: parse_body_def sample_parse sample_values)
qed

lemma sample_propfind:
  "t \<noteq> ''bad'' \<Longrightarrow> \<exists>q. propfind sample_env sample_client t u d b s =
     (Inr \<lparr>hp_status = 207, hp_body = ''<xml/>'', hp_etag = None, hp_location = None\<rparr>,
      s\<lparr>ds_sent := ds_sent s @ [q]\<rparr>)"
  by (intro exI) (simp add: propfind_def bind_task_def sample_send bearer_auth_header_def ensure_multistatus_def)

lemma sample_fetch:
  assumes "t \<noteq> ''bad''"
  shows "\<exists>q1 q2. discover_fetch sample_env sample_client t s =
    (Inr \<lparr>dd_principal_href = ''/me/'', dd_addressbook_home_href = ''/card/''\<rparr>,
     s\<lparr>ds_sent := ds_sent s @ [q1, q2]\<rparr>)"
proof -
  from sample_propfind [OF assms, of "cl_discovery_url sample_client" "''0''" CURRENT_USER_PRINCIPAL_BODY s]
  obtain q1 where q1: "propfind sample_env sample_client t (cl_discovery_url sample_client) ''0''
      CURRENT_USER_PRINCIPAL_BODY s = (Inr \<lparr>hp_status = 207, hp_body = ''<xml/>'', hp_etag = None, hp_location = None\<rparr>,
      s\<lparr>ds_sent := ds_sent s @ [q1]\<rparr>)" by blast
  from sample_propfind [OF assms, of "(''dav'', ''/me/'')" "''0''" ADDRESSBOOK_HOME_BODY "s\<lparr>ds_sent := ds_sent s @ [q1]\<rparr>"]
  obtain q2 where q2: "propfind sample_env sample_client t (''dav'', ''/me/'') ''0'' ADDRESSBOOK_HOME_BODY
      (s\<lparr>ds_sent := ds_sent s @ [q1]\<rparr>) = (Inr \<lparr>hp_status = 207, hp_body = ''<xml/>'', hp_etag = None, hp_location = None\<rparr>,
      s\<lparr>ds_sent := ds_sent s @ [q1, q2]\<rparr>)" by auto
  show ?thesis
    by (rule exI [of _ q1], rule exI [of _ q2])
       (simp add: discover_fetch_def q1 q2 sample_parse_body sample_resolve)
qed

lemma sample_discover:
  assumes "t \<noteq> ''bad''" "hm_get (ds_discoveries s) t = None"
  shows "\<exists>q1 q2 c. discover sample_env sample_client t s =
    (Inr \<lparr>dd_principal_href = ''/me/'', dd_addressbook_home_href = ''/card/''\<rparr>,
     \<lparr>ds_discoveries = c, ds_sent = ds_sent s @ [q1, q2], ds_ticks = ds_ticks s + 2\<rparr>)"
proof -
  have "ev_sha sample_env t = t" by (simp add: sample_env_def)
  with sample_fetch [OF assms(1), of "s\<lparr>ds_ticks := Suc (ds_ticks s)\<rparr>"] assms(2) show ?thesis
    by (cases s) (auto simp: discover_def read_clock_def discovery_lookup_def store_discovery_def bind_task_def)
qed

subsection \<open>Properties\<close>

text \<open>
  The requests the client builds stay on the configured origin and carry the caller's bearer. For a client the
  constructor accepts, any operation in any state and against any server appends to the log only
  requests whose URL has the scheme, host and port of the configured base, and whose one
  \<open>Authorization\<close> header is the caller's bearer: no href of a server, and none of a caller, makes the
  client build a request to elsewhere.
\<close>

theorem requests_confined:
  assumes "url_laws E" "dav_client_new E base ip cap = Ok C" "dav_run E C op s = (e, s')"
  shows "\<exists>new. ds_sent s' = ds_sent s @ new \<and>
    (\<forall>q \<in> set new. same_origin E (rq_url q) (cl_base_url C)
       \<and> filter (\<lambda>h. fst h = ''authorization'') (rq_headers q) = [(''authorization'', ''Bearer '' @ op_token op)])"
proof -
  have "well_formed_client E C" using client_new_well_formed [OF assms(1,2)] by simp
  from dav_run_contract [OF assms(1) this assms(3)] obtain new where
    "ds_sent s' = ds_sent s @ new" "list_all (confined E C (op_token op)) new"
    by (auto simp: run_contract_def)
  then show ?thesis by (intro exI [of _ new]) (auto simp: list_all_iff confined_def bearer_auth_header_def)
qed

theorem requests_confined_witness:
  "\<exists>q1 q2. ds_sent (snd (dav_run sample_env sample_client (OpDiscover ''t'') dav_start)) = [q1, q2]
     \<and> fst (rq_url q2) = ''dav''"
proof -
  obtain e s' where r: "dav_run sample_env sample_client (OpDiscover ''t'') dav_start = (e, s')"
    by (cases "dav_run sample_env sample_client (OpDiscover ''t'') dav_start")
  from sample_discover [of "''t''" dav_start] r obtain q1 q2 where q: "ds_sent s' = [q1, q2]"
    by (auto simp: dav_start_def)
  from requests_confined [OF sample_laws sample_client_new r] q
  have "same_origin sample_env (rq_url q2) (''dav'', ''/'')" by (auto simp: dav_start_def sample_client_def)
  with r q show ?thesis by (simp add: same_origin_def sample_env_def)
qed

text \<open>
  C18: a rejected bearer ends the operation and is forgotten. An operation fails with
  \<open>Unauthorized\<close> exactly when the server answers one of its requests with 401 or 403; that request is
  its last (nothing is retried), none before it was rejected, and afterwards no discovery is cached
  under the bearer.
\<close>

theorem rejected_bearer_evicted:
  assumes "url_laws E" "dav_client_new E base ip cap = Ok C" "dav_run E C op s = (e, s')"
  shows "\<exists>new. ds_sent s' = ds_sent s @ new \<and>
    (if e = Some Unauthorized
     then new \<noteq> [] \<and> rejections E (ds_sent s) new = replicate (length new - 1) False @ [True]
       \<and> discovery_lookup now (ev_sha E (op_token op)) (ds_discoveries s') = None
     else rejections E (ds_sent s) new = replicate (length new) False)"
proof -
  have "well_formed_client E C" using client_new_well_formed [OF assms(1,2)] by simp
  from dav_run_contract [OF assms(1) this assms(3)] obtain new where
    "ds_sent s' = ds_sent s @ new" "if e = Some Unauthorized
     then new \<noteq> [] \<and> rejections E (ds_sent s) new = replicate (length new - 1) False @ [True]
       \<and> hm_get (ds_discoveries s') (ev_sha E (op_token op)) = None
     else rejections E (ds_sent s) new = replicate (length new) False"
    by (auto simp: run_contract_def)
  then show ?thesis by (intro exI [of _ new]) (auto simp: discovery_lookup_def split: if_splits)
qed

theorem rejected_bearer_evicted_witness:
  "\<exists>s'. dav_run sample_env sample_client (OpGet ''bad'' ''/card/'') dav_start = (Some Unauthorized, s')
     \<and> (\<exists>q. ds_sent s' = [q] \<and> rejected sample_env [] q)"
proof -
  have "fst (dav_run sample_env sample_client (OpGet ''bad'' ''/card/'') dav_start) = Some Unauthorized"
    by (simp add: get_contact_def sample_resolve bind_task_def send_def Let_def)
       (simp add: sample_env_def outcome_def bearer_auth_header_def)
  then obtain s' where r: "dav_run sample_env sample_client (OpGet ''bad'' ''/card/'') dav_start = (Some Unauthorized, s')"
    by (metis prod.collapse)
  have "length (ds_sent s') = 1"
    using r by (auto simp: get_contact_def sample_resolve bind_task_def send_def Let_def dav_start_def evict_def outcome_def
      split: exchange.splits if_splits prod.splits sum.splits)
  with rejected_bearer_evicted [OF sample_laws sample_client_new r, of 0] obtain q where
    "ds_sent s' = [q]" "rejected sample_env [] q"
    by (auto simp: dav_start_def length_Suc_conv)
  with r show ?thesis by blast
qed

text \<open>
  A discovery is the caller's own, and no older than an hour. After any run of operations from a
  new client, the cache holds at most 256 entries; and whatever \<open>discover\<close> returns for a bearer was
  obtained, by two requests in the log made with a bearer of the same SHA-256 digest, from the
  principal and home set the server answered, with hrefs that resolve to the configured origin. If
  nothing was requested, the answer came from a cache entry stamped less than 3600 seconds before.
\<close>

theorem discovery_is_callers_own:
  assumes "s = dav_runs E C ops dav_start" "discover E C token s = (Ok d, s')"
  shows "hm_len (ds_discoveries s') \<le> 256
    \<and> (\<exists>t. ev_sha E t = ev_sha E token \<and> obtained E C (ds_sent s') t d)
    \<and> (ds_sent s' = ds_sent s \<longrightarrow> (\<exists>n < ds_ticks s. ev_clock E (ds_ticks s) - ev_clock E n < secs 3600))"
proof -
  have inv: "dav_inv E C s" using dav_runs_inv [OF dav_inv_start] assms(1) by blast
  from discover_cases [OF inv assms(2)] have inv': "dav_inv E C s'" by simp
  then have "hm_len (ds_discoveries s') \<le> DISCOVERY_CAP" unfolding dav_inv_def discoveries.inv_def by blast
  then have len: "hm_len (ds_discoveries s') \<le> 256" by (simp add: DISCOVERY_CAP_def)
  from discover_cases [OF inv assms(2)] consider
      new where "ds_sent s' = ds_sent s @ new" "new \<noteq> []" "obtained E C (ds_sent s') token d"
    | "ds_sent s' = ds_sent s"
      "discovery_lookup (ev_clock E (ds_ticks s)) (ev_sha E token) (ds_discoveries s) = Some d" by blast
  then show ?thesis
  proof cases
    case 1
    with len show ?thesis by auto
  next
    case 2
    from 2(2) obtain en where en: "hm_get (ds_discoveries s) (ev_sha E token) = Some en"
      "ev_clock E (ds_ticks s) - cd_cached_at en < secs 3600" "d = cd_discovery en"
      by (auto simp: discovery_lookup_def DISCOVERY_TTL_def split: option.splits if_splits)
    with inv obtain t n where "ev_sha E t = ev_sha E token" "obtained E C (ds_sent s) t d"
      "n < ds_ticks s" "cd_cached_at en = ev_clock E n" unfolding dav_inv_def by blast
    with en(2) 2(1) len show ?thesis by auto
  qed
qed

theorem discovery_is_callers_own_witness:
  "\<exists>s s' d. s = dav_runs sample_env sample_client [] dav_start
     \<and> discover sample_env sample_client ''t'' s = (Ok d, s')
     \<and> hm_len (ds_discoveries s') \<le> 256 \<and> obtained sample_env sample_client (ds_sent s') ''t'' d"
proof -
  obtain s' d where r: "discover sample_env sample_client ''t'' dav_start = (Ok d, s')"
    using sample_discover [of "''t''" dav_start] by (auto simp: dav_start_def)
  have "ev_sha sample_env x = x" for x by (simp add: sample_env_def)
  with discovery_is_callers_own [of dav_start sample_env sample_client "[]", OF _ r] r show ?thesis
    by (intro exI [of _ dav_start] exI [of _ s'] exI [of _ d]) simp
qed

text \<open>
  C34: bodies are read within the cap. For every cap below \<open>usize::MAX\<close>, reading a response fails with
  \<open>TooLarge\<close> exactly when the declared length or what arrives before any stream error exceeds it, with
  \<open>Http\<close> on a stream error before that, and otherwise yields all of the body, never more than the cap;
  the diagnostic prefix is the first bytes that arrive, at most its limit.
\<close>

theorem read_limited_exact:
  assumes "cap < 2 ^ 64 - 1"
  shows "read_limited w cap =
      (if (\<exists>v len. rw_header w ''content-length'' = Some v \<and> parse_uint 64 v = Some len \<and> len > cap)
          \<or> length (received (rw_chunks w)) > cap
       then Err TooLarge
       else if None \<in> set (rw_chunks w) then Err HttpError
       else Ok (concat (map the (rw_chunks w))))
    \<and> (\<forall>body. read_limited w cap = Ok body \<longrightarrow> length body \<le> cap)
    \<and> read_prefix n [] (rw_chunks w) = take n (received (rw_chunks w))"
proof -
  have spec: "read_chunks cap [] (rw_chunks w) =
     (if length (received (rw_chunks w)) > cap then Err TooLarge
      else if None \<in> set (rw_chunks w) then Err HttpError else Ok (received (rw_chunks w)))"
    using read_chunks_spec [of cap "[]"] assms by (simp add: USIZE_MAX_def)
  have all: "received cs = concat (map the cs)" if "None \<notin> set cs" for cs
  proof -
    have "takeWhile (\<lambda>c. c \<noteq> None) cs = cs" using that by (intro takeWhile_all) auto
    then show ?thesis by (simp only: received_def)
  qed
  have "read_limited w cap = (if \<exists>v len. rw_header w ''content-length'' = Some v \<and> parse_uint 64 v = Some len \<and> len > cap
      then Err TooLarge else read_chunks cap [] (rw_chunks w))"
    by (auto simp: read_limited_def split: option.splits)
  with spec all read_prefix_spec [of "[]" n] show ?thesis by auto
qed

theorem read_limited_exact_witness:
  "read_limited \<lparr>rw_status = 200, rw_header = (\<lambda>_. None), rw_chunks = [Some ''ab'', Some ''cd'']\<rparr> 3 = Err TooLarge
   \<and> read_limited \<lparr>rw_status = 200, rw_header = (\<lambda>_. None), rw_chunks = [Some ''ab'', Some ''cd'']\<rparr> 4 = Ok ''abcd''"
  using read_limited_exact [of 3 "\<lparr>rw_status = 200, rw_header = (\<lambda>_. None), rw_chunks = [Some ''ab'', Some ''cd'']\<rparr>" 0]
    read_limited_exact [of 4 "\<lparr>rw_status = 200, rw_header = (\<lambda>_. None), rw_chunks = [Some ''ab'', Some ''cd'']\<rparr>" 0]
  by simp

text \<open>
  C14: writes are conditional and their errors are those of the answer. A create, update or delete
  either sends nothing and fails with \<open>InvalidHref\<close>, because its target cannot be resolved on the
  configured origin, or sends one request, with the method, URL and body of the operation, whose one
  precondition is \<open>If-None-Match: *\<close> for a create and \<open>If-Match\<close> with the given entity tag (\<open>*\<close> if
  none) for the others; it succeeds exactly on the success statuses, and a lost race (409 or 412) is
  \<open>Conflict\<close>.
\<close>

theorem writes_are_conditional:
  assumes "op_precondition op = Some pre" "dav_run E C op s = (e, s')"
  shows "case op_write E C op of
      None \<Rightarrow> s' = s \<and> e = Some (InvalidHref (op_target op))
    | Some (meth, url, body) \<Rightarrow>
        (\<exists>q. ds_sent s' = ds_sent s @ [q] \<and> rq_method q = meth \<and> rq_url q = url \<and> rq_body q = body
           \<and> filter (\<lambda>h. fst h \<in> {''if-match'', ''if-none-match''}) (rq_headers q) = [pre]
           \<and> e = write_outcome op (cl_max_response_bytes C) (ev_reply E (ds_sent s) q))"
proof -
  have "write_done E C op s e s'"
    using assms by (cases op) (auto intro: write_done_create write_done_update write_done_delete)
  with assms(1) show ?thesis by (simp add: write_done_def split: option.splits prod.splits)
qed

theorem writes_are_conditional_witness:
  "\<exists>q. ds_sent (snd (dav_run sample_env sample_client (OpUpdate ''t'' ''/card/'' (Some ''v1'') ''BEGIN'') dav_start)) = [q]
     \<and> (''if-match'', ''v1'') \<in> set (rq_headers q) \<and> rq_body q = Some ''BEGIN''"
proof -
  let ?op = "OpUpdate ''t'' ''/card/'' (Some ''v1'') ''BEGIN''"
  obtain e s' where r: "dav_run sample_env sample_client ?op dav_start = (e, s')"
    by (cases "dav_run sample_env sample_client ?op dav_start")
  from writes_are_conditional [of ?op, OF _ r] obtain q where q: "ds_sent s' = [q]" "rq_body q = Some ''BEGIN''"
    "filter (\<lambda>h. fst h \<in> {''if-match'', ''if-none-match''}) (rq_headers q) = [(''if-match'', ''v1'')]"
    by (auto simp: sample_resolve dav_start_def)
  from q(3) have "(''if-match'', ''v1'') \<in> set (filter (\<lambda>h. fst h \<in> {''if-match'', ''if-none-match''}) (rq_headers q))"
    by simp
  then have "(''if-match'', ''v1'') \<in> set (rq_headers q)" unfolding set_filter by blast
  with r q show ?thesis by (intro exI [of _ q]) simp
qed










end
