(* ===== verification/Dav_Tasks.thy ===== *)
theory Dav_Tasks
  imports Dav_Trace Rust_Tasks
begin

text \<open>
  Concurrent operations of one CardDAV client, \<open>src/src/carddav_client.rs\<close>: each operation cut at its
  requests and at the two locks of the discovery cache, over the state all tasks share.

  \<^item> A request leaves in one step, which logs it, and its answer is acted on in a later one: in between
    other tasks send, store and evict. The reply is a function of the requests sent before.
  \<^item> Uninterrupted, the programs are the functions of \<open>Dav_Client\<close> (\<open>run_dav_progs\<close>). Whatever else runs,
    they send only requests confined to their own bearer and keep \<open>dav_inv\<close> (\<open>dav_safe_progs\<close>).
\<close>

type_synonym ('u, 'h, 'a) dav_prog = "(('u, 'h) dav_state, carddav_error + 'a) prog"

named_theorems run_dav_progs \<open>the uninterrupted run of an operation is the operation\<close>
named_theorems dav_safe_progs \<open>the operations under interference\<close>

subsection \<open>The programs\<close>

definition send_out ::
  "('u, 'h, 'ip) dav_env \<Rightarrow> 'u dav_request \<Rightarrow> ('u, 'h) dav_state \<Rightarrow> exchange \<times> ('u, 'h) dav_state" where
  "send_out E req s = (ev_reply E (ds_sent s) req, s\<lparr>ds_sent := ds_sent s @ [req]\<rparr>)"

definition send_prog ::
  "('u, 'h, 'ip) dav_env \<Rightarrow> ('u, 'ip) dav_client \<Rightarrow> string \<Rightarrow> 'u dav_request \<Rightarrow> ('u, 'h, dav_http_response) dav_prog" where
  "send_prog E C token request =
     bind_prog (act (send_out E (request\<lparr>rq_headers := rq_headers request @ [bearer_auth_header token]\<rparr>))) (\<lambda>reply.
       case reply of
         SendFailed \<Rightarrow> Ret (Err HttpError)
       | Responded response \<Rightarrow>
           if rw_status response \<in> set [401, 403] then act (\<lambda>s. (Err Unauthorized, evict E token s))
           else Ret (and_then (read_limited response (cl_max_response_bytes C)) (\<lambda>body.
                  Ok \<lparr>hp_status = rw_status response, hp_body = body,
                      hp_etag = rw_header response ''etag'', hp_location = rw_header response ''location''\<rparr>)))"

definition propfind_prog ::
  "('u, 'h, 'ip) dav_env \<Rightarrow> ('u, 'ip) dav_client \<Rightarrow> string \<Rightarrow> 'u \<Rightarrow> string \<Rightarrow> string \<Rightarrow> ('u, 'h, dav_http_response) dav_prog" where
  "propfind_prog E C token url depth body =
     try_prog
       (send_prog E C token
         \<lparr>rq_method = ''PROPFIND'', rq_url = url,
          rq_headers = [(''depth'', depth), (''content-type'', ''application/xml; charset=utf-8''),
                        (''accept'', ''application/xml'')],
          rq_body = Some body\<rparr>)
       (\<lambda>response. try_prog (Ret (ensure_multistatus (hp_status response))) (\<lambda>_. Ret (Ok response)))"

definition discover_fetch_prog ::
  "('u, 'h, 'ip) dav_env \<Rightarrow> ('u, 'ip) dav_client \<Rightarrow> string \<Rightarrow> ('u, 'h, dav_discovery) dav_prog" where
  "discover_fetch_prog E C token =
     try_prog (propfind_prog E C token (cl_discovery_url C) ''0'' CURRENT_USER_PRINCIPAL_BODY) (\<lambda>principal_response.
     try_prog (Ret (parse_body E principal_response)) (\<lambda>responses.
     try_prog (Ret (ok_or (find_map pr_current_user_principal responses)
         (InvalidData ''discovery response omitted current-user-principal''))) (\<lambda>principal_href.
     try_prog (Ret (resolve_href E C principal_href)) (\<lambda>principal_url.
     try_prog (propfind_prog E C token principal_url ''0'' ADDRESSBOOK_HOME_BODY) (\<lambda>home_response.
     try_prog (Ret (parse_body E home_response)) (\<lambda>responses.
     try_prog (Ret (ok_or (find_map pr_addressbook_home responses)
         (InvalidData ''principal response omitted addressbook-home-set''))) (\<lambda>home_href.
     try_prog (Ret (resolve_href E C home_href)) (\<lambda>_.
       Ret (Ok \<lparr>dd_principal_href = principal_href, dd_addressbook_home_href = home_href\<rparr>)))))))))"

text \<open>\<open>discovery_lookup\<close> reads the clock under the cache's lock, and so does \<open>discovery_insert\<close>.\<close>

definition cached_step ::
  "('u, 'h, 'ip) dav_env \<Rightarrow> string \<Rightarrow> ('u, 'h) dav_state \<Rightarrow> dav_discovery option \<times> ('u, 'h) dav_state" where
  "cached_step E token s =
     (discovery_lookup (ev_clock E (ds_ticks s)) (ev_sha E token) (ds_discoveries s), s\<lparr>ds_ticks := Suc (ds_ticks s)\<rparr>)"

definition discover_prog ::
  "('u, 'h, 'ip) dav_env \<Rightarrow> ('u, 'ip) dav_client \<Rightarrow> string \<Rightarrow> ('u, 'h, dav_discovery) dav_prog" where
  "discover_prog E C token =
     bind_prog (act (cached_step E token)) (\<lambda>cached. case cached of
       Some discovery \<Rightarrow> Ret (Ok discovery)
     | None \<Rightarrow>
         try_prog (discover_fetch_prog E C token) (\<lambda>discovery.
         try_prog (act (store_discovery E token discovery)) (\<lambda>_. Ret (Ok discovery))))"

definition list_address_books_prog ::
  "('u, 'h, 'ip) dav_env \<Rightarrow> ('u, 'ip) dav_client \<Rightarrow> string \<Rightarrow> ('u, 'h, dav_address_book list) dav_prog" where
  "list_address_books_prog E C token =
     try_prog (discover_prog E C token) (\<lambda>discovery.
     try_prog (Ret (resolve_href E C (dd_addressbook_home_href discovery))) (\<lambda>home_url.
     try_prog (propfind_prog E C token home_url ''1'' LIST_ADDRESSBOOKS_BODY) (\<lambda>response.
     try_prog (Ret (parse_body E response)) (\<lambda>parsed.
       Ret (collect_books E C (normalize_href (dd_addressbook_home_href discovery)) parsed)))))"

definition query_contacts_prog ::
  "('u, 'h, 'ip) dav_env \<Rightarrow> ('u, 'ip) dav_client \<Rightarrow> string \<Rightarrow> string \<Rightarrow> string \<Rightarrow> ('u, 'h, dav_contact list) dav_prog" where
  "query_contacts_prog E C token addressbook_href body =
     try_prog (Ret (resolve_href E C addressbook_href)) (\<lambda>url.
     try_prog
       (send_prog E C token
         \<lparr>rq_method = ''REPORT'', rq_url = url,
          rq_headers = [(''depth'', ''1''), (''content-type'', ''application/xml; charset=utf-8''),
                        (''accept'', ''application/xml, text/vcard'')],
          rq_body = Some body\<rparr>) (\<lambda>response.
     try_prog (Ret (ensure_multistatus (hp_status response))) (\<lambda>_.
     try_prog (Ret (parse_body E response)) (\<lambda>items.
       Ret (collect_contacts E C items)))))"

definition list_contacts_prog ::
  "('u, 'h, 'ip) dav_env \<Rightarrow> ('u, 'ip) dav_client \<Rightarrow> string \<Rightarrow> string \<Rightarrow> ('u, 'h, dav_contact list) dav_prog" where
  "list_contacts_prog E C token addressbook_href = query_contacts_prog E C token addressbook_href LIST_CONTACTS_BODY"

definition search_contacts_prog ::
  "('u, 'h, 'ip) dav_env \<Rightarrow> ('u, 'ip) dav_client \<Rightarrow> string \<Rightarrow> string \<Rightarrow> string \<Rightarrow> ('u, 'h, dav_contact list) dav_prog" where
  "search_contacts_prog E C token addressbook_href query =
     (if trim query = [] then Ret (Err (InvalidData ''search query must not be empty''))
      else if length query > 256 \<or> list_ex is_illegal_xml_char query
      then Ret (Err (InvalidData ''search query is too long or contains an XML control character''))
      else query_contacts_prog E C token addressbook_href (search_body query))"

definition get_contact_prog ::
  "('u, 'h, 'ip) dav_env \<Rightarrow> ('u, 'ip) dav_client \<Rightarrow> string \<Rightarrow> string \<Rightarrow> ('u, 'h, dav_contact) dav_prog" where
  "get_contact_prog E C token contact_href =
     try_prog (Ret (resolve_href E C contact_href)) (\<lambda>url.
     try_prog
       (send_prog E C token
         \<lparr>rq_method = ''GET'', rq_url = url, rq_headers = [(''accept'', ''text/vcard, text/x-vcard'')],
          rq_body = None\<rparr>) (\<lambda>response.
       if hp_status response = 404 then Ret (Err NotFound)
       else if hp_status response \<noteq> 200 then Ret (Err (Upstream (hp_status response)))
       else if \<not> utf8 (hp_body response)
       then Ret (Err (InvalidData (''vCard is not UTF-8: '' @ ev_utf8_error E (hp_body response))))
       else Ret (Ok
         \<lparr>dc_href = contact_href, dc_etag = hp_etag response, dc_vcard = hp_body response\<rparr>)))"

definition create_contact_prog ::
  "('u, 'h, 'ip) dav_env \<Rightarrow> ('u, 'ip) dav_client \<Rightarrow> string \<Rightarrow> string \<Rightarrow> string \<Rightarrow> string
     \<Rightarrow> ('u, 'h, dav_write_result) dav_prog" where
  "create_contact_prog E C token addressbook_href uid vcard =
     try_prog (Ret (resolve_href E C addressbook_href)) (\<lambda>url.
     try_prog (Ret (ok_or (ev_push_segment E (uid @ ''.vcf'') url) (InvalidHref addressbook_href))) (\<lambda>url1.
       let url2 = ev_clear_fragment E (ev_clear_query E url1); href = ev_path E url2 in
     try_prog
       (send_prog E C token
         \<lparr>rq_method = ''PUT'', rq_url = url2,
          rq_headers = [(''content-type'', ''text/vcard; charset=utf-8''), (''if-none-match'', ''*'')],
          rq_body = Some vcard\<rparr>) (\<lambda>response.
       if hp_status response \<in> set [201, 204, 200]
       then Ret (Ok
         \<lparr>wr_href = (case hp_location response of Some l \<Rightarrow> l | None \<Rightarrow> href), wr_etag = hp_etag response\<rparr>)
       else if hp_status response \<in> set [412, 409] then Ret (Err Conflict)
       else Ret (Err (Upstream (hp_status response))))))"

definition update_contact_prog ::
  "('u, 'h, 'ip) dav_env \<Rightarrow> ('u, 'ip) dav_client \<Rightarrow> string \<Rightarrow> string \<Rightarrow> string option \<Rightarrow> string
     \<Rightarrow> ('u, 'h, dav_write_result) dav_prog" where
  "update_contact_prog E C token contact_href etag vcard =
     try_prog (Ret (resolve_href E C contact_href)) (\<lambda>url.
     try_prog
       (send_prog E C token
         \<lparr>rq_method = ''PUT'', rq_url = url,
          rq_headers = [(''content-type'', ''text/vcard; charset=utf-8''), if_match etag],
          rq_body = Some vcard\<rparr>) (\<lambda>response.
       if hp_status response \<in> set [200, 201, 204]
       then Ret (Ok
         \<lparr>wr_href = (case hp_location response of Some l \<Rightarrow> l | None \<Rightarrow> contact_href),
          wr_etag = hp_etag response\<rparr>)
       else if hp_status response = 404 then Ret (Err NotFound)
       else if hp_status response \<in> set [412, 409] then Ret (Err Conflict)
       else Ret (Err (Upstream (hp_status response)))))"

definition delete_contact_prog ::
  "('u, 'h, 'ip) dav_env \<Rightarrow> ('u, 'ip) dav_client \<Rightarrow> string \<Rightarrow> string \<Rightarrow> string option \<Rightarrow> ('u, 'h, unit) dav_prog" where
  "delete_contact_prog E C token contact_href etag =
     try_prog (Ret (resolve_href E C contact_href)) (\<lambda>url.
     try_prog
       (send_prog E C token
         \<lparr>rq_method = ''DELETE'', rq_url = url, rq_headers = [if_match etag], rq_body = None\<rparr>) (\<lambda>response.
       if hp_status response \<in> set [200, 204] then Ret (Ok ())
       else if hp_status response = 404 then Ret (Err NotFound)
       else if hp_status response \<in> set [412, 409] then Ret (Err Conflict)
       else Ret (Err (Upstream (hp_status response)))))"

subsection \<open>Uninterrupted, they are the operations\<close>

lemma run_Ret: "run (Ret r) = pure_task r"
  by (intro ext) simp

lemma task_pure: "return_task = (\<lambda>a. pure_task (Ok a))" "fail_task = (\<lambda>e. pure_task (Err e))"
  by (intro ext, simp)+

lemma run_if: "run (if b then p else q) = (if b then run p else run q)"
  by simp

lemma run_let: "run (let a = v in p a) = (let a = v in run (p a))"
  by (simp add: Let_def)

lemma run_send [run_dav_progs]: "run (send_prog E C token request) = send E C token request"
  by (intro ext) (auto simp: send_prog_def send_def run_bind send_out_def Let_def split: exchange.splits)

lemmas run_parts = run_try_task run_Ret run_if run_let task_pure

lemma run_propfind [run_dav_progs]: "run (propfind_prog E C token url depth body) = propfind E C token url depth body"
  unfolding propfind_prog_def propfind_def run_parts run_dav_progs ..

lemma run_discover_fetch [run_dav_progs]: "run (discover_fetch_prog E C token) = discover_fetch E C token"
  unfolding discover_fetch_prog_def discover_fetch_def run_parts run_dav_progs ..

lemma run_discover [run_dav_progs]: "run (discover_prog E C token) = discover E C token"
proof
  fix s
  have "run (try_prog (discover_fetch_prog E C token) (\<lambda>d. try_prog (act (store_discovery E token d)) (\<lambda>_. Ret (Ok d))))
      = bind_task (discover_fetch E C token) (\<lambda>d. bind_task (store_discovery E token d) (\<lambda>_. return_task d))"
    unfolding run_parts run_dav_progs by (simp add: run_act [abs_def])
  then show "run (discover_prog E C token) s = discover E C token s"
    by (auto simp: discover_prog_def discover_def run_bind cached_step_def read_clock_def bind_task_def split: option.splits)
qed

lemma run_list_address_books [run_dav_progs]: "run (list_address_books_prog E C token) = list_address_books E C token"
  unfolding list_address_books_prog_def list_address_books_def run_parts run_dav_progs ..

lemma run_query_contacts [run_dav_progs]: "run (query_contacts_prog E C token book body) = query_contacts E C token book body"
  unfolding query_contacts_prog_def query_contacts_def run_parts run_dav_progs ..

lemma run_contacts [run_dav_progs]:
  "run (list_contacts_prog E C token book) = list_contacts E C token book"
  "run (search_contacts_prog E C token book query) = search_contacts E C token book query"
  "run (get_contact_prog E C token href) = get_contact E C token href"
  "run (create_contact_prog E C token book uid vcard) = create_contact E C token book uid vcard"
  "run (update_contact_prog E C token href etag vcard) = update_contact E C token href etag vcard"
  "run (delete_contact_prog E C token href etag) = delete_contact E C token href etag"
  unfolding list_contacts_prog_def list_contacts_def search_contacts_prog_def search_contacts_def
    get_contact_prog_def get_contact_def create_contact_prog_def create_contact_def update_contact_prog_def
    update_contact_def delete_contact_prog_def delete_contact_def run_parts run_dav_progs
  by (rule refl)+

subsection \<open>Under interference\<close>

text \<open>Between two of its steps a task relies on nothing but that the log and the clock only go forward.\<close>

definition dav_rely :: "('u, 'h) dav_state \<Rightarrow> ('u, 'h) dav_state \<Rightarrow> bool" where
  "dav_rely s s' \<longleftrightarrow> (\<exists>new. ds_sent s' = ds_sent s @ new) \<and> ds_ticks s \<le> ds_ticks s'"

definition dav_guar ::
  "('u, 'h, 'ip) dav_env \<Rightarrow> ('u, 'ip) dav_client \<Rightarrow> string \<Rightarrow> ('u, 'h) dav_state \<Rightarrow> ('u, 'h) dav_state \<Rightarrow> bool" where
  "dav_guar E C token s s' \<longleftrightarrow> (\<exists>new. ds_sent s' = ds_sent s @ new \<and> list_all (confined E C token) new)
     \<and> ds_ticks s \<le> ds_ticks s'"

abbreviation dav_safe where
  "dav_safe E C token \<equiv> safe (dav_inv E C) dav_rely (dav_guar E C token)"

definition dav_keeps ::
  "('u, 'h, 'ip) dav_env \<Rightarrow> ('u, 'ip) dav_client \<Rightarrow> string \<Rightarrow> (('u, 'h) dav_state, 'a) prog \<Rightarrow> bool" where
  "dav_keeps E C token p \<longleftrightarrow> (\<forall>s. dav_safe E C token (\<lambda>_ _. True) p s)"

lemma dav_guar_refl [simp]: "dav_guar E C token s s"
  by (simp add: dav_guar_def)

lemma dav_rely_refl: "reflp dav_rely"
  by (simp add: reflp_def dav_rely_def)

lemma dav_rely_trans: "transp dav_rely"
  unfolding transp_def dav_rely_def by (metis append.assoc le_trans)

lemma dav_guar_rely: "dav_guar E C token s s' \<Longrightarrow> dav_rely s s'"
  by (auto simp: dav_guar_def dav_rely_def)

lemma answered_rely: "answered E C (ds_sent s) token u body \<Longrightarrow> dav_rely s s' \<Longrightarrow> answered E C (ds_sent s') token u body"
  by (auto simp: dav_rely_def intro: answered_mono)

lemma obtained_rely: "obtained E C (ds_sent s) token d \<Longrightarrow> dav_rely s s' \<Longrightarrow> obtained E C (ds_sent s') token d"
  by (auto simp: dav_rely_def intro: obtained_mono)

lemma dav_act:
  assumes "\<And>v a v'. dav_rely s v \<Longrightarrow> dav_inv E C v \<Longrightarrow> f v = (a, v') \<Longrightarrow>
      dav_inv E C v' \<and> dav_guar E C token v v' \<and> Q a v'"
  shows "dav_safe E C token Q (act f) s"
  by (rule safe_act) (use assms in auto)

lemma safe_try_Ret:
  "(\<And>a. r = Inr a \<Longrightarrow> safe I R G Q (f a) s) \<Longrightarrow> (\<And>e. r = Inl e \<Longrightarrow> Q (Inl e) s) \<Longrightarrow> safe I R G Q (try_prog (Ret r) f) s"
  by (cases r) (simp_all add: try_prog_def)

text \<open>Every operation is safe if its requests go to the configured origin.\<close>

definition signed :: "string \<Rightarrow> 'u dav_request \<Rightarrow> 'u dav_request" where
  "signed token q = q\<lparr>rq_headers := rq_headers q @ [bearer_auth_header token]\<rparr>"

definition replied ::
  "('u, 'h, 'ip) dav_env \<Rightarrow> ('u, 'ip) dav_client \<Rightarrow> 'u dav_request \<Rightarrow> dav_http_response \<Rightarrow> ('u, 'h) dav_state \<Rightarrow> bool" where
  "replied E C req resp s \<longleftrightarrow>
     (\<exists>before after w. ds_sent s = before @ req # after \<and> ev_reply E before req = Responded w
        \<and> rw_status w = hp_status resp \<and> read_limited w (cl_max_response_bytes C) = Ok (hp_body resp))"

lemma send_prog_safe:
  fixes s :: "('u, 'h) dav_state"
  assumes "same_origin E (rq_url q) (cl_base_url C)" "\<forall>h \<in> set (rq_headers q). fst h \<noteq> ''authorization''"
  shows "dav_safe E C token (\<lambda>r v. \<forall>resp. r = Inr resp \<longrightarrow> replied E C (signed token q) resp v) (send_prog E C token q) s"
proof -
  let ?R = "\<lambda>reply v. \<exists>before after. ds_sent v = before @ signed token q # after \<and> ev_reply E before (signed token q) = reply"
  have conf: "confined E C token (signed token q)" using assms by (simp add: confined_def bearer_auth_header_def signed_def)
  have out: "dav_safe E C token ?R (act (send_out E (signed token q))) s"
  proof (rule dav_act)
    fix v a v' assume v: "dav_inv E C v" "send_out E (signed token q) v = (a, v')"
    then have v': "v' = v\<lparr>ds_sent := ds_sent v @ [signed token q]\<rparr>" "a = ev_reply E (ds_sent v) (signed token q)"
      by (simp_all add: send_out_def)
    have "dav_inv E C v'" by (rule forgets_inv [OF _ v(1)]) (simp add: forgets_def v')
    moreover have "dav_guar E C token v v'" using conf by (simp add: dav_guar_def v')
    moreover have "?R a v'" by (rule exI [of _ "ds_sent v"], rule exI [of _ "[]"]) (simp add: v')
    ultimately show "dav_inv E C v' \<and> dav_guar E C token v v' \<and> ?R a v'" by blast
  qed
  have evicts: "dav_safe E C token Q (act (\<lambda>s. (Err Unauthorized, evict E token s))) v"
    if "\<And>v. Q (Err Unauthorized) v"
    for Q :: "carddav_error + dav_http_response \<Rightarrow> ('u, 'h) dav_state \<Rightarrow> bool" and v :: "('u, 'h) dav_state"
  proof (rule dav_act)
    fix v v' :: "('u, 'h) dav_state" and a :: "carddav_error + dav_http_response"
    assume v: "dav_inv E C v" "(Err Unauthorized, evict E token v) = (a, v')"
    have "dav_inv E C (evict E token v)"
      by (rule forgets_inv [OF _ v(1)]) (simp add: forgets_def evict_def discoveries_inv_remove)
    with v(2) that show "dav_inv E C v' \<and> dav_guar E C token v v' \<and> Q a v'"
      by (auto simp: dav_guar_def evict_def)
  qed
  show ?thesis
    unfolding send_prog_def signed_def [symmetric]
    by (rule safe_bind [OF out]) (auto simp: and_then_Ok replied_def intro!: evicts split: exchange.splits)
qed

lemma propfind_prog_safe:
  fixes s :: "('u, 'h) dav_state"
  assumes "same_origin E u (cl_base_url C)"
  shows "dav_safe E C token (\<lambda>r v. \<forall>resp. r = Inr resp \<longrightarrow> answered E C (ds_sent v) token u (hp_body resp))
    (propfind_prog E C token u depth body) s"
proof -
  let ?q = "\<lparr>rq_method = ''PROPFIND'', rq_url = u,
          rq_headers = [(''depth'', depth), (''content-type'', ''application/xml; charset=utf-8''),
                        (''accept'', ''application/xml'')], rq_body = Some body\<rparr>"
  let ?Q = "\<lambda>r v. \<forall>resp. r = Inr resp \<longrightarrow> answered E C (ds_sent v) token u (hp_body resp)"
  have "dav_safe E C token ?Q (try_prog (Ret (ensure_multistatus (hp_status a))) (\<lambda>_. Ret (Ok a))) v"
    if a: "replied E C (signed token ?q) a v" for a and v :: "('u, 'h) dav_state"
  proof (rule safe_try_Ret)
    fix x assume "ensure_multistatus (hp_status a) = Inr x"
    then have "hp_status a \<in> {200, 207}" by (auto simp: ensure_multistatus_def split: if_splits)
    with a have "answered E C (ds_sent v) token u (hp_body a)"
      unfolding answered_def replied_def by (elim exE conjE) (intro exI conjI, assumption, auto simp: signed_def)
    then show "dav_safe E C token ?Q (Ret (Ok a)) v" by simp
  qed simp
  then show ?thesis
    unfolding propfind_prog_def
    by (intro safe_try [where Q = "\<lambda>resp. replied E C (signed token ?q) resp"] safe_weaken [OF send_prog_safe])
       (auto simp: assms split: sum.splits)
qed

lemma safe_resolve:
  assumes "\<And>u. resolve_href E C href = Inr u \<Longrightarrow> same_origin E u (cl_base_url C) \<Longrightarrow> dav_safe E C token Q (f u) s"
    and "\<And>e. Q (Inl e) s"
  shows "dav_safe E C token Q (try_prog (Ret (resolve_href E C href)) f) s"
  using assms resolve_href_Ok [of E C href] by (intro safe_try_Ret) blast+

text \<open>A fetch that keeps what was answered before.\<close>

lemma fetch_safe:
  fixes s :: "('u, 'h) dav_state"
  assumes "same_origin E u (cl_base_url C)" "K (ds_sent s)" "\<And>log new. K log \<Longrightarrow> K (log @ new)" "\<And>e v. Q (Inl e) v"
    and "\<And>resp v. answered E C (ds_sent v) token u (hp_body resp) \<Longrightarrow> K (ds_sent v) \<Longrightarrow> dav_safe E C token Q (f resp) v"
  shows "dav_safe E C token Q (try_prog (propfind_prog E C token u depth body) f) s"
proof (rule safe_try [where Q = "\<lambda>resp v. answered E C (ds_sent v) token u (hp_body resp) \<and> K (ds_sent v)"])
  have "dav_safe E C token (\<lambda>r v. (\<forall>resp. r = Inr resp \<longrightarrow> answered E C (ds_sent v) token u (hp_body resp)) \<and> K (ds_sent v))
      (propfind_prog E C token u depth body) s"
    by (rule safe_frame [OF propfind_prog_safe [OF assms(1)]]) (use assms(2,3) in \<open>auto simp: dav_rely_def dav_guar_def\<close>)
  then show "dav_safe E C token (\<lambda>r v. case r of Inl e \<Rightarrow> Q (Inl e) v
      | Inr resp \<Rightarrow> answered E C (ds_sent v) token u (hp_body resp) \<and> K (ds_sent v)) (propfind_prog E C token u depth body) s"
    by (rule safe_weaken) (use assms(4) in \<open>auto split: sum.splits\<close>)
qed (use assms(5) in blast)

lemma discover_fetch_prog_safe:
  fixes s :: "('u, 'h) dav_state"
  assumes "well_formed_client E C"
  shows "dav_safe E C token (\<lambda>r v. \<forall>d. r = Inr d \<longrightarrow> obtained E C (ds_sent v) token d) (discover_fetch_prog E C token) s"
  unfolding discover_fetch_prog_def
proof (rule fetch_safe [where K = "\<lambda>_. True"], goal_cases)
  case (5 principal v)
  show ?case
  proof (intro safe_try_Ret safe_resolve, goal_cases)
    case (1 items p u)
    show ?case
    proof (rule fetch_safe [where K = "\<lambda>log. answered E C log token (cl_discovery_url C) (hp_body principal)"], goal_cases)
      case (5 home v')
      with 1 show ?case by (intro safe_try_Ret) (auto simp: obtained_def parse_body_def)
    qed (use 1 5 in \<open>auto intro: resolve_href_Ok answered_mono\<close>)
  qed auto
qed (use assms in \<open>auto simp: well_formed_client_def\<close>)

text \<open>
  A discovery was obtained with this bearer; or with one of the same digest, and found in the cache at
  a clock reading less than an hour after the one it was stamped with.
\<close>

definition own_discovery :: "('u, 'h, 'ip) dav_env \<Rightarrow> ('u, 'ip) dav_client \<Rightarrow> string \<Rightarrow> dav_discovery \<Rightarrow> ('u, 'h) dav_state \<Rightarrow> bool" where
  "own_discovery E C token d s \<longleftrightarrow> obtained E C (ds_sent s) token d
     \<or> (\<exists>t n m. ev_sha E t = ev_sha E token \<and> obtained E C (ds_sent s) t d
          \<and> n < m \<and> m < ds_ticks s \<and> ev_clock E m - ev_clock E n < secs 3600)"

lemma own_discovery_rely: "own_discovery E C token d s \<Longrightarrow> dav_rely s s' \<Longrightarrow> own_discovery E C token d s'"
  unfolding own_discovery_def by (meson dav_rely_def obtained_rely order_less_le_trans)

lemma discover_prog_safe:
  fixes s :: "('u, 'h) dav_state"
  assumes "well_formed_client E C"
  shows "dav_safe E C token (\<lambda>r v. \<forall>d. r = Inr d \<longrightarrow> own_discovery E C token d v) (discover_prog E C token) s"
proof -
  let ?Q = "\<lambda>r v. \<forall>d. r = Inr d \<longrightarrow> own_discovery E C token d v"
  have cached: "dav_safe E C token (\<lambda>c v. \<forall>d. c = Some d \<longrightarrow> own_discovery E C token d v) (act (cached_step E token)) s"
  proof (rule dav_act)
    fix v c v' assume v: "dav_inv E C v" "cached_step E token v = (c, v')"
    then have v': "v' = v\<lparr>ds_ticks := Suc (ds_ticks v)\<rparr>" by (simp add: cached_step_def)
    have "dav_inv E C v'" by (rule forgets_inv [OF _ v(1)]) (simp add: forgets_def v')
    moreover have "own_discovery E C token d v'" if "c = Some d" for d
    proof -
      from that v obtain e where e: "hm_get (ds_discoveries v) (ev_sha E token) = Some e" "d = cd_discovery e"
        "ev_clock E (ds_ticks v) - cd_cached_at e < secs 3600"
        by (auto simp: cached_step_def discovery_lookup_def DISCOVERY_TTL_def split: option.splits if_splits)
      with v(1) obtain t n where "ev_sha E t = ev_sha E token" "obtained E C (ds_sent v) t d" "n < ds_ticks v"
        "cd_cached_at e = ev_clock E n" unfolding dav_inv_def by blast
      with e(3) v' show ?thesis
        unfolding own_discovery_def by (intro disjI2 exI [of _ t] exI [of _ n] exI [of _ "ds_ticks v"]) simp
    qed
    ultimately show "dav_inv E C v' \<and> dav_guar E C token v v' \<and> (\<forall>d. c = Some d \<longrightarrow> own_discovery E C token d v')"
      by (simp add: dav_guar_def v')
  qed
  have store: "dav_safe E C token ?Q (try_prog (act (store_discovery E token d)) (\<lambda>_. Ret (Ok d))) v"
    if "obtained E C (ds_sent v) token d" for d and v :: "('u, 'h) dav_state"
  proof (rule safe_try [where Q = "\<lambda>_ v. obtained E C (ds_sent v) token d"])
    show "dav_safe E C token (\<lambda>r v. case r of Inl e \<Rightarrow> ?Q (Inl e) v | Inr _ \<Rightarrow> obtained E C (ds_sent v) token d)
        (act (store_discovery E token d)) v"
    proof (rule dav_act)
      fix w r w' assume w: "dav_rely v w" "dav_inv E C w" "store_discovery E token d w = (r, w')"
      from obtained_rely [OF that w(1)] have o: "obtained E C (ds_sent w) token d" .
      from inv_store [OF w(2) o w(3)] have "dav_inv E C w'" "ds_sent w' = ds_sent w" "r = Inr ()" by simp_all
      moreover have "ds_ticks w \<le> ds_ticks w'"
        using w(3) by (auto simp: store_discovery_def bind_task_def read_clock_def)
      ultimately show "dav_inv E C w' \<and> dav_guar E C token w w'
          \<and> (case r of Inl e \<Rightarrow> ?Q (Inl e) w' | Inr _ \<Rightarrow> obtained E C (ds_sent w') token d)"
        using o by (simp add: dav_guar_def)
    qed
  qed (auto simp: own_discovery_def)
  show ?thesis
    unfolding discover_prog_def
  proof (rule safe_bind [OF cached])
    fix c v assume c: "\<forall>d. c = Some d \<longrightarrow> own_discovery E C token d v"
    have "dav_safe E C token ?Q (try_prog (discover_fetch_prog E C token) (\<lambda>d. try_prog (act (store_discovery E token d)) (\<lambda>_. Ret (Ok d)))) v"
      by (rule safe_try [where Q = "\<lambda>d v. obtained E C (ds_sent v) token d"])
        (auto intro: store safe_weaken [OF discover_fetch_prog_safe [OF assms]] split: sum.splits)
    with c show "dav_safe E C token ?Q (case c of Some d \<Rightarrow> Ret (Ok d)
        | None \<Rightarrow> try_prog (discover_fetch_prog E C token) (\<lambda>d. try_prog (act (store_discovery E token d)) (\<lambda>_. Ret (Ok d)))) v"
      by (cases c) auto
  qed
qed

text \<open>The other operations.\<close>

lemma dav_keeps_post: "(\<And>s. dav_safe E C token (Q s) p s) \<Longrightarrow> dav_keeps E C token p"
  unfolding dav_keeps_def by (blast intro: safe_weaken)

lemma dav_keeps_Ret: "dav_keeps E C token (Ret r)"
  by (simp add: dav_keeps_def)

lemma dav_keeps_if: "dav_keeps E C token p \<Longrightarrow> dav_keeps E C token q \<Longrightarrow> dav_keeps E C token (if b then p else q)"
  by simp

lemma dav_keeps_try:
  "dav_keeps E C token m \<Longrightarrow> (\<And>a. dav_keeps E C token (f a)) \<Longrightarrow> dav_keeps E C token (try_prog m f)"
  unfolding dav_keeps_def by (auto intro!: safe_try [where Q = "\<lambda>_ _. True"] elim!: safe_weaken split: sum.splits)

lemma dav_keeps_resolve:
  "(\<And>u. same_origin E u (cl_base_url C) \<Longrightarrow> dav_keeps E C token (f u)) \<Longrightarrow> dav_keeps E C token (try_prog (Ret (resolve_href E C href)) f)"
  unfolding dav_keeps_def by (auto intro: safe_resolve)

lemma dav_keeps_send:
  "same_origin E (rq_url q) (cl_base_url C) \<Longrightarrow> \<forall>h \<in> set (rq_headers q). fst h \<noteq> ''authorization'' \<Longrightarrow>
     dav_keeps E C token (send_prog E C token q)"
  by (rule dav_keeps_post [OF send_prog_safe])

lemma dav_keeps_propfind: "same_origin E u (cl_base_url C) \<Longrightarrow> dav_keeps E C token (propfind_prog E C token u depth body)"
  by (rule dav_keeps_post [OF propfind_prog_safe])

lemmas dav_keeps_rules = dav_keeps_resolve dav_keeps_try dav_keeps_Ret dav_keeps_if

lemma dav_keeps_query: "dav_keeps E C token (query_contacts_prog E C token book body)"
  unfolding query_contacts_prog_def by (intro dav_keeps_rules dav_keeps_send) simp_all

lemma dav_keeps_create:
  assumes "url_laws E"
  shows "dav_keeps E C token (create_contact_prog E C token book uid vcard)"
proof -
  have cleared: "same_origin E (ev_clear_fragment E (ev_clear_query E v)) (cl_base_url C)"
    if "same_origin E u (cl_base_url C)" "ev_push_segment E (uid @ ''.vcf'') u = Some v" for u v
    using that assms unfolding url_laws_def by (meson same_origin_trans)
  have step: "dav_keeps E C token (try_prog (Ret (ok_or (ev_push_segment E (uid @ ''.vcf'') u) e)) f)"
    if "same_origin E u (cl_base_url C)"
      "\<And>v. same_origin E (ev_clear_fragment E (ev_clear_query E v)) (cl_base_url C) \<Longrightarrow> dav_keeps E C token (f v)" for u e f
    using that cleared [OF that(1)] unfolding dav_keeps_def
    by (intro allI safe_try_Ret) (auto simp: ok_or_def split: option.splits)
  show ?thesis
    unfolding create_contact_prog_def Let_def
    by (rule dav_keeps_resolve, rule step) (intro dav_keeps_rules dav_keeps_send | simp)+
qed

lemma dav_keeps_ops [dav_safe_progs]:
  "dav_keeps E C token (list_contacts_prog E C token book)" "dav_keeps E C token (search_contacts_prog E C token book q)"
  "dav_keeps E C token (get_contact_prog E C token href)"
  "dav_keeps E C token (update_contact_prog E C token href etag vcard)" "dav_keeps E C token (delete_contact_prog E C token href etag)"
proof -
  show "dav_keeps E C token (list_contacts_prog E C token book)" unfolding list_contacts_prog_def by (rule dav_keeps_query)
  show "dav_keeps E C token (search_contacts_prog E C token book q)"
    unfolding search_contacts_prog_def by (intro dav_keeps_if dav_keeps_Ret dav_keeps_query)
  show "dav_keeps E C token (get_contact_prog E C token href)"
    unfolding get_contact_prog_def by (intro dav_keeps_rules dav_keeps_send) simp_all
  show "dav_keeps E C token (update_contact_prog E C token href etag vcard)"
    unfolding update_contact_prog_def by (intro dav_keeps_rules dav_keeps_send) (simp_all add: if_match_def)
  show "dav_keeps E C token (delete_contact_prog E C token href etag)"
    unfolding delete_contact_prog_def by (intro dav_keeps_rules dav_keeps_send) (simp_all add: if_match_def)
qed

lemma dav_keeps_discover: "well_formed_client E C \<Longrightarrow> dav_keeps E C token (discover_prog E C token)"
  by (rule dav_keeps_post [OF discover_prog_safe])

lemma dav_keeps_list_books: "well_formed_client E C \<Longrightarrow> dav_keeps E C token (list_address_books_prog E C token)"
  unfolding list_address_books_prog_def by (intro dav_keeps_rules dav_keeps_discover dav_keeps_propfind) simp_all

subsection \<open>No operation waits for another\<close>

named_theorems never_waits_progs \<open>programs whose steps have no guard\<close>

lemmas never_waits_rules = quiet_try quiet_bind never_waits_act quiet.simps(1) [THEN iffD2, OF TrueI]

lemma never_waits_if: "never_waits p \<Longrightarrow> never_waits q \<Longrightarrow> never_waits (if b then p else q)"
  by simp

lemma never_waits_send [never_waits_progs]: "never_waits (send_prog E C token q)"
  unfolding send_prog_def by (auto intro!: never_waits_rules split: exchange.splits)

lemma never_waits_propfind [never_waits_progs]: "never_waits (propfind_prog E C token u depth body)"
  unfolding propfind_prog_def by (intro never_waits_rules never_waits_progs)

lemma never_waits_discover [never_waits_progs]: "never_waits (discover_prog E C token)"
  unfolding discover_prog_def discover_fetch_prog_def
  by (auto intro!: never_waits_rules never_waits_progs split: option.splits)

lemma never_waits_list_books [never_waits_progs]: "never_waits (list_address_books_prog E C token)"
  unfolding list_address_books_prog_def by (intro never_waits_rules never_waits_progs)

lemma never_waits_contacts [never_waits_progs]:
  "never_waits (list_contacts_prog E C token book)" "never_waits (search_contacts_prog E C token book query)"
  "never_waits (get_contact_prog E C token href)" "never_waits (create_contact_prog E C token book uid vcard)"
  "never_waits (update_contact_prog E C token href etag vcard)" "never_waits (delete_contact_prog E C token href etag)"
  unfolding list_contacts_prog_def search_contacts_prog_def query_contacts_prog_def get_contact_prog_def
    create_contact_prog_def update_contact_prog_def delete_contact_prog_def Let_def
  by (intro never_waits_rules never_waits_progs never_waits_if)+

subsection \<open>A pool of operations\<close>

text \<open>Task \<open>t\<close> runs the operation \<open>ops t\<close>, or evicts its bearer, as a tool does after a rejection.\<close>

fun op_prog ::
  "('u, 'h, 'ip) dav_env \<Rightarrow> ('u, 'ip) dav_client \<Rightarrow> dav_op \<Rightarrow> ('u, 'h, dav_discovery option) dav_prog" where
  "op_prog E C (OpDiscover t) = try_prog (discover_prog E C t) (\<lambda>d. Ret (Ok (Some d)))"
| "op_prog E C (OpListBooks t) = try_prog (list_address_books_prog E C t) (\<lambda>_. Ret (Ok None))"
| "op_prog E C (OpListContacts t b) = try_prog (list_contacts_prog E C t b) (\<lambda>_. Ret (Ok None))"
| "op_prog E C (OpSearch t b q) = try_prog (search_contacts_prog E C t b q) (\<lambda>_. Ret (Ok None))"
| "op_prog E C (OpGet t h) = try_prog (get_contact_prog E C t h) (\<lambda>_. Ret (Ok None))"
| "op_prog E C (OpCreate t b u v) = try_prog (create_contact_prog E C t b u v) (\<lambda>_. Ret (Ok None))"
| "op_prog E C (OpUpdate t h e v) = try_prog (update_contact_prog E C t h e v) (\<lambda>_. Ret (Ok None))"
| "op_prog E C (OpDelete t h e) = try_prog (delete_contact_prog E C t h e) (\<lambda>_. Ret (Ok None))"

definition evict_prog :: "('u, 'h, 'ip) dav_env \<Rightarrow> string \<Rightarrow> ('u, 'h, 'a option) dav_prog" where
  "evict_prog E token = act (\<lambda>s. (Ok None, evict E token s))"

definition dav_spawn ::
  "('u, 'h, 'ip) dav_env \<Rightarrow> ('u, 'ip) dav_client \<Rightarrow> ('t \<Rightarrow> dav_op) \<Rightarrow> 't \<Rightarrow> ('u, 'h, dav_discovery option) dav_prog \<Rightarrow> bool" where
  "dav_spawn E C ops t p \<longleftrightarrow> p = op_prog E C (ops t) \<or> p = evict_prog E (op_token (ops t))"

abbreviation discovery_post where
  "discovery_post E C token r s \<equiv> \<forall>d. r = Ok (Some d) \<longrightarrow> own_discovery E C token d s"

lemma dav_keeps_answer:
  "dav_keeps E C token p \<Longrightarrow> dav_safe E C token (discovery_post E C token) (try_prog p (\<lambda>_. Ret (Ok None))) s"
  unfolding dav_keeps_def by (auto intro!: safe_try [where Q = "\<lambda>_ _. True"] elim!: safe_weaken split: sum.splits)

lemma op_prog_safe:
  fixes s :: "('u, 'h) dav_state"
  assumes "url_laws E" "well_formed_client E C"
  shows "dav_safe E C (op_token op) (discovery_post E C (op_token op)) (op_prog E C op) s"
proof (cases op)
  case (OpDiscover t)
  have "dav_safe E C t (discovery_post E C t) (try_prog (discover_prog E C t) (\<lambda>d. Ret (Ok (Some d)))) s"
    by (rule safe_try [where Q = "\<lambda>d. own_discovery E C t d"])
       (auto intro: safe_weaken [OF discover_prog_safe [OF assms(2)]] split: sum.splits)
  with OpDiscover show ?thesis by simp
qed (use assms dav_keeps_answer [OF dav_keeps_list_books] dav_keeps_answer [OF dav_keeps_create] dav_keeps_answer [OF dav_keeps_ops(1)]
      dav_keeps_answer [OF dav_keeps_ops(2)] dav_keeps_answer [OF dav_keeps_ops(3)] dav_keeps_answer [OF dav_keeps_ops(4)]
      dav_keeps_answer [OF dav_keeps_ops(5)] in simp_all)

lemma evict_prog_safe:
  fixes s :: "('u, 'h) dav_state"
  shows "dav_safe E C token (discovery_post E C token) (evict_prog E token) s"
  unfolding evict_prog_def
proof (rule dav_act)
  fix v v' :: "('u, 'h) dav_state" and a :: "carddav_error + dav_discovery option"
  assume v: "dav_inv E C v" "(Ok None, evict E token v) = (a, v')"
  have "dav_inv E C (evict E token v)"
    by (rule forgets_inv [OF _ v(1)]) (simp add: forgets_def evict_def discoveries_inv_remove)
  with v(2) show "dav_inv E C v' \<and> dav_guar E C token v v' \<and> discovery_post E C token a v'"
    by (auto simp: dav_guar_def evict_def)
qed

text \<open>The invariant of the pool: that of the client, and every request carries the bearer of some task.\<close>

definition pool_inv ::
  "('u, 'h, 'ip) dav_env \<Rightarrow> ('u, 'ip) dav_client \<Rightarrow> ('t \<Rightarrow> string) \<Rightarrow> ('u, 'h) dav_state \<Rightarrow> bool" where
  "pool_inv E C tok s \<longleftrightarrow> dav_inv E C s \<and> (\<forall>q \<in> set (ds_sent s). \<exists>t. confined E C (tok t) q)"

lemma safe_pool_inv:
  assumes "dav_safe E C (tok t) Q p s"
  shows "safe (pool_inv E C tok) dav_rely (dav_guar E C (tok t)) Q p s"
proof -
  have "pool_inv E C tok v'" if "pool_inv E C tok v" "dav_inv E C v'" "dav_guar E C (tok t) v v'" for v v'
    using that by (auto simp: pool_inv_def dav_guar_def list_all_iff)
  then show ?thesis
    using assms
    by (induction p arbitrary: s rule: prog_induct) (auto simp: safe_Step pool_inv_def)
qed

lemma dav_pool_safe:
  assumes "url_laws E" "well_formed_client E C" "pool_reach (\<lambda>_ _. False) (dav_spawn E C ops) dav_start c"
  shows "pool_safe (pool_inv E C (\<lambda>t. op_token (ops t))) (\<lambda>_. dav_rely) (\<lambda>t. dav_guar E C (op_token (ops t)))
    (\<lambda>t. discovery_post E C (op_token (ops t))) c"
proof (rule pool_invariant [OF _ _ _ _ _ _ assms(3)])
  show "pool_inv E C (\<lambda>t. op_token (ops t)) dav_start"
    using dav_inv_start [of E C] by (simp add: pool_inv_def dav_start_def)
  show "safe (pool_inv E C (\<lambda>t. op_token (ops t))) dav_rely (dav_guar E C (op_token (ops t)))
      (discovery_post E C (op_token (ops t))) p s" if "dav_spawn E C ops t p" for t p s
    using that op_prog_safe [OF assms(1,2)] evict_prog_safe
    by (intro safe_pool_inv [where tok = "\<lambda>t. op_token (ops t)"]) (auto simp: dav_spawn_def)
qed (auto intro: dav_rely_refl dav_rely_trans dav_guar_rely)

subsection \<open>Properties\<close>

text \<open>
  C17: a discovery is the caller's own, when operations overlap. Any number of operations and
  evictions run on one client, interleaved at every request and every use of the cache, and any may be
  dropped half way. Every request in the log, that is every one the client builds and hands to \<open>reqwest\<close>
  (redirects it follows by itself are part of the answer), goes to the configured origin with the bearer
  of a task and no other authorization; the cache never exceeds 256 entries; and the discovery a task ends with
  was obtained with its own bearer, or with one of the same SHA-256 digest and was found in the cache
  less than 3600 seconds after it was stored.
\<close>

theorem discoveries_own_concurrently:
  assumes "url_laws E" "dav_client_new E base ip cap = Ok C"
    and "pool_reach (\<lambda>_ _. False) (dav_spawn E C ops) dav_start (s, P)"
  shows "hm_len (ds_discoveries s) \<le> 256
    \<and> (\<forall>q \<in> set (ds_sent s). same_origin E (rq_url q) (cl_base_url C)
        \<and> (\<exists>t. filter (\<lambda>h. fst h = ''authorization'') (rq_headers q) = [(''authorization'', ''Bearer '' @ op_token (ops t))]))
    \<and> (\<forall>t d. P t = Some (Ret (Ok (Some d))) \<longrightarrow>
        obtained E C (ds_sent s) (op_token (ops t)) d
        \<or> (\<exists>tk n m. ev_sha E tk = ev_sha E (op_token (ops t)) \<and> obtained E C (ds_sent s) tk d
             \<and> n < m \<and> m < ds_ticks s \<and> ev_clock E m - ev_clock E n < secs 3600))"
proof -
  have "well_formed_client E C" using client_new_well_formed [OF assms(1,2)] by simp
  note pool = dav_pool_safe [OF assms(1) this assms(3)]
  then have inv: "dav_inv E C s" and sent: "\<forall>q \<in> set (ds_sent s). \<exists>t. confined E C (op_token (ops t)) q"
    by (simp_all add: pool_safe_def pool_inv_def)
  from inv have "discoveries.inv (ds_discoveries s)" by (simp add: dav_inv_def)
  then have len: "hm_len (ds_discoveries s) \<le> 256" unfolding discoveries.inv_def by (simp add: DISCOVERY_CAP_def)
  have own: "own_discovery E C (op_token (ops t)) d s" if "P t = Some (Ret (Ok (Some d)))" for t d
    using pool that by (force simp: pool_safe_def intro: own_discovery_rely)
  show ?thesis
    using len sent own unfolding own_discovery_def confined_def bearer_auth_header_def by (intro conjI) blast+
qed

theorem discoveries_own_concurrently_witness:
  "\<exists>s d. url_laws sample_env \<and> dav_client_new sample_env ''https://dav'' None 1000 = Ok sample_client
     \<and> pool_reach (\<lambda>_ _. False) (dav_spawn sample_env sample_client (\<lambda>_. OpDiscover ''t'')) dav_start
         (s, [(1::nat) \<mapsto> Ret (Ok (Some d))])
     \<and> hm_len (ds_discoveries s) \<le> 256 \<and> obtained sample_env sample_client (ds_sent s) ''t'' d"
proof -
  let ?p = "op_prog sample_env sample_client (OpDiscover ''t'')"
  obtain s d where r: "discover sample_env sample_client ''t'' dav_start = (Ok d, s)"
    using sample_discover [of "''t''" dav_start] by (auto simp: dav_start_def)
  then have run: "run ?p dav_start = (Ok (Some d), s)" by (simp add: run_try run_dav_progs)
  have "never_waits ?p" by (auto intro!: never_waits_rules never_waits_progs)
  then have "clear ?p dav_start" by (rule never_waits_clear)
  from lone_task [OF _ this, of "dav_spawn sample_env sample_client (\<lambda>_. OpDiscover ''t'')" 1 "\<lambda>_ _. False"] run
  have reach: "pool_reach (\<lambda>_ _. False) (dav_spawn sample_env sample_client (\<lambda>_. OpDiscover ''t'')) dav_start
      (s, [(1::nat) \<mapsto> Ret (Ok (Some d))])" by (simp add: dav_spawn_def del: One_nat_def)
  have sha: "ev_sha sample_env x = x" for x by (simp add: sample_env_def)
  note all = discoveries_own_concurrently [OF sample_laws sample_client_new reach]
  from all have "hm_len (ds_discoveries s) \<le> 256" by simp
  moreover from all have "obtained sample_env sample_client (ds_sent s) ''t'' d" by (auto simp: sha dest!: spec [of _ 1])
  ultimately
  show ?thesis using reach sample_laws sample_client_new by blast
qed

end
