(* ===== verification/Bearer_Auth.thy ===== *)
theory Bearer_Auth
  imports Logto_Oidc Last_Used Audit_Log Oauth_Meta
begin

text \<open>
  The authentication middleware, \<open>src/src/auth.rs\<close>, and the introspection endpoint behind it,
  \<open>src/src/token_introspect.rs\<close>.

  \<^item> \<open>http_request\<close> is what the service reads of a request: method, path, headers as
    \<open>headers().get(name).and_then(|v| v.to_str().ok())\<close> yields them, the names present at all, and the
    two extensions the middleware inserts.
  \<^item> \<open>bearer_auth\<close> returns either the response it answers with or the request it hands to
    \<open>next\<close>, the state afterwards and the audit events; what \<open>next\<close> does is not part of it.
  \<^item> \<open>auth_state\<close> is the mutable part of \<open>AuthState\<close>. SHA-256, hex, the header check of \<open>http\<close> and
    address parsing are the record \<open>auth_env\<close>; \<open>auth_io\<close> holds what one request reads from outside:
    the clocks of the validation, the JWKS reply, and the wall clock. The constant-time comparison of
    the scheme is equality.
\<close>

record http_request =
  hq_method :: string
  hq_path :: string
  hq_header :: "string \<Rightarrow> string option"
  hq_has_header :: "string \<Rightarrow> bool"
  hq_identity :: "authenticated_identity option"
  hq_token :: "string option"

record ('h, 'k, 'j, 'ip) auth_env =
  ae_jwt :: "('h, 'k, 'j) jwt_ops"
  ae_sha :: "string \<Rightarrow> char list"
  ae_hex :: "char list \<Rightarrow> string"
  ae_parse_ip :: "string \<Rightarrow> 'ip option"
  ae_header_valid :: "string \<Rightarrow> bool"

record ('h, 'k, 'ip) auth_state =
  au_logto :: "('h, 'k) logto_client"
  au_last_used :: "'ip last_used_map"

record 'j auth_io =
  io_clocks :: clocks
  io_jwks_reply :: "'j jwks_reply"
  io_wall :: instant

definition hash_of :: "('h, 'k, 'j, 'ip) auth_env \<Rightarrow> string \<Rightarrow> string" where
  "hash_of E token = token_hash (ae_sha E) (ae_hex E) token"

definition extract_bearer :: "string option \<Rightarrow> string option" where
  "extract_bearer header =
     (case header of
        None \<Rightarrow> None
      | Some raw \<Rightarrow>
          (case split_once SPC (trim raw) of
             None \<Rightarrow> None
           | Some (scheme, v) \<Rightarrow>
               if scheme \<noteq> ''Bearer'' then None
               else let token = trim v in if token = [] then None else Some token))"

definition unauthorized :: "(string \<Rightarrow> bool) \<Rightarrow> string \<Rightarrow> http_response" where
  "unauthorized header_valid resource_url =
     (let h = www_authenticate_header resource_url;
          v = (if header_valid h then h else ''Bearer'');
          r = plain_response 401 (''unauthorized'' @ [LF])
      in r\<lparr>rs_headers := (''www-authenticate'', v) # rs_headers r\<rparr>)"

definition internal_error_response :: http_response where
  "internal_error_response = plain_response 500 (''token validation upstream error'' @ [LF])"

definition bearer_auth ::
  "('h, 'k, 'j, 'ip) auth_env \<Rightarrow> 'a config \<Rightarrow> 'j auth_io \<Rightarrow> http_request \<Rightarrow> ('h, 'k, 'ip) auth_state
     \<Rightarrow> (http_response + http_request) \<times> ('h, 'k, 'ip) auth_state \<times> introspect_event list" where
  "bearer_auth E cfg io req st =
     (case extract_bearer (hq_header req ''authorization'') of
        None \<Rightarrow> (Inl (unauthorized (ae_header_valid E) (cf_resource_url cfg)), st, [])
      | Some token \<Rightarrow>
          let th = hash_of E token;
              is_introspect_path = (hq_path req = ''/token/introspect'');
              (r, logto, _) = validate_token (ae_jwt E) (io_clocks io) (io_jwks_reply io) token (au_logto st);
              st1 = st\<lparr>au_logto := logto\<rparr>
          in case r of
               Inr (Some identity) \<Rightarrow>
                 let xff = hq_header req ''x-forwarded-for'';
                     st2 = (if is_introspect_path then st1
                            else st1\<lparr>au_last_used := record_use (io_wall io) th
                                   (parse_client_ip (ae_parse_ip E) xff (cf_trusted_proxy_hops cfg)) (au_last_used st1)\<rparr>)
                 in (Inr (req\<lparr>hq_identity := Some identity, hq_token := Some token\<rparr>), st2,
                     [audit_introspect th OUT_ACTIVE (ai_email identity)])
             | Inr None \<Rightarrow>
                 (Inl (unauthorized (ae_header_valid E) (cf_resource_url cfg)), st1,
                  [audit_introspect th OUT_INACTIVE None])
             | Inl e \<Rightarrow> (Inl internal_error_response, st1, [audit_introspect th OUT_ERROR None]))"

record 'ip token_introspect_response =
  ti_user_id :: string
  ti_email :: "string option"
  ti_name :: "string option"
  ti_exp :: "int option"
  ti_token_hash :: string
  ti_last_used :: "'ip last_used_record option"

definition introspect_handler ::
  "('h, 'k, 'j, 'ip) auth_env \<Rightarrow> ('h, 'k, 'ip) auth_state \<Rightarrow> http_request
     \<Rightarrow> http_response + 'ip token_introspect_response" where
  "introspect_handler E st req =
     (case hq_identity req of
        None \<Rightarrow> Inl (plain_response 500 (''auth middleware did not populate identity'' @ [LF]))
      | Some identity \<Rightarrow>
          (case hq_token req of
             None \<Rightarrow> Inl (plain_response 500 (''auth middleware did not populate access token'' @ [LF]))
           | Some token \<Rightarrow>
               let th = hash_of E token in
               Inr \<lparr>ti_user_id = ai_user_id identity, ti_email = ai_email identity, ti_name = ai_name identity,
                    ti_exp = ai_exp identity, ti_token_hash = th, ti_last_used = get_use (au_last_used st) th\<rparr>))"

subsection \<open>The token of a request\<close>

text \<open>
  The header names a token: after trimming, the scheme \<open>Bearer\<close>, one space, and text that is the
  token once trimmed.
\<close>

lemma extract_bearer_Some:
  "extract_bearer header = Some token \<longleftrightarrow>
     (\<exists>raw v. header = Some raw \<and> trim raw = ''Bearer'' @ SPC # v \<and> token = trim v \<and> token \<noteq> [])"
proof
  assume "extract_bearer header = Some token"
  then obtain raw v where r: "header = Some raw" "split_once SPC (trim raw) = Some (''Bearer'', v)"
    "token = trim v" "token \<noteq> []"
    by (auto simp: extract_bearer_def Let_def split: option.splits if_splits)
  from split_once_Some [OF r(2)] r(1,3,4) show "\<exists>raw v. header = Some raw \<and> trim raw = ''Bearer'' @ SPC # v
      \<and> token = trim v \<and> token \<noteq> []" by blast
next
  assume "\<exists>raw v. header = Some raw \<and> trim raw = ''Bearer'' @ SPC # v \<and> token = trim v \<and> token \<noteq> []"
  then obtain raw v where r: "header = Some raw" "trim raw = ''Bearer'' @ SPC # v" "token = trim v" "token \<noteq> []"
    by blast
  have "split_once SPC (''Bearer'' @ SPC # v) = Some (''Bearer'', v)" by (rule split_once_append) simp
  with r show "extract_bearer header = Some token"
    by (simp only: extract_bearer_def option.case prod.case Let_def) simp
qed

lemma bearer_auth_next:
  assumes "bearer_auth E cfg io req st = (Inr req', st', evs)"
  obtains token i where "extract_bearer (hq_header req ''authorization'') = Some token"
    "req' = req\<lparr>hq_identity := Some i, hq_token := Some token\<rparr>"
    "\<exists>sent. validate_token (ae_jwt E) (io_clocks io) (io_jwks_reply io) token (au_logto st)
       = (Ok (Some i), au_logto st', sent)"
    "au_last_used st' = (if hq_path req = ''/token/introspect'' then au_last_used st
       else record_use (io_wall io) (hash_of E token)
         (parse_client_ip (ae_parse_ip E) (hq_header req ''x-forwarded-for'') (cf_trusted_proxy_hops cfg)) (au_last_used st))"
    "evs = [audit_introspect (hash_of E token) OUT_ACTIVE (ai_email i)]"
  using assms by (auto simp: bearer_auth_def Let_def split: option.splits prod.splits sum.splits if_splits)

lemma bearer_auth_logto:
  assumes "bearer_auth E cfg io req st = (r, st', evs)"
  shows "au_logto st' = au_logto st \<or> (\<exists>token v sent. validate_token (ae_jwt E) (io_clocks io) (io_jwks_reply io)
    token (au_logto st) = (v, au_logto st', sent))"
  using assms by (auto simp: bearer_auth_def Let_def split: option.splits prod.splits sum.splits if_splits)

subsection \<open>Properties\<close>

text \<open>
  How an identity was established: verified in this validation, or verified less than 60 seconds
  earlier for a token with the same digest, before that token's expiry, and not dropped since.
\<close>

definition established ::
  "('h, 'k, 'j) jwt_ops \<Rightarrow> ('h, 'k) logto_client \<Rightarrow> 'h oidc_event list \<Rightarrow> 'j list \<Rightarrow> clocks \<Rightarrow> 'j jwks_reply
     \<Rightarrow> string \<Rightarrow> authenticated_identity \<Rightarrow> bool" where
  "established J c0 h served ck reply token i \<longleftrightarrow>
     genuine J c0 (reply_keys reply @ served) (ck_unix ck) token i (the (ai_exp i))
     \<or> (\<exists>pre ck0 token0 x post. h = pre @ Verified ck0 (jw_sha J token) token0 i x # post
         \<and> Dropped (jw_sha J token) \<notin> set pre \<and> jw_sha J token0 = jw_sha J token
         \<and> genuine J c0 served (ck_unix ck0) token0 i x
         \<and> ck_now ck < ck_done ck0 + secs 60 \<and> ck_now ck < ck_done ck0 + secs (nat (x - ck_unix ck0)))"

text \<open>
  C2: nothing gets past the middleware unauthenticated. In every reachable state of the validation
  client, a request is handed on only if its \<open>Authorization\<close> header is \<open>Bearer\<close> and a token, it is
  then the same request with that token and an identity established for it, and everything else is
  answered 401 with a challenge naming the metadata document (when it is a valid header) or 500.
\<close>

theorem bearer_auth_gate:
  assumes "logto_new authz auds = Some c0" "oidc_reach (ae_jwt E) c0 h served (au_logto st)"
    and "bearer_auth E cfg io req st = (r, st', evs)"
  shows "case r of
      Inr req' \<Rightarrow> (\<exists>raw v token i. hq_header req ''authorization'' = Some raw \<and> trim raw = ''Bearer'' @ SPC # v
         \<and> token = trim v \<and> token \<noteq> [] \<and> req' = req\<lparr>hq_identity := Some i, hq_token := Some token\<rparr>
         \<and> established (ae_jwt E) c0 h served (io_clocks io) (io_jwks_reply io) token i)
    | Inl resp \<Rightarrow> (rs_status resp = 401 \<and> header_of ''www-authenticate'' resp
           = Some (let w = www_authenticate_header (cf_resource_url cfg) in if ae_header_valid E w then w else ''Bearer'')
         \<or> rs_status resp = 500) \<and> au_last_used st' = au_last_used st"
proof (cases r)
  case (Inl resp)
  with assms(3) show ?thesis
    by (auto simp: bearer_auth_def Let_def unauthorized_def internal_error_response_def header_of_def
        split: option.splits prod.splits sum.splits if_splits)
next
  case (Inr req')
  from assms(3) [unfolded Inr] obtain token i sent where n:
    "extract_bearer (hq_header req ''authorization'') = Some token"
    "req' = req\<lparr>hq_identity := Some i, hq_token := Some token\<rparr>"
    "validate_token (ae_jwt E) (io_clocks io) (io_jwks_reply io) token (au_logto st) = (Ok (Some i), au_logto st', sent)"
    by (elim bearer_auth_next) blast
  have "established (ae_jwt E) c0 h served (io_clocks io) (io_jwks_reply io) token i"
    unfolding established_def by (rule accepted_identity [OF assms(1,2) n(3)])
  with n(1,2) Inr show ?thesis unfolding extract_bearer_Some by auto
qed

definition sample_auth_env :: "(string, string, string, string) auth_env" where
  "sample_auth_env = \<lparr>ae_jwt = sample_jwt, ae_sha = (\<lambda>t. t), ae_hex = (\<lambda>b. b), ae_parse_ip = Some,
     ae_header_valid = (\<lambda>_. True)\<rparr>"

definition sample_request :: http_request where
  "sample_request = \<lparr>hq_method = ''POST'', hq_path = ''/mcp'',
     hq_header = (\<lambda>n. if n = ''authorization'' then Some ''Bearer tok'' else None),
     hq_has_header = (\<lambda>n. n = ''authorization''), hq_identity = None, hq_token = None\<rparr>"

definition sample_io :: "string auth_io" where
  "sample_io = \<lparr>io_clocks = sample_clocks, io_jwks_reply = JwkSet [''KEY''], io_wall = 5\<rparr>"

lemma sample_extract: "extract_bearer (hq_header sample_request ''authorization'') = Some ''tok''"
  by (simp add: sample_request_def extract_bearer_def trim_def trim_end_def ws1_def ws2_def ws3_def code_def)

definition sample_config :: "nat config" where
  "sample_config = \<lparr>cf_resource_url = ''https://r'', cf_authorization_server = ''https://l'',
     cf_stalwart_dav_base_url = ''https://dav'', cf_bind_addr = 1, cf_metrics_bind_addr = 2,
     cf_rate_limit_reads_per_min = 60, cf_rate_limit_writes_per_min = 30, cf_dav_max_response_bytes = 1000,
     cf_trusted_proxy_hops = 2, cf_stalwart_connect_ip = None, cf_dcr_client_id = None,
     cf_oauth_redirect_uris = [], cf_stalwart_audience = ''https://dav''\<rparr>"

lemma sample_passes:
  fixes c0 :: "(string, string) logto_client"
  assumes "logto_new ''https://l'' [''https://r''] = Some c0"
  shows "\<exists>st' evs. bearer_auth sample_auth_env sample_config sample_io sample_request
      \<lparr>au_logto = c0, au_last_used = []\<rparr>
    = (Inr (sample_request\<lparr>hq_identity := Some (identity_of sample_claims), hq_token := Some ''tok''\<rparr>), st', evs)"
proof -
  from sample_validated assms obtain c' where
    "validate_token sample_jwt sample_clocks (JwkSet [''KEY'']) ''tok'' c0 = (Ok (Some (identity_of sample_claims)), c', True)"
    by auto
  then show ?thesis
    by (simp add: bearer_auth_def sample_extract sample_auth_env_def sample_io_def Let_def)
qed

theorem bearer_auth_gate_witness:
  "\<exists>c0 st' req' evs. logto_new ''https://l'' [''https://r''] = Some c0
     \<and> bearer_auth sample_auth_env sample_config sample_io sample_request
         \<lparr>au_logto = c0, au_last_used = []\<rparr> = (Inr req', st', evs)
     \<and> established sample_jwt c0 [] [] sample_clocks (JwkSet [''KEY'']) ''tok'' (identity_of sample_claims)"
proof -
  obtain c0 :: "(string, string) logto_client" where c0: "logto_new ''https://l'' [''https://r''] = Some c0" using sample_validated by blast
  from sample_passes [OF c0] obtain st' evs where
    b: "bearer_auth sample_auth_env sample_config sample_io sample_request \<lparr>au_logto = c0, au_last_used = []\<rparr>
      = (Inr (sample_request\<lparr>hq_identity := Some (identity_of sample_claims), hq_token := Some ''tok''\<rparr>), st', evs)" by blast
  have e: "ae_jwt sample_auth_env = sample_jwt" "io_clocks sample_io = sample_clocks"
    "io_jwks_reply sample_io = JwkSet [''KEY'']" by (simp_all add: sample_auth_env_def sample_io_def)
  have "oidc_reach (ae_jwt sample_auth_env) c0 [] [] (au_logto \<lparr>au_logto = c0, au_last_used = []\<rparr>)"
    by (simp add: oidc_start)
  from bearer_auth_gate [OF c0 this b] e
  have "established sample_jwt c0 [] [] sample_clocks (JwkSet [''KEY'']) ''tok'' (identity_of sample_claims)"
    by (auto simp: sample_request_def)
  with c0 b show ?thesis by blast
qed

text \<open>
  C37: introspection reports the last real use and is not one. A request that passes the middleware on
  \<open>/token/introspect\<close> leaves the tracker as it was, and the handler then answers with the identity and
  digest of the caller's own bearer and the record its last use left; a request on any other path
  leaves its own wall-clock time and client address under that bearer.
\<close>

theorem introspection_reports_last_use:
  assumes "bearer_auth E cfg io req st = (Inr req', st', evs)"
  shows "\<exists>token i. hq_token req' = Some token \<and> hq_identity req' = Some i \<and>
    (if hq_path req = ''/token/introspect''
     then introspect_handler E st' req' = Inr \<lparr>ti_user_id = ai_user_id i, ti_email = ai_email i,
         ti_name = ai_name i, ti_exp = ai_exp i, ti_token_hash = hash_of E token,
         ti_last_used = get_use (au_last_used st) (hash_of E token)\<rparr>
       \<and> au_last_used st' = au_last_used st
     else hm_wf (au_last_used st) \<longrightarrow> get_use (au_last_used st') (hash_of E token)
       = Some \<lparr>lu_at = io_wall io, lu_ip = parse_client_ip (ae_parse_ip E) (hq_header req ''x-forwarded-for'')
                (cf_trusted_proxy_hops cfg)\<rparr>)"
  using assms
  by (elim bearer_auth_next) (auto simp: introspect_handler_def Let_def get_use_def record_use_get)

theorem introspection_reports_last_use_witness:
  "\<exists>c0 :: (string, string) logto_client. \<exists>st' req' evs.
     bearer_auth sample_auth_env sample_config sample_io sample_request \<lparr>au_logto = c0, au_last_used = []\<rparr>
       = (Inr req', st', evs)
     \<and> get_use (au_last_used st') ''tok'' = Some \<lparr>lu_at = 5, lu_ip = None\<rparr>"
proof -
  obtain c0 :: "(string, string) logto_client" where c0: "logto_new ''https://l'' [''https://r''] = Some c0"
    using sample_validated by blast
  from sample_passes [OF c0] obtain st' evs where
    b: "bearer_auth sample_auth_env sample_config sample_io sample_request \<lparr>au_logto = c0, au_last_used = []\<rparr>
      = (Inr (sample_request\<lparr>hq_identity := Some (identity_of sample_claims), hq_token := Some ''tok''\<rparr>), st', evs)" by blast
  have "hash_of sample_auth_env ''tok'' = ''tok''" by (simp add: hash_of_def token_hash_def sample_auth_env_def)
  with introspection_reports_last_use [OF b]
  have "get_use (au_last_used st') ''tok'' = Some \<lparr>lu_at = 5, lu_ip = None\<rparr>"
    by (simp add: sample_request_def sample_io_def parse_client_ip_def)
  with b show ?thesis by blast
qed

end
