(* ===== verification/Mcp_Tools.thy ===== *)
theory Mcp_Tools
  imports Dav_Client Vcard Birthday Rate_Limit Logto_Oidc "HOL-Library.Option_ord"
    "HOL-Library.Product_Lexorder" "HOL-Library.List_Lexorder" "HOL-Library.Char_ord"
begin

text \<open>
  The MCP tools, \<open>src/src/mcp.rs\<close>, without the vCard codec (theory \<open>Vcard\<close>).

  \<^item> \<open>service\<close> is the state the tools share: the CardDAV client's, the token validation client's and
    the limiter's. \<open>tool_env\<close> collects what comes from elsewhere, \<open>call_ctx\<close> what one call reads: the
    identity and the bearer in its request context, the limiter's clock, today's date in UTC and the
    random bytes of a new UID.
  \<^item> A tool ends with a result, or with \<open>stop\<close>: an error for the caller, a panic (chrono's \<open>+\<close> out of
    range) or a loop that does not end (line folding on text that is not UTF-8).
  \<^item> \<open>tool_body\<close> is the \<open>async\<close> block of each tool, \<open>call_tool\<close> the whole handler: the block, the
    reaction to an expired bearer, and the audit event. The parameters arrive deserialised;
    \<open>structured_result\<close> serialises records of strings and numbers, which cannot fail. Tracing spans
    are left out.
\<close>

definition MAX_CONTACT_LIMIT :: nat where "MAX_CONTACT_LIMIT = 100"
definition MAX_BIRTHDAY_DAYS :: nat where "MAX_BIRTHDAY_DAYS = 366"

subsection \<open>Parameters and results\<close>

record list_contacts_params =
  lp_addressbook_href :: string
  lp_limit :: nat

record search_contacts_params =
  sp_query :: string
  sp_addressbook_href :: "string option"
  sp_limit :: nat

record upcoming_birthdays_params =
  bp_days :: nat
  bp_addressbook_href :: "string option"
  bp_reference_date :: "string option"

record create_contact_params =
  cp_addressbook_href :: string
  cp_contact :: contact_input

record update_contact_params =
  up_contact_href :: string
  up_etag :: "string option"
  up_contact :: contact_input

record delete_contact_params =
  dp_contact_href :: string
  dp_etag :: "string option"

definition default_contact_limit :: nat where "default_contact_limit = 25"
definition default_birthday_days :: nat where "default_birthday_days = 14"

record whoami_result =
  wh_user_id :: string
  wh_email :: "string option"
  wh_name :: "string option"
  wh_principal_href :: string
  wh_addressbook_home_href :: string

record address_book_summary =
  bs_id :: string
  bs_href :: string
  bs_name :: string
  bs_ctag :: "string option"

record contact_summary =
  cs_href :: string
  cs_etag :: "string option"
  cs_uid :: "string option"
  cs_full_name :: "string option"
  cs_given_name :: "string option"
  cs_family_name :: "string option"
  cs_emails :: "string list"
  cs_phones :: "string list"
  cs_organization :: "string option"
  cs_title :: "string option"
  cs_note :: "string option"
  cs_birthday :: "string option"
  cs_has_photo :: bool
  cs_vcard :: string

record upcoming_birthday =
  ub_href :: string
  ub_uid :: "string option"
  ub_full_name :: "string option"
  ub_birthday :: string
  ub_month_day :: string
  ub_days_until :: nat
  ub_next_occurrence :: string
  ub_turning :: "int option"

record upcoming_birthdays_result =
  br_birthdays :: "upcoming_birthday list"
  br_reference_date :: string
  br_days :: nat
  br_contacts_scanned :: nat
  br_unparseable_birthdays :: nat

record contact_write_result =
  cw_href :: string
  cw_etag :: "string option"
  cw_uid :: string

record delete_contact_result =
  del_href :: string
  del_deleted :: bool

datatype tool_result =
    WhoamiResult whoami_result
  | AddressBooksResult "address_book_summary list"
  | ContactsResult "contact_summary list"
  | BirthdaysResult upcoming_birthdays_result
  | ContactWriteResult contact_write_result
  | DeleteContactResult delete_contact_result

datatype mcp_call =
    Whoami
  | ListAddressBooks
  | ListContacts list_contacts_params
  | UpcomingBirthdays upcoming_birthdays_params
  | SearchContacts search_contacts_params
  | CreateContact create_contact_params
  | UpdateContact update_contact_params
  | DeleteContact delete_contact_params

datatype stop = Fail error_data | Panic | Diverge

subsection \<open>The service\<close>

record ('u, 'h, 'k, 'b) service =
  sv_carddav :: "('u, 'h) dav_state"
  sv_logto :: "('h, 'k) logto_client"
  sv_limiter :: "'b limiter"

record ('u, 'h, 'ip, 'k, 'j, 'q, 'b, 'd) tool_env =
  tv_dav :: "('u, 'h, 'ip) dav_env"
  tv_client :: "('u, 'ip) dav_client"
  tv_jwt :: "('h, 'k, 'j) jwt_ops"
  tv_governor :: "('q, 'b) governor"
  tv_sha :: "string \<Rightarrow> char list"
  tv_hex :: "char list \<Rightarrow> string"
  tv_calendar :: "'d calendar"
  tv_parse_date :: "string \<Rightarrow> 'd option"
  tv_format_date :: "'d \<Rightarrow> string"
  tv_http_text :: string

record 'd call_ctx =
  cx_identity :: "authenticated_identity option"
  cx_token :: "string option"
  cx_now :: instant
  cx_today :: 'd
  cx_random :: "char list"

type_synonym ('u, 'h, 'k, 'b, 'a) tool_task = "(('u, 'h, 'k, 'b) service, stop, 'a) task"

definition missing_identity_err :: error_data where
  "missing_identity_err = internal_error ''no authenticated identity in request context''"

definition missing_token_err :: error_data where
  "missing_token_err = internal_error ''no access token in request context''"

text \<open>\<open>CardDavError\<close>'s \<open>Display\<close>; \<open>http\<close> is the text of the \<open>reqwest\<close> error.\<close>

fun carddav_error_text :: "string \<Rightarrow> carddav_error \<Rightarrow> string" where
  "carddav_error_text http Unauthorized = ''not authenticated to Stalwart CardDAV (token expired or bearer rejected)''"
| "carddav_error_text http NotFound = ''CardDAV resource was not found''"
| "carddav_error_text http Conflict = ''CardDAV write conflicted with the current ETag''"
| "carddav_error_text http TooLarge = ''CardDAV response exceeds the configured size cap''"
| "carddav_error_text http (InvalidHref h) = ''unsafe or invalid DAV href: '' @ h"
| "carddav_error_text http (InvalidData m) = ''invalid CardDAV data: '' @ m"
| "carddav_error_text http HttpError = ''CardDAV transport error: '' @ http"
| "carddav_error_text http (Upstream n) = ''CardDAV endpoint returned non-success status '' @ digits_of n"
| "carddav_error_text http (Xml m) = ''invalid CardDAV XML: '' @ m"

definition map_carddav_err :: "string \<Rightarrow> carddav_error \<Rightarrow> error_data" where
  "map_carddav_err http e =
     (case e of
        Unauthorized \<Rightarrow>
          \<lparr>err_code = AUTH_EXPIRED_CODE, err_msg = ''auth expired or Stalwart rejected bearer; reconnect''\<rparr>
      | NotFound \<Rightarrow> invalid_params (carddav_error_text http e)
      | Conflict \<Rightarrow> invalid_params (carddav_error_text http e)
      | TooLarge \<Rightarrow> invalid_params (carddav_error_text http e)
      | InvalidHref _ \<Rightarrow> invalid_params (carddav_error_text http e)
      | InvalidData _ \<Rightarrow> invalid_params (carddav_error_text http e)
      | _ \<Rightarrow> internal_error (carddav_error_text http e))"

text \<open>\<open>self.carddav.f(..).await.map_err(map_carddav_err)\<close>\<close>

definition dav_call ::
  "('u, 'h, 'ip, 'k, 'j, 'q, 'b, 'd) tool_env \<Rightarrow> ('u, 'h, 'a) dav_task \<Rightarrow> ('u, 'h, 'k, 'b, 'a) tool_task" where
  "dav_call T m s =
     (let (r, d) = m (sv_carddav s)
      in (map_err (\<lambda>e. Fail (map_carddav_err (tv_http_text T) e)) r, s\<lparr>sv_carddav := d\<rparr>))"

definition need_token :: "'d call_ctx \<Rightarrow> ('u, 'h, 'k, 'b, string) tool_task" where
  "need_token ctx = pure_task (ok_or (cx_token ctx) (Fail missing_token_err))"

definition fallible :: "error_data + 'a \<Rightarrow> ('u, 'h, 'k, 'b, 'a) tool_task" where
  "fallible r = pure_task (map_err Fail r)"

definition rate_limit_err :: error_data where
  "rate_limit_err = \<lparr>err_code = RATE_LIMITED_CODE, err_msg = ''rate limit exceeded - try again in a minute''\<rparr>"

definition rate_limit_check ::
  "('u, 'h, 'ip, 'k, 'j, 'q, 'b, 'd) tool_env \<Rightarrow> 'd call_ctx \<Rightarrow> category \<Rightarrow> ('u, 'h, 'k, 'b, unit) tool_task" where
  "rate_limit_check T ctx category =
     bind_task (need_token ctx) (\<lambda>token.
     bind_task (pure_task (ok_or (cx_identity ctx) (Fail missing_identity_err))) (\<lambda>identity s.
       let (r, l) = limiter_check (tv_governor T) (cx_now ctx) (token_hash (tv_sha T) (tv_hex T) token)
                      (Some (ai_user_id identity)) category (sv_limiter s)
       in (map_err (\<lambda>_. Fail rate_limit_err) r, s\<lparr>sv_limiter := l\<rparr>)))"

subsection \<open>Helpers\<close>

definition validated_limit :: "nat \<Rightarrow> error_data + nat" where
  "validated_limit limit =
     (if limit = 0 then Err (invalid_params ''`limit` must be greater than zero'')
      else Ok (min limit MAX_CONTACT_LIMIT))"

definition href_id :: "string \<Rightarrow> string" where
  "href_id href =
     (case List.find (\<lambda>part. part \<noteq> []) (rev (split_on (CHR ''/'') (trim_end_matches (CHR ''/'') href))) of
        Some part \<Rightarrow> part | None \<Rightarrow> href)"

definition book_summary :: "dav_address_book \<Rightarrow> address_book_summary" where
  "book_summary book =
     \<lparr>bs_id = href_id (ab_href book), bs_href = ab_href book, bs_name = ab_display_name book, bs_ctag = ab_ctag book\<rparr>"

definition contact_summary_of :: "dav_contact \<Rightarrow> contact_summary" where
  "contact_summary_of contact =
     (let parsed = parse_vcard (dc_vcard contact) in
      \<lparr>cs_href = dc_href contact, cs_etag = dc_etag contact, cs_uid = pv_uid parsed,
       cs_full_name = pv_full_name parsed, cs_given_name = pv_given_name parsed,
       cs_family_name = pv_family_name parsed, cs_emails = pv_emails parsed, cs_phones = pv_phones parsed,
       cs_organization = pv_organization parsed, cs_title = pv_title parsed, cs_note = pv_note parsed,
       cs_birthday = pv_birthday parsed, cs_has_photo = pv_has_photo parsed, cs_vcard = dc_vcard contact\<rparr>)"

definition generate_uid :: "(char list \<Rightarrow> string) \<Rightarrow> char list \<Rightarrow> string" where
  "generate_uid hex bytes = hex bytes @ ''@carddav-mcp''"

definition built :: "contact_input \<Rightarrow> string \<Rightarrow> stop + string" where
  "built contact uid = (case build_vcard contact uid of None \<Rightarrow> Err Diverge | Some r \<Rightarrow> map_err Fail r)"

text \<open>The address books a search covers: the given one, or all of the caller's.\<close>

definition books_to_scan ::
  "('u, 'h, 'ip, 'k, 'j, 'q, 'b, 'd) tool_env \<Rightarrow> string \<Rightarrow> string option \<Rightarrow> ('u, 'h, 'k, 'b, string list) tool_task" where
  "books_to_scan T token href =
     (case href of
        Some h \<Rightarrow> return_task [h]
      | None \<Rightarrow> bind_task (dav_call T (list_address_books (tv_dav T) (tv_client T) token)) (\<lambda>books.
          return_task (map ab_href books)))"

subsection \<open>Searching\<close>

fun take_matches ::
  "nat \<Rightarrow> string list \<Rightarrow> contact_summary list \<Rightarrow> dav_contact list \<Rightarrow> string list \<times> contact_summary list" where
  "take_matches limit seen contacts [] = (seen, contacts)"
| "take_matches limit seen contacts (c # rest) =
     (let (seen', contacts') =
        (if dc_href c \<in> set seen then (seen, contacts)
         else (dc_href c # seen, contacts @ [contact_summary_of c]))
      in if length contacts' \<ge> limit then (seen', contacts') else take_matches limit seen' contacts' rest)"

fun search_books ::
  "('u, 'h, 'ip, 'k, 'j, 'q, 'b, 'd) tool_env \<Rightarrow> string \<Rightarrow> string \<Rightarrow> nat \<Rightarrow> string list \<Rightarrow> contact_summary list
     \<Rightarrow> string list \<Rightarrow> ('u, 'h, 'k, 'b, contact_summary list) tool_task" where
  "search_books T token query limit seen contacts [] = return_task contacts"
| "search_books T token query limit seen contacts (href # hrefs) =
     bind_task (dav_call T (search_contacts (tv_dav T) (tv_client T) token href query)) (\<lambda>matches.
       let (seen', contacts') = take_matches limit seen contacts matches in
       if length contacts' \<ge> limit then return_task contacts'
       else search_books T token query limit seen' contacts' hrefs)"

subsection \<open>Birthdays\<close>

record birthday_scan =
  bn_birthdays :: "upcoming_birthday list"
  bn_scanned :: nat
  bn_unparseable :: nat

definition or_panic :: "'a option \<Rightarrow> stop + 'a" where
  "or_panic v = ok_or v Panic"

definition scan_contact ::
  "('u, 'h, 'ip, 'k, 'j, 'q, 'b, 'd) tool_env \<Rightarrow> 'd \<Rightarrow> nat \<Rightarrow> dav_contact \<Rightarrow> birthday_scan \<Rightarrow> stop + birthday_scan" where
  "scan_contact T today days contact acc0 =
     (let acc = acc0\<lparr>bn_scanned := bn_scanned acc0 + 1\<rparr>;
          parsed = parse_vcard (dc_vcard contact) in
      case pv_birthday parsed of
        None \<Rightarrow> Ok acc
      | Some raw \<Rightarrow>
          (case parse_bday (tv_calendar T) raw of
             None \<Rightarrow> Ok (acc\<lparr>bn_unparseable := bn_unparseable acc + 1\<rparr>)
           | Some bday \<Rightarrow>
               (case within_window (tv_calendar T) bday today days of
                  None \<Rightarrow> Ok acc
                | Some remaining \<Rightarrow>
                    and_then (or_panic (cal_add (tv_calendar T) today remaining)) (\<lambda>next.
                    and_then (or_panic (turning (tv_calendar T) bday today)) (\<lambda>age.
                      Ok (acc\<lparr>bn_birthdays := bn_birthdays acc @
                        [\<lparr>ub_href = dc_href contact, ub_uid = pv_uid parsed, ub_full_name = pv_full_name parsed,
                          ub_birthday = bd_raw bday,
                          ub_month_day = pad0 2 (digits_of (bd_month bday)) @ ''-'' @ pad0 2 (digits_of (bd_day bday)),
                          ub_days_until = remaining, ub_next_occurrence = tv_format_date T next,
                          ub_turning = age\<rparr>]\<rparr>))))))"

fun scan_contacts ::
  "('u, 'h, 'ip, 'k, 'j, 'q, 'b, 'd) tool_env \<Rightarrow> 'd \<Rightarrow> nat \<Rightarrow> dav_contact list \<Rightarrow> birthday_scan \<Rightarrow> stop + birthday_scan" where
  "scan_contacts T today days [] acc = Ok acc"
| "scan_contacts T today days (c # cs) acc =
     and_then (scan_contact T today days c acc) (scan_contacts T today days cs)"

fun scan_books ::
  "('u, 'h, 'ip, 'k, 'j, 'q, 'b, 'd) tool_env \<Rightarrow> string \<Rightarrow> 'd \<Rightarrow> nat \<Rightarrow> string list \<Rightarrow> birthday_scan
     \<Rightarrow> ('u, 'h, 'k, 'b, birthday_scan) tool_task" where
  "scan_books T token today days [] acc = return_task acc"
| "scan_books T token today days (href # hrefs) acc =
     bind_task (dav_call T (list_contacts (tv_dav T) (tv_client T) token href)) (\<lambda>contacts.
     bind_task (pure_task (scan_contacts T today days contacts acc)) (scan_books T token today days hrefs))"

definition reference_day ::
  "('u, 'h, 'ip, 'k, 'j, 'q, 'b, 'd) tool_env \<Rightarrow> 'd call_ctx \<Rightarrow> string option \<Rightarrow> error_data + 'd" where
  "reference_day T ctx raw =
     (case raw of
        Some r \<Rightarrow> ok_or (tv_parse_date T (trim r)) (invalid_params ''`reference_date` must be YYYY-MM-DD'')
      | None \<Rightarrow> Ok (cx_today ctx))"

definition birthday_order :: "upcoming_birthday \<Rightarrow> nat \<times> string option" where
  "birthday_order b = (ub_days_until b, ub_full_name b)"

subsection \<open>The tools\<close>

definition whoami ::
  "('u, 'h, 'ip, 'k, 'j, 'q, 'b, 'd) tool_env \<Rightarrow> 'd call_ctx \<Rightarrow> ('u, 'h, 'k, 'b, tool_result) tool_task" where
  "whoami T ctx =
     bind_task (rate_limit_check T ctx Read) (\<lambda>_.
     bind_task (need_token ctx) (\<lambda>token.
     bind_task (pure_task (ok_or (cx_identity ctx) (Fail missing_identity_err))) (\<lambda>identity.
     bind_task (dav_call T (discover (tv_dav T) (tv_client T) token)) (\<lambda>discovery.
       return_task (WhoamiResult
         \<lparr>wh_user_id = ai_user_id identity, wh_email = ai_email identity, wh_name = ai_name identity,
          wh_principal_href = dd_principal_href discovery,
          wh_addressbook_home_href = dd_addressbook_home_href discovery\<rparr>)))))"

definition tool_list_address_books ::
  "('u, 'h, 'ip, 'k, 'j, 'q, 'b, 'd) tool_env \<Rightarrow> 'd call_ctx \<Rightarrow> ('u, 'h, 'k, 'b, tool_result) tool_task" where
  "tool_list_address_books T ctx =
     bind_task (rate_limit_check T ctx Read) (\<lambda>_.
     bind_task (need_token ctx) (\<lambda>token.
     bind_task (dav_call T (list_address_books (tv_dav T) (tv_client T) token)) (\<lambda>books.
       return_task (AddressBooksResult (map book_summary books)))))"

definition tool_list_contacts ::
  "('u, 'h, 'ip, 'k, 'j, 'q, 'b, 'd) tool_env \<Rightarrow> 'd call_ctx \<Rightarrow> list_contacts_params
     \<Rightarrow> ('u, 'h, 'k, 'b, tool_result) tool_task" where
  "tool_list_contacts T ctx params =
     bind_task (rate_limit_check T ctx Read) (\<lambda>_.
     bind_task (fallible (validated_limit (lp_limit params))) (\<lambda>limit.
     bind_task (need_token ctx) (\<lambda>token.
     bind_task (dav_call T (list_contacts (tv_dav T) (tv_client T) token (lp_addressbook_href params))) (\<lambda>contacts.
       return_task (ContactsResult (map contact_summary_of (take limit contacts)))))))"

definition tool_upcoming_birthdays ::
  "('u, 'h, 'ip, 'k, 'j, 'q, 'b, 'd) tool_env \<Rightarrow> 'd call_ctx \<Rightarrow> upcoming_birthdays_params
     \<Rightarrow> ('u, 'h, 'k, 'b, tool_result) tool_task" where
  "tool_upcoming_birthdays T ctx params =
     bind_task (rate_limit_check T ctx Read) (\<lambda>_.
       if bp_days params = 0 \<or> bp_days params > MAX_BIRTHDAY_DAYS
       then fail_task (Fail (invalid_params (''`days` must be between 1 and '' @ digits_of MAX_BIRTHDAY_DAYS)))
       else
     bind_task (fallible (reference_day T ctx (bp_reference_date params))) (\<lambda>today.
     bind_task (need_token ctx) (\<lambda>token.
     bind_task (books_to_scan T token (bp_addressbook_href params)) (\<lambda>hrefs.
     bind_task (scan_books T token today (bp_days params) hrefs
         \<lparr>bn_birthdays = [], bn_scanned = 0, bn_unparseable = 0\<rparr>) (\<lambda>scan.
       return_task (BirthdaysResult
         \<lparr>br_birthdays = sort_key birthday_order (bn_birthdays scan),
          br_reference_date = tv_format_date T today, br_days = bp_days params,
          br_contacts_scanned = bn_scanned scan, br_unparseable_birthdays = bn_unparseable scan\<rparr>))))))"

definition tool_search_contacts ::
  "('u, 'h, 'ip, 'k, 'j, 'q, 'b, 'd) tool_env \<Rightarrow> 'd call_ctx \<Rightarrow> search_contacts_params
     \<Rightarrow> ('u, 'h, 'k, 'b, tool_result) tool_task" where
  "tool_search_contacts T ctx params =
     bind_task (rate_limit_check T ctx Read) (\<lambda>_.
     bind_task (fallible (validated_limit (sp_limit params))) (\<lambda>limit.
       if trim (sp_query params) = [] then fail_task (Fail (invalid_params ''`query` must not be empty''))
       else
     bind_task (need_token ctx) (\<lambda>token.
     bind_task (books_to_scan T token (sp_addressbook_href params)) (\<lambda>hrefs.
     bind_task (search_books T token (sp_query params) limit [] [] hrefs) (\<lambda>contacts.
       return_task (ContactsResult contacts))))))"

definition tool_create_contact ::
  "('u, 'h, 'ip, 'k, 'j, 'q, 'b, 'd) tool_env \<Rightarrow> 'd call_ctx \<Rightarrow> create_contact_params
     \<Rightarrow> ('u, 'h, 'k, 'b, tool_result) tool_task" where
  "tool_create_contact T ctx params =
     bind_task (rate_limit_check T ctx Write) (\<lambda>_.
     bind_task (fallible (validate_contact_input (cp_contact params))) (\<lambda>_.
     bind_task (need_token ctx) (\<lambda>token.
       let uid = (case ci_uid (cp_contact params) of Some u \<Rightarrow> u | None \<Rightarrow> generate_uid (tv_hex T) (cx_random ctx)) in
     bind_task (fallible (validate_uid uid)) (\<lambda>_.
     bind_task (pure_task (built (cp_contact params) uid)) (\<lambda>vcard.
     bind_task (dav_call T (create_contact (tv_dav T) (tv_client T) token (cp_addressbook_href params) uid vcard)) (\<lambda>written.
       return_task (ContactWriteResult \<lparr>cw_href = wr_href written, cw_etag = wr_etag written, cw_uid = uid\<rparr>)))))))"

definition tool_update_contact ::
  "('u, 'h, 'ip, 'k, 'j, 'q, 'b, 'd) tool_env \<Rightarrow> 'd call_ctx \<Rightarrow> update_contact_params
     \<Rightarrow> ('u, 'h, 'k, 'b, tool_result) tool_task" where
  "tool_update_contact T ctx params =
     bind_task (rate_limit_check T ctx Write) (\<lambda>_.
     bind_task (fallible (validate_contact_input (up_contact params))) (\<lambda>_.
     bind_task (need_token ctx) (\<lambda>token.
     bind_task (dav_call T (get_contact (tv_dav T) (tv_client T) token (up_contact_href params))) (\<lambda>existing.
     bind_task (fallible (ok_or (pv_uid (parse_vcard (dc_vcard existing)))
         (invalid_params ''existing vCard has no UID; refusing replacement''))) (\<lambda>existing_uid.
       if (case ci_uid (up_contact params) of Some uid \<Rightarrow> uid \<noteq> existing_uid | None \<Rightarrow> False)
       then fail_task (Fail (invalid_params ''contact UID cannot be changed during update''))
       else
     bind_task (pure_task (built (up_contact params) existing_uid)) (\<lambda>vcard.
       let etag = (case up_etag params of Some e \<Rightarrow> Some e | None \<Rightarrow> dc_etag existing) in
     bind_task (dav_call T (update_contact (tv_dav T) (tv_client T) token (up_contact_href params) etag vcard)) (\<lambda>written.
       return_task (ContactWriteResult
         \<lparr>cw_href = wr_href written, cw_etag = wr_etag written, cw_uid = existing_uid\<rparr>))))))))"

definition tool_delete_contact ::
  "('u, 'h, 'ip, 'k, 'j, 'q, 'b, 'd) tool_env \<Rightarrow> 'd call_ctx \<Rightarrow> delete_contact_params
     \<Rightarrow> ('u, 'h, 'k, 'b, tool_result) tool_task" where
  "tool_delete_contact T ctx params =
     bind_task (rate_limit_check T ctx Write) (\<lambda>_.
     bind_task (need_token ctx) (\<lambda>token.
     bind_task (dav_call T (delete_contact (tv_dav T) (tv_client T) token (dp_contact_href params) (dp_etag params))) (\<lambda>_.
       return_task (DeleteContactResult \<lparr>del_href = dp_contact_href params, del_deleted = True\<rparr>))))"

fun tool_body ::
  "('u, 'h, 'ip, 'k, 'j, 'q, 'b, 'd) tool_env \<Rightarrow> 'd call_ctx \<Rightarrow> mcp_call \<Rightarrow> ('u, 'h, 'k, 'b, tool_result) tool_task" where
  "tool_body T ctx Whoami = whoami T ctx"
| "tool_body T ctx ListAddressBooks = tool_list_address_books T ctx"
| "tool_body T ctx (ListContacts p) = tool_list_contacts T ctx p"
| "tool_body T ctx (UpcomingBirthdays p) = tool_upcoming_birthdays T ctx p"
| "tool_body T ctx (SearchContacts p) = tool_search_contacts T ctx p"
| "tool_body T ctx (CreateContact p) = tool_create_contact T ctx p"
| "tool_body T ctx (UpdateContact p) = tool_update_contact T ctx p"
| "tool_body T ctx (DeleteContact p) = tool_delete_contact T ctx p"

fun tool_name :: "mcp_call \<Rightarrow> string" where
  "tool_name Whoami = ''whoami''"
| "tool_name ListAddressBooks = ''list_address_books''"
| "tool_name (ListContacts p) = ''list_contacts''"
| "tool_name (UpcomingBirthdays p) = ''upcoming_birthdays''"
| "tool_name (SearchContacts p) = ''search_contacts''"
| "tool_name (CreateContact p) = ''create_contact''"
| "tool_name (UpdateContact p) = ''update_contact''"
| "tool_name (DeleteContact p) = ''delete_contact''"

fun tool_resource :: "mcp_call \<Rightarrow> string option" where
  "tool_resource Whoami = None"
| "tool_resource ListAddressBooks = None"
| "tool_resource (ListContacts p) = Some (lp_addressbook_href p)"
| "tool_resource (UpcomingBirthdays p) = bp_addressbook_href p"
| "tool_resource (SearchContacts p) = sp_addressbook_href p"
| "tool_resource (CreateContact p) = Some (cp_addressbook_href p)"
| "tool_resource (UpdateContact p) = Some (up_contact_href p)"
| "tool_resource (DeleteContact p) = Some (dp_contact_href p)"

fun tool_category :: "mcp_call \<Rightarrow> category" where
  "tool_category (CreateContact p) = Write"
| "tool_category (UpdateContact p) = Write"
| "tool_category (DeleteContact p) = Write"
| "tool_category _ = Read"

text \<open>The \<open>count\<close> a tool sets once it has its result.\<close>

fun result_count :: "tool_result \<Rightarrow> nat option" where
  "result_count (AddressBooksResult books) = Some (length books)"
| "result_count (ContactsResult contacts) = Some (length contacts)"
| "result_count (BirthdaysResult r) = Some (length (br_birthdays r))"
| "result_count _ = None"

definition expired_err :: error_data where
  "expired_err = \<lparr>err_code = AUTH_EXPIRED_CODE,
     err_msg = ''Your carddav-mcp session has expired or Stalwart rejected its bearer. Disconnect and reconnect the MCP client to obtain a fresh Logto token, then retry.''\<rparr>"

definition react_to_auth_expiry ::
  "('u, 'h, 'ip, 'k, 'j, 'q, 'b, 'd) tool_env \<Rightarrow> 'd call_ctx \<Rightarrow> stop + tool_result \<Rightarrow> ('u, 'h, 'k, 'b) service
     \<Rightarrow> (stop + tool_result) \<times> ('u, 'h, 'k, 'b) service" where
  "react_to_auth_expiry T ctx result s =
     (case result of
        Inl (Fail e) \<Rightarrow>
          if err_code e \<noteq> AUTH_EXPIRED_CODE then (result, s)
          else (Err (Fail expired_err),
                case cx_token ctx of
                  None \<Rightarrow> s
                | Some token \<Rightarrow>
                    s\<lparr>sv_carddav := evict (tv_dav T) token (sv_carddav s),
                      sv_logto := drop_token (tv_jwt T) token (sv_logto s)\<rparr>)
      | _ \<Rightarrow> (result, s))"

definition emit_tool_audit ::
  "string \<Rightarrow> string \<Rightarrow> string option \<Rightarrow> nat option \<Rightarrow> error_data + tool_result \<Rightarrow> tool_event" where
  "emit_tool_audit tool user resource count result =
     (let (out, err_class) =
        (case result of
           Inr _ \<Rightarrow> (OUT_OK, None)
         | Inl e \<Rightarrow> (if err_code e = RATE_LIMITED_CODE then OUT_RATE_LIMITED else OUT_ERROR, Some (error_class e)))
      in tool_call tool user resource out count err_class)"

definition audit_user :: "'d call_ctx \<Rightarrow> string" where
  "audit_user ctx = (case Option.bind (cx_identity ctx) ai_email of Some e \<Rightarrow> e | None \<Rightarrow> [])"

text \<open>The whole handler of a tool: a panic or a loop leaves no audit event.\<close>

definition call_tool ::
  "('u, 'h, 'ip, 'k, 'j, 'q, 'b, 'd) tool_env \<Rightarrow> 'd call_ctx \<Rightarrow> mcp_call \<Rightarrow> ('u, 'h, 'k, 'b) service
     \<Rightarrow> (stop + tool_result) \<times> tool_event option \<times> ('u, 'h, 'k, 'b) service" where
  "call_tool T ctx call s =
     (let (r, s1) = tool_body T ctx call s;
          (r2, s2) = react_to_auth_expiry T ctx r s1;
          event = emit_tool_audit (tool_name call) (audit_user ctx) (tool_resource call)
      in (r2,
          (case r2 of
             Inr v \<Rightarrow> Some (event (result_count v) (Ok v))
           | Inl (Fail e) \<Rightarrow> Some (event None (Err e))
           | Inl _ \<Rightarrow> None),
          s2))"

end
