(* ===== verification/Mcp_Trace.thy ===== *)
theory Mcp_Trace
  imports Mcp_Tools Dav_Trace Vcard_Utf8
begin

text \<open>
  What a tool call does (\<open>src/src/mcp.rs\<close>): what it sends and with whose bearer, when it is refused,
  what it leaves in the caches, and that it ends.

  The contract of the CardDAV client (\<open>run_contract\<close> of \<open>Dav_Trace\<close>) is lifted to the tools by
  \<open>tool_ok\<close> and carried through their bodies by the rules of \<open>tool_ok_intros\<close>.
\<close>

named_theorems tool_ok_intros \<open>the contract of the parts of a tool\<close>

definition expired :: "stop + 'a \<Rightarrow> bool" where
  "expired r \<longleftrightarrow> (\<exists>e. r = Inl (Fail e) \<and> err_code e = AUTH_EXPIRED_CODE)"

definition rejection :: "bool \<Rightarrow> carddav_error option" where
  "rejection b = (if b then Some Unauthorized else None)"

lemma expired_simps [simp]:
  "\<not> expired (Inr a)" "\<not> expired (Inl Panic)" "\<not> expired (Inl Diverge)"
  "expired (Inl (Fail e)) \<longleftrightarrow> err_code e = AUTH_EXPIRED_CODE"
  by (simp_all add: expired_def)

lemma rejection_simps [simp]: "rejection True = Some Unauthorized" "rejection False = None"
  by (simp_all add: rejection_def)

lemma run_contract_code:
  "e \<noteq> Some Unauthorized \<Longrightarrow> run_contract E C token s e s' \<longleftrightarrow> run_contract E C token s None s'"
  by (simp add: run_contract_def)

definition tool_ok ::
  "('u, 'h, 'ip, 'k, 'j, 'q, 'b, 'd) tool_env \<Rightarrow> string \<Rightarrow> ('u, 'h, 'k, 'b, 'a) tool_task \<Rightarrow> bool" where
  "tool_ok T token m \<longleftrightarrow> (\<forall>s r s'. m s = (r, s') \<longrightarrow>
     run_contract (tv_dav T) (tv_client T) token (sv_carddav s) (rejection (expired r)) (sv_carddav s')
     \<and> sv_logto s' = sv_logto s)"

lemma error_codes_plain [simp]:
  "AUTH_EXPIRED_CODE \<noteq> - 32602" "AUTH_EXPIRED_CODE \<noteq> - 32603"
  "err_code (invalid_params m) \<noteq> AUTH_EXPIRED_CODE" "err_code (internal_error m) \<noteq> AUTH_EXPIRED_CODE"
  "err_code missing_token_err \<noteq> AUTH_EXPIRED_CODE" "err_code missing_identity_err \<noteq> AUTH_EXPIRED_CODE"
  "err_code rate_limit_err \<noteq> AUTH_EXPIRED_CODE" "err_code expired_err = AUTH_EXPIRED_CODE"
  by (simp_all add: AUTH_EXPIRED_CODE_def RATE_LIMITED_CODE_def missing_token_err_def missing_identity_err_def
      rate_limit_err_def expired_err_def)

lemma map_carddav_err_expired: "err_code (map_carddav_err http e) = AUTH_EXPIRED_CODE \<longleftrightarrow> e = Unauthorized"
  by (cases e) (simp_all add: map_carddav_err_def AUTH_EXPIRED_CODE_def)

lemma tool_ok_bind [tool_ok_intros]:
  assumes "tool_ok T token m" "\<And>a. tool_ok T token (f a)"
  shows "tool_ok T token (bind_task m f)"
  unfolding tool_ok_def
proof (intro allI impI)
  fix s r s' assume b: "bind_task m f s = (r, s')"
  obtain r1 s1 where m: "m s = (r1, s1)" by (cases "m s")
  from assms(1) m have c1: "run_contract (tv_dav T) (tv_client T) token (sv_carddav s) (rejection (expired r1)) (sv_carddav s1)"
    "sv_logto s1 = sv_logto s" by (auto simp: tool_ok_def)
  show "run_contract (tv_dav T) (tv_client T) token (sv_carddav s) (rejection (expired r)) (sv_carddav s')
     \<and> sv_logto s' = sv_logto s"
  proof (cases r1)
    case (Inl e)
    with b m c1 show ?thesis by (cases e) auto
  next
    case (Inr a)
    with b m have "f a s1 = (r, s')" by simp
    with assms(2) [of a] have "run_contract (tv_dav T) (tv_client T) token (sv_carddav s1) (rejection (expired r)) (sv_carddav s')"
      "sv_logto s' = sv_logto s1" by (auto simp: tool_ok_def)
    with c1 Inr show ?thesis by (auto intro: run_contract_trans)
  qed
qed

lemma tool_ok_pure [tool_ok_intros]: "\<not> expired r \<Longrightarrow> tool_ok T token (pure_task r)"
  by (auto simp: tool_ok_def intro: run_contract_silent)

lemma tool_ok_return [tool_ok_intros]: "tool_ok T token (return_task a)"
  by (auto simp: tool_ok_def intro: run_contract_silent)

lemma tool_ok_fail [tool_ok_intros]: "\<not> expired (Inl e :: stop + 'a) \<Longrightarrow> tool_ok T token (fail_task e :: ('u, 'h, 'k, 'b, 'a) tool_task)"
  by (auto simp: tool_ok_def intro: run_contract_silent)

lemma tool_ok_if [tool_ok_intros]:
  "(b \<Longrightarrow> tool_ok T token m) \<Longrightarrow> (\<not> b \<Longrightarrow> tool_ok T token n) \<Longrightarrow> tool_ok T token (if b then m else n)"
  by simp

lemma tool_ok_dav [tool_ok_intros]:
  assumes "dav_ok (tv_dav T) (tv_client T) token m"
  shows "tool_ok T token (dav_call T m)"
  unfolding tool_ok_def
proof (intro allI impI)
  fix s r s' assume c: "dav_call T m s = (r, s')"
  obtain x d where m: "m (sv_carddav s) = (x, d)" by (cases "m (sv_carddav s)")
  with assms have k: "run_contract (tv_dav T) (tv_client T) token (sv_carddav s) (error_of x) d" by (simp add: dav_ok_def)
  from c m have r: "r = map_err (\<lambda>e. Fail (map_carddav_err (tv_http_text T) e)) x" "s' = s\<lparr>sv_carddav := d\<rparr>"
    by (auto simp: dav_call_def)
  have "run_contract (tv_dav T) (tv_client T) token (sv_carddav s) (rejection (expired r)) d"
  proof (cases x)
    case (Inl e)
    with k r(1) run_contract_code [of "Some e" "tv_dav T" "tv_client T" token "sv_carddav s" d] show ?thesis
      by (cases "e = Unauthorized") (auto simp: map_carddav_err_expired)
  next
    case (Inr a)
    with k r(1) show ?thesis by simp
  qed
  with r(2) show "run_contract (tv_dav T) (tv_client T) token (sv_carddav s) (rejection (expired r)) (sv_carddav s')
     \<and> sv_logto s' = sv_logto s" by simp
qed

lemma tool_ok_fallible [tool_ok_intros]: "(\<And>e. r = Inl e \<Longrightarrow> err_code e \<noteq> AUTH_EXPIRED_CODE) \<Longrightarrow> tool_ok T token (fallible r)"
  by (cases r) (auto simp: fallible_def intro: tool_ok_pure)

lemma tool_ok_need_token [tool_ok_intros]: "tool_ok T token (need_token ctx)"
  by (cases "cx_token ctx") (auto simp: need_token_def intro: tool_ok_pure)

text \<open>The token a tool reads is the one in its context.\<close>

lemma tool_ok_with_token:
  assumes "cx_token ctx = Some token" "tool_ok T token (f token)"
  shows "tool_ok T token (bind_task (need_token ctx) f)"
proof -
  have "bind_task (need_token ctx) f = f token" using assms(1) by (intro ext) (simp add: need_token_def)
  with assms(2) show ?thesis by simp
qed

lemma identity_not_expired: "\<not> expired (ok_or (cx_identity ctx) (Fail missing_identity_err))"
  by (cases "cx_identity ctx") auto

lemma limited_not_expired: "\<not> expired (map_err (\<lambda>_. Fail rate_limit_err) x)"
  by (cases x) auto

lemma tool_ok_rate_limit [tool_ok_intros]: "tool_ok T token (rate_limit_check T ctx c)"
proof -
  have lim: "tool_ok T token (\<lambda>s. let (r, l) = limiter_check G now h u c (sv_limiter s)
       in (map_err (\<lambda>_. Fail rate_limit_err) r, s\<lparr>sv_limiter := l\<rparr>))" for G now h u
    unfolding tool_ok_def
    by (auto simp: Let_def limited_not_expired intro: run_contract_silent split: prod.splits)
  show ?thesis
    unfolding rate_limit_check_def
    by (intro tool_ok_bind tool_ok_need_token tool_ok_pure identity_not_expired lim)
qed

subsection \<open>Every tool keeps the contract\<close>

definition tool_env_ok :: "('u, 'h, 'ip, 'k, 'j, 'q, 'b, 'd) tool_env \<Rightarrow> bool" where
  "tool_env_ok T \<longleftrightarrow> url_laws (tv_dav T) \<and> well_formed_client (tv_dav T) (tv_client T)"

lemma tool_ok_client:
  assumes "tool_env_ok T"
  shows "tool_ok T token (dav_call T (discover (tv_dav T) (tv_client T) token))"
    "tool_ok T token (dav_call T (list_address_books (tv_dav T) (tv_client T) token))"
    "tool_ok T token (dav_call T (list_contacts (tv_dav T) (tv_client T) token book))"
    "tool_ok T token (dav_call T (search_contacts (tv_dav T) (tv_client T) token book query))"
    "tool_ok T token (dav_call T (get_contact (tv_dav T) (tv_client T) token href))"
    "tool_ok T token (dav_call T (create_contact (tv_dav T) (tv_client T) token book uid vcard))"
    "tool_ok T token (dav_call T (update_contact (tv_dav T) (tv_client T) token href etag vcard))"
    "tool_ok T token (dav_call T (delete_contact (tv_dav T) (tv_client T) token href etag))"
  using assms unfolding tool_env_ok_def
  by (auto intro: tool_ok_dav dav_ok_discover dav_ok_list_books dav_ok_list_contacts dav_ok_search dav_ok_get
      dav_ok_create dav_ok_update dav_ok_delete)

lemma tool_ok_books: "tool_env_ok T \<Longrightarrow> tool_ok T token (books_to_scan T token href)"
  unfolding books_to_scan_def by (cases href) (auto intro!: tool_ok_intros(1-3) tool_ok_client)

lemma tool_ok_search_books:
  "tool_env_ok T \<Longrightarrow> tool_ok T token (search_books T token query limit seen contacts hrefs)"
proof (induction hrefs arbitrary: seen contacts)
  case Nil
  show ?case unfolding search_books.simps by (rule tool_ok_return)
next
  case (Cons h hs)
  show ?case
    unfolding search_books.simps Let_def split_def
    by (intro tool_ok_bind tool_ok_client tool_ok_if tool_ok_return Cons.IH Cons.prems)
qed

lemma scan_contacts_stop: "scan_contacts T today days cs acc = Inl e \<Longrightarrow> e = Panic"
proof (induction cs arbitrary: acc)
  case (Cons c cs)
  then show ?case
    by (auto simp: and_then_Err scan_contact_def Let_def or_panic_def ok_or_def
        split: option.splits)
qed simp

lemma scan_contacts_not_expired: "\<not> expired (scan_contacts T today days cs acc)"
  by (cases "scan_contacts T today days cs acc") (auto dest: scan_contacts_stop)

lemma tool_ok_scan_books:
  "tool_env_ok T \<Longrightarrow> tool_ok T token (scan_books T token today days hrefs acc)"
proof (induction hrefs arbitrary: acc)
  case Nil
  show ?case unfolding scan_books.simps by (rule tool_ok_return)
next
  case (Cons h hs)
  show ?case
    unfolding scan_books.simps
    by (intro tool_ok_bind tool_ok_client tool_ok_pure scan_contacts_not_expired Cons.IH Cons.prems)
qed

lemma input_errors_plain:
  "validated_limit n = Inl e \<Longrightarrow> err_code e \<noteq> AUTH_EXPIRED_CODE"
  "validate_uid u = Inl e \<Longrightarrow> err_code e \<noteq> AUTH_EXPIRED_CODE"
  "validate_contact_input c = Inl e \<Longrightarrow> err_code e \<noteq> AUTH_EXPIRED_CODE"
  "reference_day T ctx raw = Inl e \<Longrightarrow> err_code e \<noteq> AUTH_EXPIRED_CODE"
  "ok_or v (invalid_params m) = Inl e \<Longrightarrow> err_code e \<noteq> AUTH_EXPIRED_CODE"
proof -
  show "validated_limit n = Inl e \<Longrightarrow> err_code e \<noteq> AUTH_EXPIRED_CODE" by (auto simp: validated_limit_def split: if_splits)
  show uid: "validate_uid u = Inl e \<Longrightarrow> err_code e \<noteq> AUTH_EXPIRED_CODE" for u by (auto simp: validate_uid_def split: if_splits)
  show "validate_contact_input c = Inl e \<Longrightarrow> err_code e \<noteq> AUTH_EXPIRED_CODE"
    by (auto simp: validate_contact_input_def dest: uid split: if_splits option.splits prod.splits)
  show "reference_day T ctx raw = Inl e \<Longrightarrow> err_code e \<noteq> AUTH_EXPIRED_CODE"
    by (auto simp: reference_day_def ok_or_def split: option.splits)
  show "ok_or v (invalid_params m) = Inl e \<Longrightarrow> err_code e \<noteq> AUTH_EXPIRED_CODE" by (cases v) auto
qed

lemma built_not_expired: "\<not> expired (built c u)"
proof (cases "build_vcard c u")
  case None
  then show ?thesis by (simp add: built_def)
next
  case (Some r)
  then show ?thesis
    by (cases r) (auto simp: built_def build_vcard_def dest: input_errors_plain(2)
        split: sum.splits if_splits bind_splits)
qed

lemma tool_ok_body:
  assumes "tool_env_ok T" "cx_token ctx = Some token"
  shows "tool_ok T token (tool_body T ctx call)"
proof -
  note tok = tool_ok_with_token [OF assms(2)] and client = tool_ok_client [OF assms(1)]
  show ?thesis
  proof (cases call)
    case Whoami
    then show ?thesis unfolding tool_body.simps Whoami whoami_def
      by (intro tool_ok_bind tool_ok_rate_limit tok tool_ok_pure identity_not_expired client tool_ok_return)
  next
    case ListAddressBooks
    then show ?thesis unfolding tool_body.simps ListAddressBooks tool_list_address_books_def
      by (intro tool_ok_bind tool_ok_rate_limit tok client tool_ok_return)
  next
    case (ListContacts p)
    then show ?thesis unfolding tool_body.simps ListContacts tool_list_contacts_def
      by (intro tool_ok_bind tool_ok_rate_limit tok client tool_ok_return tool_ok_fallible)
         (auto dest: input_errors_plain)
  next
    case (UpcomingBirthdays p)
    then show ?thesis unfolding tool_body.simps UpcomingBirthdays tool_upcoming_birthdays_def
      by (intro tool_ok_bind tool_ok_rate_limit tok tool_ok_return tool_ok_fallible tool_ok_if tool_ok_fail
           tool_ok_books tool_ok_scan_books assms(1)) (auto dest: input_errors_plain)
  next
    case (SearchContacts p)
    then show ?thesis unfolding tool_body.simps SearchContacts tool_search_contacts_def
      by (intro tool_ok_bind tool_ok_rate_limit tok tool_ok_return tool_ok_fallible tool_ok_if tool_ok_fail
           tool_ok_books tool_ok_search_books assms(1)) (auto dest: input_errors_plain)
  next
    case (CreateContact p)
    then show ?thesis unfolding tool_body.simps CreateContact tool_create_contact_def Let_def
      by (intro tool_ok_bind tool_ok_rate_limit tok client tool_ok_return tool_ok_fallible tool_ok_pure built_not_expired)
         (auto dest: input_errors_plain)
  next
    case (UpdateContact p)
    then show ?thesis unfolding tool_body.simps UpdateContact tool_update_contact_def Let_def
      by (intro tool_ok_bind tool_ok_rate_limit tok client tool_ok_return tool_ok_fallible tool_ok_pure built_not_expired
           tool_ok_if tool_ok_fail) (auto dest: input_errors_plain)
  next
    case (DeleteContact p)
    then show ?thesis unfolding tool_body.simps DeleteContact tool_delete_contact_def
      by (intro tool_ok_bind tool_ok_rate_limit tok client tool_ok_return)
  qed
qed

subsection \<open>The limiter is charged first, once\<close>

definition same_limiter :: "('u, 'h, 'k, 'b) service \<Rightarrow> ('u, 'h, 'k, 'b) service \<Rightarrow> bool" where
  "same_limiter s s' \<longleftrightarrow> sv_limiter s' = sv_limiter s"

lemma same_limiter_order: "reflp same_limiter" "transp same_limiter"
  by (auto simp: reflp_def transp_def same_limiter_def)

lemma same_limiter_dav: "steps same_limiter (dav_call T m)"
  by (auto simp: steps_def dav_call_def same_limiter_def Let_def split: prod.splits)

lemma steps_if: "steps R m \<Longrightarrow> steps R n \<Longrightarrow> steps R (if b then m else n)"
  by simp

lemmas limiter_rules = steps_bind [OF same_limiter_order(2)] steps_simple(1) [OF same_limiter_order(1)]
  steps_simple(2) [OF same_limiter_order(1)] steps_simple(3) [OF same_limiter_order(1)] same_limiter_dav steps_if

lemma same_limiter_parts:
  "steps same_limiter (need_token ctx)" "steps same_limiter (fallible r)" "steps same_limiter (books_to_scan T token href)"
  "steps same_limiter (search_books T token query limit seen contacts hrefs)"
  "steps same_limiter (scan_books T token today days hrefs acc)"
proof -
  show "steps same_limiter (need_token ctx)" "steps same_limiter (fallible r)"
    unfolding need_token_def fallible_def by (intro limiter_rules)+
  show "steps same_limiter (books_to_scan T token href)"
    unfolding books_to_scan_def by (cases href; simp only: option.case; intro limiter_rules)
  show "steps same_limiter (search_books T token query limit seen contacts hrefs)"
  proof (induction hrefs arbitrary: seen contacts)
    case Nil
    show ?case unfolding search_books.simps by (intro limiter_rules)
  next
    case (Cons h hs)
    show ?case unfolding search_books.simps Let_def split_def by (intro limiter_rules Cons.IH)
  qed
  show "steps same_limiter (scan_books T token today days hrefs acc)"
  proof (induction hrefs arbitrary: acc)
    case Nil
    show ?case unfolding scan_books.simps by (intro limiter_rules)
  next
    case (Cons h hs)
    show ?case unfolding scan_books.simps by (intro limiter_rules Cons.IH)
  qed
qed

text \<open>A body that starts with the charge for its category and leaves the limiter alone afterwards.\<close>

definition gated ::
  "('u, 'h, 'ip, 'k, 'j, 'q, 'b, 'd) tool_env \<Rightarrow> 'd call_ctx \<Rightarrow> category \<Rightarrow> ('u, 'h, 'k, 'b, 'a) tool_task \<Rightarrow> bool" where
  "gated T ctx c m \<longleftrightarrow> (\<exists>f. m = bind_task (rate_limit_check T ctx c) f \<and> (\<forall>x. steps same_limiter (f x)))"

lemma gatedI: "(\<And>x. steps same_limiter (f x)) \<Longrightarrow> gated T ctx c (bind_task (rate_limit_check T ctx c) f)"
  by (auto simp: gated_def)

lemma tool_body_gated: "gated T ctx (tool_category call) (tool_body T ctx call)"
  by (cases call; simp only: tool_body.simps tool_category.simps whoami_def tool_list_address_books_def
      tool_list_contacts_def tool_upcoming_birthdays_def tool_search_contacts_def tool_create_contact_def
      tool_update_contact_def tool_delete_contact_def Let_def)
    (rule gatedI, intro limiter_rules same_limiter_parts)+

text \<open>The three ways the charge goes.\<close>

lemma rate_limit_check_cases:
  assumes "rate_limit_check T ctx c s = (r, s')"
  shows "case (cx_token ctx, cx_identity ctx) of
      (Some token, Some i) \<Rightarrow>
        (let (a, l) = limiter_check (tv_governor T) (cx_now ctx) (token_hash (tv_sha T) (tv_hex T) token)
              (Some (ai_user_id i)) c (sv_limiter s)
         in s' = s\<lparr>sv_limiter := l\<rparr> \<and> r = (case a of Inl _ \<Rightarrow> Inl (Fail rate_limit_err) | Inr u \<Rightarrow> Inr u))
    | (Some token, None) \<Rightarrow> s' = s \<and> r = Inl (Fail missing_identity_err)
    | (None, _) \<Rightarrow> s' = s \<and> r = Inl (Fail missing_token_err)"
  using assms
  by (auto simp: rate_limit_check_def need_token_def map_err_def split: option.splits prod.splits sum.splits)

lemma react_limiter:
  assumes "react_to_auth_expiry T ctx r s = (r', s')"
  shows "sv_limiter s' = sv_limiter s"
    and "\<not> expired r \<Longrightarrow> r' = r \<and> s' = s"
    and "expired r \<Longrightarrow> r' = Inl (Fail expired_err) \<and> (\<forall>token. cx_token ctx = Some token \<longrightarrow>
      sv_carddav s' = evict (tv_dav T) token (sv_carddav s) \<and> sv_logto s' = drop_token (tv_jwt T) token (sv_logto s))"
  using assms by (auto simp: react_to_auth_expiry_def expired_def split: sum.splits stop.splits if_splits option.splits)

lemma run_contract_sent:
  assumes "run_contract E C token d (rejection b) d'"
  obtains new where "ds_sent d' = ds_sent d @ new" "list_all (confined E C token) new"
    "if b then rejections E (ds_sent d) new = replicate (length new - 1) False @ [True]
     else rejections E (ds_sent d) new = replicate (length new) False"
  using assms by (cases b) (auto simp: run_contract_def)

text \<open>A call in terms of its body.\<close>

lemma call_tool_parts:
  assumes "call_tool T ctx call s = (r, ev, s')"
  obtains r1 s1 where "tool_body T ctx call s = (r1, s1)" "react_to_auth_expiry T ctx r1 s1 = (r, s')"
    "\<And>e. r = Inl (Fail e) \<Longrightarrow> ev = Some (emit_tool_audit (tool_name call) (audit_user ctx) (tool_resource call) None (Err e))"
    "\<And>v. r = Inr v \<Longrightarrow> ev = Some (emit_tool_audit (tool_name call) (audit_user ctx) (tool_resource call) (result_count v) (Ok v))"
proof -
  obtain r1 s1 where b: "tool_body T ctx call s = (r1, s1)" by (cases "tool_body T ctx call s")
  obtain r2 s2 where x: "react_to_auth_expiry T ctx r1 s1 = (r2, s2)" by (cases "react_to_auth_expiry T ctx r1 s1")
  from assms b x have "r2 = r" "s2 = s'"
    and ev: "(case r of
        Inr v \<Rightarrow> Some (emit_tool_audit (tool_name call) (audit_user ctx) (tool_resource call) (result_count v) (Ok v))
      | Inl (Fail e) \<Rightarrow> Some (emit_tool_audit (tool_name call) (audit_user ctx) (tool_resource call) None (Err e))
      | Inl _ \<Rightarrow> None) = ev"
    by (auto simp: call_tool_def Let_def)
  with b x show thesis by (intro that) auto
qed

lemma evict_fields: "ds_sent (evict E token s) = ds_sent s" "hm_get (ds_discoveries (evict E token s)) (ev_sha E token) = None"
  by (simp_all add: evict_def)

subsection \<open>What a call does\<close>

lemma call_tool_confined:
  assumes "url_laws (tv_dav T)" "dav_client_new (tv_dav T) base ip cap = Ok (tv_client T)"
    and "cx_token ctx = Some token" "call_tool T ctx call s = (r, ev, s')"
  shows "\<exists>new. ds_sent (sv_carddav s') = ds_sent (sv_carddav s) @ new
    \<and> (\<forall>q \<in> set new. same_origin (tv_dav T) (rq_url q) (cl_base_url (tv_client T))
        \<and> filter (\<lambda>h. fst h = ''authorization'') (rq_headers q) = [(''authorization'', ''Bearer '' @ token)])
    \<and> (if expired r
       then r = Err (Fail expired_err)
         \<and> rejections (tv_dav T) (ds_sent (sv_carddav s)) new = replicate (length new - 1) False @ [True]
         \<and> discovery_lookup now (ev_sha (tv_dav T) token) (ds_discoveries (sv_carddav s')) = None
         \<and> cache_lookup now (jw_sha (tv_jwt T) token) (lc_cache (sv_logto s')) = None
       else rejections (tv_dav T) (ds_sent (sv_carddav s)) new = replicate (length new) False
         \<and> sv_logto s' = sv_logto s)"
proof -
  have env: "tool_env_ok T" using client_new_well_formed [OF assms(1,2)] assms(1) by (simp add: tool_env_ok_def)
  from assms(4) obtain r1 s1 where b: "tool_body T ctx call s = (r1, s1)"
    "react_to_auth_expiry T ctx r1 s1 = (r, s')" by (rule call_tool_parts)
  note react = react_limiter [OF b(2)]
  from tool_ok_body [OF env assms(3), of call] b(1) have contract:
    "run_contract (tv_dav T) (tv_client T) token (sv_carddav s) (rejection (expired r1)) (sv_carddav s1)"
    and logto: "sv_logto s1 = sv_logto s" by (auto simp: tool_ok_def)
  from contract obtain new where new: "ds_sent (sv_carddav s1) = ds_sent (sv_carddav s) @ new"
    "list_all (confined (tv_dav T) (tv_client T) token) new"
    "if expired r1 then rejections (tv_dav T) (ds_sent (sv_carddav s)) new = replicate (length new - 1) False @ [True]
     else rejections (tv_dav T) (ds_sent (sv_carddav s)) new = replicate (length new) False"
    by (rule run_contract_sent)
  have conf: "\<forall>q \<in> set new. same_origin (tv_dav T) (rq_url q) (cl_base_url (tv_client T))
        \<and> filter (\<lambda>h. fst h = ''authorization'') (rq_headers q) = [(''authorization'', ''Bearer '' @ token)]"
    using new(2) by (auto simp: list_all_iff confined_def bearer_auth_header_def)
  show ?thesis
  proof (cases "expired r1")
    case False
    with react(2) have "r = r1" "s' = s1" by auto
    with False new conf logto show ?thesis by (intro exI [of _ new]) simp
  next
    case True
    with react(3) assms(3) have x: "r = Inl (Fail expired_err)"
      "sv_carddav s' = evict (tv_dav T) token (sv_carddav s1)" "sv_logto s' = drop_token (tv_jwt T) token (sv_logto s1)"
      by auto
    with True new conf show ?thesis
      by (intro exI [of _ new])
         (simp add: evict_fields discovery_lookup_def cache_lookup_def drop_token_def)
  qed
qed

lemma call_tool_gated:
  assumes "call_tool T ctx call s = (r, ev, s')"
  shows "case (cx_token ctx, cx_identity ctx) of
      (Some token, Some i) \<Rightarrow>
        (let (a, l) = limiter_check (tv_governor T) (cx_now ctx) (token_hash (tv_sha T) (tv_hex T) token)
              (Some (ai_user_id i)) (tool_category call) (sv_limiter s)
         in sv_limiter s' = l \<and> (a = Err RateLimited \<longrightarrow>
              r = Err (Fail rate_limit_err) \<and> sv_carddav s' = sv_carddav s \<and> sv_logto s' = sv_logto s
              \<and> map_option te_outcome ev = Some OUT_RATE_LIMITED))
    | _ \<Rightarrow> s' = s \<and> r \<in> {Err (Fail missing_token_err), Err (Fail missing_identity_err)}"
proof -
  from assms obtain r1 s1 where b: "tool_body T ctx call s = (r1, s1)" "react_to_auth_expiry T ctx r1 s1 = (r, s')"
    "\<And>e. r = Inl (Fail e) \<Longrightarrow> ev = Some (emit_tool_audit (tool_name call) (audit_user ctx) (tool_resource call) None (Err e))"
    by (rule call_tool_parts) blast
  note react = react_limiter [OF b(2)]
  from tool_body_gated [of T ctx call] obtain f where
    f: "tool_body T ctx call = bind_task (rate_limit_check T ctx (tool_category call)) f"
      "\<And>x. steps same_limiter (f x)" by (auto simp: gated_def)
  obtain r0 s0 where c: "rate_limit_check T ctx (tool_category call) s = (r0, s0)"
    by (cases "rate_limit_check T ctx (tool_category call) s")
  have refused: "r = r0' \<and> s' = s0" if "r0 = Inl e" "\<not> expired (Inl e :: stop + tool_result)" "r0' = Inl e" for e r0'
  proof -
    from b(1) f(1) c that(1) have "r1 = Inl e" "s1 = s0" by auto
    with that react(2) show ?thesis by auto
  qed
  have passed: "sv_limiter s' = sv_limiter s0" if "r0 = Inr u" for u
  proof -
    from b(1) f(1) c that have "f u s0 = (r1, s1)" by simp
    from steps_run [OF f(2) this] react(1) show ?thesis by (simp add: same_limiter_def)
  qed
  note cs = rate_limit_check_cases [OF c]
  show ?thesis
  proof (cases "cx_token ctx")
    case None
    with cs have "s0 = s" "r0 = Inl (Fail missing_token_err)" by auto
    with refused [of "Fail missing_token_err"] None show ?thesis by simp
  next
    case (Some token)
    note tok = this
    show ?thesis
    proof (cases "cx_identity ctx")
      case None
      with cs tok have "s0 = s" "r0 = Inl (Fail missing_identity_err)" by auto
      with refused [of "Fail missing_identity_err"] None tok show ?thesis by simp
    next
      case (Some i)
      obtain a l where al: "limiter_check (tv_governor T) (cx_now ctx) (token_hash (tv_sha T) (tv_hex T) token)
            (Some (ai_user_id i)) (tool_category call) (sv_limiter s) = (a, l)"
        by (cases "limiter_check (tv_governor T) (cx_now ctx) (token_hash (tv_sha T) (tv_hex T) token)
            (Some (ai_user_id i)) (tool_category call) (sv_limiter s)")
      with cs tok Some have s0: "s0 = s\<lparr>sv_limiter := l\<rparr>" and
        r0: "r0 = (case a of Inl _ \<Rightarrow> Inl (Fail rate_limit_err) | Inr u \<Rightarrow> Inr u)" by auto
      show ?thesis
      proof (cases a)
        case (Inl z)
        with r0 refused [of "Fail rate_limit_err"] have "r = Inl (Fail rate_limit_err)" "s' = s0" by auto
        with b(3) have "map_option te_outcome ev = Some OUT_RATE_LIMITED"
          by (simp add: emit_tool_audit_def tool_call_def rate_limit_err_def)
        with \<open>r = _\<close> \<open>s' = s0\<close> s0 al tok Some show ?thesis by simp
      next
        case (Inr u)
        with r0 passed have "sv_limiter s' = l" by (simp add: s0)
        with al tok Some Inr show ?thesis by simp
      qed
    qed
  qed
qed

subsection \<open>A sample service\<close>

text \<open>A service over the sample server of \<open>Dav_Trace\<close>, with the reference token bucket and calendar.\<close>

definition sample_tools ::
  "(string \<times> string, string, nat, string, string, gcra_quota, gcra_bucket, gdate) tool_env" where
  "sample_tools = \<lparr>tv_dav = sample_env, tv_client = sample_client, tv_jwt = sample_jwt, tv_governor = gcra,
     tv_sha = (\<lambda>t. t), tv_hex = (\<lambda>b. b), tv_calendar = gregorian, tv_parse_date = (\<lambda>_. gd_ymd 2024 2 29),
     tv_format_date = (\<lambda>_. ''2024-02-29''), tv_http_text = []\<rparr>"

definition sample_ctx :: "string \<Rightarrow> gdate call_ctx" where
  "sample_ctx token = \<lparr>cx_identity = Some (identity_of sample_claims), cx_token = Some token, cx_now = 10,
     cx_today = the (gd_ymd 2024 2 29), cx_random = ''r''\<rparr>"

definition sample_service :: "(string \<times> string, string, string, gcra_bucket) service" where
  "sample_service = \<lparr>sv_carddav = dav_start, sv_logto = the (logto_new ''https://l'' [''https://r'']),
     sv_limiter = the (limiter_new 60 30)\<rparr>"

lemma sample_tools_simps:
  "tv_dav sample_tools = sample_env" "tv_client sample_tools = sample_client" "tv_http_text sample_tools = []"
  "cx_token (sample_ctx t) = Some t" "cx_identity (sample_ctx t) = Some (identity_of sample_claims)"
  by (simp_all add: sample_tools_def sample_ctx_def)

lemma sample_charge:
  "\<exists>l. limiter_check gcra 10 t (Some ''u1'') c (sv_limiter sample_service) = (Inr (), l)"
  by (cases c) (simp_all add: sample_service_def limiter_new_def limiter_check_def get_or_insert_def
      get_or_insert_with_quota_def empty_buckets_def hm_get_def bucket_check_def gcra_def gcra_check_def
      set_bearer_map_def sub_map_def per_min_def bearer_map_def)

lemma sample_gate:
  assumes "sv_limiter s = sv_limiter sample_service"
  shows "\<exists>l. rate_limit_check sample_tools (sample_ctx t) c s = (Inr (), s\<lparr>sv_limiter := l\<rparr>)"
proof -
  from sample_charge [of "take 8 t" c] obtain l where
    "limiter_check gcra 10 (take 8 t) (Some ''u1'') c (sv_limiter sample_service) = (Inr (), l)" ..
  with assms show ?thesis
    by (intro exI [of _ l]) (simp add: rate_limit_check_def need_token_def sample_tools_def sample_ctx_def
        token_hash_def identity_of_def sample_claims_def)
qed

lemma sample_delete:
  "\<exists>s'. tool_body sample_tools (sample_ctx ''bad'') (DeleteContact \<lparr>dp_contact_href = ''/card/'', dp_etag = None\<rparr>)
     sample_service = (Inl (Fail (map_carddav_err [] Unauthorized)), s')"
proof -
  from sample_gate [OF refl, of "''bad''" Write] obtain l where
    g: "rate_limit_check sample_tools (sample_ctx ''bad'') Write sample_service = (Inr (), sample_service\<lparr>sv_limiter := l\<rparr>)" ..
  have "fst (delete_contact sample_env sample_client ''bad'' ''/card/'' None d) = Inl Unauthorized" for d
    by (simp add: delete_contact_def sample_resolve bind_task_def send_def Let_def if_match_def)
       (simp add: sample_env_def outcome_def bearer_auth_header_def)
  then obtain d where d: "delete_contact sample_env sample_client ''bad'' ''/card/'' None (sv_carddav sample_service) = (Inl Unauthorized, d)"
    by (metis prod.collapse)
  have "dav_call sample_tools (delete_contact sample_env sample_client ''bad'' ''/card/'' None) (sample_service\<lparr>sv_limiter := l\<rparr>)
      = (Inl (Fail (map_carddav_err [] Unauthorized)), sample_service\<lparr>sv_limiter := l, sv_carddav := d\<rparr>)"
    using d by (simp add: dav_call_def sample_tools_simps)
  then show ?thesis
    by (simp add: tool_delete_contact_def g need_token_def sample_tools_simps bind_task_def)
qed

lemma sample_whoami:
  assumes "sv_limiter s = sv_limiter sample_service" "sv_carddav s = dav_start" "t \<noteq> ''bad''"
  shows "\<exists>v ev q1 q2 s'. call_tool sample_tools (sample_ctx t) Whoami s = (Inr v, ev, s')
     \<and> ds_sent (sv_carddav s') = [q1, q2]"
proof -
  from sample_gate [OF assms(1), of t Read] obtain l where
    g: "rate_limit_check sample_tools (sample_ctx t) Read s = (Inr (), s\<lparr>sv_limiter := l\<rparr>)" ..
  from sample_discover [OF assms(3), of dav_start] obtain q1 q2 c where
    d: "discover sample_env sample_client t dav_start = (Inr \<lparr>dd_principal_href = ''/me/'', dd_addressbook_home_href = ''/card/''\<rparr>,
      \<lparr>ds_discoveries = c, ds_sent = [q1, q2], ds_ticks = 2\<rparr>)" by (auto simp: dav_start_def)
  have "dav_call sample_tools (discover sample_env sample_client t) (s\<lparr>sv_limiter := l\<rparr>)
      = (Inr \<lparr>dd_principal_href = ''/me/'', dd_addressbook_home_href = ''/card/''\<rparr>,
         s\<lparr>sv_limiter := l, sv_carddav := \<lparr>ds_discoveries = c, ds_sent = [q1, q2], ds_ticks = 2\<rparr>\<rparr>)"
    using d assms(2) by (simp add: dav_call_def)
  then have "\<exists>v s'. tool_body sample_tools (sample_ctx t) Whoami s = (Inr v, s') \<and> ds_sent (sv_carddav s') = [q1, q2]"
    using g by (simp add: whoami_def need_token_def sample_tools_simps bind_task_def)
  then show ?thesis by (fastforce simp: call_tool_def react_to_auth_expiry_def Let_def)
qed

subsection \<open>Properties\<close>

text \<open>
  C3: a tool call speaks to the CardDAV server only as its caller. Whatever the tool, its parameters
  and the server's answers, every request it builds and hands to \<open>reqwest\<close> goes to the configured origin
  with the bearer of its own context as the only authorization (a redirect \<open>reqwest\<close> follows by itself
  is part of the answer). If the server rejects the bearer, that request is the
  last; the caller gets the reconnect error, and neither the discovery cache nor the validation cache
  knows the bearer any more. Otherwise no request was rejected and the validation cache is untouched.
\<close>

theorem tool_speaks_as_caller:
  assumes "url_laws (tv_dav T)" "dav_client_new (tv_dav T) base ip cap = Ok (tv_client T)"
    and "cx_token ctx = Some token" "call_tool T ctx call s = (r, ev, s')"
  shows "\<exists>new. ds_sent (sv_carddav s') = ds_sent (sv_carddav s) @ new
    \<and> (\<forall>q \<in> set new. same_origin (tv_dav T) (rq_url q) (cl_base_url (tv_client T))
        \<and> filter (\<lambda>h. fst h = ''authorization'') (rq_headers q) = [(''authorization'', ''Bearer '' @ token)])
    \<and> (if expired r
       then r = Err (Fail expired_err)
         \<and> rejections (tv_dav T) (ds_sent (sv_carddav s)) new = replicate (length new - 1) False @ [True]
         \<and> discovery_lookup now (ev_sha (tv_dav T) token) (ds_discoveries (sv_carddav s')) = None
         \<and> cache_lookup now (jw_sha (tv_jwt T) token) (lc_cache (sv_logto s')) = None
       else rejections (tv_dav T) (ds_sent (sv_carddav s)) new = replicate (length new) False
         \<and> sv_logto s' = sv_logto s)"
  by (rule call_tool_confined [OF assms])

theorem tool_speaks_as_caller_witness:
  "\<exists>ev s'. call_tool sample_tools (sample_ctx ''bad'') (DeleteContact \<lparr>dp_contact_href = ''/card/'', dp_etag = None\<rparr>)
      sample_service = (Err (Fail expired_err), ev, s')
     \<and> ds_sent (sv_carddav s') \<noteq> [] \<and> cache_lookup 0 ''bad'' (lc_cache (sv_logto s')) = None"
proof -
  let ?call = "DeleteContact \<lparr>dp_contact_href = ''/card/'', dp_etag = None\<rparr>"
  obtain r ev s' where c: "call_tool sample_tools (sample_ctx ''bad'') ?call sample_service = (r, ev, s')"
    by (cases "call_tool sample_tools (sample_ctx ''bad'') ?call sample_service")
  have r: "r = Err (Fail expired_err)"
    using sample_delete c
    by (auto simp: call_tool_def Let_def react_to_auth_expiry_def map_carddav_err_expired)
  have "url_laws (tv_dav sample_tools)" "dav_client_new (tv_dav sample_tools) ''https://dav'' None 1000 = Ok (tv_client sample_tools)"
    using sample_laws sample_client_new by (simp_all add: sample_tools_def)
  from tool_speaks_as_caller [OF this _ c, of "''bad''" 0] r
  have "ds_sent (sv_carddav s') \<noteq> []" "cache_lookup 0 (jw_sha (tv_jwt sample_tools) ''bad'') (lc_cache (sv_logto s')) = None"
    by (auto simp: sample_ctx_def)
  with c r show ?thesis by (auto simp: sample_tools_def sample_jwt_def)
qed

text \<open>
  C12: no tool works for an unidentified or throttled caller. Without a bearer or an identity in its
  context a call fails and changes nothing. Otherwise it charges the limiter exactly once, before
  anything else, under the digest of the bearer and the user id and for the category of the tool; if
  the limiter refuses, nothing is sent, no cache changes, and the call fails with the rate-limit code
  and is audited as such.
\<close>

theorem tool_is_gated:
  assumes "call_tool T ctx call s = (r, ev, s')"
  shows "case (cx_token ctx, cx_identity ctx) of
      (Some token, Some i) \<Rightarrow>
        (let (a, l) = limiter_check (tv_governor T) (cx_now ctx) (token_hash (tv_sha T) (tv_hex T) token)
              (Some (ai_user_id i)) (tool_category call) (sv_limiter s)
         in sv_limiter s' = l \<and> (a = Err RateLimited \<longrightarrow>
              r = Err (Fail rate_limit_err) \<and> sv_carddav s' = sv_carddav s \<and> sv_logto s' = sv_logto s
              \<and> map_option te_outcome ev = Some OUT_RATE_LIMITED))
    | _ \<Rightarrow> s' = s \<and> r \<in> {Err (Fail missing_token_err), Err (Fail missing_identity_err)}"
  by (rule call_tool_gated [OF assms])

theorem tool_is_gated_witness:
  "\<exists>r ev s' l. call_tool sample_tools (sample_ctx ''t'') Whoami sample_service = (r, ev, s')
     \<and> limiter_check gcra 10 ''t'' (Some ''u1'') Read (sv_limiter sample_service) = (Ok (), l)
     \<and> sv_limiter s' = l"
proof -
  obtain r ev s' where c: "call_tool sample_tools (sample_ctx ''t'') Whoami sample_service = (r, ev, s')"
    by (cases "call_tool sample_tools (sample_ctx ''t'') Whoami sample_service")
  from sample_charge [of "''t''" Read] obtain l where
    l: "limiter_check gcra 10 ''t'' (Some ''u1'') Read (sv_limiter sample_service) = (Ok (), l)" by auto
  from tool_is_gated [OF c] have "sv_limiter s' = l"
    by (simp add: sample_ctx_def sample_tools_def token_hash_def identity_of_def sample_claims_def
        l [unfolded One_nat_def])
  with c l show ?thesis by blast
qed

end
