(* ===== verification/Mcp_Results.thy ===== *)
theory Mcp_Results
  imports Mcp_Trace
begin

text \<open>
  What the tools write and return (\<open>src/src/mcp.rs\<close>): updates replace the card they read, the birthday
  window is its reference reading, and every call ends.
\<close>

subsection \<open>What every built vcard says of itself\<close>

lemma built_card_fields:
  assumes "utf8_contact c" "utf8 uid" "build_vcard c uid = Some (Ok vcard)"
  shows "pv_uid (parse_vcard vcard) = Some uid" "pv_birthday (parse_vcard vcard) = None" "\<not> pv_has_photo (parse_vcard vcard)"
  by (simp_all add: parse_built [OF assms] read_back_def)

subsection \<open>Updating\<close>

lemma rate_limit_check_carddav: "rate_limit_check T ctx c s = (r, s0) \<Longrightarrow> sv_carddav s0 = sv_carddav s"
  by (auto simp: rate_limit_check_def need_token_def bind_task_def Let_def split: prod.splits sum.splits option.splits)

lemma need_token_eq: "cx_token ctx = Some token \<Longrightarrow> need_token ctx s = (Inr token, s)"
  by (simp add: need_token_def)

lemma fallible_eq [simp]: "fallible r s = (map_err Fail r, s)"
  by (simp add: fallible_def)

lemma get_contact_run:
  assumes "get_contact E C t h d = (r, d')"
  shows "ds_sent d' = ds_sent d \<and> (\<exists>e. r = Inl e)
    \<or> (\<exists>q u. ds_sent d' = ds_sent d @ [q] \<and> resolve_href E C h = Ok u \<and> rq_method q = ''GET'' \<and> rq_url q = u)"
    and "r = Ok existing \<Longrightarrow> utf8 (dc_vcard existing) \<and> ds_sent d' \<noteq> ds_sent d"
  using assms
  by (auto simp: get_contact_def bind_task_def send_def evict_def Let_def
      split: prod.splits sum.splits if_splits exchange.splits)

lemma tool_update_run:
  assumes "cx_token ctx = Some token" "tool_update_contact T ctx p s = (r, s')"
  obtains (silent) e where "sv_carddav s' = sv_carddav s" "r = Inl e"
  | (read) x e where "get_contact (tv_dav T) (tv_client T) token (up_contact_href p) (sv_carddav s) = (x, sv_carddav s')"
      "r = Inl e"
  | (written) existing d uid vcard x where
      "get_contact (tv_dav T) (tv_client T) token (up_contact_href p) (sv_carddav s) = (Ok existing, d)"
      "pv_uid (parse_vcard (dc_vcard existing)) = Some uid" "\<forall>u. ci_uid (up_contact p) = Some u \<longrightarrow> u = uid"
      "build_vcard (up_contact p) uid = Some (Ok vcard)"
      "update_contact (tv_dav T) (tv_client T) token (up_contact_href p)
         (case up_etag p of Some e \<Rightarrow> Some e | None \<Rightarrow> dc_etag existing) vcard d = (x, sv_carddav s')"
      "\<And>v. r = Ok v \<Longrightarrow> \<exists>w. x = Ok w \<and> v = ContactWriteResult \<lparr>cw_href = wr_href w, cw_etag = wr_etag w, cw_uid = uid\<rparr>"
proof -
  obtain r0 s0 where g: "rate_limit_check T ctx Write s = (r0, s0)" by (cases "rate_limit_check T ctx Write s")
  note c0 = rate_limit_check_carddav [OF g]
  obtain x1 d1 where get: "get_contact (tv_dav T) (tv_client T) token (up_contact_href p) (sv_carddav s) = (x1, d1)"
    by (cases "get_contact (tv_dav T) (tv_client T) token (up_contact_href p) (sv_carddav s)")
  have dav: "dav_call T (get_contact (tv_dav T) (tv_client T) token (up_contact_href p)) s0
      = (map_err (\<lambda>e. Fail (map_carddav_err (tv_http_text T) e)) x1, s0\<lparr>sv_carddav := d1\<rparr>)"
    using get c0 by (simp add: dav_call_def)
  note body = tool_update_contact_def bind_task_def g need_token_eq [OF assms(1)] dav
  show thesis
  proof (cases "is_ok r0 \<and> is_ok (validate_contact_input (up_contact p))")
    case False
    with assms(2) c0 have "sv_carddav s' = sv_carddav s" "\<exists>e. r = Inl e"
      by (auto simp: body is_ok_def split: sum.splits)
    then show thesis using silent by blast
  next
    case True
    then have ok: "r0 = Inr ()" "validate_contact_input (up_contact p) = Inr ()" by (auto simp: is_ok_iff)
    show thesis
    proof (cases "\<exists>existing uid vcard. x1 = Inr existing \<and> pv_uid (parse_vcard (dc_vcard existing)) = Some uid
        \<and> (\<forall>u. ci_uid (up_contact p) = Some u \<longrightarrow> u = uid) \<and> build_vcard (up_contact p) uid = Some (Inr vcard)")
      case False
      with assms(2) ok have "sv_carddav s' = d1" "\<exists>e. r = Inl e"
        by (auto simp: body built_def split: sum.splits option.splits if_splits)
      then show thesis using read [of x1] get by blast
    next
      case True
      then obtain existing uid vcard where w: "x1 = Inr existing" "pv_uid (parse_vcard (dc_vcard existing)) = Some uid"
        "\<forall>u. ci_uid (up_contact p) = Some u \<longrightarrow> u = uid" "build_vcard (up_contact p) uid = Some (Inr vcard)" by blast
      let ?etag = "case up_etag p of Some e \<Rightarrow> Some e | None \<Rightarrow> dc_etag existing"
      obtain x d2 where put: "update_contact (tv_dav T) (tv_client T) token (up_contact_href p) ?etag vcard d1 = (x, d2)"
        by (cases "update_contact (tv_dav T) (tv_client T) token (up_contact_href p) ?etag vcard d1")
      have "dav_call T (update_contact (tv_dav T) (tv_client T) token (up_contact_href p) ?etag vcard) (s0\<lparr>sv_carddav := d1\<rparr>)
          = (map_err (\<lambda>e. Fail (map_carddav_err (tv_http_text T) e)) x, s0\<lparr>sv_carddav := d2\<rparr>)"
        using put by (simp add: dav_call_def)
      with assms(2) ok w have "sv_carddav s' = d2" "\<And>v. r = Ok v \<Longrightarrow> \<exists>w. x = Ok w
          \<and> v = ContactWriteResult \<lparr>cw_href = wr_href w, cw_etag = wr_etag w, cw_uid = uid\<rparr>"
        by (cases x; cases "ci_uid (up_contact p)"; auto simp: body built_def)+
      with get w put show thesis by (intro written) auto
    qed
  qed
qed

lemma call_tool_body:
  assumes "call_tool T ctx call s = (r, ev, s')"
  obtains r1 s1 where "tool_body T ctx call s = (r1, s1)" "ds_sent (sv_carddav s') = ds_sent (sv_carddav s1)"
    "\<And>v. r = Ok v \<longleftrightarrow> r1 = Ok v" "r = Inl Panic \<longleftrightarrow> r1 = Inl Panic" "r = Inl Diverge \<longleftrightarrow> r1 = Inl Diverge"
proof -
  from assms obtain r1 s1 where b: "tool_body T ctx call s = (r1, s1)"
    "react_to_auth_expiry T ctx r1 s1 = (r, s')" by (rule call_tool_parts)
  have "ds_sent (sv_carddav s') = ds_sent (sv_carddav s1)"
    using b(2) by (auto simp: react_to_auth_expiry_def evict_fields split: sum.splits stop.splits if_splits option.splits)
  with b react_limiter(2,3) [OF b(2)] show thesis by (intro that) (cases "expired r1"; auto)+
qed

lemma update_contact_put:
  assumes "update_contact E C t h etag vcard d = (x, d')" "resolve_href E C h = Ok u"
  shows "\<exists>q. ds_sent d' = ds_sent d @ [q] \<and> rq_method q = ''PUT'' \<and> rq_url q = u \<and> rq_body q = Some vcard
    \<and> filter (\<lambda>h. fst h \<in> {''if-match'', ''if-none-match''}) (rq_headers q) = [if_match etag]"
proof -
  have "outcome (update_contact E C t h etag vcard d) = (error_of x, d')" using assms(1) by (cases x) simp_all
  from write_done_update [OF this] assms(2) show ?thesis by (auto simp: write_done_def if_match_def)
qed

subsection \<open>The birthday window, read in one go\<close>

text \<open>
  The reference: read every address book first, then compute from the contacts alone. The tool
  interleaves the two.
\<close>

fun fetch_books ::
  "('u, 'h, 'ip, 'k, 'j, 'q, 'b, 'd) tool_env \<Rightarrow> string \<Rightarrow> string list \<Rightarrow> ('u, 'h, 'k, 'b, dav_contact list) tool_task" where
  "fetch_books T token [] = return_task []"
| "fetch_books T token (href # hrefs) =
     bind_task (dav_call T (list_contacts (tv_dav T) (tv_client T) token href)) (\<lambda>cs.
     bind_task (fetch_books T token hrefs) (\<lambda>rest. return_task (cs @ rest)))"

definition birthday_of :: "'d calendar \<Rightarrow> dav_contact \<Rightarrow> birthday option" where
  "birthday_of C contact = Option.bind (pv_birthday (parse_vcard (dc_vcard contact))) (parse_bday C)"

definition unparseable :: "'d calendar \<Rightarrow> dav_contact \<Rightarrow> bool" where
  "unparseable C contact \<longleftrightarrow> pv_birthday (parse_vcard (dc_vcard contact)) \<noteq> None \<and> birthday_of C contact = None"

definition birthday_entry ::
  "('u, 'h, 'ip, 'k, 'j, 'q, 'b, 'd) tool_env \<Rightarrow> 'd \<Rightarrow> nat \<Rightarrow> dav_contact \<Rightarrow> upcoming_birthday option" where
  "birthday_entry T today days contact =
     Option.bind (birthday_of (tv_calendar T) contact) (\<lambda>b.
       let n = days_until (tv_calendar T) b today; parsed = parse_vcard (dc_vcard contact) in
       if n \<le> days
       then Some \<lparr>ub_href = dc_href contact, ub_uid = pv_uid parsed, ub_full_name = pv_full_name parsed,
              ub_birthday = bd_raw b,
              ub_month_day = pad0 2 (digits_of (bd_month b)) @ ''-'' @ pad0 2 (digits_of (bd_day b)),
              ub_days_until = n, ub_next_occurrence = tv_format_date T (the (cal_add (tv_calendar T) today n)),
              ub_turning = the (turning (tv_calendar T) b today)\<rparr>
       else None)"

definition birthday_report ::
  "('u, 'h, 'ip, 'k, 'j, 'q, 'b, 'd) tool_env \<Rightarrow> 'd \<Rightarrow> nat \<Rightarrow> dav_contact list \<Rightarrow> upcoming_birthdays_result" where
  "birthday_report T today days contacts =
     \<lparr>br_birthdays = sort_key birthday_order (List.map_filter (birthday_entry T today days) contacts),
      br_reference_date = tv_format_date T today, br_days = days, br_contacts_scanned = length contacts,
      br_unparseable_birthdays = length (filter (unparseable (tv_calendar T)) contacts)\<rparr>"

definition birthdays_reference ::
  "('u, 'h, 'ip, 'k, 'j, 'q, 'b, 'd) tool_env \<Rightarrow> 'd call_ctx \<Rightarrow> upcoming_birthdays_params
     \<Rightarrow> ('u, 'h, 'k, 'b, tool_result) tool_task" where
  "birthdays_reference T ctx params =
     bind_task (rate_limit_check T ctx Read) (\<lambda>_.
       if bp_days params \<in> {1..366} then
         bind_task (fallible (reference_day T ctx (bp_reference_date params))) (\<lambda>today.
         bind_task (need_token ctx) (\<lambda>token.
         bind_task (books_to_scan T token (bp_addressbook_href params)) (\<lambda>hrefs.
         bind_task (fetch_books T token hrefs) (\<lambda>contacts.
           return_task (BirthdaysResult (birthday_report T today (bp_days params) contacts))))))
       else fail_task (Fail (invalid_params ''`days` must be between 1 and 366'')))"

lemma map_filter_snoc: "List.map_filter f (x # xs) = (case f x of None \<Rightarrow> [] | Some y \<Rightarrow> [y]) @ List.map_filter f xs"
  by (simp add: List.map_filter_def split: option.splits)

definition add_report ::
  "('u, 'h, 'ip, 'k, 'j, 'q, 'b, 'd) tool_env \<Rightarrow> 'd \<Rightarrow> nat \<Rightarrow> dav_contact list \<Rightarrow> birthday_scan \<Rightarrow> birthday_scan" where
  "add_report T today days cs acc =
     \<lparr>bn_birthdays = bn_birthdays acc @ List.map_filter (birthday_entry T today days) cs,
      bn_scanned = bn_scanned acc + length cs,
      bn_unparseable = bn_unparseable acc + length (filter (unparseable (tv_calendar T)) cs)\<rparr>"

lemma add_report_append: "add_report T today days ds (add_report T today days cs acc) = add_report T today days (cs @ ds) acc"
  by (simp add: add_report_def List.map_filter_def)

lemma scan_contact_report:
  assumes "civil_calendar (tv_calendar T)" "days < U32_MAX"
  shows "scan_contact T today days c acc = Ok (add_report T today days [c] acc)"
proof (cases "birthday_of (tv_calendar T) c")
  case None
  then show ?thesis
    by (cases "pv_birthday (parse_vcard (dc_vcard c))")
       (auto simp: scan_contact_def add_report_def birthday_entry_def unparseable_def birthday_of_def
         map_filter_snoc map_filter_simps Let_def)
next
  case (Some b)
  then obtain raw where raw: "pv_birthday (parse_vcard (dc_vcard c)) = Some raw" "parse_bday (tv_calendar T) raw = Some b"
    by (auto simp: birthday_of_def split: bind_splits)
  let ?n = "days_until (tv_calendar T) b today"
  show ?thesis
  proof (cases "?n \<le> days")
    case False
    with Some raw show ?thesis
      by (simp add: scan_contact_def add_report_def birthday_entry_def unparseable_def within_window_def
          map_filter_snoc map_filter_simps Let_def)
  next
    case True
    with assms obtain t where t: "cal_add (tv_calendar T) today ?n = Some t"
      using civil_calendar.days_until_date [OF assms(1), of b today] by fastforce
    then obtain a where a: "turning (tv_calendar T) b today = Some a" by (cases "bd_year b") (simp_all add: turning_def)
    with True Some raw t show ?thesis
      by (simp add: scan_contact_def add_report_def birthday_entry_def unparseable_def within_window_def or_panic_def
          map_filter_snoc map_filter_simps Let_def)
  qed
qed

lemma scan_contacts_report:
  assumes "civil_calendar (tv_calendar T)" "days < U32_MAX"
  shows "scan_contacts T today days cs acc = Ok (add_report T today days cs acc)"
proof (induction cs arbitrary: acc)
  case Nil
  show ?case by (simp add: add_report_def map_filter_simps)
next
  case (Cons c cs)
  then show ?case by (simp add: scan_contact_report [OF assms] add_report_append)
qed

lemma scan_books_report:
  assumes "civil_calendar (tv_calendar T)" "days < U32_MAX"
  shows "scan_books T token today days hrefs acc
    = bind_task (fetch_books T token hrefs) (\<lambda>cs. return_task (add_report T today days cs acc))"
proof (induction hrefs arbitrary: acc)
  case Nil
  show ?case by (intro ext) (simp add: add_report_def map_filter_simps bind_task_def)
next
  case (Cons h hs)
  show ?case
    by (intro ext)
       (auto simp: bind_task_def scan_contacts_report [OF assms] Cons.IH add_report_append split: prod.splits sum.splits)
qed

subsection \<open>A server with one card\<close>

text \<open>A server that holds one card, and answers writes with 204.\<close>

definition card_env :: "(string \<times> string, string, nat) dav_env" where
  "card_env = sample_env\<lparr>ev_reply := (\<lambda>_ q. Responded
     \<lparr>rw_status = (if rq_method q = ''GET'' then 200 else 204),
      rw_header = (\<lambda>n. if n = ''etag'' then Some ''v1'' else None), rw_chunks = [Some sample_stored_card]\<rparr>)\<rparr>"

definition card_tools ::
  "(string \<times> string, string, nat, string, string, gcra_quota, gcra_bucket, gdate) tool_env" where
  "card_tools = sample_tools\<lparr>tv_dav := card_env\<rparr>"

definition plain_contact :: contact_input where
  "plain_contact = \<lparr>ci_uid = None, ci_full_name = ''A'', ci_given_name = None, ci_family_name = None,
     ci_emails = [], ci_phones = [], ci_organization = None, ci_title = None, ci_note = None\<rparr>"

lemma card_resolve: "resolve_href card_env sample_client ''/card/'' = Ok (''dav'', ''/card/'')"
  by (simp add: resolve_href_def card_env_def sample_env_def sample_client_def sample_join_def strip_prefix_def same_origin_def
      trim_def trim_end_def ws1_def ws2_def ws3_def code_def)

lemma card_send:
  "\<exists>q'. send card_env sample_client t q d = (Inr \<lparr>hp_status = (if rq_method q = ''GET'' then 200 else 204),
     hp_body = sample_stored_card, hp_etag = Some ''v1'', hp_location = None\<rparr>, d\<lparr>ds_sent := ds_sent d @ [q']\<rparr>)"
  by (rule exI [of _ "q\<lparr>rq_headers := rq_headers q @ [bearer_auth_header t]\<rparr>"])
     (simp add: send_def card_env_def read_limited_def USIZE_MAX_def Let_def sample_client_def sample_stored_card_def)

lemma card_get:
  "\<exists>q. get_contact card_env sample_client t ''/card/'' d
    = (Inr \<lparr>dc_href = ''/card/'', dc_etag = Some ''v1'', dc_vcard = sample_stored_card\<rparr>, d\<lparr>ds_sent := ds_sent d @ [q]\<rparr>)"
proof -
  have u: "utf8 sample_stored_card" by (rule ascii_utf8) (simp add: sample_stored_card_def code_def)
  from card_send [of t "\<lparr>rq_method = ''GET'', rq_url = (''dav'', ''/card/''),
     rq_headers = [(''accept'', ''text/vcard, text/x-vcard'')], rq_body = None\<rparr>" d]
  show ?thesis by (auto simp: get_contact_def card_resolve bind_task_def u)
qed

lemma card_put:
  "\<exists>w q. update_contact card_env sample_client t ''/card/'' etag v d = (Inr w, d\<lparr>ds_sent := ds_sent d @ [q]\<rparr>)"
proof -
  from card_send [of t "\<lparr>rq_method = ''PUT'', rq_url = (''dav'', ''/card/''),
     rq_headers = [(''content-type'', ''text/vcard; charset=utf-8''), if_match etag], rq_body = Some v\<rparr>" d]
  show ?thesis by (auto simp: update_contact_def card_resolve bind_task_def)
qed

lemma card_uid: "pv_uid (parse_vcard sample_stored_card) = Some ''x1''"
  by code_simp

lemma plain_built: "\<exists>v. build_vcard plain_contact ''x1'' = Some (Ok v)"
proof -
  have "fold_lines (vcard_lines plain_contact ''x1'') [] \<noteq> None
      \<and> length (the (fold_lines (vcard_lines plain_contact ''x1'') [])) \<le> 200 \<and> validate_uid ''x1'' = Ok ()" by code_simp
  then show ?thesis by (auto simp: build_vcard_def MAX_VCARD_BYTES_def)
qed

lemma plain_valid: "validate_contact_input plain_contact = Ok ()"
  by (simp add: validate_contact_input_def plain_contact_def field_limits_def too_long_def MAX_CONTACT_FIELD_BYTES_def
      MAX_NOTE_BYTES_def MAX_MULTI_VALUES_def trim_def trim_end_def ws1_def ws2_def ws3_def code_def)

subsection \<open>Properties\<close>

text \<open>
  C7: an update replaces what it read, and nothing else. An update sends nothing, or reads the
  contact first, and then either stops or writes once, to the same URL: only if the card it read has
  a UID, and the caller gave that one or none; under \<open>If-Match\<close> with the caller's entity tag, else
  the one it read, else \<open>*\<close>; and with a card whose UID is the old one. That card has no birthday and
  no photo, whatever the old one had. A successful update wrote, and reports that UID.
\<close>

theorem update_replaces_what_it_read:
  assumes "utf8_contact (up_contact p)" "cx_token ctx = Some token"
    and "call_tool T ctx (UpdateContact p) s = (r, ev, s')"
  shows "\<exists>new. ds_sent (sv_carddav s') = ds_sent (sv_carddav s) @ new
    \<and> (new = [] \<or> (\<exists>get. rq_method get = ''GET''
         \<and> resolve_href (tv_dav T) (tv_client T) (up_contact_href p) = Ok (rq_url get) \<and> (new = [get]
       \<or> (\<exists>put existing d uid vcard. new = [get, put]
            \<and> get_contact (tv_dav T) (tv_client T) token (up_contact_href p) (sv_carddav s) = (Ok existing, d)
            \<and> pv_uid (parse_vcard (dc_vcard existing)) = Some uid \<and> (\<forall>u. ci_uid (up_contact p) = Some u \<longrightarrow> u = uid)
            \<and> rq_method put = ''PUT'' \<and> rq_url put = rq_url get \<and> rq_body put = Some vcard
            \<and> filter (\<lambda>h. fst h \<in> {''if-match'', ''if-none-match''}) (rq_headers put)
                = [if_match (case up_etag p of Some e \<Rightarrow> Some e | None \<Rightarrow> dc_etag existing)]
            \<and> pv_uid (parse_vcard vcard) = Some uid \<and> pv_birthday (parse_vcard vcard) = None
            \<and> \<not> pv_has_photo (parse_vcard vcard)))))
    \<and> (\<forall>v. r = Ok v \<longrightarrow> (\<exists>get put vcard w. new = [get, put] \<and> rq_body put = Some vcard
         \<and> v = ContactWriteResult w \<and> pv_uid (parse_vcard vcard) = Some (cw_uid w)))"
proof -
  from assms(3) obtain r1 s1 where b: "tool_body T ctx (UpdateContact p) s = (r1, s1)"
    "ds_sent (sv_carddav s') = ds_sent (sv_carddav s1)" "\<And>v. r = Ok v \<longleftrightarrow> r1 = Ok v" by (rule call_tool_body) blast
  from b(1) have "tool_update_contact T ctx p s = (r1, s1)" by simp
  with assms(2) show ?thesis
  proof (cases rule: tool_update_run)
    case (silent e)
    with b show ?thesis by (intro exI [of _ "[]"]) auto
  next
    case (read x e)
    from get_contact_run(1) [OF read(1)] show ?thesis
    proof
      assume "ds_sent (sv_carddav s1) = ds_sent (sv_carddav s) \<and> (\<exists>e. x = Inl e)"
      with b read(2) show ?thesis by (intro exI [of _ "[]"]) auto
    next
      assume "\<exists>q u. ds_sent (sv_carddav s1) = ds_sent (sv_carddav s) @ [q]
        \<and> resolve_href (tv_dav T) (tv_client T) (up_contact_href p) = Ok u \<and> rq_method q = ''GET'' \<and> rq_url q = u"
      then obtain q where "ds_sent (sv_carddav s1) = ds_sent (sv_carddav s) @ [q]" "rq_method q = ''GET''"
        "resolve_href (tv_dav T) (tv_client T) (up_contact_href p) = Ok (rq_url q)" by blast
      with b read(2) show ?thesis by (intro exI [of _ "[q]"]) auto
    qed
  next
    case (written existing d uid vcard x)
    from get_contact_run [OF written(1)] obtain q where
      q: "ds_sent d = ds_sent (sv_carddav s) @ [q]" "rq_method q = ''GET''"
      "resolve_href (tv_dav T) (tv_client T) (up_contact_href p) = Ok (rq_url q)" and "utf8 (dc_vcard existing)" by blast
    from utf8_parse_vcard [OF \<open>utf8 (dc_vcard existing)\<close>] written(2) have "utf8 uid" by (simp add: utf8_parsed_def)
    note card = built_card_fields [OF assms(1) this written(4)]
    from update_contact_put [OF written(5) q(3)] obtain put where
      put: "ds_sent (sv_carddav s1) = ds_sent d @ [put]" "rq_method put = ''PUT''" "rq_url put = rq_url q" "rq_body put = Some vcard"
      "filter (\<lambda>h. fst h \<in> {''if-match'', ''if-none-match''}) (rq_headers put)
        = [if_match (case up_etag p of Some e \<Rightarrow> Some e | None \<Rightarrow> dc_etag existing)]" by blast
    have fin: "\<exists>get put' vcard' w. [q, put] = [get, put'] \<and> rq_body put' = Some vcard'
         \<and> v = ContactWriteResult w \<and> pv_uid (parse_vcard vcard') = Some (cw_uid w)" if "r = Ok v" for v
    proof -
      from that b(3) have "r1 = Ok v" by blast
      from written(6) [OF this] obtain w :: dav_write_result where "v = ContactWriteResult \<lparr>cw_href = wr_href w, cw_etag = wr_etag w, cw_uid = uid\<rparr>"
        by blast
      then have "pv_uid (parse_vcard vcard) = Some (cw_uid \<lparr>cw_href = wr_href w, cw_etag = wr_etag w, cw_uid = uid\<rparr>)"
        using card(1) by simp
      with \<open>v = _\<close> put(4) show ?thesis by blast
    qed
    show ?thesis
      by (rule exI [of _ "[q, put]"], rule conjI, simp add: b(2) q(1) put(1), rule conjI, rule disjI2,
          rule exI [of _ q], rule conjI, rule q(2), rule conjI, rule q(3), rule disjI2, rule exI [of _ put],
          rule exI [of _ existing], rule exI [of _ d], rule exI [of _ uid], rule exI [of _ vcard],
          intro conjI refl written(1-3) put(2-5) card, intro allI impI, erule fin)
  qed
qed

theorem update_replaces_what_it_read_witness:
  "\<exists>v ev s' get put. call_tool card_tools (sample_ctx ''t'')
      (UpdateContact \<lparr>up_contact_href = ''/card/'', up_etag = None, up_contact = plain_contact\<rparr>) sample_service
      = (Ok v, ev, s') \<and> ds_sent (sv_carddav s') = [get, put] \<and> rq_method put = ''PUT''"
proof -
  let ?p = "\<lparr>up_contact_href = ''/card/'', up_etag = None, up_contact = plain_contact\<rparr>"
  obtain l where g: "rate_limit_check card_tools (sample_ctx ''t'') Write sample_service = (Inr (), sample_service\<lparr>sv_limiter := l\<rparr>)"
    using sample_gate [OF refl, of "''t''" Write] by (auto simp: rate_limit_check_def card_tools_def)
  have t: "tv_dav card_tools = card_env" "tv_client card_tools = sample_client"
    by (simp_all add: card_tools_def sample_tools_simps)
  let ?d = "dav_start :: (string \<times> string, string) dav_state"
  obtain v where v: "build_vcard plain_contact ''x1'' = Some (Ok v)" using plain_built by blast
  obtain q where q: "get_contact card_env sample_client ''t'' ''/card/'' dav_start
    = (Inr \<lparr>dc_href = ''/card/'', dc_etag = Some ''v1'', dc_vcard = sample_stored_card\<rparr>, ?d\<lparr>ds_sent := ds_sent ?d @ [q]\<rparr>)"
    using card_get [of "''t''" dav_start] ..
  obtain w q2 where w: "update_contact card_env sample_client ''t'' ''/card/'' (Some ''v1'') v (?d\<lparr>ds_sent := ds_sent ?d @ [q]\<rparr>)
     = (Inr w, ?d\<lparr>ds_sent := ds_sent ?d @ [q, q2]\<rparr>)"
    using card_put [of "''t''" "Some ''v1''" v "?d\<lparr>ds_sent := ds_sent ?d @ [q]\<rparr>"] by auto
  let ?s1 = "sample_service\<lparr>sv_limiter := l\<rparr>"
  let ?s2 = "?s1\<lparr>sv_carddav := ?d\<lparr>ds_sent := ds_sent ?d @ [q]\<rparr>\<rparr>"
  have d1: "dav_call card_tools (get_contact card_env sample_client ''t'' ''/card/'') ?s1
      = (Inr \<lparr>dc_href = ''/card/'', dc_etag = Some ''v1'', dc_vcard = sample_stored_card\<rparr>, ?s2)"
    using q by (simp add: dav_call_def sample_service_def)
  have "\<exists>s3. dav_call card_tools (update_contact card_env sample_client ''t'' ''/card/'' (Some ''v1'') v) ?s2 = (Inr w, s3)"
    using w by (simp add: dav_call_def)
  then obtain s3 where d2: "dav_call card_tools (update_contact card_env sample_client ''t'' ''/card/'' (Some ''v1'') v) ?s2 = (Inr w, s3)" ..
  have ctx: "need_token (sample_ctx ''t'') s = (Inr ''t'', s)" for s :: "(string \<times> string, string, string, gcra_bucket) service"
    by (rule need_token_eq) (simp add: sample_tools_simps)
  have uid: "ci_uid plain_contact = None" by (simp add: plain_contact_def)
  have "\<exists>w s1. tool_body card_tools (sample_ctx ''t'') (UpdateContact ?p) sample_service = (Inr w, s1)"
    by (simp add: tool_update_contact_def bind_task_def g plain_valid ctx t d1 card_uid uid built_def v d2)
  then obtain r ev s' where c: "call_tool card_tools (sample_ctx ''t'') (UpdateContact ?p) sample_service = (Ok r, ev, s')"
    by (auto simp: call_tool_def react_to_auth_expiry_def Let_def)
  have "utf8_contact (up_contact ?p)"
    by (auto intro!: ascii_utf8 simp: utf8_contact_def plain_contact_def code_def)
  from update_replaces_what_it_read [OF this _ c, of "''t''"] show ?thesis
    using c by (auto simp: sample_tools_simps sample_service_def dav_start_def)
qed

lemma upcoming_birthdays_eq:
  assumes "civil_calendar (tv_calendar T)"
  shows "tool_upcoming_birthdays T ctx params = birthdays_reference T ctx params"
proof -
  have d: "digits_of MAX_BIRTHDAY_DAYS = ''366''"
    by (simp add: MAX_BIRTHDAY_DAYS_def digits_of.simps digit_char_def char_of_def bit_0)
  have days: "\<not> (bp_days params = 0 \<or> bp_days params > MAX_BIRTHDAY_DAYS) \<longleftrightarrow> bp_days params \<in> {1..366}"
    by (auto simp: MAX_BIRTHDAY_DAYS_def)
  show ?thesis
  proof (cases "bp_days params \<in> {1..366}")
    case False
    with days show ?thesis
      unfolding tool_upcoming_birthdays_def birthdays_reference_def d by (simp only: if_False if_True simp_thms append.simps)
  next
    case True
    then have "bp_days params < U32_MAX" by (simp add: U32_MAX_def)
    note scan = scan_books_report [OF assms this]
    have "bind_task (scan_books T token today (bp_days params) hrefs \<lparr>bn_birthdays = [], bn_scanned = 0, bn_unparseable = 0\<rparr>) (\<lambda>scan.
        return_task (BirthdaysResult
         \<lparr>br_birthdays = sort_key birthday_order (bn_birthdays scan),
          br_reference_date = tv_format_date T today, br_days = bp_days params,
          br_contacts_scanned = bn_scanned scan, br_unparseable_birthdays = bn_unparseable scan\<rparr>))
      = bind_task (fetch_books T token hrefs) (\<lambda>contacts.
           return_task (BirthdaysResult (birthday_report T today (bp_days params) contacts)))" for token today hrefs
      unfolding scan
      by (intro ext) (simp add: bind_task_def birthday_report_def add_report_def split: prod.splits sum.splits)
    with True days show ?thesis
      unfolding tool_upcoming_birthdays_def birthdays_reference_def by (simp only: if_False if_True simp_thms)
  qed
qed

text \<open>
  C13: \<open>upcoming_birthdays\<close> is its reference reading. In any state and against any server, the tool does
  what reading all address books first and computing afterwards does: the same requests, errors and
  state, and a report that lists every contact whose birthday the parser accepts and whose next
  occurrence is within the window, sorted by distance and then name, and counts the contacts read and
  those with a birthday that could not be parsed. In particular no date arithmetic panics.
\<close>

theorem upcoming_birthdays_reference:
  assumes "civil_calendar (tv_calendar T)"
  shows "tool_upcoming_birthdays T ctx params s = birthdays_reference T ctx params s
    \<and> sorted (map birthday_order (br_birthdays (birthday_report T today days contacts)))
    \<and> (\<forall>b. b \<in> set (br_birthdays (birthday_report T today days contacts)) \<longleftrightarrow>
         (\<exists>c \<in> set contacts. birthday_entry T today days c = Some b))"
proof -
  have "set (List.map_filter f xs) = {b. \<exists>c \<in> set xs. f c = Some b}" for f :: "dav_contact \<Rightarrow> upcoming_birthday option" and xs
    by (induction xs) (auto simp: List.map_filter_def)
  then show ?thesis
    by (simp add: upcoming_birthdays_eq [OF assms] birthday_report_def)
qed

theorem upcoming_birthdays_reference_witness:
  "tool_upcoming_birthdays sample_tools (sample_ctx ''t'') \<lparr>bp_days = 14, bp_addressbook_href = None, bp_reference_date = None\<rparr>
      sample_service
    = birthdays_reference sample_tools (sample_ctx ''t'') \<lparr>bp_days = 14, bp_addressbook_href = None, bp_reference_date = None\<rparr>
      sample_service"
proof -
  have "civil_calendar (tv_calendar sample_tools)" using gregorian.civil_calendar_axioms by (simp add: sample_tools_def)
  from upcoming_birthdays_reference [OF this] show ?thesis by blast
qed

subsection \<open>Every call ends\<close>

definition answers :: "stop + 'a \<Rightarrow> bool" where
  "answers r \<longleftrightarrow> r \<noteq> Inl Panic \<and> r \<noteq> Inl Diverge"

lemma answers_simps [simp]:
  "answers (Inr a)" "answers (Inl (Fail e))" "\<not> answers (Inl Panic)" "\<not> answers (Inl Diverge)"
  by (simp_all add: answers_def)

lemma answers_map_err [simp]: "answers (map_err Fail r)" "answers (map_err (\<lambda>x. Fail (g x)) r')"
  by (cases r; simp) (cases r'; simp)

lemma answers_ok_or [simp]: "answers (ok_or v (Fail e))"
  by (cases v) simp_all

definition ends :: "('u, 'h, 'k, 'b, 'a) tool_task \<Rightarrow> bool" where
  "ends m \<longleftrightarrow> (\<forall>s. answers (fst (m s)))"

lemma ends_bind:
  assumes "ends m" "\<And>a. (\<exists>s s'. m s = (Inr a, s')) \<Longrightarrow> ends (f a)"
  shows "ends (bind_task m f)"
  unfolding ends_def
proof
  fix s
  obtain r s1 where m: "m s = (r, s1)" by (cases "m s")
  show "answers (fst (bind_task m f s))"
  proof (cases r)
    case (Inl e)
    from assms(1) have "answers (fst (m s))" by (simp add: ends_def)
    with m Inl show ?thesis by (cases e) simp_all
  next
    case (Inr a)
    with assms(2) [of a] m show ?thesis by (auto simp: ends_def)
  qed
qed

lemma ends_simple:
  "ends (return_task a)" "ends (fail_task (Fail e))" "ends (fallible r)" "ends (dav_call T m)" "ends (need_token ctx)"
  "answers x \<Longrightarrow> ends (pure_task x)"
  by (simp_all add: ends_def dav_call_def need_token_def split_def Let_def)

lemma ends_if: "(b \<Longrightarrow> ends m) \<Longrightarrow> (\<not> b \<Longrightarrow> ends n) \<Longrightarrow> ends (if b then m else n)"
  by simp

lemma ends_charge: "ends (rate_limit_check T ctx c)"
proof -
  have "ends (\<lambda>s. let (r, l) = limiter_check G now h u c (sv_limiter s)
       in (map_err (\<lambda>_. Fail rate_limit_err) r, s\<lparr>sv_limiter := l\<rparr>))" for G now h u
    by (simp add: ends_def split_def Let_def)
  then show ?thesis unfolding rate_limit_check_def by (intro ends_bind ends_simple answers_ok_or)
qed

lemma ends_books: "ends (books_to_scan T token href)"
  unfolding books_to_scan_def by (cases href; simp only: option.case; intro ends_bind ends_simple)

lemma ends_fetch: "ends (fetch_books T token hrefs)"
  by (induction hrefs) (simp_all only: fetch_books.simps, intro ends_simple, intro ends_bind ends_simple)

lemma ends_search: "ends (search_books T token query limit seen contacts hrefs)"
proof (induction hrefs arbitrary: seen contacts)
  case Nil
  show ?case unfolding search_books.simps by (rule ends_simple)
next
  case (Cons h hs)
  show ?case unfolding search_books.simps Let_def split_def by (intro ends_bind ends_simple ends_if Cons.IH)
qed

text \<open>Strings are UTF-8, so building a card ends.\<close>

lemma built_answers:
  assumes "utf8_contact c" "utf8 uid"
  shows "answers (built c uid)"
  by (rule build_vcard_cases [OF assms]) (simp_all add: built_def)

definition call_utf8 :: "mcp_call \<Rightarrow> bool" where
  "call_utf8 call = (case call of CreateContact p \<Rightarrow> utf8_contact (cp_contact p)
     | UpdateContact p \<Rightarrow> utf8_contact (up_contact p) | _ \<Rightarrow> True)"

lemma utf8_generated: "(\<And>b. ascii (tv_hex T b)) \<Longrightarrow> utf8 (generate_uid (tv_hex T) bytes)"
  by (rule ascii_utf8) (simp add: generate_uid_def code_def)

lemma existing_utf8:
  assumes "dav_call T (get_contact E C t h) s = (Inr existing, s')"
  shows "utf8 (dc_vcard existing)"
  using assms get_contact_run(2) [of E C t h "sv_carddav s" _ _ existing]
  by (auto simp: dav_call_def split: prod.splits)

lemma ends_body:
  assumes "civil_calendar (tv_calendar T)" "\<And>b. ascii (tv_hex T b)" "call_utf8 call"
  shows "ends (tool_body T ctx call)"
proof (cases call)
  case Whoami
  show ?thesis unfolding Whoami tool_body.simps whoami_def by (intro ends_bind ends_charge ends_simple answers_ok_or)
next
  case ListAddressBooks
  show ?thesis unfolding ListAddressBooks tool_body.simps tool_list_address_books_def
    by (intro ends_bind ends_charge ends_simple)
next
  case (ListContacts p)
  show ?thesis unfolding ListContacts tool_body.simps tool_list_contacts_def by (intro ends_bind ends_charge ends_simple)
next
  case (UpcomingBirthdays p)
  show ?thesis unfolding UpcomingBirthdays tool_body.simps upcoming_birthdays_eq [OF assms(1)] birthdays_reference_def
    by (intro ends_bind ends_charge ends_simple ends_if ends_books ends_fetch)
next
  case (SearchContacts p)
  show ?thesis unfolding SearchContacts tool_body.simps tool_search_contacts_def
    by (intro ends_bind ends_charge ends_simple ends_if ends_books ends_search)
next
  case (CreateContact p)
  let ?uid = "case ci_uid (cp_contact p) of Some u \<Rightarrow> u | None \<Rightarrow> generate_uid (tv_hex T) (cx_random ctx)"
  have c: "utf8_contact (cp_contact p)" using assms(3) CreateContact by (simp add: call_utf8_def)
  then have "utf8 ?uid" using utf8_generated [of T, OF assms(2)] by (auto simp: utf8_contact_def split: option.splits)
  note built = built_answers [OF c this]
  show ?thesis unfolding CreateContact tool_body.simps tool_create_contact_def Let_def
    by (intro ends_bind ends_charge ends_simple built)
next
  case (UpdateContact p)
  have c: "utf8_contact (up_contact p)" using assms(3) UpdateContact by (simp add: call_utf8_def)
  have uid: "utf8 uid" if "\<exists>s s'. dav_call T (get_contact (tv_dav T) (tv_client T) token (up_contact_href p)) s = (Inr existing, s')"
    "\<exists>s s'. fallible (ok_or (pv_uid (parse_vcard (dc_vcard existing))) m) s = (Inr uid, s')" for token existing m uid
    using that utf8_parse_vcard [OF existing_utf8, of T] by (fastforce simp: utf8_parsed_def map_err_Ok)
  show ?thesis unfolding UpdateContact tool_body.simps tool_update_contact_def Let_def
    by (intro ends_bind ends_charge ends_simple ends_if built_answers [OF c]) (erule (1) uid)
next
  case (DeleteContact p)
  show ?thesis unfolding DeleteContact tool_body.simps tool_delete_contact_def by (intro ends_bind ends_charge ends_simple)
qed

text \<open>
  C16: every tool call answers. For parameters that are strings (UTF-8), under the documented contract of
  the calendar, and for a hexadecimal encoder that yields ASCII, a call ends with a result or with an
  error for the caller: no date arithmetic panics and no loop runs on, whatever cards the server
  holds. Each call leaves exactly one audit event, with the tool's name and the outcome \<open>ok\<close> just when it
  returned a result.
\<close>

theorem every_call_answers:
  assumes "civil_calendar (tv_calendar T)" "\<And>b. ascii (tv_hex T b)" "call_utf8 call"
    and "call_tool T ctx call s = (r, ev, s')"
  shows "((\<exists>v. r = Ok v) \<or> (\<exists>e. r = Err (Fail e)))
    \<and> (\<exists>e. ev = Some e \<and> te_method e = tool_name call \<and> (te_outcome e = OUT_OK \<longleftrightarrow> (\<exists>v. r = Ok v)))"
proof -
  from assms(4) obtain r1 s1 where b: "tool_body T ctx call s = (r1, s1)"
    "r = Inl Panic \<longleftrightarrow> r1 = Inl Panic" "r = Inl Diverge \<longleftrightarrow> r1 = Inl Diverge" by (rule call_tool_body) blast
  from ends_body [OF assms(1-3)] b(1) have "answers r1" by (metis ends_def fst_conv)
  with b(2,3) have "answers r" by (auto simp: answers_def)
  then have r: "(\<exists>v. r = Ok v) \<or> (\<exists>e. r = Err (Fail e))"
    by (cases r) (auto simp: answers_def intro: stop.exhaust)
  from assms(4) obtain
    "\<And>e. r = Inl (Fail e) \<Longrightarrow> ev = Some (emit_tool_audit (tool_name call) (audit_user ctx) (tool_resource call) None (Err e))"
    "\<And>v. r = Inr v \<Longrightarrow> ev = Some (emit_tool_audit (tool_name call) (audit_user ctx) (tool_resource call) (result_count v) (Ok v))"
    by (rule call_tool_parts) blast
  with r show ?thesis by (auto simp: emit_tool_audit_def tool_call_def Let_def)
qed

theorem every_call_answers_witness:
  "\<exists>r ev s'. call_tool (card_tools\<lparr>tv_hex := (\<lambda>_. ''00'')\<rparr>) (sample_ctx ''t'')
      (UpdateContact \<lparr>up_contact_href = ''/card/'', up_etag = None, up_contact = plain_contact\<rparr>) sample_service
      = (r, ev, s') \<and> ev \<noteq> None \<and> ((\<exists>v. r = Ok v) \<or> (\<exists>e. r = Err (Fail e)))"
proof -
  let ?T = "card_tools\<lparr>tv_hex := (\<lambda>_. ''00'')\<rparr>"
    and ?c = "UpdateContact \<lparr>up_contact_href = ''/card/'', up_etag = None, up_contact = plain_contact\<rparr>"
  have t: "civil_calendar (tv_calendar ?T)" using gregorian.civil_calendar_axioms by (simp add: card_tools_def sample_tools_def)
  have h: "ascii (tv_hex ?T b)" for b by (simp add: code_def)
  have u: "call_utf8 ?c"
    by (auto intro!: ascii_utf8 simp: call_utf8_def utf8_contact_def plain_contact_def code_def)
  obtain r ev s' where c: "call_tool ?T (sample_ctx ''t'') ?c sample_service = (r, ev, s')" by (metis prod_cases3)
  from every_call_answers [OF t h u c] c show ?thesis by blast
qed

end
