(* ===== verification/Mcp_Tasks.thy ===== *)
theory Mcp_Tasks
  imports Mcp_Trace Bearer_Auth Oauth_Proxy Dav_Tasks Logto_Tasks Limit_Tasks
begin

text \<open>
  Concurrent tool calls, \<open>src/src/mcp.rs\<close>: every tool of \<open>Mcp_Tools\<close> as a program over the state all
  requests share, composed of the programs of the CardDAV client, the validation client and the
  limiter, and the whole handler of each tool around it.

  \<^item> \<open>server_world\<close> is that state. \<open>dav_part\<close>, \<open>oidc_part\<close> and \<open>limits_part\<close> run a component's program in
    it. \<open>sw_log\<close> is what the service logs, oldest first, with the task that logged it; a tool's event
    has the instants the handler started and ended.
  \<^item> Uninterrupted, a handler is \<open>call_tool\<close> (\<open>run_call_prog\<close>): \<open>tool_refines\<close> relates a program to a
    function of the service's state and is proved part by part.
\<close>

datatype 't server_log =
    Validation 't introspect_event
  | Refusal 't string
  | ToolDone 't instant instant tool_event

record ('u, 'h, 'ip, 'k, 'q, 'b, 't) server_world =
  sw_oidc :: "('h, 'k, 't) oidc_world"
  sw_last_used :: "'ip last_used_map"
  sw_carddav :: "('u, 'h) dav_state"
  sw_limits :: "('q, 'b, 't) limits_world"
  sw_proxy :: proxy_state
  sw_upstream :: "(string \<times> string) list"
  sw_wall :: instant
  sw_log :: "'t server_log list"

type_synonym ('u, 'h, 'ip, 'k, 'q, 'b, 't, 'a) server_prog = "(('u, 'h, 'ip, 'k, 'q, 'b, 't) server_world, 'a) prog"

definition dav_part :: "(('u, 'h) dav_state, 'a) prog \<Rightarrow> ('u, 'h, 'ip, 'k, 'q, 'b, 't, 'a) server_prog" where
  "dav_part p = zoom sw_carddav (\<lambda>d w. w\<lparr>sw_carddav := d\<rparr>) p"

definition oidc_part :: "(('h, 'k, 't) oidc_world, 'a) prog \<Rightarrow> ('u, 'h, 'ip, 'k, 'q, 'b, 't, 'a) server_prog" where
  "oidc_part p = zoom sw_oidc (\<lambda>v w. w\<lparr>sw_oidc := v\<rparr>) p"

definition limits_part :: "(('q, 'b, 't) limits_world, 'a) prog \<Rightarrow> ('u, 'h, 'ip, 'k, 'q, 'b, 't, 'a) server_prog" where
  "limits_part p = zoom sw_limits (\<lambda>l w. w\<lparr>sw_limits := l\<rparr>) p"

lemma run_parts_of:
  "run (dav_part p) w = (case run p (sw_carddav w) of (r, d) \<Rightarrow> (r, w\<lparr>sw_carddav := d\<rparr>))"
  "run (oidc_part q) w = (case run q (sw_oidc w) of (r, v) \<Rightarrow> (r, w\<lparr>sw_oidc := v\<rparr>))"
  "run (limits_part l) w = (case run l (sw_limits w) of (r, m) \<Rightarrow> (r, w\<lparr>sw_limits := m\<rparr>))"
  unfolding dav_part_def oidc_part_def limits_part_def by (rule run_zoom; simp)+

subsection \<open>The parts of a tool\<close>

definition token_prog :: "'d call_ctx \<Rightarrow> ('u, 'h, 'ip, 'k, 'q, 'b, 't, stop + string) server_prog" where
  "token_prog ctx = Ret (ok_or (cx_token ctx) (Fail missing_token_err))"

definition identity_prog :: "'d call_ctx \<Rightarrow> ('u, 'h, 'ip, 'k, 'q, 'b, 't, stop + authenticated_identity) server_prog" where
  "identity_prog ctx = Ret (ok_or (cx_identity ctx) (Fail missing_identity_err))"

definition fallible_prog :: "error_data + 'a \<Rightarrow> ('u, 'h, 'ip, 'k, 'q, 'b, 't, stop + 'a) server_prog" where
  "fallible_prog r = Ret (map_err Fail r)"

definition dav_call_prog ::
  "('u, 'h, 'ip, 'k, 'j, 'q, 'b, 'd) tool_env \<Rightarrow> ('u, 'h, 'a) dav_prog \<Rightarrow> ('u, 'h, 'ip, 'k, 'q, 'b, 't, stop + 'a) server_prog" where
  "dav_call_prog T p =
     bind_prog (dav_part p) (\<lambda>r. Ret (map_err (\<lambda>e. Fail (map_carddav_err (tv_http_text T) e)) r))"

definition rate_limit_prog ::
  "('u, 'h, 'ip, 'k, 'j, 'q, 'b, 'd) tool_env \<Rightarrow> 't \<Rightarrow> 'd call_ctx \<Rightarrow> category
     \<Rightarrow> ('u, 'h, 'ip, 'k, 'q, 'b, 't, stop + unit) server_prog" where
  "rate_limit_prog T t ctx category =
     try_prog (token_prog ctx) (\<lambda>tok.
     try_prog (identity_prog ctx) (\<lambda>identity.
     bind_prog (limits_part (limiter_prog (tv_governor T) t (token_hash (tv_sha T) (tv_hex T) tok)
         (Some (ai_user_id identity)) category)) (\<lambda>r.
       Ret (map_err (\<lambda>_. Fail rate_limit_err) r))))"

definition books_prog ::
  "('u, 'h, 'ip, 'k, 'j, 'q, 'b, 'd) tool_env \<Rightarrow> string \<Rightarrow> string option
     \<Rightarrow> ('u, 'h, 'ip, 'k, 'q, 'b, 't, stop + string list) server_prog" where
  "books_prog T tok href =
     (case href of
        Some h \<Rightarrow> Ret (Ok [h])
      | None \<Rightarrow> try_prog (dav_call_prog T (list_address_books_prog (tv_dav T) (tv_client T) tok)) (\<lambda>books.
          Ret (Ok (map ab_href books))))"

fun search_books_prog ::
  "('u, 'h, 'ip, 'k, 'j, 'q, 'b, 'd) tool_env \<Rightarrow> string \<Rightarrow> string \<Rightarrow> nat \<Rightarrow> string list \<Rightarrow> contact_summary list
     \<Rightarrow> string list \<Rightarrow> ('u, 'h, 'ip, 'k, 'q, 'b, 't, stop + contact_summary list) server_prog" where
  "search_books_prog T tok query limit seen contacts [] = Ret (Ok contacts)"
| "search_books_prog T tok query limit seen contacts (href # hrefs) =
     try_prog (dav_call_prog T (search_contacts_prog (tv_dav T) (tv_client T) tok href query)) (\<lambda>matches.
       let (seen', contacts') = take_matches limit seen contacts matches in
       if length contacts' \<ge> limit then Ret (Ok contacts')
       else search_books_prog T tok query limit seen' contacts' hrefs)"

fun scan_books_prog ::
  "('u, 'h, 'ip, 'k, 'j, 'q, 'b, 'd) tool_env \<Rightarrow> string \<Rightarrow> 'd \<Rightarrow> nat \<Rightarrow> string list \<Rightarrow> birthday_scan
     \<Rightarrow> ('u, 'h, 'ip, 'k, 'q, 'b, 't, stop + birthday_scan) server_prog" where
  "scan_books_prog T tok today days [] acc = Ret (Ok acc)"
| "scan_books_prog T tok today days (href # hrefs) acc =
     try_prog (dav_call_prog T (list_contacts_prog (tv_dav T) (tv_client T) tok href)) (\<lambda>contacts.
     try_prog (Ret (scan_contacts T today days contacts acc)) (scan_books_prog T tok today days hrefs))"

subsection \<open>The bodies of the tools\<close>

definition whoami_prog ::
  "('u, 'h, 'ip, 'k, 'j, 'q, 'b, 'd) tool_env \<Rightarrow> 't \<Rightarrow> 'd call_ctx \<Rightarrow> ('u, 'h, 'ip, 'k, 'q, 'b, 't, stop + tool_result) server_prog" where
  "whoami_prog T t ctx =
     try_prog (rate_limit_prog T t ctx Read) (\<lambda>_.
     try_prog (token_prog ctx) (\<lambda>tok.
     try_prog (identity_prog ctx) (\<lambda>identity.
     try_prog (dav_call_prog T (discover_prog (tv_dav T) (tv_client T) tok)) (\<lambda>discovery.
       Ret (Ok (WhoamiResult
         \<lparr>wh_user_id = ai_user_id identity, wh_email = ai_email identity, wh_name = ai_name identity,
          wh_principal_href = dd_principal_href discovery,
          wh_addressbook_home_href = dd_addressbook_home_href discovery\<rparr>))))))"

definition tool_list_address_books_prog ::
  "('u, 'h, 'ip, 'k, 'j, 'q, 'b, 'd) tool_env \<Rightarrow> 't \<Rightarrow> 'd call_ctx \<Rightarrow> ('u, 'h, 'ip, 'k, 'q, 'b, 't, stop + tool_result) server_prog" where
  "tool_list_address_books_prog T t ctx =
     try_prog (rate_limit_prog T t ctx Read) (\<lambda>_.
     try_prog (token_prog ctx) (\<lambda>tok.
     try_prog (dav_call_prog T (list_address_books_prog (tv_dav T) (tv_client T) tok)) (\<lambda>books.
       Ret (Ok (AddressBooksResult (map book_summary books))))))"

definition tool_list_contacts_prog ::
  "('u, 'h, 'ip, 'k, 'j, 'q, 'b, 'd) tool_env \<Rightarrow> 't \<Rightarrow> 'd call_ctx \<Rightarrow> list_contacts_params
     \<Rightarrow> ('u, 'h, 'ip, 'k, 'q, 'b, 't, stop + tool_result) server_prog" where
  "tool_list_contacts_prog T t ctx params =
     try_prog (rate_limit_prog T t ctx Read) (\<lambda>_.
     try_prog (fallible_prog (validated_limit (lp_limit params))) (\<lambda>limit.
     try_prog (token_prog ctx) (\<lambda>tok.
     try_prog (dav_call_prog T (list_contacts_prog (tv_dav T) (tv_client T) tok (lp_addressbook_href params))) (\<lambda>contacts.
       Ret (Ok (ContactsResult (map contact_summary_of (take limit contacts))))))))"

definition tool_upcoming_birthdays_prog ::
  "('u, 'h, 'ip, 'k, 'j, 'q, 'b, 'd) tool_env \<Rightarrow> 't \<Rightarrow> 'd call_ctx \<Rightarrow> upcoming_birthdays_params
     \<Rightarrow> ('u, 'h, 'ip, 'k, 'q, 'b, 't, stop + tool_result) server_prog" where
  "tool_upcoming_birthdays_prog T t ctx params =
     try_prog (rate_limit_prog T t ctx Read) (\<lambda>_.
       if bp_days params = 0 \<or> bp_days params > MAX_BIRTHDAY_DAYS
       then Ret (Err (Fail (invalid_params (''`days` must be between 1 and '' @ digits_of MAX_BIRTHDAY_DAYS))))
       else
     try_prog (fallible_prog (reference_day T ctx (bp_reference_date params))) (\<lambda>today.
     try_prog (token_prog ctx) (\<lambda>tok.
     try_prog (books_prog T tok (bp_addressbook_href params)) (\<lambda>hrefs.
     try_prog (scan_books_prog T tok today (bp_days params) hrefs
         \<lparr>bn_birthdays = [], bn_scanned = 0, bn_unparseable = 0\<rparr>) (\<lambda>scan.
       Ret (Ok (BirthdaysResult
         \<lparr>br_birthdays = sort_key birthday_order (bn_birthdays scan),
          br_reference_date = tv_format_date T today, br_days = bp_days params,
          br_contacts_scanned = bn_scanned scan, br_unparseable_birthdays = bn_unparseable scan\<rparr>)))))))"

definition tool_search_contacts_prog ::
  "('u, 'h, 'ip, 'k, 'j, 'q, 'b, 'd) tool_env \<Rightarrow> 't \<Rightarrow> 'd call_ctx \<Rightarrow> search_contacts_params
     \<Rightarrow> ('u, 'h, 'ip, 'k, 'q, 'b, 't, stop + tool_result) server_prog" where
  "tool_search_contacts_prog T t ctx params =
     try_prog (rate_limit_prog T t ctx Read) (\<lambda>_.
     try_prog (fallible_prog (validated_limit (sp_limit params))) (\<lambda>limit.
       if trim (sp_query params) = [] then Ret (Err (Fail (invalid_params ''`query` must not be empty'')))
       else
     try_prog (token_prog ctx) (\<lambda>tok.
     try_prog (books_prog T tok (sp_addressbook_href params)) (\<lambda>hrefs.
     try_prog (search_books_prog T tok (sp_query params) limit [] [] hrefs) (\<lambda>contacts.
       Ret (Ok (ContactsResult contacts)))))))"

definition tool_create_contact_prog ::
  "('u, 'h, 'ip, 'k, 'j, 'q, 'b, 'd) tool_env \<Rightarrow> 't \<Rightarrow> 'd call_ctx \<Rightarrow> create_contact_params
     \<Rightarrow> ('u, 'h, 'ip, 'k, 'q, 'b, 't, stop + tool_result) server_prog" where
  "tool_create_contact_prog T t ctx params =
     try_prog (rate_limit_prog T t ctx Write) (\<lambda>_.
     try_prog (fallible_prog (validate_contact_input (cp_contact params))) (\<lambda>_.
     try_prog (token_prog ctx) (\<lambda>tok.
       let uid = (case ci_uid (cp_contact params) of Some u \<Rightarrow> u | None \<Rightarrow> generate_uid (tv_hex T) (cx_random ctx)) in
     try_prog (fallible_prog (validate_uid uid)) (\<lambda>_.
     try_prog (Ret (built (cp_contact params) uid)) (\<lambda>vcard.
     try_prog (dav_call_prog T (create_contact_prog (tv_dav T) (tv_client T) tok (cp_addressbook_href params) uid vcard)) (\<lambda>written.
       Ret (Ok (ContactWriteResult \<lparr>cw_href = wr_href written, cw_etag = wr_etag written, cw_uid = uid\<rparr>))))))))"

definition tool_update_contact_prog ::
  "('u, 'h, 'ip, 'k, 'j, 'q, 'b, 'd) tool_env \<Rightarrow> 't \<Rightarrow> 'd call_ctx \<Rightarrow> update_contact_params
     \<Rightarrow> ('u, 'h, 'ip, 'k, 'q, 'b, 't, stop + tool_result) server_prog" where
  "tool_update_contact_prog T t ctx params =
     try_prog (rate_limit_prog T t ctx Write) (\<lambda>_.
     try_prog (fallible_prog (validate_contact_input (up_contact params))) (\<lambda>_.
     try_prog (token_prog ctx) (\<lambda>tok.
     try_prog (dav_call_prog T (get_contact_prog (tv_dav T) (tv_client T) tok (up_contact_href params))) (\<lambda>existing.
     try_prog (fallible_prog (ok_or (pv_uid (parse_vcard (dc_vcard existing)))
         (invalid_params ''existing vCard has no UID; refusing replacement''))) (\<lambda>existing_uid.
       if (case ci_uid (up_contact params) of Some uid \<Rightarrow> uid \<noteq> existing_uid | None \<Rightarrow> False)
       then Ret (Err (Fail (invalid_params ''contact UID cannot be changed during update'')))
       else
     try_prog (Ret (built (up_contact params) existing_uid)) (\<lambda>vcard.
       let etag = (case up_etag params of Some e \<Rightarrow> Some e | None \<Rightarrow> dc_etag existing) in
     try_prog (dav_call_prog T (update_contact_prog (tv_dav T) (tv_client T) tok (up_contact_href params) etag vcard)) (\<lambda>written.
       Ret (Ok (ContactWriteResult
         \<lparr>cw_href = wr_href written, cw_etag = wr_etag written, cw_uid = existing_uid\<rparr>)))))))))"

definition tool_delete_contact_prog ::
  "('u, 'h, 'ip, 'k, 'j, 'q, 'b, 'd) tool_env \<Rightarrow> 't \<Rightarrow> 'd call_ctx \<Rightarrow> delete_contact_params
     \<Rightarrow> ('u, 'h, 'ip, 'k, 'q, 'b, 't, stop + tool_result) server_prog" where
  "tool_delete_contact_prog T t ctx params =
     try_prog (rate_limit_prog T t ctx Write) (\<lambda>_.
     try_prog (token_prog ctx) (\<lambda>tok.
     try_prog (dav_call_prog T (delete_contact_prog (tv_dav T) (tv_client T) tok (dp_contact_href params) (dp_etag params))) (\<lambda>_.
       Ret (Ok (DeleteContactResult \<lparr>del_href = dp_contact_href params, del_deleted = True\<rparr>)))))"

subsection \<open>The handlers\<close>

definition react_prog ::
  "('u, 'h, 'ip, 'k, 'j, 'q, 'b, 'd) tool_env \<Rightarrow> 'd call_ctx \<Rightarrow> stop + tool_result
     \<Rightarrow> ('u, 'h, 'ip, 'k, 'q, 'b, 't, stop + tool_result) server_prog" where
  "react_prog T ctx result =
     (case result of
        Inl (Fail e) \<Rightarrow>
          if err_code e \<noteq> AUTH_EXPIRED_CODE then Ret result
          else (case cx_token ctx of
              None \<Rightarrow> Ret (Err (Fail expired_err))
            | Some tok \<Rightarrow>
                bind_prog (dav_part (act (\<lambda>d. ((), evict (tv_dav T) tok d)))) (\<lambda>_.
                bind_prog (oidc_part (drop_prog (tv_jwt T) tok)) (\<lambda>_.
                Ret (Err (Fail expired_err)))))
      | _ \<Rightarrow> Ret result)"

text \<open>The audit event: a panic or a loop leaves none.\<close>

definition audit_step ::
  "'t \<Rightarrow> instant \<Rightarrow> (nat option \<Rightarrow> error_data + tool_result \<Rightarrow> tool_event) \<Rightarrow> (tool_result \<Rightarrow> nat option) \<Rightarrow> stop + tool_result
     \<Rightarrow> ('u, 'h, 'ip, 'k, 'q, 'b, 't) server_world \<Rightarrow> (stop + tool_result) \<times> ('u, 'h, 'ip, 'k, 'q, 'b, 't) server_world" where
  "audit_step t started event count r w =
     (let logged = (\<lambda>ev. w\<lparr>sw_log := sw_log w @ [ToolDone t started (lw_now (sw_limits w)) ev]\<rparr>)
      in (r, case r of
             Inr v \<Rightarrow> logged (event (count v) (Ok v))
           | Inl (Fail e) \<Rightarrow> logged (event None (Err e))
           | Inl _ \<Rightarrow> w))"

definition handler ::
  "('u, 'h, 'ip, 'k, 'j, 'q, 'b, 'd) tool_env \<Rightarrow> 't \<Rightarrow> 'd call_ctx \<Rightarrow> string \<Rightarrow> string option \<Rightarrow> (tool_result \<Rightarrow> nat option)
     \<Rightarrow> ('u, 'h, 'ip, 'k, 'q, 'b, 't, stop + tool_result) server_prog
     \<Rightarrow> ('u, 'h, 'ip, 'k, 'q, 'b, 't, stop + tool_result) server_prog" where
  "handler T t ctx tool resource count body =
     bind_prog (act (\<lambda>w. (lw_now (sw_limits w), w))) (\<lambda>started.
     bind_prog body (\<lambda>result.
     bind_prog (react_prog T ctx result) (\<lambda>result.
     act (audit_step t started (emit_tool_audit tool (audit_user ctx) resource) count result))))"

definition whoami_handler where
  "whoami_handler T t ctx = handler T t ctx ''whoami'' None (\<lambda>_. None) (whoami_prog T t ctx)"

definition list_address_books_handler where
  "list_address_books_handler T t ctx =
     handler T t ctx ''list_address_books'' None result_count (tool_list_address_books_prog T t ctx)"

definition list_contacts_handler where
  "list_contacts_handler T t ctx params =
     handler T t ctx ''list_contacts'' (Some (lp_addressbook_href params)) result_count (tool_list_contacts_prog T t ctx params)"

definition upcoming_birthdays_handler where
  "upcoming_birthdays_handler T t ctx params =
     handler T t ctx ''upcoming_birthdays'' (bp_addressbook_href params) result_count (tool_upcoming_birthdays_prog T t ctx params)"

definition search_contacts_handler where
  "search_contacts_handler T t ctx params =
     handler T t ctx ''search_contacts'' (sp_addressbook_href params) result_count (tool_search_contacts_prog T t ctx params)"

definition create_contact_handler where
  "create_contact_handler T t ctx params =
     handler T t ctx ''create_contact'' (Some (cp_addressbook_href params)) (\<lambda>_. None) (tool_create_contact_prog T t ctx params)"

definition update_contact_handler where
  "update_contact_handler T t ctx params =
     handler T t ctx ''update_contact'' (Some (up_contact_href params)) (\<lambda>_. None) (tool_update_contact_prog T t ctx params)"

definition delete_contact_handler where
  "delete_contact_handler T t ctx params =
     handler T t ctx ''delete_contact'' (Some (dp_contact_href params)) (\<lambda>_. None) (tool_delete_contact_prog T t ctx params)"

fun mcp_prog ::
  "('u, 'h, 'ip, 'k, 'j, 'q, 'b, 'd) tool_env \<Rightarrow> 't \<Rightarrow> 'd call_ctx \<Rightarrow> mcp_call
     \<Rightarrow> ('u, 'h, 'ip, 'k, 'q, 'b, 't, stop + tool_result) server_prog" where
  "mcp_prog T t ctx Whoami = whoami_handler T t ctx"
| "mcp_prog T t ctx ListAddressBooks = list_address_books_handler T t ctx"
| "mcp_prog T t ctx (ListContacts p) = list_contacts_handler T t ctx p"
| "mcp_prog T t ctx (UpcomingBirthdays p) = upcoming_birthdays_handler T t ctx p"
| "mcp_prog T t ctx (SearchContacts p) = search_contacts_handler T t ctx p"
| "mcp_prog T t ctx (CreateContact p) = create_contact_handler T t ctx p"
| "mcp_prog T t ctx (UpdateContact p) = update_contact_handler T t ctx p"
| "mcp_prog T t ctx (DeleteContact p) = delete_contact_handler T t ctx p"

subsection \<open>Uninterrupted, they are the tools\<close>

definition service_at :: "('u, 'h, 'ip, 'k, 'q, 'b, 't) server_world \<Rightarrow> ('u, 'h, 'k, 'b) service" where
  "service_at w = \<lparr>sv_carddav = sw_carddav w, sv_logto = ow_client (sw_oidc w), sv_limiter = lw_limiter (sw_limits w)\<rparr>"

text \<open>What a tool leaves alone of the rest.\<close>

definition rest_same :: "('u, 'h, 'ip, 'k, 'q, 'b, 't) server_world \<Rightarrow> ('u, 'h, 'ip, 'k, 'q, 'b, 't) server_world \<Rightarrow> bool" where
  "rest_same w w' \<longleftrightarrow> sw_last_used w' = sw_last_used w \<and> sw_wall w' = sw_wall w
     \<and> sw_proxy w' = sw_proxy w \<and> sw_upstream w' = sw_upstream w
     \<and> lw_now (sw_limits w') = lw_now (sw_limits w) \<and> lw_initialize (sw_limits w') = lw_initialize (sw_limits w)
     \<and> ow_gate (sw_oidc w') = ow_gate (sw_oidc w) \<and> ow_now (sw_oidc w') = ow_now (sw_oidc w)
     \<and> ow_unix (sw_oidc w') = ow_unix (sw_oidc w) \<and> ow_sent (sw_oidc w') = ow_sent (sw_oidc w)"

definition tool_refines ::
  "instant \<Rightarrow> ('u, 'h, 'ip, 'k, 'q, 'b, 't, stop + 'a) server_prog \<Rightarrow> ('u, 'h, 'k, 'b, 'a) tool_task \<Rightarrow> bool" where
  "tool_refines n p m \<longleftrightarrow> (\<forall>w r w'. lw_now (sw_limits w) = n \<longrightarrow> run p w = (r, w') \<longrightarrow>
     m (service_at w) = (r, service_at w') \<and> rest_same w w' \<and> sw_log w' = sw_log w)"

named_theorems tool_refines_intros \<open>programs against the functions of the service\<close>

lemma rest_same_refl [simp]: "rest_same w w"
  by (simp add: rest_same_def)

lemma rest_same_trans: "rest_same w v \<Longrightarrow> rest_same v u \<Longrightarrow> rest_same w u"
  by (simp add: rest_same_def)

lemma tool_refinesD:
  "tool_refines (lw_now (sw_limits w)) p m \<Longrightarrow> run p w = (r, w') \<Longrightarrow>
     m (service_at w) = (r, service_at w') \<and> rest_same w w' \<and> sw_log w' = sw_log w"
  by (simp add: tool_refines_def)

lemma tool_refines_Ret [tool_refines_intros]: "tool_refines n (Ret r) (pure_task r)"
  by (simp add: tool_refines_def)

lemma tool_refines_Ok [tool_refines_intros]: "tool_refines n (Ret (Inr a)) (return_task a)"
  by (simp add: tool_refines_def)

lemma tool_refines_Err [tool_refines_intros]: "tool_refines n (Ret (Inl e)) (fail_task e)"
  by (simp add: tool_refines_def)

lemma tool_refines_try [tool_refines_intros]:
  assumes "tool_refines n p m" "\<And>a. tool_refines n (q a) (f a)"
  shows "tool_refines n (try_prog p q) (bind_task m f)"
  unfolding tool_refines_def
proof (intro allI impI)
  fix w r w' assume n: "lw_now (sw_limits w) = n" and run: "run (try_prog p q) w = (r, w')"
  obtain r1 w1 where p: "run p w = (r1, w1)" by fastforce
  from tool_refinesD [OF assms(1) [folded n] p] have
    1: "m (service_at w) = (r1, service_at w1)" "rest_same w w1" "sw_log w1 = sw_log w" by simp_all
  then have n1: "lw_now (sw_limits w1) = n" using n by (simp add: rest_same_def)
  show "bind_task m f (service_at w) = (r, service_at w') \<and> rest_same w w' \<and> sw_log w' = sw_log w"
  proof (cases r1)
    case (Inl e)
    with run p 1 show ?thesis by (simp add: run_try)
  next
    case (Inr a)
    with run p have "run (q a) w1 = (r, w')" by (simp add: run_try)
    from tool_refinesD [OF assms(2) [folded n1] this] 1 Inr show ?thesis by (auto intro: rest_same_trans)
  qed
qed

lemma tool_refines_if [tool_refines_intros]:
  "tool_refines n p m \<Longrightarrow> tool_refines n q l \<Longrightarrow> tool_refines n (if b then p else q) (if b then m else l)"
  by simp

lemma tool_refines_let [tool_refines_intros]:
  "(\<And>x. tool_refines n (p x) (m x)) \<Longrightarrow> tool_refines n (let x = v in p x) (let x = v in m x)"
  by simp

lemma tool_refines_token [tool_refines_intros]: "tool_refines n (token_prog ctx) (need_token (ctx\<lparr>cx_now := n\<rparr>))"
  by (simp add: token_prog_def need_token_def tool_refines_Ret)

lemma tool_refines_identity [tool_refines_intros]:
  "tool_refines n (identity_prog ctx) (pure_task (ok_or (cx_identity (ctx\<lparr>cx_now := n\<rparr>)) (Fail missing_identity_err)))"
  by (simp add: identity_prog_def tool_refines_Ret)

lemma tool_refines_fallible [tool_refines_intros]: "tool_refines n (fallible_prog r) (fallible r)"
  by (simp add: fallible_prog_def fallible_def tool_refines_Ret)

lemma tool_refines_dav [tool_refines_intros]: "run p = m \<Longrightarrow> tool_refines n (dav_call_prog T p) (dav_call T m)"
  by (auto simp: tool_refines_def dav_call_prog_def dav_call_def run_bind run_parts_of service_at_def rest_same_def split: prod.splits)

lemma tool_refines_limit [tool_refines_intros]:
  "tool_refines n (rate_limit_prog T t ctx c) (rate_limit_check T (ctx\<lparr>cx_now := n\<rparr>) c)"
  unfolding rate_limit_prog_def rate_limit_check_def
proof (intro tool_refines_try tool_refines_token tool_refines_identity)
  fix tok identity
  let ?h = "token_hash (tv_sha T) (tv_hex T) tok" and ?u = "Some (ai_user_id identity)"
  show "tool_refines n (bind_prog (limits_part (limiter_prog (tv_governor T) t ?h ?u c)) (\<lambda>r. Ret (map_err (\<lambda>_. Fail rate_limit_err) r)))
    (\<lambda>s. let (r, l) = limiter_check (tv_governor T) (cx_now (ctx\<lparr>cx_now := n\<rparr>)) ?h ?u c (sv_limiter s)
          in (map_err (\<lambda>_. Fail rate_limit_err) r, s\<lparr>sv_limiter := l\<rparr>))"
    unfolding tool_refines_def
  proof (intro allI impI)
    fix w r w' assume n: "lw_now (sw_limits w) = n"
      and run: "run (bind_prog (limits_part (limiter_prog (tv_governor T) t ?h ?u c)) (\<lambda>r. Ret (map_err (\<lambda>_. Fail rate_limit_err) r))) w = (r, w')"
    obtain r1 l where l: "run (limiter_prog (tv_governor T) t ?h ?u c) (sw_limits w) = (r1, l)" by fastforce
    from run_limiter_prog [OF l] l run n
    show "(let (r, l) = limiter_check (tv_governor T) (cx_now (ctx\<lparr>cx_now := n\<rparr>)) ?h ?u c (sv_limiter (service_at w))
          in (map_err (\<lambda>_. Fail rate_limit_err) r, (service_at w)\<lparr>sv_limiter := l\<rparr>)) = (r, service_at w')
      \<and> rest_same w w' \<and> sw_log w' = sw_log w"
      by (auto simp: run_bind run_parts_of service_at_def rest_same_def)
  qed
qed

lemma tool_refines_books [tool_refines_intros]: "tool_refines n (books_prog T tok href) (books_to_scan T tok href)"
  unfolding books_prog_def books_to_scan_def
  by (cases href) (auto intro!: tool_refines_intros run_dav_progs)

lemma tool_refines_search [tool_refines_intros]:
  "tool_refines n (search_books_prog T tok query limit seen contacts hrefs) (search_books T tok query limit seen contacts hrefs)"
proof (induction hrefs arbitrary: seen contacts)
  case (Cons href hrefs)
  show ?case
    unfolding search_books_prog.simps search_books.simps Let_def split_beta
    by (intro tool_refines_intros run_dav_progs Cons.IH)
qed (simp add: tool_refines_intros)

lemma tool_refines_scan [tool_refines_intros]:
  "tool_refines n (scan_books_prog T tok today days hrefs acc) (scan_books T tok today days hrefs acc)"
proof (induction hrefs arbitrary: acc)
  case (Cons href hrefs)
  show ?case
    unfolding scan_books_prog.simps scan_books.simps
    by (intro tool_refines_intros run_dav_progs Cons.IH)
qed (simp add: tool_refines_intros)

lemma reference_day_now [simp]: "reference_day T (ctx\<lparr>cx_now := n\<rparr>) raw = reference_day T ctx raw"
  by (simp add: reference_day_def split: option.splits)

fun body_prog ::
  "('u, 'h, 'ip, 'k, 'j, 'q, 'b, 'd) tool_env \<Rightarrow> 't \<Rightarrow> 'd call_ctx \<Rightarrow> mcp_call
     \<Rightarrow> ('u, 'h, 'ip, 'k, 'q, 'b, 't, stop + tool_result) server_prog" where
  "body_prog T t ctx Whoami = whoami_prog T t ctx"
| "body_prog T t ctx ListAddressBooks = tool_list_address_books_prog T t ctx"
| "body_prog T t ctx (ListContacts p) = tool_list_contacts_prog T t ctx p"
| "body_prog T t ctx (UpcomingBirthdays p) = tool_upcoming_birthdays_prog T t ctx p"
| "body_prog T t ctx (SearchContacts p) = tool_search_contacts_prog T t ctx p"
| "body_prog T t ctx (CreateContact p) = tool_create_contact_prog T t ctx p"
| "body_prog T t ctx (UpdateContact p) = tool_update_contact_prog T t ctx p"
| "body_prog T t ctx (DeleteContact p) = tool_delete_contact_prog T t ctx p"

lemma tool_refines_body: "tool_refines n (body_prog T t ctx call) (tool_body T (ctx\<lparr>cx_now := n\<rparr>) call)"
proof -
  have random: "cx_random (ctx\<lparr>cx_now := n\<rparr>) = cx_random ctx" by simp
  show ?thesis
    by (cases call; simp only: body_prog.simps tool_body.simps whoami_prog_def whoami_def
        tool_list_address_books_prog_def tool_list_address_books_def tool_list_contacts_prog_def tool_list_contacts_def
        tool_upcoming_birthdays_prog_def tool_upcoming_birthdays_def tool_search_contacts_prog_def tool_search_contacts_def
        tool_create_contact_prog_def tool_create_contact_def tool_update_contact_prog_def tool_update_contact_def
        tool_delete_contact_prog_def tool_delete_contact_def reference_day_now random;
        intro tool_refines_intros run_dav_progs)
qed

text \<open>The handlers, by what they have in common.\<close>

lemma result_count_None:
  "run (body_prog T t ctx call) w = (Inr v, w') \<Longrightarrow>
     call = Whoami \<or> (\<exists>p. call = CreateContact p) \<or> (\<exists>p. call = UpdateContact p) \<or> (\<exists>p. call = DeleteContact p) \<Longrightarrow>
     result_count v = None"
  by (auto simp: whoami_prog_def tool_create_contact_prog_def tool_update_contact_prog_def tool_delete_contact_prog_def
      run_try Let_def split: prod.splits sum.splits if_splits)

text \<open>The count of the audit event, which four of the tools leave out.\<close>

definition count_of :: "mcp_call \<Rightarrow> tool_result \<Rightarrow> nat option" where
  "count_of call = (case call of ListAddressBooks \<Rightarrow> result_count | ListContacts _ \<Rightarrow> result_count
     | UpcomingBirthdays _ \<Rightarrow> result_count | SearchContacts _ \<Rightarrow> result_count | _ \<Rightarrow> (\<lambda>_. None))"

lemma mcp_prog_handler:
  "mcp_prog T t ctx call = handler T t ctx (tool_name call) (tool_resource call) (count_of call) (body_prog T t ctx call)"
  by (cases call) (simp_all add: count_of_def whoami_handler_def list_address_books_handler_def list_contacts_handler_def
      upcoming_birthdays_handler_def search_contacts_handler_def create_contact_handler_def update_contact_handler_def
      delete_contact_handler_def)

lemma count_of_body: "run (body_prog T t ctx call) w = (Inr v, w') \<Longrightarrow> count_of call v = result_count v"
  using result_count_None [of T t ctx call w v w'] by (cases call) (auto simp: count_of_def)

lemma run_drop_prog:
  "run (drop_prog J tok) w = (Ok None, ow_log (Removed (jw_sha J tok)) (ow_set_cache (hm_remove (jw_sha J tok) (ow_cache w)) w))"
  by (simp add: drop_prog_def)

lemma run_react_prog:
  assumes "run (react_prog T ctx r) w = (r', w')"
  shows "react_to_auth_expiry T (ctx\<lparr>cx_now := n\<rparr>) r (service_at w) = (r', service_at w') \<and> rest_same w w' \<and> sw_log w' = sw_log w"
proof (cases "\<exists>e tok. r = Inl (Fail e) \<and> err_code e = AUTH_EXPIRED_CODE \<and> cx_token ctx = Some tok")
  case True
  with assms show ?thesis
    by (auto simp: react_prog_def react_to_auth_expiry_def run_bind run_parts_of run_drop_prog service_at_def drop_token_def rest_same_def)
next
  case False
  with assms show ?thesis
    by (auto simp: react_prog_def react_to_auth_expiry_def split: sum.splits stop.splits option.splits if_splits)
qed

text \<open>A handler that is not interrupted is \<open>call_tool\<close>, and logs what that returns as its event.\<close>

lemma run_mcp_prog:
  assumes "run (mcp_prog T t ctx call) w = (r, w')"
  shows "\<exists>ev. call_tool T (ctx\<lparr>cx_now := lw_now (sw_limits w)\<rparr>) call (service_at w) = (r, ev, service_at w') \<and> rest_same w w'
    \<and> sw_log w' = sw_log w @ (case ev of None \<Rightarrow> [] | Some e \<Rightarrow> [ToolDone t (lw_now (sw_limits w)) (lw_now (sw_limits w)) e])"
proof -
  let ?n = "lw_now (sw_limits w)" and ?ctx = "ctx\<lparr>cx_now := lw_now (sw_limits w)\<rparr>"
  let ?event = "emit_tool_audit (tool_name call) (audit_user ctx) (tool_resource call)"
  obtain r1 w1 where b: "run (body_prog T t ctx call) w = (r1, w1)" by fastforce
  obtain r2 w2 where re: "run (react_prog T ctx r1) w1 = (r2, w2)" by fastforce
  from assms b re have a: "audit_step t ?n ?event (count_of call) r2 w2 = (r, w')"
    by (simp add: mcp_prog_handler handler_def run_bind)
  from tool_refinesD [OF tool_refines_body b] have
    1: "tool_body T ?ctx call (service_at w) = (r1, service_at w1)" "rest_same w w1" "sw_log w1 = sw_log w" by simp_all
  from run_react_prog [OF re, of ?n] have
    2: "react_to_auth_expiry T ?ctx r1 (service_at w1) = (r2, service_at w2)" "rest_same w1 w2" "sw_log w2 = sw_log w1" by simp_all
  from 1 2 have same: "rest_same w w2" by (blast intro: rest_same_trans)
  have user: "audit_user ?ctx = audit_user ctx" by (simp add: audit_user_def)
  have count: "count_of call v = result_count v" if "r2 = Inr v" for v
  proof -
    have "r1 = Inr v" using re that by (auto simp: react_prog_def run_bind run_parts_of split: sum.splits stop.splits option.splits if_splits prod.splits)
    with b show ?thesis by (simp add: count_of_body)
  qed
  have now: "lw_now (sw_limits w2) = ?n" using same by (simp add: rest_same_def)
  show ?thesis
  proof (cases "\<exists>x. r2 = Inl x \<and> (\<forall>e. x \<noteq> Fail e)")
    case True
    then have "r = r2" "w' = w2" using a by (auto simp: audit_step_def Let_def split: stop.splits)
    with True 1 2 same show ?thesis by (auto simp: call_tool_def split: stop.splits)
  next
    case False
    then obtain ev where ev: "(case r2 of Inr v \<Rightarrow> Some (?event (result_count v) (Ok v))
        | Inl (Fail e) \<Rightarrow> Some (?event None (Err e)) | Inl _ \<Rightarrow> None) = Some ev" by (cases r2) (auto split: stop.splits)
    then have "r = r2" "w' = w2\<lparr>sw_log := sw_log w2 @ [ToolDone t ?n ?n ev]\<rparr>"
      using a count now by (auto simp: audit_step_def Let_def split: stop.splits sum.splits)
    with ev 1 2 same user show ?thesis
      by (intro exI [of _ "Some ev"]) (simp add: call_tool_def rest_same_def service_at_def)
  qed
qed

end
