(* ===== verification/Server_Main.thy ===== *)
theory Server_Main
  imports Bearer_Auth Mcp_Trace
begin

text \<open>
  The server, \<open>src/src/main.rs\<close>: \<open>build_app\<close> and \<open>build_router\<close>, the session-creation limiter, and the
  routes behind the authentication, \<open>/mcp\<close> and \<open>/token/introspect\<close>.

  \<^item> \<open>app_state\<close> is all the mutable state those routes share. The token validation client is one for
    the middleware and the tools, as its clones share their \<open>Arc\<close>s.
  \<^item> \<open>serve\<close> takes one request through the layers in the order they run, the outermost first: the body
    limit, \<open>bearer_auth\<close>, \<open>initialize_rate_limit\<close>, the route. Here requests are served one after the other;
    \<open>Server_Tasks\<close> interleaves them.
  \<^item> The body limit (\<open>tower_http\<close>) and the MCP transport (\<open>rmcp\<close>) are arguments: \<open>ap_body_limit\<close> is the
    layer's refusal of a request, if any, and \<open>ap_rmcp\<close> the tool call the transport reads from
    a request, if it is one; the transport puts the parts of that request, extensions included, in
    the tool's context. How sessions come and go is \<open>Session_Cap\<close>.
  \<^item> The public routes and the whole router are theory \<open>Server_Router\<close>. The process itself (binding,
    tracing, signals) is theory \<open>Process\<close>.
\<close>

definition MAX_MCP_REQUEST_BYTES :: nat where "MAX_MCP_REQUEST_BYTES = 1024 * 1024"

record ('u, 'h, 'ip, 'k, 'j, 'q, 'b, 'd) app_env =
  ap_auth :: "('h, 'k, 'j, 'ip) auth_env"
  ap_dav :: "('u, 'h, 'ip) dav_env"
  ap_governor :: "('q, 'b) governor"
  ap_calendar :: "'d calendar"
  ap_parse_date :: "string \<Rightarrow> 'd option"
  ap_format_date :: "'d \<Rightarrow> string"
  ap_http_text :: string
  ap_body_limit :: "nat \<Rightarrow> http_request \<Rightarrow> http_response option"
  ap_rmcp :: "http_request \<Rightarrow> mcp_call option"

record ('u, 'h, 'ip, 'k, 'q, 'b) app_state =
  as_logto :: "('h, 'k) logto_client"
  as_last_used :: "'ip last_used_map"
  as_carddav :: "('u, 'h) dav_state"
  as_limiter :: "'b limiter"
  as_initialize :: "('q, 'b) init_limiter"

text \<open>What one request reads from outside the state, the CardDAV server apart.\<close>

record ('j, 'd) app_io =
  ai_auth :: "'j auth_io"
  ai_initialize_at :: instant
  ai_tool_at :: instant
  ai_today :: 'd
  ai_random :: "char list"

subsection \<open>Startup\<close>

definition build_app ::
  "('u, 'h, 'ip, 'k, 'j, 'q, 'b, 'd) app_env \<Rightarrow> 'a config
     \<Rightarrow> anyhow + (('u, 'ip) dav_client \<times> ('u, 'h, 'ip, 'k, 'q, 'b) app_state)" where
  "build_app E cfg =
     and_then (ok_or (logto_new (cf_authorization_server cfg) (accepted_token_audiences cfg))
       ''at least one expected JWT audience is required'') (\<lambda>logto.
     and_then (dav_client_new (ap_dav E) (cf_stalwart_dav_base_url cfg) (cf_stalwart_connect_ip cfg)
       (cf_dav_max_response_bytes cfg)) (\<lambda>carddav.
     and_then (ok_or (limiter_new (cf_rate_limit_reads_per_min cfg) (cf_rate_limit_writes_per_min cfg))
       ''rate-limit quotas must be > 0'') (\<lambda>limiter.
       Ok (carddav,
         \<lparr>as_logto = logto, as_last_used = [], as_carddav = dav_start, as_limiter = limiter,
          as_initialize = init_limiter_new (ap_governor E) INITIALIZE_REPLENISH MAX_INITIALIZES_PER_IDENTITY\<rparr>))))"

text \<open>\<open>url.split("://").nth(1)\<close>, then up to the first of three delimiters.\<close>

fun split_first :: "string \<Rightarrow> string \<Rightarrow> (string \<times> string) option" where
  "split_first p [] = (if p = [] then Some ([], []) else None)"
| "split_first p (c # s) =
     (if starts_with p (c # s) then Some ([], drop (length p) (c # s))
      else map_option (\<lambda>(a, b). (c # a, b)) (split_first p s))"

definition parse_host :: "string \<Rightarrow> string option" where
  "parse_host url =
     (case split_first ''://'' url of
        None \<Rightarrow> None
      | Some (_, rest) \<Rightarrow>
          let after_scheme = (case split_first ''://'' rest of Some (a, _) \<Rightarrow> a | None \<Rightarrow> rest);
              authority = takeWhile (\<lambda>c. c \<notin> set ''/?#'') after_scheme
          in if authority = [] then None else Some authority)"

definition allowed_hosts :: "'a config \<Rightarrow> string list" where
  "allowed_hosts cfg =
     [''localhost'', ''127.0.0.1'', ''::1''] @
     (case parse_host (cf_resource_url cfg) of Some host \<Rightarrow> [host] | None \<Rightarrow> [])"

subsection \<open>The session-creation limiter\<close>

definition is_fresh_mcp_session_request :: "http_request \<Rightarrow> bool" where
  "is_fresh_mcp_session_request req \<longleftrightarrow> hq_method req = ''POST'' \<and> \<not> hq_has_header req ''mcp-session-id''"

text \<open>The third component is the label under which a refusal is counted.\<close>

definition initialize_rate_limit ::
  "('q, 'b) governor \<Rightarrow> (string \<Rightarrow> string) \<Rightarrow> instant \<Rightarrow> http_request \<Rightarrow> ('q, 'b) init_limiter
     \<Rightarrow> (http_response + http_request) \<times> ('q, 'b) init_limiter \<times> string option" where
  "initialize_rate_limit G hash now req limiter =
     (if \<not> is_fresh_mcp_session_request req then (Inr req, limiter, None)
      else case hq_token req of
          None \<Rightarrow> (Inl (plain_response 500 (''authenticated request missing token extension'' @ [LF])), limiter, None)
        | Some token \<Rightarrow>
            (case hq_identity req of
               None \<Rightarrow> (Inl (plain_response 500 (''authenticated request missing identity extension'' @ [LF])), limiter, None)
             | Some identity \<Rightarrow>
                 let (r, limiter') = init_check G now (hash token) (Some (ai_user_id identity)) limiter in
                 case r of
                   Inl bucket \<Rightarrow>
                     (Inl (plain_response 429 (''too many MCP initialize requests; try again later'' @ [LF])), limiter',
                      Some (rejected_as_str bucket))
                 | Inr _ \<Rightarrow> (Inr req, limiter', None)))"

subsection \<open>One request\<close>

datatype 'ip served =
    Answered http_response
  | Introspected "'ip token_introspect_response"
  | Called "stop + tool_result"
  | Transported

text \<open>What serving a request logs and counts.\<close>

record app_log =
  lg_validations :: "introspect_event list"
  lg_refusal :: "string option"
  lg_tool :: "tool_event option"

definition tools_of ::
  "('u, 'h, 'ip, 'k, 'j, 'q, 'b, 'd) app_env \<Rightarrow> ('u, 'ip) dav_client
     \<Rightarrow> ('u, 'h, 'ip, 'k, 'j, 'q, 'b, 'd) tool_env" where
  "tools_of E client =
     \<lparr>tv_dav = ap_dav E, tv_client = client, tv_jwt = ae_jwt (ap_auth E), tv_governor = ap_governor E,
      tv_sha = ae_sha (ap_auth E), tv_hex = ae_hex (ap_auth E), tv_calendar = ap_calendar E,
      tv_parse_date = ap_parse_date E, tv_format_date = ap_format_date E, tv_http_text = ap_http_text E\<rparr>"

text \<open>\<open>identity_from_ctx\<close> and \<open>token_from_ctx\<close> read the extensions of the request's parts.\<close>

definition ctx_of :: "('j, 'd) app_io \<Rightarrow> http_request \<Rightarrow> 'd call_ctx" where
  "ctx_of io req =
     \<lparr>cx_identity = hq_identity req, cx_token = hq_token req, cx_now = ai_tool_at io, cx_today = ai_today io,
      cx_random = ai_random io\<rparr>"

definition service_of :: "('u, 'h, 'ip, 'k, 'q, 'b) app_state \<Rightarrow> ('u, 'h, 'k, 'b) service" where
  "service_of st = \<lparr>sv_carddav = as_carddav st, sv_logto = as_logto st, sv_limiter = as_limiter st\<rparr>"

definition auth_of :: "('u, 'h, 'ip, 'k, 'q, 'b) app_state \<Rightarrow> ('h, 'k, 'ip) auth_state" where
  "auth_of st = \<lparr>au_logto = as_logto st, au_last_used = as_last_used st\<rparr>"

text \<open>
  The route of an admitted request. \<open>nest_service("/mcp")\<close> takes the path itself and everything below
  it; what no route takes is answered with 404.
\<close>

definition under_mcp :: "string \<Rightarrow> bool" where
  "under_mcp path \<longleftrightarrow> path = ''/mcp'' \<or> starts_with ''/mcp/'' path"

definition route ::
  "('u, 'h, 'ip, 'k, 'j, 'q, 'b, 'd) app_env \<Rightarrow> ('u, 'ip) dav_client \<Rightarrow> ('j, 'd) app_io \<Rightarrow> http_request
     \<Rightarrow> ('u, 'h, 'ip, 'k, 'q, 'b) app_state
     \<Rightarrow> 'ip served \<times> tool_event option \<times> ('u, 'h, 'ip, 'k, 'q, 'b) app_state" where
  "route E client io req st =
     (if hq_path req = ''/token/introspect'' then
        (if hq_method req \<notin> set [''GET'', ''HEAD''] then (Answered (method_not_allowed ''GET,HEAD''), None, st)
         else case introspect_handler (ap_auth E) (auth_of st) req of
             Inl resp \<Rightarrow> (Answered resp, None, st) | Inr r \<Rightarrow> (Introspected r, None, st))
      else if \<not> under_mcp (hq_path req) then (Answered (empty_response 404), None, st)
      else case ap_rmcp E req of
          None \<Rightarrow> (Transported, None, st)
        | Some call \<Rightarrow>
            let (r, ev, s) = call_tool (tools_of E client) (ctx_of io req) call (service_of st) in
            (Called r, ev,
             st\<lparr>as_carddav := sv_carddav s, as_logto := sv_logto s, as_limiter := sv_limiter s\<rparr>))"

definition serve ::
  "('u, 'h, 'ip, 'k, 'j, 'q, 'b, 'd) app_env \<Rightarrow> 'a config \<Rightarrow> ('u, 'ip) dav_client \<Rightarrow> ('j, 'd) app_io
     \<Rightarrow> http_request \<Rightarrow> ('u, 'h, 'ip, 'k, 'q, 'b) app_state
     \<Rightarrow> 'ip served \<times> app_log \<times> ('u, 'h, 'ip, 'k, 'q, 'b) app_state" where
  "serve E cfg client io req st =
     (case ap_body_limit E MAX_MCP_REQUEST_BYTES req of
        Some resp \<Rightarrow> (Answered resp, \<lparr>lg_validations = [], lg_refusal = None, lg_tool = None\<rparr>, st)
      | None \<Rightarrow>
          let (r, au, validations) = bearer_auth (ap_auth E) cfg (ai_auth io) req (auth_of st);
              st1 = st\<lparr>as_logto := au_logto au, as_last_used := au_last_used au\<rparr> in
          case r of
            Inl resp \<Rightarrow> (Answered resp, \<lparr>lg_validations = validations, lg_refusal = None, lg_tool = None\<rparr>, st1)
          | Inr req1 \<Rightarrow>
              let (r2, limiter, refusal) = initialize_rate_limit (ap_governor E) (hash_of (ap_auth E)) (ai_initialize_at io)
                    req1 (as_initialize st1);
                  st2 = st1\<lparr>as_initialize := limiter\<rparr> in
              case r2 of
                Inl resp \<Rightarrow> (Answered resp, \<lparr>lg_validations = validations, lg_refusal = refusal, lg_tool = None\<rparr>, st2)
              | Inr req2 \<Rightarrow>
                  let (out, ev, st3) = route E client io req2 st2 in
                  (out, \<lparr>lg_validations = validations, lg_refusal = refusal, lg_tool = ev\<rparr>, st3))"

subsection \<open>The history of the validation client\<close>

definition expired_call :: "'ip served \<Rightarrow> bool" where
  "expired_call out = (case out of Called r \<Rightarrow> expired r | _ \<Rightarrow> False)"

text \<open>What serving a request adds to the history: the validation of its bearer, and its removal.\<close>

definition serve_events ::
  "('u, 'h, 'ip, 'k, 'j, 'q, 'b, 'd) app_env \<Rightarrow> ('j, 'd) app_io \<Rightarrow> http_request \<Rightarrow> ('u, 'h, 'ip, 'k, 'q, 'b) app_state
     \<Rightarrow> 'ip served \<Rightarrow> 'h oidc_event list" where
  "serve_events E io req st out =
     (case (ap_body_limit E MAX_MCP_REQUEST_BYTES req, extract_bearer (hq_header req ''authorization'')) of
        (None, Some token) \<Rightarrow>
          let J = ae_jwt (ap_auth E); ck = io_clocks (ai_auth io);
              r = fst (validate_token J ck (io_jwks_reply (ai_auth io)) token (as_logto st))
          in (if expired_call out then [Dropped (jw_sha J token)] else []) @ [validate_event J ck token (as_logto st) r]
      | _ \<Rightarrow> [])"

definition serve_keys ::
  "('u, 'h, 'ip, 'k, 'j, 'q, 'b, 'd) app_env \<Rightarrow> ('j, 'd) app_io \<Rightarrow> http_request \<Rightarrow> 'j list" where
  "serve_keys E io req =
     (case (ap_body_limit E MAX_MCP_REQUEST_BYTES req, extract_bearer (hq_header req ''authorization'')) of
        (None, Some token) \<Rightarrow> reply_keys (io_jwks_reply (ai_auth io)) | _ \<Rightarrow> [])"

text \<open>The states the server reaches, with the history of its validation client and the keys it was served.\<close>

inductive app_reach ::
  "('u, 'h, 'ip, 'k, 'j, 'q, 'b, 'd) app_env \<Rightarrow> 'a config \<Rightarrow> ('u, 'ip) dav_client
     \<Rightarrow> ('u, 'h, 'ip, 'k, 'q, 'b) app_state \<Rightarrow> 'h oidc_event list \<Rightarrow> 'j list
     \<Rightarrow> ('u, 'h, 'ip, 'k, 'q, 'b) app_state \<Rightarrow> bool"
  for E cfg client st0 where
  app_start: "app_reach E cfg client st0 [] [] st0"
| app_serve: "app_reach E cfg client st0 h served st \<Longrightarrow> serve E cfg client io req st = (out, log, st') \<Longrightarrow>
    app_reach E cfg client st0 (serve_events E io req st out @ h) (serve_keys E io req @ served) st'"

text \<open>A served request by its outcome: turned away before the route, or routed with its own bearer.\<close>

lemma serve_cases [consumes 1, case_names too_large turned_away refused routed]:
  assumes "serve E cfg client io req st = (out, log, st')"
  obtains resp where "ap_body_limit E MAX_MCP_REQUEST_BYTES req = Some resp" "out = Answered resp" "st' = st"
      "log = \<lparr>lg_validations = [], lg_refusal = None, lg_tool = None\<rparr>"
  | resp au evs where "ap_body_limit E MAX_MCP_REQUEST_BYTES req = None"
      "bearer_auth (ap_auth E) cfg (ai_auth io) req (auth_of st) = (Inl resp, au, evs)"
      "out = Answered resp" "as_carddav st' = as_carddav st" "as_logto st' = au_logto au"
      "log = \<lparr>lg_validations = evs, lg_refusal = None, lg_tool = None\<rparr>"
  | req1 resp au evs l refusal where "ap_body_limit E MAX_MCP_REQUEST_BYTES req = None"
      "bearer_auth (ap_auth E) cfg (ai_auth io) req (auth_of st) = (Inr req1, au, evs)"
      "out = Answered resp" "as_carddav st' = as_carddav st" "as_logto st' = au_logto au"
      "initialize_rate_limit (ap_governor E) (hash_of (ap_auth E)) (ai_initialize_at io) req1 (as_initialize st) = (Inl resp, l, refusal)"
      "log = \<lparr>lg_validations = evs, lg_refusal = refusal, lg_tool = None\<rparr>"
  | req1 au evs st2 ev where "ap_body_limit E MAX_MCP_REQUEST_BYTES req = None"
      "bearer_auth (ap_auth E) cfg (ai_auth io) req (auth_of st) = (Inr req1, au, evs)"
      "as_carddav st2 = as_carddav st" "as_logto st2 = au_logto au" "as_limiter st2 = as_limiter st"
      "route E client io req1 st2 = (out, ev, st')" "log = \<lparr>lg_validations = evs, lg_refusal = None, lg_tool = ev\<rparr>"
proof (cases "ap_body_limit E MAX_MCP_REQUEST_BYTES req")
  case (Some resp)
  with assms show thesis by (intro that(1)) (auto simp: serve_def)
next
  case None
  obtain r au evs where b: "bearer_auth (ap_auth E) cfg (ai_auth io) req (auth_of st) = (r, au, evs)"
    by (metis prod_cases3)
  show thesis
  proof (cases r)
    case (Inl resp)
    with assms b None show thesis by (intro that(2)) (auto simp: serve_def)
  next
    case (Inr req1)
    obtain r2 l refusal where i: "initialize_rate_limit (ap_governor E) (hash_of (ap_auth E)) (ai_initialize_at io) req1
        (as_initialize st) = (r2, l, refusal)" by (metis prod_cases3)
    show thesis
    proof (cases r2)
      case (Inl resp)
      with assms b None Inr i show thesis by (intro that(3)) (auto simp: serve_def)
    next
      case (Inr req2)
      with i have q: "req2 = req1" "refusal = None"
        by (auto simp: initialize_rate_limit_def Let_def split: if_splits option.splits prod.splits sum.splits)
      let ?st2 = "st\<lparr>as_logto := au_logto au, as_last_used := au_last_used au, as_initialize := l\<rparr>"
      obtain out' ev st3 where "route E client io req1 ?st2 = (out', ev, st3)" by (metis prod_cases3)
      with assms b None Inr i q \<open>r = Inr req1\<close> show thesis
        by (intro that(4) [where ?st2.0 = ?st2]) (auto simp: serve_def)
    qed
  qed
qed

lemma route_cases [consumes 1, case_names no_tool tool]:
  assumes "route E client io req st = (out, ev, st')"
  obtains "ev = None" "as_carddav st' = as_carddav st" "as_logto st' = as_logto st" "\<not> expired_call out"
  | call r s where
      "call_tool (tools_of E client) (ctx_of io req) call (service_of st) = (r, ev, s)" "out = Called r"
      "as_carddav st' = sv_carddav s" "as_logto st' = sv_logto s" "as_limiter st' = sv_limiter s"
      "under_mcp (hq_path req)"
proof (cases "hq_path req = ''/token/introspect'' \<or> \<not> under_mcp (hq_path req) \<or> ap_rmcp E req = None")
  case True
  with assms have "ev = None" "as_carddav st' = as_carddav st" "as_logto st' = as_logto st" "\<not> expired_call out"
    by (auto simp: route_def expired_call_def split: if_splits sum.splits)
  then show thesis by (rule that(1))
next
  case False
  then obtain call where c: "ap_rmcp E req = Some call" by auto
  obtain r ev' s where t: "call_tool (tools_of E client) (ctx_of io req) call (service_of st) = (r, ev', s)"
    by (metis prod_cases3)
  with assms c False have f: "ev' = ev" "out = Called r" "as_carddav st' = sv_carddav s" "as_logto st' = sv_logto s"
    "as_limiter st' = sv_limiter s" by (auto simp: route_def)
  from False have u: "under_mcp (hq_path req)" by simp
  show thesis by (rule that(2) [OF t [unfolded f(1)] f(2-5) u])
qed

lemma call_tool_logto:
  assumes "tool_env_ok T" "cx_token ctx = Some token" "call_tool T ctx call s = (r, ev, s')"
  shows "sv_logto s' = (if expired r then drop_token (tv_jwt T) token (sv_logto s) else sv_logto s)"
proof -
  from assms(3) obtain r1 s1 where b: "tool_body T ctx call s = (r1, s1)"
    "react_to_auth_expiry T ctx r1 s1 = (r, s')" by (rule call_tool_parts)
  from tool_ok_body [OF assms(1,2), of call] b(1) have "sv_logto s1 = sv_logto s" by (auto simp: tool_ok_def)
  with react_limiter(2,3) [OF b(2)] assms(2) show ?thesis by (cases "expired r1") auto
qed

lemma bearer_auth_validates:
  assumes "bearer_auth A cfg io req st = (r, au, evs)" "extract_bearer (hq_header req ''authorization'') = Some token"
  shows "\<exists>v sent. validate_token (ae_jwt A) (io_clocks io) (io_jwks_reply io) token (au_logto st) = (v, au_logto au, sent)"
  using assms by (auto simp: bearer_auth_def Let_def split: prod.splits sum.splits option.splits if_splits)

lemma bearer_auth_no_bearer:
  assumes "bearer_auth A cfg io req st = (r, au, evs)" "extract_bearer (hq_header req ''authorization'') = None"
  shows "au_logto au = au_logto st"
  using assms by (auto simp: bearer_auth_def)

lemma auth_of_fields [simp]: "au_logto (auth_of st) = as_logto st"
  by (simp add: auth_of_def)

lemma service_of_fields [simp]:
  "sv_carddav (service_of st) = as_carddav st" "sv_logto (service_of st) = as_logto st"
  "sv_limiter (service_of st) = as_limiter st"
  by (simp_all add: service_of_def)

lemma tools_of_fields [simp]:
  "tv_dav (tools_of E client) = ap_dav E" "tv_client (tools_of E client) = client"
  "tv_jwt (tools_of E client) = ae_jwt (ap_auth E)" "tv_governor (tools_of E client) = ap_governor E"
  "tv_sha (tools_of E client) = ae_sha (ap_auth E)" "tv_hex (tools_of E client) = ae_hex (ap_auth E)"
  by (simp_all add: tools_of_def)

text \<open>Serving keeps the history: every validation and every removal is in it, in order.\<close>

lemma serve_history:
  assumes "url_laws (ap_dav E)" "well_formed_client (ap_dav E) client"
    and "oidc_reach (ae_jwt (ap_auth E)) c0 h served (as_logto st)" "serve E cfg client io req st = (out, log, st')"
  shows "oidc_reach (ae_jwt (ap_auth E)) c0 (serve_events E io req st out @ h) (serve_keys E io req @ served) (as_logto st')"
proof -
  let ?J = "ae_jwt (ap_auth E)" and ?ck = "io_clocks (ai_auth io)" and ?reply = "io_jwks_reply (ai_auth io)"
  have env: "tool_env_ok (tools_of E client)" using assms(1,2) by (simp add: tool_env_ok_def)
  have answered: "oidc_reach ?J c0 (serve_events E io req st out @ h) (serve_keys E io req @ served) (as_logto st')"
    if "ap_body_limit E MAX_MCP_REQUEST_BYTES req = None"
      "bearer_auth (ap_auth E) cfg (ai_auth io) req (auth_of st) = (r, au, evs)" "as_logto st' = au_logto au"
      "\<not> expired_call out" for r au evs
  proof (cases "extract_bearer (hq_header req ''authorization'')")
    case None
    with bearer_auth_no_bearer [OF that(2)] that assms(3) show ?thesis by (simp add: serve_events_def serve_keys_def)
  next
    case (Some token)
    with bearer_auth_validates [OF that(2)] obtain v sent where
      "validate_token ?J ?ck ?reply token (as_logto st) = (v, au_logto au, sent)" by auto
    with oidc_validate [OF assms(3) this] that Some show ?thesis
      by (simp add: serve_events_def serve_keys_def reply_keys_def)
  qed
  from assms(4) show ?thesis
  proof (cases rule: serve_cases)
    case (too_large resp)
    with assms(3) show ?thesis by (simp add: serve_events_def serve_keys_def)
  next
    case (turned_away resp au evs)
    then show ?thesis by (intro answered) (auto simp: expired_call_def)
  next
    case (refused req1 resp au evs l refusal)
    then show ?thesis by (intro answered) (auto simp: expired_call_def)
  next
    case (routed req1 au evs st2 ev)
    from routed(6) show ?thesis
    proof (cases rule: route_cases)
      case no_tool
      with routed show ?thesis by (intro answered) auto
    next
      case (tool call r s)
      from routed(2) obtain token i where t: "extract_bearer (hq_header req ''authorization'') = Some token"
        "hq_token req1 = Some token" by (rule bearer_auth_next) auto
      from bearer_auth_validates [OF routed(2) t(1)] obtain v sent where
        v: "validate_token ?J ?ck ?reply token (as_logto st) = (v, au_logto au, sent)" by auto
      have "cx_token (ctx_of io req1) = Some token" using t(2) by (simp add: ctx_of_def)
      from call_tool_logto [OF env this tool(1)] routed(4) tool(4)
      have l: "as_logto st' = (if expired r then drop_token ?J token (au_logto au) else au_logto au)" by simp
      from oidc_validate [OF assms(3) v] have
        r1: "oidc_reach ?J c0 (validate_event ?J ?ck token (as_logto st) v # h) (serve_keys E io req @ served) (au_logto au)"
        using routed(1) t(1) by (simp add: serve_keys_def reply_keys_def)
      show ?thesis
      proof (cases "expired r")
        case False
        with r1 l routed(1) t(1) v tool(2) show ?thesis by (simp add: serve_events_def expired_call_def)
      next
        case True
        with oidc_drop [OF r1, of token] l routed(1) t(1) v tool(2) show ?thesis
          by (simp add: serve_events_def expired_call_def Let_def)
      qed
    qed
  qed
qed

lemma app_history:
  assumes "app_reach E cfg client st0 h served st" "url_laws (ap_dav E)" "well_formed_client (ap_dav E) client"
  shows "oidc_reach (ae_jwt (ap_auth E)) (as_logto st0) h served (as_logto st)"
  using assms
proof (induction rule: app_reach.induct)
  case app_start
  show ?case by (rule oidc_start)
next
  case (app_serve h served st io req out log st')
  from app_serve.IH [OF app_serve.prems] show ?case by (rule serve_history [OF app_serve.prems _ app_serve.hyps(2)])
qed

lemma build_app_parts:
  assumes "build_app E cfg = Ok (client, st0)"
  shows "logto_new (cf_authorization_server cfg) (accepted_token_audiences cfg) = Some (as_logto st0)"
    "dav_client_new (ap_dav E) (cf_stalwart_dav_base_url cfg) (cf_stalwart_connect_ip cfg)
       (cf_dav_max_response_bytes cfg) = Ok client"
    "as_carddav st0 = dav_start" "as_last_used st0 = []"
    "limiter_new (cf_rate_limit_reads_per_min cfg) (cf_rate_limit_writes_per_min cfg) = Some (as_limiter st0)"
    "as_initialize st0 = init_limiter_new (ap_governor E) INITIALIZE_REPLENISH MAX_INITIALIZES_PER_IDENTITY"
  using assms by (auto simp: build_app_def and_then_Ok ok_or_Ok)

lemma logto_new_config:
  "logto_new authz auds = Some c \<Longrightarrow> lc_expected_issuer c = trim_end_matches (CHR ''/'') authz
     \<and> lc_expected_audiences c = auds"
  by (auto simp: logto_new_def Let_def split: if_splits)

subsection \<open>A sample application\<close>

definition sample_app ::
  "(string \<times> string, string, nat, string, string, gcra_quota, gcra_bucket, gdate) app_env" where
  "sample_app = \<lparr>ap_auth = \<lparr>ae_jwt = sample_jwt, ae_sha = (\<lambda>t. t), ae_hex = (\<lambda>b. b), ae_parse_ip = (\<lambda>_. None),
       ae_header_valid = (\<lambda>_. True)\<rparr>,
     ap_dav = sample_env, ap_governor = gcra, ap_calendar = gregorian, ap_parse_date = (\<lambda>_. gd_ymd 2024 2 29),
     ap_format_date = (\<lambda>_. ''2024-02-29''), ap_http_text = [], ap_body_limit = (\<lambda>_ _. None),
     ap_rmcp = (\<lambda>_. Some Whoami)\<rparr>"

definition sample_app_io :: "(string, gdate) app_io" where
  "sample_app_io = \<lparr>ai_auth = sample_io, ai_initialize_at = 10, ai_tool_at = 10, ai_today = the (gd_ymd 2024 2 29),
     ai_random = ''r''\<rparr>"

lemma sample_build:
  "\<exists>st0. build_app sample_app sample_config = Ok (sample_client, st0) \<and> as_limiter st0 = sv_limiter sample_service
     \<and> as_carddav st0 = dav_start"
proof -
  have "dav_client_new (ap_dav sample_app) (cf_stalwart_dav_base_url sample_config) (cf_stalwart_connect_ip sample_config)
      (cf_dav_max_response_bytes sample_config) = Ok sample_client"
    using sample_client_new by (simp add: sample_app_def sample_config_def)
  moreover have "accepted_token_audiences sample_config \<noteq> []"
    using audiences_set [of sample_config] by auto
  ultimately show ?thesis
    by (simp add: build_app_def and_then_def logto_new_def Let_def)
       (simp add: sample_service_def limiter_new_def sample_config_def)
qed

lemma sample_serve:
  assumes "build_app sample_app sample_config = Ok (sample_client, st0)"
  shows "\<exists>v log st' q1 q2. serve sample_app sample_config sample_client sample_app_io sample_request st0
      = (Called (Inr v), log, st') \<and> ds_sent (as_carddav st') = [q1, q2]"
proof -
  have "''https://r'' \<in> set (accepted_token_audiences sample_config)"
    using audiences_set [of sample_config] by (simp add: sample_config_def)
  from sample_validated_for [OF this] build_app_parts(1) [OF assms] obtain c' where
    v: "validate_token sample_jwt sample_clocks (JwkSet [''KEY'']) ''tok'' (as_logto st0)
      = (Ok (Some (identity_of sample_claims)), c', True)" by (auto simp: sample_config_def)
  let ?req = "sample_request\<lparr>hq_identity := Some (identity_of sample_claims), hq_token := Some ''tok''\<rparr>"
  obtain au evs where b: "bearer_auth (ap_auth sample_app) sample_config sample_io sample_request (auth_of st0)
      = (Inr ?req, au, evs)"
    using v by (simp add: bearer_auth_def sample_extract sample_app_def sample_io_def Let_def)
  have init: "as_initialize st0 = init_limiter_new gcra INITIALIZE_REPLENISH MAX_INITIALIZES_PER_IDENTITY"
    using build_app_parts(6) [OF assms] by (simp add: sample_app_def)
  obtain l where i: "initialize_rate_limit gcra (hash_of (ap_auth sample_app)) 10 ?req (as_initialize st0) = (Inr ?req, l, None)"
    by (simp add: initialize_rate_limit_def init is_fresh_mcp_session_request_def sample_request_def init_check_def
        init_limiter_new_def charge_def get_or_insert_with_quota_def empty_buckets_def hm_get_def bucket_check_def
        gcra_def gcra_check_def INITIALIZE_REPLENISH_def MAX_INITIALIZES_PER_IDENTITY_def Let_def)
  let ?st2 = "st0\<lparr>as_logto := au_logto au, as_last_used := au_last_used au, as_initialize := l\<rparr>"
  have "tools_of sample_app sample_client = sample_tools" "ctx_of sample_app_io ?req = sample_ctx ''tok''"
    by (simp_all add: tools_of_def sample_app_def sample_tools_def ctx_of_def sample_app_io_def sample_ctx_def)
  moreover from sample_build assms have "as_limiter st0 = sv_limiter sample_service" "as_carddav st0 = dav_start" by auto
  ultimately obtain v' ev q1 q2 s' where "call_tool (tools_of sample_app sample_client) (ctx_of sample_app_io ?req) Whoami
      (service_of ?st2) = (Inr v', ev, s')" "ds_sent (sv_carddav s') = [q1, q2]"
    using sample_whoami [of "service_of ?st2" "''tok''"] by auto
  then have "\<exists>st'. route sample_app sample_client sample_app_io ?req ?st2 = (Called (Inr v'), ev, st')
      \<and> ds_sent (as_carddav st') = [q1, q2]"
    by (simp add: route_def sample_request_def under_mcp_def) (simp add: sample_app_def)
  moreover have "ap_body_limit sample_app n r = None" "ap_governor sample_app = gcra" "ai_auth sample_app_io = sample_io"
    "ai_initialize_at sample_app_io = 10" for n r by (simp_all add: sample_app_def sample_app_io_def)
  ultimately show ?thesis using b i by (auto simp: serve_def)
qed

subsection \<open>What serving a request sends\<close>

text \<open>
  If serving a request sends anything to the CardDAV server, the request is one to \<open>/mcp\<close> whose own
  bearer was verified and whose user the limiter admitted, and only that bearer is sent, to the
  configured origin.
\<close>

lemma serve_sends_verified:
  assumes "url_laws (ap_dav E)" "build_app E cfg = Ok (client, st0)" "app_reach E cfg client st0 h served st"
    and "serve E cfg client io req st = (out, log, st')"
  shows "\<exists>new. ds_sent (as_carddav st') = ds_sent (as_carddav st) @ new \<and> (new \<noteq> [] \<longrightarrow>
    under_mcp (hq_path req) \<and> lc_expected_issuer (as_logto st0) = trim_end_matches (CHR ''/'') (cf_authorization_server cfg)
    \<and> lc_expected_audiences (as_logto st0) = accepted_token_audiences cfg
    \<and> (\<exists>raw v token i c. hq_header req ''authorization'' = Some raw \<and> trim raw = ''Bearer'' @ SPC # v
       \<and> token = trim v \<and> token \<noteq> []
       \<and> established (ae_jwt (ap_auth E)) (as_logto st0) h served (io_clocks (ai_auth io)) (io_jwks_reply (ai_auth io)) token i
       \<and> fst (limiter_check (ap_governor E) (ai_tool_at io) (hash_of (ap_auth E) token) (Some (ai_user_id i)) c
            (as_limiter st)) = Ok ()
       \<and> (\<forall>q \<in> set new. same_origin (ap_dav E) (rq_url q) (cl_base_url client)
            \<and> filter (\<lambda>h. fst h = ''authorization'') (rq_headers q) = [(''authorization'', ''Bearer '' @ token)])))"
proof -
  note app = build_app_parts [OF assms(2)]
  have laws: "well_formed_client (ap_dav E) client" using client_new_well_formed [OF assms(1) app(2)] by simp
  note reach = app_history [OF assms(3,1) laws]
  from assms(4) show ?thesis
  proof (cases rule: serve_cases)
    case (routed req1 au evs st2 ev)
    from routed(6) show ?thesis
    proof (cases rule: route_cases)
      case (tool call r s)
      from routed(2) obtain token i sent where t: "extract_bearer (hq_header req ''authorization'') = Some token"
        "hq_token req1 = Some token" "hq_identity req1 = Some i"
        "validate_token (ae_jwt (ap_auth E)) (io_clocks (ai_auth io)) (io_jwks_reply (ai_auth io)) token (as_logto st)
          = (Ok (Some i), au_logto au, sent)" by (rule bearer_auth_next) auto
      from routed(2) tool(6) have path: "under_mcp (hq_path req)" by (elim bearer_auth_next) simp
      have ctx: "cx_token (ctx_of io req1) = Some token" "cx_identity (ctx_of io req1) = Some i"
        "cx_now (ctx_of io req1) = ai_tool_at io" using t(2,3) by (simp_all add: ctx_of_def)
      have est: "established (ae_jwt (ap_auth E)) (as_logto st0) h served (io_clocks (ai_auth io)) (io_jwks_reply (ai_auth io)) token i"
        unfolding established_def by (rule accepted_identity [OF app(1) reach t(4)])
      from call_tool_confined [of "tools_of E client", simplified, OF assms(1) app(2) ctx(1) tool(1)] obtain new where
        new: "ds_sent (sv_carddav s) = ds_sent (as_carddav st) @ new" "\<forall>q \<in> set new. same_origin (ap_dav E) (rq_url q) (cl_base_url client)
            \<and> filter (\<lambda>h. fst h = ''authorization'') (rq_headers q) = [(''authorization'', ''Bearer '' @ token)]"
        using routed(3) by auto
      from call_tool_gated [OF tool(1)] ctx routed(3,5) new(1) have lim: "fst (limiter_check (ap_governor E) (ai_tool_at io)
          (hash_of (ap_auth E) token) (Some (ai_user_id i)) (tool_category call) (as_limiter st)) = Ok ()" if "new \<noteq> []"
        using that by (auto simp: hash_of_def split: prod.splits) (metis (full_types) old.sum.exhaust old.unit.exhaust rate_limited.exhaust)
      from app(1) have cfg: "lc_expected_issuer (as_logto st0) = trim_end_matches (CHR ''/'') (cf_authorization_server cfg)"
        "lc_expected_audiences (as_logto st0) = accepted_token_audiences cfg"
        by (auto dest: logto_new_config)
      from t(1) obtain raw v where rv: "hq_header req ''authorization'' = Some raw" "trim raw = ''Bearer'' @ SPC # v"
        "token = trim v" "token \<noteq> []" unfolding extract_bearer_Some by blast
      show ?thesis
        unfolding tool(3)
        by (rule exI [of _ new], intro conjI impI, rule new(1), rule path, rule cfg(1), rule cfg(2), rule exI [of _ raw], rule exI [of _ v],
            rule exI [of _ token], rule exI [of _ i], rule exI [of _ "tool_category call"])
           (intro conjI rv est lim new(2))
    qed (use routed(3) in auto)
  qed auto
qed

end
