(* ===== verification/Server_Router.thy ===== *)
theory Server_Router
  imports Server_Main Oauth_Proxy Oauth_Meta
begin

text \<open>
  The whole HTTP service, \<open>build_router\<close> of \<open>src/src/main.rs\<close>: the public routes beside the
  authenticated ones of \<open>Server_Main\<close>, and runs of it over any sequence of requests. \<open>Server_Tasks\<close> serves them
  concurrently.

  \<^item> \<open>server\<close> is all the mutable state of the process: that of the authenticated routes, the pending
    authorizations, and what was sent to the provider's token endpoint.
  \<^item> \<open>public_io\<close> is what the extractors and the outside give a public handler: the raw query, the body
    as \<open>Option<Json<Value>>\<close> or as a \<open>String\<close> (or the refusal of the extractor), the clocks, the
    random state, and the provider's answer.
  \<^item> A path no route takes is answered with 404. \<open>axum\<close> merges the fallback of \<open>mcp_routes\<close>, which is
    behind that router's layers, with the outer one; the argument \<open>layered\<close> says whether the 404
    is given behind them or directly. Every statement holds for both.
\<close>

record public_io =
  pu_now :: instant
  pu_wall :: instant
  pu_random :: string
  pu_query :: "string option"
  pu_json :: "json option"
  pu_text :: "http_response + string"
  pu_send :: "string \<times> string \<Rightarrow> upstream_reply option"

record ('u, 'h, 'ip, 'k, 'q, 'b) server =
  rt_app :: "('u, 'h, 'ip, 'k, 'q, 'b) app_state"
  rt_proxy :: proxy_state
  rt_upstream :: "(string \<times> string) list"

datatype 'ip answer =
    Health json
  | Resource_document protected_resource_metadata
  | Server_document authorization_server_metadata
  | Registered registration
  | Plain http_response
  | Behind_layers "'ip served"

subsection \<open>The routes\<close>

datatype endpoint =
    Ep_Health | Ep_Resource_Metadata | Ep_Server_Metadata | Ep_Register | Ep_Authorize | Ep_Callback | Ep_Token

definition public_routes :: "(string \<times> string \<times> endpoint) list" where
  "public_routes =
     [(''/health'', ''GET'', Ep_Health),
      (''/.well-known/oauth-protected-resource'', ''GET'', Ep_Resource_Metadata),
      (''/.well-known/oauth-protected-resource/mcp'', ''GET'', Ep_Resource_Metadata),
      (''/.well-known/oauth-authorization-server'', ''GET'', Ep_Server_Metadata),
      (''/register'', ''POST'', Ep_Register),
      (''/authorize'', ''GET'', Ep_Authorize),
      (''/oauth/callback'', ''GET'', Ep_Callback),
      (''/token'', ''POST'', Ep_Token)]"

text \<open>A \<open>get\<close> route takes \<open>HEAD\<close> as well.\<close>

definition takes :: "string \<Rightarrow> string \<Rightarrow> bool" where
  "takes route_method m \<longleftrightarrow> m = route_method \<or> route_method = ''GET'' \<and> m = ''HEAD''"

definition allow :: "string \<Rightarrow> string" where
  "allow route_method = (if route_method = ''GET'' then ''GET,HEAD'' else route_method)"

text \<open>The public route of a path, and whether a request goes through the layers of \<open>mcp_routes\<close>.\<close>

definition behind :: "bool \<Rightarrow> string \<Rightarrow> bool" where
  "behind layered path \<longleftrightarrow>
     path = ''/token/introspect'' \<or> under_mcp path \<or> layered \<and> map_of public_routes path = None"

definition health :: json where
  "health = JObject [(''status'', JString ''healthy''), (''version'', JString ''0.1.6'')]"

definition no_log :: app_log where
  "no_log = \<lparr>lg_validations = [], lg_refusal = None, lg_tool = None\<rparr>"

definition public_handler ::
  "oauth_ops \<Rightarrow> 'a config \<Rightarrow> public_io \<Rightarrow> endpoint \<Rightarrow> ('u, 'h, 'ip, 'k, 'q, 'b) server
     \<Rightarrow> 'ip answer \<times> ('u, 'h, 'ip, 'k, 'q, 'b) server" where
  "public_handler W cfg pu ep s =
     (case ep of
        Ep_Resource_Metadata \<Rightarrow> (Resource_document (protected_resource_from_config cfg), s)
      | Ep_Server_Metadata \<Rightarrow> (Server_document (authorization_server_from_config cfg), s)
      | Ep_Register \<Rightarrow>
          (case register (oo_url W) cfg (pu_wall pu) (pu_json pu) of
             Inl r \<Rightarrow> (Plain r, s) | Inr reg \<Rightarrow> (Registered reg, s))
      | Ep_Authorize \<Rightarrow>
          let (r, p) = authorize W (pu_now pu) (pu_random pu) (pu_query pu) (rt_proxy s) in (Plain r, s\<lparr>rt_proxy := p\<rparr>)
      | Ep_Callback \<Rightarrow>
          let (r, p) = callback W (pu_now pu) (pu_query pu) (rt_proxy s) in (Plain r, s\<lparr>rt_proxy := p\<rparr>)
      | Ep_Token \<Rightarrow>
          (case pu_text pu of
             Inl r \<Rightarrow> (Plain r, s)
           | Inr body \<Rightarrow>
               let (r, sent) = token W (pu_send pu) body (rt_proxy s) in
               (Plain r, s\<lparr>rt_upstream := sent @ rt_upstream s\<rparr>))
      | Ep_Health \<Rightarrow> (Health health, s))"

definition router ::
  "('u, 'h, 'ip, 'k, 'j, 'q, 'b, 'd) app_env \<Rightarrow> oauth_ops \<Rightarrow> bool \<Rightarrow> 'a config \<Rightarrow> ('u, 'ip) dav_client
     \<Rightarrow> ('j, 'd) app_io \<Rightarrow> public_io \<Rightarrow> http_request \<Rightarrow> ('u, 'h, 'ip, 'k, 'q, 'b) server
     \<Rightarrow> 'ip answer \<times> app_log \<times> ('u, 'h, 'ip, 'k, 'q, 'b) server" where
  "router E W layered cfg client io pu req s =
     (if behind layered (hq_path req) then
        let (out, log, app) = serve E cfg client io req (rt_app s) in (Behind_layers out, log, s\<lparr>rt_app := app\<rparr>)
      else case map_of public_routes (hq_path req) of
          None \<Rightarrow> (Plain (empty_response 404), no_log, s)
        | Some (m, ep) \<Rightarrow>
            if \<not> takes m (hq_method req) then (Plain (method_not_allowed (allow m)), no_log, s)
            else let (ans, s') = public_handler W cfg pu ep s in (ans, no_log, s'))"

definition build_server ::
  "('u, 'h, 'ip, 'k, 'j, 'q, 'b, 'd) app_env \<Rightarrow> 'a config
     \<Rightarrow> anyhow + (('u, 'ip) dav_client \<times> ('u, 'h, 'ip, 'k, 'q, 'b) server)" where
  "build_server E cfg =
     and_then (build_app E cfg) (\<lambda>(client, st0).
       Ok (client, \<lparr>rt_app = st0,
                    rt_proxy = proxy_new (cf_authorization_server cfg) (cf_resource_url cfg) (cf_oauth_redirect_uris cfg)
                                 (cf_stalwart_audience cfg),
                    rt_upstream = []\<rparr>))"

subsection \<open>Runs\<close>

text \<open>What a request adds to the history of the validation client, and to that of the authorizations.\<close>

definition app_events ::
  "('u, 'h, 'ip, 'k, 'j, 'q, 'b, 'd) app_env \<Rightarrow> ('j, 'd) app_io \<Rightarrow> http_request \<Rightarrow> ('u, 'h, 'ip, 'k, 'q, 'b) server
     \<Rightarrow> 'ip answer \<Rightarrow> 'h oidc_event list \<times> 'j list" where
  "app_events E io req s ans =
     (case ans of Behind_layers out \<Rightarrow> (serve_events E io req (rt_app s) out, serve_keys E io req) | _ \<Rightarrow> ([], []))"

definition flow_events ::
  "oauth_ops \<Rightarrow> public_io \<Rightarrow> http_request \<Rightarrow> ('u, 'h, 'ip, 'k, 'q, 'b) server \<Rightarrow> flow_event list" where
  "flow_events W pu req s =
     (if \<not> takes ''GET'' (hq_method req) then []
      else if hq_path req = ''/authorize''
      then [authorize_event W (pu_now pu) (pu_random pu) (pu_query pu) (rt_proxy s)]
      else if hq_path req = ''/oauth/callback'' then [callback_event W (pu_now pu) (pu_query pu) (rt_proxy s)]
      else [])"

inductive server_reach ::
  "('u, 'h, 'ip, 'k, 'j, 'q, 'b, 'd) app_env \<Rightarrow> oauth_ops \<Rightarrow> bool \<Rightarrow> 'a config \<Rightarrow> ('u, 'ip) dav_client
     \<Rightarrow> ('u, 'h, 'ip, 'k, 'q, 'b) server \<Rightarrow> 'h oidc_event list \<Rightarrow> 'j list \<Rightarrow> flow_event list
     \<Rightarrow> ('u, 'h, 'ip, 'k, 'q, 'b) server \<Rightarrow> bool"
  for E W layered cfg client s0 where
  server_start: "server_reach E W layered cfg client s0 [] [] [] s0"
| server_step: "server_reach E W layered cfg client s0 h keys f s
    \<Longrightarrow> router E W layered cfg client io pu req s = (ans, log, s') \<Longrightarrow> app_events E io req s ans = (h', keys')
    \<Longrightarrow> server_reach E W layered cfg client s0 (h' @ h) (keys' @ keys) (flow_events W pu req s @ f) s'"

text \<open>A request by where it goes.\<close>

lemma public_routes_simps [simp]:
  "map_of public_routes ''/token/introspect'' = None" "under_mcp path \<Longrightarrow> map_of public_routes path = None"
  "map_of public_routes path = Some (m, Ep_Authorize) \<longleftrightarrow> path = ''/authorize'' \<and> m = ''GET''"
  "map_of public_routes path = Some (m, Ep_Callback) \<longleftrightarrow> path = ''/oauth/callback'' \<and> m = ''GET''"
  "map_of public_routes path = Some (m, Ep_Token) \<longleftrightarrow> path = ''/token'' \<and> m = ''POST''"
  by (auto simp: public_routes_def under_mcp_def starts_with_iff)

lemma router_cases [consumes 1, case_names layers unrouted authorize callback token other]:
  assumes "router E W layered cfg client io pu req s = (ans, log, s')"
  obtains out app where "behind layered (hq_path req)" "serve E cfg client io req (rt_app s) = (out, log, app)"
      "ans = Behind_layers out" "s' = s\<lparr>rt_app := app\<rparr>"
  | r where "\<not> behind layered (hq_path req)" "ans = Plain r" "log = no_log" "s' = s"
      "\<And>m ep. map_of public_routes (hq_path req) = Some (m, ep) \<Longrightarrow> \<not> takes m (hq_method req)"
  | r p where "\<not> behind layered (hq_path req)" "hq_path req = ''/authorize''" "takes ''GET'' (hq_method req)"
      "authorize W (pu_now pu) (pu_random pu) (pu_query pu) (rt_proxy s) = (r, p)"
      "ans = Plain r" "log = no_log" "s' = s\<lparr>rt_proxy := p\<rparr>"
  | r p where "\<not> behind layered (hq_path req)" "hq_path req = ''/oauth/callback''" "takes ''GET'' (hq_method req)"
      "callback W (pu_now pu) (pu_query pu) (rt_proxy s) = (r, p)"
      "ans = Plain r" "log = no_log" "s' = s\<lparr>rt_proxy := p\<rparr>"
  | r sent where "\<not> behind layered (hq_path req)" "hq_path req = ''/token''" "hq_method req = ''POST''"
      "ans = Plain r" "log = no_log" "s' = s\<lparr>rt_upstream := sent @ rt_upstream s\<rparr>"
  | m ep where "\<not> behind layered (hq_path req)" "map_of public_routes (hq_path req) = Some (m, ep)"
      "ep \<notin> {Ep_Authorize, Ep_Callback, Ep_Token}" "\<And>out. ans \<noteq> Behind_layers out" "log = no_log" "s' = s"
proof (cases "behind layered (hq_path req)")
  case True
  obtain out log2 app where "serve E cfg client io req (rt_app s) = (out, log2, app)" by (metis prod_cases3)
  with assms True show thesis by (intro that(1)) (auto simp: router_def)
next
  case False
  note out = this
  show thesis
  proof (cases "map_of public_routes (hq_path req)")
    case None
    with assms out show thesis by (intro that(2)) (auto simp: router_def)
  next
    case (Some me)
    then obtain m ep where r: "map_of public_routes (hq_path req) = Some (m, ep)" by (cases me) auto
    show thesis
    proof (cases "takes m (hq_method req)")
      case False
      with assms out r show thesis by (intro that(2)) (auto simp: router_def)
    next
      case True
      with assms out r have h: "public_handler W cfg pu ep s = (ans, s')" "log = no_log"
        by (auto simp: router_def split: prod.splits)
      show thesis
      proof (cases ep)
        case Ep_Authorize
        with h out r True show thesis
          by (intro that(3) [OF out _ _ prod.collapse [symmetric]]) (auto simp: public_handler_def case_prod_beta Let_def)
      next
        case Ep_Callback
        with h out r True show thesis
          by (intro that(4) [OF out _ _ prod.collapse [symmetric]]) (auto simp: public_handler_def case_prod_beta Let_def)
      next
        case Ep_Token
        with h r True have "\<exists>r sent. ans = Plain r \<and> s' = s\<lparr>rt_upstream := sent @ rt_upstream s\<rparr>"
          by (auto simp: public_handler_def case_prod_beta Let_def intro: exI [of _ "[]"] split: sum.splits)
        with h out r True Ep_Token show thesis by (auto simp: takes_def intro: that(5))
      qed (rule that(6) [OF out r]; use h in \<open>auto simp: public_handler_def split: sum.splits\<close>)+
    qed
  qed
qed

lemma behind_routes:
  "behind layered ''/authorize'' = False" "behind layered ''/oauth/callback'' = False" "behind layered ''/token'' = False"
  by (simp_all add: behind_def public_routes_def under_mcp_def)

text \<open>A run of the server is a run of its authenticated part beside a run of the authorization flows.\<close>

lemma server_projects:
  assumes "server_reach E W layered cfg client s0 h keys f s"
  shows "app_reach E cfg client (rt_app s0) h keys (rt_app s) \<and> proxy_reach W (rt_proxy s0) f (rt_proxy s)"
  using assms
proof (induction rule: server_reach.induct)
  case server_start
  show ?case by (simp add: app_start reach_start)
next
  case (server_step h keys f s io pu req ans log s' h' keys')
  from server_step.IH have app: "app_reach E cfg client (rt_app s0) h keys (rt_app s)"
    and flow: "proxy_reach W (rt_proxy s0) f (rt_proxy s)" by simp_all
  have still: "h' = [] \<and> keys' = []" if "\<And>out. ans \<noteq> Behind_layers out"
    using server_step.hyps(3) that by (cases ans) (auto simp: app_events_def)
  from server_step.hyps(2) show ?case
  proof (cases rule: router_cases)
    case (layers out app')
    then have "h' = serve_events E io req (rt_app s) out" "keys' = serve_keys E io req"
      using server_step.hyps(3) by (simp_all add: app_events_def)
    moreover have "flow_events W pu req s = []" using layers(1) by (auto simp: flow_events_def behind_routes)
    ultimately show ?thesis using app_serve [OF app layers(2)] flow layers(4) by simp
  next
    case (unrouted r)
    then have "flow_events W pu req s = []" using unrouted(5) by (fastforce simp: flow_events_def public_routes_def)
    with unrouted app flow still show ?thesis by simp
  next
    case (authorize r p)
    then have "flow_events W pu req s = [authorize_event W (pu_now pu) (pu_random pu) (pu_query pu) (rt_proxy s)]"
      by (simp add: flow_events_def)
    with reach_authorize [OF flow authorize(4)] app authorize still show ?thesis by simp
  next
    case (callback r p)
    then have "flow_events W pu req s = [callback_event W (pu_now pu) (pu_query pu) (rt_proxy s)]"
      by (simp add: flow_events_def)
    with reach_callback [OF flow callback(4)] app callback still show ?thesis by simp
  next
    case (token r sent)
    then have "flow_events W pu req s = []" by (simp add: flow_events_def takes_def)
    with token app flow still show ?thesis by simp
  next
    case (other m ep)
    then have "flow_events W pu req s = []" by (auto simp: flow_events_def public_routes_def split: if_splits)
    with other app flow still show ?thesis by simp
  qed
qed

lemma build_server_parts:
  assumes "build_server E cfg = Ok (client, s0)"
  shows "build_app E cfg = Ok (client, rt_app s0)" "rt_upstream s0 = []"
    "rt_proxy s0 = proxy_new (cf_authorization_server cfg) (cf_resource_url cfg) (cf_oauth_redirect_uris cfg)
       (cf_stalwart_audience cfg)"
  using assms by (auto simp: build_server_def and_then_Ok)

subsection \<open>Properties\<close>

text \<open>
  Only the verified bearer of a request reaches the CardDAV server. For a service that started
  and any sequence of requests to any of its routes, if the next one sends anything to the CardDAV
  server, then it is a request to \<open>/mcp\<close>, its own \<open>Authorization\<close> header is \<open>Bearer\<close> and a token,
  an identity for the token was established against the configured issuer and audiences, the limiter
  admitted that user, and everything sent goes to the origin of the configured base URL with that
  token and no other authorization.
\<close>

theorem only_verified_bearers_reach_carddav:
  assumes "url_laws (ap_dav E)" "build_server E cfg = Ok (client, s0)"
    and "server_reach E W layered cfg client s0 h served f s"
    and "router E W layered cfg client io pu req s = (ans, log, s')"
  shows "\<exists>new. ds_sent (as_carddav (rt_app s')) = ds_sent (as_carddav (rt_app s)) @ new \<and> (new \<noteq> [] \<longrightarrow>
    under_mcp (hq_path req)
    \<and> lc_expected_issuer (as_logto (rt_app s0)) = trim_end_matches (CHR ''/'') (cf_authorization_server cfg)
    \<and> lc_expected_audiences (as_logto (rt_app s0)) = accepted_token_audiences cfg
    \<and> (\<exists>raw v token i c. hq_header req ''authorization'' = Some raw \<and> trim raw = ''Bearer'' @ SPC # v
       \<and> token = trim v \<and> token \<noteq> []
       \<and> established (ae_jwt (ap_auth E)) (as_logto (rt_app s0)) h served (io_clocks (ai_auth io))
            (io_jwks_reply (ai_auth io)) token i
       \<and> fst (limiter_check (ap_governor E) (ai_tool_at io) (hash_of (ap_auth E) token) (Some (ai_user_id i)) c
            (as_limiter (rt_app s))) = Ok ()
       \<and> (\<forall>q \<in> set new. same_origin (ap_dav E) (rq_url q) (cl_base_url client)
            \<and> filter (\<lambda>h. fst h = ''authorization'') (rq_headers q) = [(''authorization'', ''Bearer '' @ token)])))"
proof -
  note reach = server_projects [OF assms(3), THEN conjunct1]
  from assms(4) show ?thesis
  proof (cases rule: router_cases)
    case (layers out app)
    have app: "app = rt_app s'" using layers(4) by simp
    show ?thesis by (rule serve_sends_verified [OF assms(1) build_server_parts(1) [OF assms(2)] reach layers(2) [unfolded app]])
  qed auto
qed

definition sample_public :: public_io where
  "sample_public = \<lparr>pu_now = 5, pu_wall = 5, pu_random = ''rnd'', pu_query = None, pu_json = None, pu_text = Inr [],
     pu_send = (\<lambda>_. None)\<rparr>"

theorem only_verified_bearers_reach_carddav_witness:
  "\<exists>s0 v log s'. build_server sample_app sample_config = Ok (sample_client, s0)
     \<and> router sample_app sample_ops True sample_config sample_client sample_app_io sample_public sample_request s0
         = (Behind_layers (Called (Ok v)), log, s')
     \<and> (\<exists>i. established sample_jwt (as_logto (rt_app s0)) [] [] sample_clocks (JwkSet [''KEY'']) ''tok'' i)"
proof -
  obtain st0 where st0: "build_app sample_app sample_config = Ok (sample_client, st0)" using sample_build by blast
  then obtain s0 where s0: "build_server sample_app sample_config = Ok (sample_client, s0)" "rt_app s0 = st0"
    by (simp add: build_server_def)
  from sample_serve [OF st0] obtain v log st' q1 q2 where
    s: "serve sample_app sample_config sample_client sample_app_io sample_request st0 = (Called (Inr v), log, st')"
      "ds_sent (as_carddav st') = [q1, q2]" by blast
  have b: "behind True (hq_path sample_request)" by (simp add: behind_def under_mcp_def sample_request_def)
  have r: "router sample_app sample_ops True sample_config sample_client sample_app_io sample_public sample_request s0
      = (Behind_layers (Called (Inr v)), log, s0\<lparr>rt_app := st'\<rparr>)" using s(1) s0(2) b by (simp add: router_def)
  have "url_laws (ap_dav sample_app)" using sample_laws by (simp add: sample_app_def)
  from only_verified_bearers_reach_carddav [OF this s0(1) server_start r] s(2) s0(2) obtain raw v token i where
    r2: "hq_header sample_request ''authorization'' = Some raw" "trim raw = ''Bearer'' @ SPC # v" "token = trim v" "token \<noteq> []"
    "established (ae_jwt (ap_auth sample_app)) (as_logto (rt_app s0)) [] [] (io_clocks (ai_auth sample_app_io))
       (io_jwks_reply (ai_auth sample_app_io)) token i"
    using build_app_parts(3) [OF st0] by (auto simp: dav_start_def)
  then have "extract_bearer (hq_header sample_request ''authorization'') = Some token" unfolding extract_bearer_Some by blast
  then have "token = ''tok''" by (simp add: sample_extract)
  with s0(1) r r2(5) show ?thesis by (auto simp: sample_app_def sample_app_io_def sample_io_def)
qed

text \<open>
  C19: the public routes and the authenticated ones are apart. A request to a public route changes nothing of
  the authenticated state and logs nothing; a request behind the layers changes nothing of the
  pending authorizations and sends nothing to the token endpoint, and if it carries no bearer it is
  answered 401, or refused by the body limit, and changes nothing at all. Pending authorizations
  change only on \<open>/authorize\<close> and \<open>/oauth/callback\<close>, and only \<open>POST /token\<close> sends to the token endpoint.
\<close>

theorem public_routes_isolated:
  assumes "router E W layered cfg client io pu req s = (ans, log, s')"
  shows "(\<not> behind layered (hq_path req) \<longrightarrow> rt_app s' = rt_app s \<and> log = no_log)
    \<and> (behind layered (hq_path req) \<longrightarrow> rt_proxy s' = rt_proxy s \<and> rt_upstream s' = rt_upstream s
        \<and> (extract_bearer (hq_header req ''authorization'') = None \<longrightarrow> s' = s
             \<and> (\<exists>r. ans = Behind_layers (Answered r)
                  \<and> (rs_status r = 401 \<or> ap_body_limit E MAX_MCP_REQUEST_BYTES req = Some r))))
    \<and> (rt_proxy s' \<noteq> rt_proxy s \<longrightarrow> hq_path req \<in> {''/authorize'', ''/oauth/callback''} \<and> takes ''GET'' (hq_method req))
    \<and> (rt_upstream s' \<noteq> rt_upstream s \<longrightarrow> hq_path req = ''/token'' \<and> hq_method req = ''POST'')"
  using assms
proof (cases rule: router_cases)
  case (layers out app)
  have "app = rt_app s \<and> (\<exists>r. out = Answered r \<and> (rs_status r = 401 \<or> ap_body_limit E MAX_MCP_REQUEST_BYTES req = Some r))"
    if "extract_bearer (hq_header req ''authorization'') = None"
    using layers(2) that by (auto simp: serve_def bearer_auth_def auth_of_def unauthorized_def Let_def split: option.splits)
  with layers show ?thesis by simp
qed auto

theorem public_routes_isolated_witness:
  "\<exists>s0 log r. build_server sample_app sample_config = Ok (sample_client, s0)
     \<and> router sample_app sample_ops True sample_config sample_client sample_app_io sample_public
         (sample_request\<lparr>hq_header := \<lambda>_. None\<rparr>) s0 = (Behind_layers (Answered r), log, s0) \<and> rs_status r = 401"
proof -
  let ?req = "sample_request\<lparr>hq_header := \<lambda>_. None\<rparr>"
  obtain s0 where s0: "build_server sample_app sample_config = Ok (sample_client, s0)"
    using sample_build by (auto simp: build_server_def)
  obtain ans log s' where
    r: "router sample_app sample_ops True sample_config sample_client sample_app_io sample_public ?req s0 = (ans, log, s')"
    by (metis prod_cases3)
  have "behind True (hq_path ?req)" "extract_bearer (hq_header ?req ''authorization'') = None"
    "ap_body_limit sample_app MAX_MCP_REQUEST_BYTES ?req = None"
    by (simp_all add: behind_def under_mcp_def sample_request_def extract_bearer_def sample_app_def)
  with public_routes_isolated [OF r, THEN conjunct2, THEN conjunct1] obtain resp where
    "ans = Behind_layers (Answered resp)" "s' = s0" "rs_status resp = 401" by auto
  with s0 r show ?thesis by blast
qed

text \<open>
  C22: discovery leads to login. For a loaded configuration, the challenge of a 401 names a metadata
  document this service serves; that document names the service as its own authorization server,
  which serves its metadata under the well-known path of that issuer; the authorize, token and
  registration endpoints advertised there and the callback given to the provider are routes of this
  service, with the method each is used with; the key set and the user information are advertised on the
  provider's own base, not here; and the advertised resource is the MCP route, whose
  URL is an accepted audience.
\<close>

definition served_at :: "'a config \<Rightarrow> string \<Rightarrow> string \<Rightarrow> endpoint \<Rightarrow> bool" where
  "served_at cfg url m ep \<longleftrightarrow>
     Option.bind (strip_prefix (cf_resource_url cfg) url) (map_of public_routes) = Some (m, ep)"

lemma served_at_simp: "served_at cfg (cf_resource_url cfg @ path) m ep \<longleftrightarrow> map_of public_routes path = Some (m, ep)"
  by (simp add: served_at_def strip_prefix_def)

theorem discovery_leads_to_login:
  assumes "config_from_env P A env = Ok cfg" "build_server E cfg = Ok (client, s0)"
    and "d = authorization_server_from_config cfg" "r = protected_resource_from_config cfg"
  shows "(\<exists>url. www_authenticate_header (cf_resource_url cfg) = ''Bearer resource_metadata='' @ [QUOT] @ url @ [QUOT]
        \<and> served_at cfg url ''GET'' Ep_Resource_Metadata)
    \<and> pr_authorization_servers r = [as_issuer d]
    \<and> served_at cfg (as_issuer d @ ''/.well-known/oauth-authorization-server'') ''GET'' Ep_Server_Metadata
    \<and> served_at cfg (as_authorization_endpoint d) ''GET'' Ep_Authorize
    \<and> served_at cfg (as_token_endpoint d) ''POST'' Ep_Token
    \<and> (\<forall>u. as_registration_endpoint d = Some u \<longrightarrow> served_at cfg u ''POST'' Ep_Register)
    \<and> as_jwks_uri d = cf_authorization_server cfg @ ''/jwks'' \<and> as_userinfo_endpoint d = cf_authorization_server cfg @ ''/me''
    \<and> served_at cfg (px_callback_url (rt_proxy s0)) ''GET'' Ep_Callback
    \<and> strip_prefix (cf_resource_url cfg) (pr_resource r) = Some ''/mcp'' \<and> behind layered ''/mcp''
    \<and> pr_resource r \<in> set (accepted_token_audiences cfg)"
proof -
  let ?us = "cf_resource_url cfg"
  have "?us = [] \<or> last ?us \<noteq> CHR ''/''"
    using config_from_env_resource_url [OF assms(1)] by (simp add: good_url_def)
  then have us: "trim_end_matches (CHR ''/'') ?us = ?us" by (rule trim_end_matches_idle)
  have "served_at cfg (?us @ ''/.well-known/oauth-protected-resource/mcp'') ''GET'' Ep_Resource_Metadata"
    unfolding served_at_simp by (simp add: public_routes_def)
  then have "\<exists>url. www_authenticate_header ?us = ''Bearer resource_metadata='' @ [QUOT] @ url @ [QUOT]
      \<and> served_at cfg url ''GET'' Ep_Resource_Metadata" by (fastforce simp: www_authenticate_header_def)
  moreover have "px_callback_url (rt_proxy s0) = ?us @ ''/oauth/callback''"
    using us by (simp add: build_server_parts(3) [OF assms(2)] proxy_new_def)
  moreover have "pr_resource r = ?us @ ''/mcp''" "pr_resource r \<in> set (accepted_token_audiences cfg)"
    using us by (simp_all add: assms(4) protected_resource_from_config_def mcp_resource_def audiences_set)
  ultimately show ?thesis
    unfolding assms(3,4)
    by (simp add: served_at_simp authorization_server_from_config_def protected_resource_from_config_def Let_def)
       (simp add: public_routes_def strip_prefix_def behind_def under_mcp_def)
qed

lemma sample_settings_start:
  "\<exists>cfg s0. config_from_env sample_url_parser sample_addrs sample_settings = Ok cfg
     \<and> build_server (sample_app\<lparr>ap_dav := sample_env\<lparr>ev_parse := \<lambda>_. Some (''h'', ''/'')\<rparr>\<rparr>) cfg = Ok s0"
proof -
  obtain cfg where c: "config_from_env sample_url_parser sample_addrs sample_settings = Ok cfg"
    "cf_stalwart_dav_base_url cfg = ''https://h''" "cf_dav_max_response_bytes cfg = DEFAULT_DAV_MAX_RESPONSE_BYTES"
    "cf_stalwart_connect_ip cfg = None" "cf_rate_limit_reads_per_min cfg = DEFAULT_RATE_LIMIT_READS"
    "cf_rate_limit_writes_per_min cfg = DEFAULT_RATE_LIMIT_WRITES" using sample_settings_loaded by blast
  have "accepted_token_audiences cfg \<noteq> []" using audiences_set [of cfg] by auto
  then have "\<exists>s0. build_server (sample_app\<lparr>ap_dav := sample_env\<lparr>ev_parse := \<lambda>_. Some (''h'', ''/'')\<rparr>\<rparr>) cfg = Ok s0"
    by (simp add: build_server_def build_app_def logto_new_def c(2-6) dav_client_new_def sample_env_def sample_join_def
        strip_prefix_def ends_with_def limiter_new_def DEFAULT_DAV_MAX_RESPONSE_BYTES_def DEFAULT_RATE_LIMIT_READS_def
        DEFAULT_RATE_LIMIT_WRITES_def Let_def)
  with c(1) show ?thesis by blast
qed

theorem discovery_leads_to_login_witness:
  "\<exists>cfg. config_from_env sample_url_parser sample_addrs sample_settings = Ok cfg
     \<and> served_at cfg (as_authorization_endpoint (authorization_server_from_config cfg)) ''GET'' Ep_Authorize"
proof -
  obtain cfg client s0 where c: "config_from_env sample_url_parser sample_addrs sample_settings = Ok cfg"
    "build_server (sample_app\<lparr>ap_dav := sample_env\<lparr>ev_parse := \<lambda>_. Some (''h'', ''/'')\<rparr>\<rparr>) cfg = Ok (client, s0)"
    using sample_settings_start by (metis prod.exhaust)
  from discovery_leads_to_login [OF c refl refl] c(1) show ?thesis by blast
qed

end
