(* ===== verification/Server_Tasks.thy ===== *)
theory Server_Tasks
  imports Server_Router Mcp_Tasks
begin

text \<open>
  The whole HTTP service under concurrent requests, \<open>src/src/main.rs\<close> with \<open>auth.rs\<close>: the router of
  \<open>Server_Router\<close> and the layers of \<open>Server_Main\<close> as programs over the state all requests share.

  \<^item> \<open>router_prog\<close> takes the request of task \<open>t\<close> through body limit, authentication, session limiter and
    route, cut at every lock, clock read and network wait of the parts. A public handler uses its state once,
    so it is one step. \<open>request_input\<close> is what a request brings, with what its handler reads
    from outside but the clocks.
  \<^item> Uninterrupted, the service is \<open>router\<close> (\<open>run_router_prog\<close>).
\<close>

record 'd request_input =
  ri_request :: http_request
  ri_public :: public_io
  ri_today :: 'd
  ri_random :: "char list"

subsection \<open>The layers\<close>

definition log_step :: "'t server_log \<Rightarrow> ('u, 'h, 'ip, 'k, 'q, 'b, 't) server_world \<Rightarrow> unit \<times> ('u, 'h, 'ip, 'k, 'q, 'b, 't) server_world" where
  "log_step entry w = ((), w\<lparr>sw_log := sw_log w @ [entry]\<rparr>)"

definition record_step ::
  "string \<Rightarrow> 'ip option \<Rightarrow> ('u, 'h, 'ip, 'k, 'q, 'b, 't) server_world \<Rightarrow> unit \<times> ('u, 'h, 'ip, 'k, 'q, 'b, 't) server_world" where
  "record_step th ip w = ((), w\<lparr>sw_last_used := record_use (sw_wall w) th ip (sw_last_used w)\<rparr>)"

definition bearer_auth_prog ::
  "('h, 'k, 'j, 'ip) auth_env \<Rightarrow> 'a config \<Rightarrow> (nat \<Rightarrow> 'j jwks_reply) \<Rightarrow> 't \<Rightarrow> http_request
     \<Rightarrow> ('u, 'h, 'ip, 'k, 'q, 'b, 't, http_response + http_request) server_prog" where
  "bearer_auth_prog E cfg reply t req =
     (case extract_bearer (hq_header req ''authorization'') of
        None \<Rightarrow> Ret (Inl (unauthorized (ae_header_valid E) (cf_resource_url cfg)))
      | Some tok \<Rightarrow>
          let th = hash_of E tok in
          bind_prog (oidc_part (validate_prog (ae_jwt E) reply t tok)) (\<lambda>r. case r of
            Inr (Some identity) \<Rightarrow>
              bind_prog (act (log_step (Validation t (audit_introspect th OUT_ACTIVE (ai_email identity))))) (\<lambda>_.
              bind_prog
                (if hq_path req = ''/token/introspect'' then Ret ()
                 else act (record_step th (parse_client_ip (ae_parse_ip E) (hq_header req ''x-forwarded-for'') (cf_trusted_proxy_hops cfg)))) (\<lambda>_.
              Ret (Inr (req\<lparr>hq_identity := Some identity, hq_token := Some tok\<rparr>))))
          | Inr None \<Rightarrow>
              bind_prog (act (log_step (Validation t (audit_introspect th OUT_INACTIVE None)))) (\<lambda>_.
              Ret (Inl (unauthorized (ae_header_valid E) (cf_resource_url cfg))))
          | Inl e \<Rightarrow>
              bind_prog (act (log_step (Validation t (audit_introspect th OUT_ERROR None)))) (\<lambda>_.
              Ret (Inl internal_error_response))))"

definition initialize_rate_limit_prog ::
  "('q, 'b) governor \<Rightarrow> (string \<Rightarrow> string) \<Rightarrow> 't \<Rightarrow> http_request
     \<Rightarrow> ('u, 'h, 'ip, 'k, 'q, 'b, 't, http_response + http_request) server_prog" where
  "initialize_rate_limit_prog G hash t req =
     (if \<not> is_fresh_mcp_session_request req then Ret (Inr req)
      else case hq_token req of
          None \<Rightarrow> Ret (Inl (plain_response 500 (''authenticated request missing token extension'' @ [LF])))
        | Some tok \<Rightarrow>
            (case hq_identity req of
               None \<Rightarrow> Ret (Inl (plain_response 500 (''authenticated request missing identity extension'' @ [LF])))
             | Some identity \<Rightarrow>
                 bind_prog (limits_part (init_prog G t (hash tok) (Some (ai_user_id identity)))) (\<lambda>r. case r of
                   Inl bucket \<Rightarrow>
                     bind_prog (act (log_step (Refusal t (rejected_as_str bucket)))) (\<lambda>_.
                     Ret (Inl (plain_response 429 (''too many MCP initialize requests; try again later'' @ [LF]))))
                 | Inr _ \<Rightarrow> Ret (Inr req))))"

subsection \<open>The routes\<close>

definition auth_state_at :: "('u, 'h, 'ip, 'k, 'q, 'b, 't) server_world \<Rightarrow> ('h, 'k, 'ip) auth_state" where
  "auth_state_at w = \<lparr>au_logto = ow_client (sw_oidc w), au_last_used = sw_last_used w\<rparr>"

definition introspect_step ::
  "('h, 'k, 'j, 'ip) auth_env \<Rightarrow> http_request \<Rightarrow> ('u, 'h, 'ip, 'k, 'q, 'b, 't) server_world
     \<Rightarrow> 'ip served \<times> ('u, 'h, 'ip, 'k, 'q, 'b, 't) server_world" where
  "introspect_step E req w =
     (case introspect_handler E (auth_state_at w) req of Inl resp \<Rightarrow> Answered resp | Inr r \<Rightarrow> Introspected r, w)"

definition ctx_in :: "'d request_input \<Rightarrow> http_request \<Rightarrow> 'd call_ctx" where
  "ctx_in inp req =
     \<lparr>cx_identity = hq_identity req, cx_token = hq_token req, cx_now = 0, cx_today = ri_today inp, cx_random = ri_random inp\<rparr>"

definition route_prog ::
  "('u, 'h, 'ip, 'k, 'j, 'q, 'b, 'd) app_env \<Rightarrow> ('u, 'ip) dav_client \<Rightarrow> 't \<Rightarrow> 'd request_input \<Rightarrow> http_request
     \<Rightarrow> ('u, 'h, 'ip, 'k, 'q, 'b, 't, 'ip served) server_prog" where
  "route_prog E client t inp req =
     (if hq_path req = ''/token/introspect'' then
        (if hq_method req \<notin> set [''GET'', ''HEAD''] then Ret (Answered (method_not_allowed ''GET,HEAD''))
         else act (introspect_step (ap_auth E) req))
      else if \<not> under_mcp (hq_path req) then Ret (Answered (empty_response 404))
      else case ap_rmcp E req of
          None \<Rightarrow> Ret Transported
        | Some call \<Rightarrow> bind_prog (mcp_prog (tools_of E client) t (ctx_in inp req) call) (\<lambda>r. Ret (Called r)))"

definition serve_prog ::
  "('u, 'h, 'ip, 'k, 'j, 'q, 'b, 'd) app_env \<Rightarrow> 'a config \<Rightarrow> ('u, 'ip) dav_client \<Rightarrow> (nat \<Rightarrow> 'j jwks_reply) \<Rightarrow> 't
     \<Rightarrow> 'd request_input \<Rightarrow> ('u, 'h, 'ip, 'k, 'q, 'b, 't, 'ip served) server_prog" where
  "serve_prog E cfg client reply t inp =
     (case ap_body_limit E MAX_MCP_REQUEST_BYTES (ri_request inp) of
        Some resp \<Rightarrow> Ret (Answered resp)
      | None \<Rightarrow>
          bind_prog (bearer_auth_prog (ap_auth E) cfg reply t (ri_request inp)) (\<lambda>r. case r of
            Inl resp \<Rightarrow> Ret (Answered resp)
          | Inr req1 \<Rightarrow>
              bind_prog (initialize_rate_limit_prog (ap_governor E) (hash_of (ap_auth E)) t req1) (\<lambda>r2. case r2 of
                Inl resp \<Rightarrow> Ret (Answered resp)
              | Inr req2 \<Rightarrow> route_prog E client t inp req2)))"

definition server_at :: "('u, 'h, 'ip, 'k, 'q, 'b, 't) server_world \<Rightarrow> ('u, 'h, 'ip, 'k, 'q, 'b) server" where
  "server_at w =
     \<lparr>rt_app = \<lparr>as_logto = ow_client (sw_oidc w), as_last_used = sw_last_used w, as_carddav = sw_carddav w,
                as_limiter = lw_limiter (sw_limits w), as_initialize = lw_initialize (sw_limits w)\<rparr>,
      rt_proxy = sw_proxy w, rt_upstream = sw_upstream w\<rparr>"

definition public_at :: "'d request_input \<Rightarrow> ('u, 'h, 'ip, 'k, 'q, 'b, 't) server_world \<Rightarrow> public_io" where
  "public_at inp w = (ri_public inp)\<lparr>pu_now := lw_now (sw_limits w), pu_wall := sw_wall w\<rparr>"

definition public_step ::
  "oauth_ops \<Rightarrow> 'a config \<Rightarrow> 'd request_input \<Rightarrow> endpoint \<Rightarrow> ('u, 'h, 'ip, 'k, 'q, 'b, 't) server_world
     \<Rightarrow> 'ip answer \<times> ('u, 'h, 'ip, 'k, 'q, 'b, 't) server_world" where
  "public_step W cfg inp ep w =
     (let (ans, s) = public_handler W cfg (public_at inp w) ep (server_at w)
      in (ans, w\<lparr>sw_proxy := rt_proxy s, sw_upstream := rt_upstream s\<rparr>))"

definition router_prog ::
  "('u, 'h, 'ip, 'k, 'j, 'q, 'b, 'd) app_env \<Rightarrow> oauth_ops \<Rightarrow> bool \<Rightarrow> 'a config \<Rightarrow> ('u, 'ip) dav_client
     \<Rightarrow> (nat \<Rightarrow> 'j jwks_reply) \<Rightarrow> 't \<Rightarrow> 'd request_input \<Rightarrow> ('u, 'h, 'ip, 'k, 'q, 'b, 't, 'ip answer) server_prog" where
  "router_prog E W layered cfg client reply t inp =
     (if behind layered (hq_path (ri_request inp)) then
        bind_prog (serve_prog E cfg client reply t inp) (\<lambda>out. Ret (Behind_layers out))
      else case map_of public_routes (hq_path (ri_request inp)) of
          None \<Rightarrow> Ret (Plain (empty_response 404))
        | Some (m, ep) \<Rightarrow>
            if \<not> takes m (hq_method (ri_request inp)) then Ret (Plain (method_not_allowed (allow m)))
            else act (public_step W cfg inp ep))"

subsection \<open>Uninterrupted, it is the router\<close>

definition app_io_at ::
  "(nat \<Rightarrow> 'j jwks_reply) \<Rightarrow> 'd request_input \<Rightarrow> ('u, 'h, 'ip, 'k, 'q, 'b, 't) server_world \<Rightarrow> ('j, 'd) app_io" where
  "app_io_at reply inp w =
     \<lparr>ai_auth = \<lparr>io_clocks = clocks_of (sw_oidc w), io_jwks_reply = reply (ow_sent (sw_oidc w)), io_wall = sw_wall w\<rparr>,
      ai_initialize_at = lw_now (sw_limits w), ai_tool_at = lw_now (sw_limits w), ai_today = ri_today inp,
      ai_random = ri_random inp\<rparr>"

definition log_entries :: "'t \<Rightarrow> instant \<Rightarrow> app_log \<Rightarrow> 't server_log list" where
  "log_entries t n log =
     map (Validation t) (lg_validations log)
     @ (case lg_refusal log of None \<Rightarrow> [] | Some b \<Rightarrow> [Refusal t b])
     @ (case lg_tool log of None \<Rightarrow> [] | Some ev \<Rightarrow> [ToolDone t n n ev])"

text \<open>What the layers leave as it was.\<close>

definition layer_same :: "('u, 'h, 'ip, 'k, 'q, 'b, 't) server_world \<Rightarrow> ('u, 'h, 'ip, 'k, 'q, 'b, 't) server_world \<Rightarrow> bool" where
  "layer_same w w' \<longleftrightarrow> sw_carddav w' = sw_carddav w \<and> sw_proxy w' = sw_proxy w \<and> sw_upstream w' = sw_upstream w
     \<and> lw_limiter (sw_limits w') = lw_limiter (sw_limits w) \<and> lw_now (sw_limits w') = lw_now (sw_limits w)
     \<and> ow_gate (sw_oidc w') = None"

lemma run_bearer_auth_prog:
  assumes run: "run (bearer_auth_prog E cfg reply t req) w = (r, w')" and gate: "ow_gate (sw_oidc w) = None"
  shows "\<exists>evs. bearer_auth E cfg \<lparr>io_clocks = clocks_of (sw_oidc w), io_jwks_reply = reply (ow_sent (sw_oidc w)), io_wall = sw_wall w\<rparr>
        req (auth_state_at w) = (r, auth_state_at w', evs)
    \<and> sw_log w' = sw_log w @ map (Validation t) evs \<and> layer_same w w' \<and> sw_limits w' = sw_limits w"
proof (cases "extract_bearer (hq_header req ''authorization'')")
  case None
  with run gate show ?thesis by (auto simp: bearer_auth_prog_def bearer_auth_def layer_same_def)
next
  case (Some tok)
  obtain v ow where v: "run (validate_prog (ae_jwt E) reply t tok) (sw_oidc w) = (v, ow)" by fastforce
  obtain v' c' sent where f: "validate_token (ae_jwt E) (clocks_of (sw_oidc w)) (reply (ow_sent (sw_oidc w))) tok (ow_client (sw_oidc w)) = (v', c', sent)"
    by (metis prod_cases3)
  from run_validate_prog [OF v gate f] have eq: "v' = v" "c' = ow_client ow" "ow_gate ow = None" by simp_all
  consider e where "v = Inl e" | "v = Inr None" | i where "v = Inr (Some i)" by (metis sum.exhaust option.exhaust)
  then show ?thesis
    by cases
      (use run Some v f eq in \<open>auto simp: bearer_auth_prog_def bearer_auth_def run_bind run_parts_of log_step_def record_step_def
        auth_state_at_def layer_same_def Let_def split: if_splits\<close>)
qed

lemma run_initialize_prog:
  assumes run: "run (initialize_rate_limit_prog G hash t req) w = (r, w')" and gate: "ow_gate (sw_oidc w) = None"
  shows "\<exists>refusal. initialize_rate_limit G hash (lw_now (sw_limits w)) req (lw_initialize (sw_limits w))
        = (r, lw_initialize (sw_limits w'), refusal)
    \<and> sw_log w' = sw_log w @ (case refusal of None \<Rightarrow> [] | Some b \<Rightarrow> [Refusal t b]) \<and> layer_same w w'
    \<and> sw_oidc w' = sw_oidc w \<and> sw_last_used w' = sw_last_used w \<and> sw_wall w' = sw_wall w"
proof (cases "is_fresh_mcp_session_request req \<and> hq_token req \<noteq> None \<and> hq_identity req \<noteq> None")
  case False
  with run gate show ?thesis
    by (auto simp: initialize_rate_limit_prog_def initialize_rate_limit_def layer_same_def split: if_splits option.splits)
next
  case True
  then obtain tok i where ti: "hq_token req = Some tok" "hq_identity req = Some i" by auto
  obtain v l where v: "run (init_prog G t (hash tok) (Some (ai_user_id i))) (sw_limits w) = (v, l)" by fastforce
  from run_init_prog [OF v] have eq: "init_check G (lw_now (sw_limits w)) (hash tok) (Some (ai_user_id i)) (lw_initialize (sw_limits w))
      = (v, lw_initialize l)" "lw_limiter l = lw_limiter (sw_limits w)" "lw_now l = lw_now (sw_limits w)" by simp_all
  show ?thesis
    by (cases v) (use run True ti v eq gate in \<open>auto simp: initialize_rate_limit_prog_def initialize_rate_limit_def run_bind run_parts_of
        log_step_def layer_same_def\<close>)
qed

lemma auth_of_at: "auth_of (rt_app (server_at w)) = auth_state_at w"
  by (simp add: auth_of_def auth_state_at_def server_at_def)

lemma ctx_in_now: "(ctx_in inp req)\<lparr>cx_now := lw_now (sw_limits w)\<rparr> = ctx_of (app_io_at reply inp w) req"
  by (simp add: ctx_in_def ctx_of_def app_io_at_def)

lemma run_route_prog:
  assumes run: "run (route_prog E client t inp req) w = (out, w')"
    and io: "(ctx_in inp req)\<lparr>cx_now := lw_now (sw_limits w)\<rparr> = ctx_of io req"
  shows "\<exists>ev. route E client io req (rt_app (server_at w)) = (out, ev, rt_app (server_at w'))
    \<and> sw_log w' = sw_log w @ (case ev of None \<Rightarrow> [] | Some e \<Rightarrow> [ToolDone t (lw_now (sw_limits w)) (lw_now (sw_limits w)) e])
    \<and> rest_same w w'"
proof (cases "hq_path req \<noteq> ''/token/introspect'' \<and> under_mcp (hq_path req) \<and> ap_rmcp E req \<noteq> None")
  case False
  from False run show ?thesis
    by (auto simp: route_prog_def route_def introspect_step_def auth_of_at split: if_splits sum.splits)
next
  case True
  then obtain call where call: "ap_rmcp E req = Some call" by auto
  obtain r v where r: "run (mcp_prog (tools_of E client) t (ctx_in inp req) call) w = (r, v)" by fastforce
  from run_mcp_prog [OF r] obtain ev where
    ev: "call_tool (tools_of E client) (ctx_of io req) call (service_at w) = (r, ev, service_at v)" "rest_same w v"
      "sw_log v = sw_log w @ (case ev of None \<Rightarrow> [] | Some e \<Rightarrow> [ToolDone t (lw_now (sw_limits w)) (lw_now (sw_limits w)) e])"
    unfolding io by blast
  have out: "out = Called r" "w' = v" using run True call r by (simp_all add: route_prog_def run_bind)
  have serv: "service_of (rt_app (server_at w)) = service_at w" by (simp add: service_of_def service_at_def server_at_def)
  have "rt_app (server_at v) = (rt_app (server_at w))\<lparr>as_carddav := sv_carddav (service_at v),
      as_logto := sv_logto (service_at v), as_limiter := sv_limiter (service_at v)\<rparr>"
    using ev(2) by (simp add: server_at_def service_at_def rest_same_def)
  with True call ev out serv show ?thesis by (intro exI [of _ ev]) (simp add: route_def)
qed

lemma run_serve_prog:
  assumes run: "run (serve_prog E cfg client reply t inp) w = (out, w')" and gate: "ow_gate (sw_oidc w) = None"
  shows "\<exists>log. serve E cfg client (app_io_at reply inp w) (ri_request inp) (rt_app (server_at w)) = (out, log, rt_app (server_at w'))
    \<and> sw_log w' = sw_log w @ log_entries t (lw_now (sw_limits w)) log
    \<and> sw_proxy w' = sw_proxy w \<and> sw_upstream w' = sw_upstream w \<and> ow_gate (sw_oidc w') = None"
proof (cases "ap_body_limit E MAX_MCP_REQUEST_BYTES (ri_request inp)")
  case (Some resp)
  with run gate show ?thesis by (auto simp: serve_prog_def serve_def log_entries_def)
next
  case None
  let ?io = "app_io_at reply inp w" and ?req = "ri_request inp" and ?n = "lw_now (sw_limits w)"
  obtain r v where b: "run (bearer_auth_prog (ap_auth E) cfg reply t ?req) w = (r, v)" by fastforce
  from run_bearer_auth_prog [OF b gate] obtain evs where
    ba: "bearer_auth (ap_auth E) cfg (ai_auth ?io) ?req (auth_of (rt_app (server_at w))) = (r, auth_state_at v, evs)"
      "sw_log v = sw_log w @ map (Validation t) evs" "layer_same w v" "sw_limits v = sw_limits w"
    by (auto simp: app_io_at_def auth_of_at)
  have st1: "(rt_app (server_at w))\<lparr>as_logto := au_logto (auth_state_at v), as_last_used := au_last_used (auth_state_at v)\<rparr>
      = rt_app (server_at v)"
    using ba(3,4) by (simp add: server_at_def auth_state_at_def layer_same_def)
  show ?thesis
  proof (cases r)
    case (Inl resp)
    with run None b have "out = Answered resp" "w' = v" by (auto simp: serve_prog_def run_bind)
    with ba st1 Inl None show ?thesis by (auto simp: serve_def log_entries_def layer_same_def)
  next
    case (Inr req1)
    obtain r2 u where i: "run (initialize_rate_limit_prog (ap_governor E) (hash_of (ap_auth E)) t req1) v = (r2, u)" by fastforce
    have "ow_gate (sw_oidc v) = None" using ba(3) by (simp add: layer_same_def)
    from run_initialize_prog [OF i this] ba(4) obtain refusal where
      il: "initialize_rate_limit (ap_governor E) (hash_of (ap_auth E)) ?n req1 (lw_initialize (sw_limits v)) = (r2, lw_initialize (sw_limits u), refusal)"
        "sw_log u = sw_log v @ (case refusal of None \<Rightarrow> [] | Some b \<Rightarrow> [Refusal t b])" "layer_same v u"
        "sw_oidc u = sw_oidc v" "sw_last_used u = sw_last_used v" by auto
    have at: "ai_initialize_at ?io = ?n" "as_initialize (rt_app (server_at v)) = lw_initialize (sw_limits v)"
      "as_initialize (rt_app (server_at w)) = lw_initialize (sw_limits v)"
      using ba(4) by (simp_all add: app_io_at_def server_at_def)
    have st2: "(rt_app (server_at v))\<lparr>as_initialize := lw_initialize (sw_limits u)\<rparr> = rt_app (server_at u)"
      using il(3-5) by (simp add: server_at_def layer_same_def)
    show ?thesis
    proof (cases r2)
      case (Inl resp)
      with run None b Inr i have r: "out = Answered resp" "w' = u" by (auto simp: serve_prog_def run_bind)
      have "serve E cfg client ?io ?req (rt_app (server_at w))
          = (out, \<lparr>lg_validations = evs, lg_refusal = refusal, lg_tool = None\<rparr>, rt_app (server_at w'))"
        using None ba(1) Inr st1 il(1) at st2 Inl r by (simp add: serve_def)
      with ba il r show ?thesis
        by (intro exI [of _ "\<lparr>lg_validations = evs, lg_refusal = refusal, lg_tool = None\<rparr>"])
          (auto simp: log_entries_def layer_same_def)
    next
      case (Inr req2)
      with run None b \<open>r = Inr req1\<close> i have r: "run (route_prog E client t inp req2) u = (out, w')" by (simp add: serve_prog_def run_bind)
      have now: "lw_now (sw_limits u) = ?n" using il(3) ba(4) by (simp add: layer_same_def)
      have "(ctx_in inp req2)\<lparr>cx_now := lw_now (sw_limits u)\<rparr> = ctx_of ?io req2"
        unfolding now by (rule ctx_in_now)
      from run_route_prog [OF r this] obtain ev where
        ro: "route E client ?io req2 (rt_app (server_at u)) = (out, ev, rt_app (server_at w'))"
          "sw_log w' = sw_log u @ (case ev of None \<Rightarrow> [] | Some e \<Rightarrow> [ToolDone t ?n ?n e])" "rest_same u w'"
        unfolding now by blast
      have "serve E cfg client ?io ?req (rt_app (server_at w))
          = (out, \<lparr>lg_validations = evs, lg_refusal = refusal, lg_tool = ev\<rparr>, rt_app (server_at w'))"
        using None ba(1) \<open>r = Inr req1\<close> st1 il(1) at st2 Inr ro(1) by (simp add: serve_def)
      with ba il ro show ?thesis
        by (intro exI [of _ "\<lparr>lg_validations = evs, lg_refusal = refusal, lg_tool = ev\<rparr>"])
          (auto simp: log_entries_def layer_same_def rest_same_def)
    qed
  qed
qed

lemma run_router_prog:
  assumes run: "run (router_prog E W layered cfg client reply t inp) w = (ans, w')" and gate: "ow_gate (sw_oidc w) = None"
  shows "\<exists>log. router E W layered cfg client (app_io_at reply inp w) (public_at inp w) (ri_request inp) (server_at w)
        = (ans, log, server_at w')
    \<and> sw_log w' = sw_log w @ log_entries t (lw_now (sw_limits w)) log \<and> ow_gate (sw_oidc w') = None"
proof (cases "behind layered (hq_path (ri_request inp))")
  case True
  obtain out v where s: "run (serve_prog E cfg client reply t inp) w = (out, v)" by fastforce
  with run True have r: "ans = Behind_layers out" "w' = v" by (simp_all add: router_prog_def run_bind)
  from run_serve_prog [OF s gate] obtain log where
    "serve E cfg client (app_io_at reply inp w) (ri_request inp) (rt_app (server_at w)) = (out, log, rt_app (server_at v))"
    "sw_log v = sw_log w @ log_entries t (lw_now (sw_limits w)) log" "sw_proxy v = sw_proxy w" "sw_upstream v = sw_upstream w"
    "ow_gate (sw_oidc v) = None" by blast
  with True r show ?thesis by (intro exI [of _ log]) (simp add: router_def, simp add: server_at_def)
next
  case False
  note out = this
  have no: "log_entries t n no_log = []" for n by (simp add: log_entries_def no_log_def)
  show ?thesis
  proof (cases "map_of public_routes (hq_path (ri_request inp))")
    case None
    with out run gate no show ?thesis by (auto simp: router_prog_def router_def)
  next
    case (Some me)
    obtain m ep where me: "me = (m, ep)" by fastforce
    show ?thesis
    proof (cases "takes m (hq_method (ri_request inp))")
      case False
      with out run gate no Some me show ?thesis by (auto simp: router_prog_def router_def)
    next
      case True
      obtain a s where h: "public_handler W cfg (public_at inp w) ep (server_at w) = (a, s)" by fastforce
      have app: "rt_app s = rt_app (server_at w)"
        using h by (auto simp: public_handler_def Let_def split: endpoint.splits sum.splits prod.splits)
      from out run Some me True h have "ans = a" "w' = w\<lparr>sw_proxy := rt_proxy s, sw_upstream := rt_upstream s\<rparr>"
        by (simp_all add: router_prog_def public_step_def)
      moreover from this app have "server_at w' = s" by (simp add: server_at_def)
      ultimately show ?thesis using out Some me True h gate no
        by (intro exI [of _ no_log]) (simp add: router_def)
    qed
  qed
qed

end
