(* ===== verification/Server_Pool.thy ===== *)
theory Server_Pool
  imports Server_Tasks
begin

text \<open>
  What the whole service keeps while requests are served concurrently (\<open>router_prog\<close> of
  \<open>Server_Tasks\<close>), whatever the order of their steps and whichever of them are dropped.

  \<^item> \<open>setting\<close> is what is fixed: how the service was started and what each task brings.
  \<^item> \<open>server_inv\<close> joins the invariants of the parts and says who vouches for each request in the CardDAV log:
    the task whose own bearer it carries, once that bearer was accepted and passed its limits (\<open>cleared\<close>).
  \<^item> \<open>server_safe\<close> is proved of each program from its parts, up to \<open>router_prog_safe\<close>, and
    \<open>server_pool_safe\<close> concludes that it holds in every state a pool of requests can reach.
\<close>

subsection \<open>What every state keeps\<close>

text \<open>What is fixed while requests come and go: how the service was started, and what each task brings.\<close>

record ('u, 'h, 'ip, 'k, 'j, 'q, 'b, 'd, 'a, 't) setting =
  se_env :: "('u, 'h, 'ip, 'k, 'j, 'q, 'b, 'd) app_env"
  se_ops :: oauth_ops
  se_layered :: bool
  se_config :: "'a config"
  se_client :: "('u, 'ip) dav_client"
  se_server :: "('u, 'h, 'ip, 'k, 'q, 'b) server"
  se_reply :: "nat \<Rightarrow> 'j jwks_reply"
  se_input :: "'t \<Rightarrow> 'd request_input"

abbreviation se_jwt where "se_jwt S \<equiv> ae_jwt (ap_auth (se_env S))"
abbreviation se_dav where "se_dav S \<equiv> ap_dav (se_env S)"
abbreviation se_logto where "se_logto S \<equiv> as_logto (rt_app (se_server S))"
abbreviation se_request where "se_request S t \<equiv> ri_request (se_input S t)"
abbreviation se_quotas where
  "se_quotas S \<equiv> quota_of (ap_governor (se_env S)) (as_limiter (rt_app (se_server S))) (as_initialize (rt_app (se_server S)))"

text \<open>
  A task is cleared to send a bearer: the bearer is the one of its own request, which goes to \<open>/mcp\<close>; it
  was accepted for this task; and this task passed the bearer's and the user's tool-call limit.
\<close>

definition cleared ::
  "('u, 'h, 'ip, 'k, 'j, 'q, 'b, 'd, 'a, 't) setting \<Rightarrow> 't \<Rightarrow> string \<Rightarrow> ('u, 'h, 'ip, 'k, 'q, 'b, 't) server_world \<Rightarrow> bool" where
  "cleared S t tok w \<longleftrightarrow>
     extract_bearer (hq_header (se_request S t) ''authorization'') = Some tok \<and> under_mcp (hq_path (se_request S t))
     \<and> (\<exists>i c. accepted_by (se_jwt S) t tok i (sw_oidc w)
          \<and> passed (sw_limits w) t (BearerSlot c) (hash_of (ap_auth (se_env S)) tok)
          \<and> passed (sw_limits w) t (SubSlot c) (ai_user_id i))"

definition vouched ::
  "('u, 'h, 'ip, 'k, 'j, 'q, 'b, 'd, 'a, 't) setting \<Rightarrow> ('u, 'h, 'ip, 'k, 'q, 'b, 't) server_world \<Rightarrow> bool" where
  "vouched S w \<longleftrightarrow> (\<forall>q \<in> set (ds_sent (sw_carddav w)). \<exists>t tok. cleared S t tok w \<and> confined (se_dav S) (se_client S) tok q)"

definition server_inv ::
  "('u, 'h, 'ip, 'k, 'j, 'q, 'b, 'd, 'a, 't) setting \<Rightarrow> instant \<Rightarrow> ('u, 'h, 'ip, 'k, 'q, 'b, 't) server_world \<Rightarrow> bool" where
  "server_inv S t0 w \<longleftrightarrow> dav_inv (se_dav S) (se_client S) (sw_carddav w)
     \<and> world_inv (se_jwt S) (se_reply S) (se_logto S) (sw_oidc w)
     \<and> limits_inv (ap_governor (se_env S)) t0 (se_quotas S) (\<lambda>_ _ _. True) (sw_limits w)
     \<and> tracker.inv (sw_last_used w) \<and> vouched S w
     \<and> (\<exists>f. proxy_reach (se_ops S) (rt_proxy (se_server S)) f (sw_proxy w))"

definition server_fwd :: "('u, 'h, 'ip, 'k, 'q, 'b, 't) server_world \<Rightarrow> ('u, 'h, 'ip, 'k, 'q, 'b, 't) server_world \<Rightarrow> bool" where
  "server_fwd w w' \<longleftrightarrow> grows (sw_oidc w) (sw_oidc w') \<and> dav_rely (sw_carddav w) (sw_carddav w')
     \<and> limits_fwd (sw_limits w) (sw_limits w')"

definition server_rely :: "'t \<Rightarrow> ('u, 'h, 'ip, 'k, 'q, 'b, 't) server_world \<Rightarrow> ('u, 'h, 'ip, 'k, 'q, 'b, 't) server_world \<Rightarrow> bool" where
  "server_rely t w w' \<longleftrightarrow> server_fwd w w' \<and> oidc_rely t (sw_oidc w) (sw_oidc w')"

definition server_guar :: "'t \<Rightarrow> ('u, 'h, 'ip, 'k, 'q, 'b, 't) server_world \<Rightarrow> ('u, 'h, 'ip, 'k, 'q, 'b, 't) server_world \<Rightarrow> bool" where
  "server_guar t w w' \<longleftrightarrow> server_fwd w w' \<and> oidc_guar t (sw_oidc w) (sw_oidc w')"

abbreviation server_safe where
  "server_safe S t0 t \<equiv> safe (server_inv S t0) (server_rely t) (server_guar t)"

lemma fwd_refl [simp]: "dav_rely d d" "limits_fwd l l"
  by (rule reflpD [OF dav_rely_refl], rule reflpD [OF limits_fwd_refl])

lemma server_fwd_refl [simp]: "server_fwd w w"
  by (simp add: server_fwd_def)

lemma server_fwd_trans: "server_fwd u v \<Longrightarrow> server_fwd v w \<Longrightarrow> server_fwd u w"
  using dav_rely_trans limits_fwd_trans unfolding server_fwd_def transp_def grows_def by (meson order_trans)

lemma server_rely_refl: "reflp (server_rely t)"
  using oidc_rely_refl [of t] by (auto simp: server_rely_def reflp_def)

lemma server_rely_trans: "transp (server_rely t)"
  using oidc_rely_trans [of t] unfolding server_rely_def transp_def by (blast intro: server_fwd_trans)

lemma server_guar_refl [simp]: "server_guar t w w"
  by (simp add: server_guar_def)

lemma server_guar_others: "t \<noteq> u \<Longrightarrow> server_guar t w w' \<Longrightarrow> server_rely u w w'"
  by (auto simp: server_guar_def server_rely_def intro: oidc_others)

lemma rely_fwd: "server_rely t w w' \<Longrightarrow> server_fwd w w'" and guar_fwd: "server_guar t w w' \<Longrightarrow> server_fwd w w'"
  by (simp_all add: server_rely_def server_guar_def)

lemma cleared_fwd: "cleared S t tok w \<Longrightarrow> server_fwd w w' \<Longrightarrow> cleared S t tok w'"
  unfolding cleared_def server_fwd_def by (meson accepted_by_grows passed_fwd)

lemma vouched_more:
  assumes "vouched S w" "server_fwd w w'" "ds_sent (sw_carddav w') = ds_sent (sw_carddav w) @ new"
    and "new \<noteq> [] \<Longrightarrow> cleared S t tok w \<and> list_all (confined (se_dav S) (se_client S) tok) new"
  shows "vouched S w'"
  unfolding vouched_def
proof
  fix q assume "q \<in> set (ds_sent (sw_carddav w'))"
  then consider "q \<in> set (ds_sent (sw_carddav w))" | "q \<in> set new" by (auto simp: assms(3))
  then show "\<exists>t tok. cleared S t tok w' \<and> confined (se_dav S) (se_client S) tok q"
  proof cases
    case 1
    with assms(1) cleared_fwd [OF _ assms(2)] show ?thesis unfolding vouched_def by blast
  next
    case 2
    then have "new \<noteq> []" by auto
    with assms(4) 2 have "cleared S t tok w" "confined (se_dav S) (se_client S) tok q" by (simp_all add: list_all_iff)
    with cleared_fwd [OF _ assms(2)] show ?thesis by blast
  qed
qed

lemma vouched_same: "vouched S w \<Longrightarrow> server_fwd w w' \<Longrightarrow> sw_carddav w' = sw_carddav w \<Longrightarrow> vouched S w'"
  by (rule vouched_more [where new = "[]"]) simp_all

text \<open>The programs of the parts.\<close>

lemma server_knows:
  assumes "server_safe S t0 t Q p w" "K w" "\<And>w w'. K w \<Longrightarrow> server_fwd w w' \<Longrightarrow> K w'"
  shows "server_safe S t0 t (\<lambda>a w. Q a w \<and> K w) p w"
proof (rule safe_frame [where K = K])
  show "K v'" if "K v" "server_rely t v v'" for v v' by (rule assms(3) [OF that(1) rely_fwd [OF that(2)]])
  show "K v'" if "K v" "server_guar t v v'" for v v' by (rule assms(3) [OF that(1) guar_fwd [OF that(2)]])
qed (rule assms(1,2))+

lemma oidc_part_safe:
  assumes "oidc_safe (se_jwt S) (se_reply S) (se_logto S) t Q p (sw_oidc w)"
  shows "server_safe S t0 t (\<lambda>a v. Q a (sw_oidc v)) (oidc_part p) w"
  unfolding oidc_part_def
proof (rule safe_zoom [where get = sw_oidc and s = "sw_oidc w" and Q = Q and S = "oidc_rely t"])
  fix v and s assume v: "server_inv S t0 v" "world_inv (se_jwt S) (se_reply S) (se_logto S) s" "oidc_guar t (sw_oidc v) s"
  let ?v = "v\<lparr>sw_oidc := s\<rparr>"
  from v(3) have fwd: "server_fwd v ?v"
    by (auto simp: server_fwd_def oidc_guar_def)
  have "vouched S ?v" by (rule vouched_same [OF _ fwd]) (use v(1) in \<open>simp_all add: server_inv_def\<close>)
  with v fwd show "server_inv S t0 ?v \<and> server_guar t v ?v" by (auto simp: server_inv_def server_guar_def)
qed (use assms in \<open>auto simp: server_inv_def server_rely_def\<close>)

lemma limits_part_safe:
  assumes "limits_safe (ap_governor (se_env S)) t0 (se_quotas S) (\<lambda>_ _ _. True) Q p (sw_limits w)"
  shows "server_safe S t0 t (\<lambda>a v. Q a (sw_limits v)) (limits_part p) w"
  unfolding limits_part_def
proof (rule safe_zoom [where get = sw_limits and s = "sw_limits w" and Q = Q and S = limits_fwd])
  fix v and s assume v: "server_inv S t0 v" "limits_inv (ap_governor (se_env S)) t0 (se_quotas S) (\<lambda>_ _ _. True) s"
    "limits_fwd (sw_limits v) s"
  let ?v = "v\<lparr>sw_limits := s\<rparr>"
  from v(3) have fwd: "server_fwd v ?v"
    by (simp add: server_fwd_def)
  have "vouched S ?v" by (rule vouched_same [OF _ fwd]) (use v(1) in \<open>simp_all add: server_inv_def\<close>)
  with v fwd show "server_inv S t0 ?v \<and> server_guar t v ?v" by (auto simp: server_inv_def server_guar_def)
qed (use assms in \<open>auto simp: server_inv_def server_rely_def server_fwd_def\<close>)

text \<open>A cleared task may run the client's operations with its bearer.\<close>

lemma dav_part_safe:
  fixes w :: "('u, 'h, 'ip, 'k, 'q, 'b, 't) server_world" and p :: "(('u, 'h) dav_state, 'r) prog"
  assumes "dav_safe (se_dav S) (se_client S) tok Q p (sw_carddav w)" "cleared S t tok w"
  shows "server_safe S t0 t (\<lambda>a v. Q a (sw_carddav v) \<and> cleared S t tok v) (dav_part p) w"
  using assms
proof (induction p arbitrary: w rule: prog_induct)
  case (Ret r)
  then show ?case by (simp add: dav_part_def)
next
  case (Step g d f)
  have up: "server_inv S t0 (v\<lparr>sw_carddav := s\<rparr>) \<and> server_guar t v (v\<lparr>sw_carddav := s\<rparr>)"
    if "server_inv S t0 v" "cleared S t tok v" "dav_inv (se_dav S) (se_client S) s"
      "dav_guar (se_dav S) (se_client S) tok (sw_carddav v) s" for v s
  proof -
    let ?v = "v\<lparr>sw_carddav := s\<rparr>"
    have fwd: "server_fwd v ?v"
      using dav_guar_rely [OF that(4)] by (simp add: server_fwd_def)
    from that(4) obtain new where new: "ds_sent s = ds_sent (sw_carddav v) @ new"
      "list_all (confined (se_dav S) (se_client S) tok) new" by (auto simp: dav_guar_def)
    have "vouched S ?v"
      by (rule vouched_more [OF _ fwd, where new = new and t = t and tok = tok]) (use that(1,2) new in \<open>simp_all add: server_inv_def\<close>)
    with that fwd show ?thesis by (auto simp: server_inv_def server_guar_def)
  qed
  show ?case
    unfolding dav_part_def zoom.simps
  proof (rule safe_StepI)
    fix v assume v: "server_rely t w v" "server_inv S t0 v"
    then have k: "cleared S t tok v" "dav_rely (sw_carddav w) (sw_carddav v)" "dav_inv (se_dav S) (se_client S) (sw_carddav v)"
      using Step.prems(2) by (auto simp: server_rely_def server_fwd_def server_inv_def intro: cleared_fwd)
    with Step.prems(1) have "dav_inv (se_dav S) (se_client S) (d (sw_carddav v))"
      "dav_guar (se_dav S) (se_client S) tok (sw_carddav v) (d (sw_carddav v))" by (auto simp: safe_Step)
    from up [OF v(2) k(1) this] show "server_inv S t0 (v\<lparr>sw_carddav := d (sw_carddav v)\<rparr>)
        \<and> server_guar t v (v\<lparr>sw_carddav := d (sw_carddav v)\<rparr>)" .
  next
    fix v v' :: "('u, 'h, 'ip, 'k, 'q, 'b, 't) server_world" and k' :: "('u, 'h, 'ip, 'k, 'q, 'b, 't, 'r) server_prog"
    assume v: "server_rely t w v" "server_inv S t0 v" "g (sw_carddav v)"
      "(case map_prod id (zoom sw_carddav (\<lambda>d w. w\<lparr>sw_carddav := d\<rparr>)) (f (sw_carddav v)) of (s, p) \<Rightarrow> (v\<lparr>sw_carddav := s\<rparr>, p)) = (v', k')"
    then have k: "cleared S t tok v" "dav_rely (sw_carddav w) (sw_carddav v)" "dav_inv (se_dav S) (se_client S) (sw_carddav v)"
      using Step.prems(2) by (auto simp: server_rely_def server_fwd_def server_inv_def intro: cleared_fwd)
    obtain s p where f: "f (sw_carddav v) = (s, p)" by fastforce
    with Step.prems(1) k v(3) have n: "dav_inv (se_dav S) (se_client S) s" "dav_guar (se_dav S) (se_client S) tok (sw_carddav v) s"
      "dav_safe (se_dav S) (se_client S) tok Q p s" by (auto simp: safe_Step)
    from v(4) f have v': "v' = v\<lparr>sw_carddav := s\<rparr>" "k' = dav_part p" by (auto simp: dav_part_def)
    note u = up [OF v(2) k(1) n(1,2)]
    have "cleared S t tok v'" unfolding v' by (rule cleared_fwd [OF k(1)]) (use u in \<open>simp add: server_guar_def\<close>)
    with Step.IH [of "sw_carddav v" v'] f n(3) v' u show "server_inv S t0 v' \<and> server_guar t v v'
        \<and> safe (server_inv S t0) (server_rely t) (server_guar t) (\<lambda>a v. Q a (sw_carddav v) \<and> cleared S t tok v) k' v'" by simp
  qed
qed

subsection \<open>A tool sends only what it is cleared for\<close>

definition may_send ::
  "('u, 'h, 'ip, 'k, 'j, 'q, 'b, 'd, 'a, 't) setting \<Rightarrow> instant \<Rightarrow> 't \<Rightarrow> string \<Rightarrow> ('u, 'h, 'ip, 'k, 'q, 'b, 't, 'r) server_prog \<Rightarrow> bool" where
  "may_send S t0 t tok p \<longleftrightarrow> (\<forall>w. cleared S t tok w \<longrightarrow> server_safe S t0 t (\<lambda>_. cleared S t tok) p w)"

named_theorems may_send_intros \<open>programs of a cleared task\<close>

definition se_tools where
  "se_tools S = tools_of (se_env S) (se_client S)"

lemma se_tools_fields [simp]:
  "tv_dav (se_tools S) = se_dav S" "tv_client (se_tools S) = se_client S" "tv_jwt (se_tools S) = se_jwt S"
  "tv_governor (se_tools S) = ap_governor (se_env S)"
  "token_hash (tv_sha (se_tools S)) (tv_hex (se_tools S)) tok = hash_of (ap_auth (se_env S)) tok"
  by (simp_all add: se_tools_def hash_of_def)

lemma may_send_Ret [may_send_intros]: "may_send S t0 t tok (Ret r)"
  by (simp add: may_send_def)

lemma may_send_if [may_send_intros]: "may_send S t0 t tok p \<Longrightarrow> may_send S t0 t tok q \<Longrightarrow> may_send S t0 t tok (if b then p else q)"
  by simp

lemma may_send_try [may_send_intros]:
  "may_send S t0 t tok p \<Longrightarrow> (\<And>a. may_send S t0 t tok (f a)) \<Longrightarrow> may_send S t0 t tok (try_prog p f)"
  unfolding may_send_def
  by (auto intro!: safe_try [where Q = "\<lambda>_. cleared S t tok"] elim!: safe_weaken split: sum.splits)

lemma may_send_dav [may_send_intros]:
  "dav_keeps (se_dav S) (se_client S) tok p \<Longrightarrow> may_send S t0 t tok (dav_call_prog T p)"
  unfolding may_send_def dav_call_prog_def dav_keeps_def
  by (auto intro!: safe_bind [OF dav_part_safe])

lemma may_send_parts [may_send_intros]:
  "may_send S t0 t tok (identity_prog ctx)" "may_send S t0 t tok (fallible_prog r)"
  by (simp_all add: identity_prog_def fallible_prog_def may_send_Ret)

lemma may_send_token:
  "cx_token ctx = Some tok \<Longrightarrow> may_send S t0 t tok (f tok) \<Longrightarrow> may_send S t0 t tok (try_prog (token_prog ctx) f)"
  by (simp add: token_prog_def try_prog_def)

definition client_ok :: "('u, 'h, 'ip, 'k, 'j, 'q, 'b, 'd, 'a, 't) setting \<Rightarrow> bool" where
  "client_ok S \<longleftrightarrow> url_laws (se_dav S) \<and> well_formed_client (se_dav S) (se_client S)"

lemma client_keeps:
  assumes "client_ok S"
  shows "dav_keeps (se_dav S) (se_client S) tok (discover_prog (se_dav S) (se_client S) tok)"
    "dav_keeps (se_dav S) (se_client S) tok (list_address_books_prog (se_dav S) (se_client S) tok)"
    "dav_keeps (se_dav S) (se_client S) tok (list_contacts_prog (se_dav S) (se_client S) tok book)"
    "dav_keeps (se_dav S) (se_client S) tok (search_contacts_prog (se_dav S) (se_client S) tok book query)"
    "dav_keeps (se_dav S) (se_client S) tok (get_contact_prog (se_dav S) (se_client S) tok href)"
    "dav_keeps (se_dav S) (se_client S) tok (create_contact_prog (se_dav S) (se_client S) tok book uid vcard)"
    "dav_keeps (se_dav S) (se_client S) tok (update_contact_prog (se_dav S) (se_client S) tok href etag vcard)"
    "dav_keeps (se_dav S) (se_client S) tok (delete_contact_prog (se_dav S) (se_client S) tok href etag)"
  using assms unfolding client_ok_def
  by (auto intro: dav_keeps_discover dav_keeps_list_books dav_keeps_ops dav_keeps_create)

lemma may_send_books: "client_ok S \<Longrightarrow> may_send S t0 t tok (books_prog (se_tools S) tok href)"
  unfolding books_prog_def by (cases href) (auto intro!: may_send_intros client_keeps)

lemma may_send_search: "client_ok S \<Longrightarrow> may_send S t0 t tok (search_books_prog (se_tools S) tok query limit seen contacts hrefs)"
proof (induction hrefs arbitrary: seen contacts)
  case (Cons href hrefs)
  show ?case
    unfolding search_books_prog.simps Let_def split_beta se_tools_fields
    by (intro may_send_intros client_keeps Cons.IH Cons.prems)
qed (simp add: may_send_Ret)

lemma may_send_scan: "client_ok S \<Longrightarrow> may_send S t0 t tok (scan_books_prog (se_tools S) tok today days hrefs acc)"
proof (induction hrefs arbitrary: acc)
  case (Cons href hrefs)
  show ?case
    unfolding scan_books_prog.simps se_tools_fields
    by (intro may_send_intros client_keeps Cons.IH Cons.prems)
qed (simp add: may_send_Ret)

text \<open>The context of a call whose bearer was accepted for the task.\<close>

definition accepted_ctx ::
  "('u, 'h, 'ip, 'k, 'j, 'q, 'b, 'd, 'a, 't) setting \<Rightarrow> 't \<Rightarrow> string \<Rightarrow> 'd call_ctx \<Rightarrow> ('u, 'h, 'ip, 'k, 'q, 'b, 't) server_world \<Rightarrow> bool" where
  "accepted_ctx S t tok ctx w \<longleftrightarrow>
     extract_bearer (hq_header (se_request S t) ''authorization'') = Some tok \<and> under_mcp (hq_path (se_request S t))
     \<and> cx_token ctx = Some tok \<and> (\<exists>i. cx_identity ctx = Some i \<and> accepted_by (se_jwt S) t tok i (sw_oidc w))"

lemma accepted_ctx_fwd: "accepted_ctx S t tok ctx w \<Longrightarrow> server_fwd w w' \<Longrightarrow> accepted_ctx S t tok ctx w'"
  unfolding accepted_ctx_def server_fwd_def by (meson accepted_by_grows)

lemma rate_limit_safe:
  fixes w :: "('u, 'h, 'ip, 'k, 'q, 'b, 't) server_world"
  assumes "accepted_ctx S t tok ctx w"
  shows "server_safe S t0 t (\<lambda>r v. is_ok r \<longrightarrow> cleared S t tok v) (rate_limit_prog (se_tools S) t ctx c) w"
proof -
  from assms obtain i where i: "cx_token ctx = Some tok" "cx_identity ctx = Some i" by (auto simp: accepted_ctx_def)
  let ?h = "hash_of (ap_auth (se_env S)) tok" and ?G = "ap_governor (se_env S)"
  let ?Q = "\<lambda>r l. is_ok r \<longrightarrow> passed l t (BearerSlot c) ?h \<and> (\<forall>k. Some (ai_user_id i) = Some k \<longrightarrow> passed l t (SubSlot c) k)"
  have "limits_safe ?G t0 (se_quotas S) (\<lambda>_ _ _. True) ?Q (limiter_prog ?G t ?h (Some (ai_user_id i)) c) (sw_limits w)"
    by (rule limiter_prog_safe) simp_all
  from server_knows [where K = "accepted_ctx S t tok ctx", OF limits_part_safe [OF this] assms accepted_ctx_fwd]
  have lim: "server_safe S t0 t (\<lambda>r v. ?Q r (sw_limits v) \<and> accepted_ctx S t tok ctx v)
      (limits_part (limiter_prog ?G t ?h (Some (ai_user_id i)) c)) w" .
  have "server_safe S t0 t (\<lambda>r v. is_ok r \<longrightarrow> cleared S t tok v)
      (bind_prog (limits_part (limiter_prog ?G t ?h (Some (ai_user_id i)) c)) (\<lambda>r. Ret (map_err (\<lambda>_. Fail rate_limit_err) r))) w"
  proof (rule safe_bind [OF lim])
    fix r and v :: "('u, 'h, 'ip, 'k, 'q, 'b, 't) server_world" assume v: "?Q r (sw_limits v) \<and> accepted_ctx S t tok ctx v"
    then have "cleared S t tok v" if "is_ok r" using that i(2) by (auto simp: cleared_def accepted_ctx_def)
    then show "server_safe S t0 t (\<lambda>r v. is_ok r \<longrightarrow> cleared S t tok v) (Ret (map_err (\<lambda>_. Fail rate_limit_err) r)) v"
      by (cases r) simp_all
  qed
  with i show ?thesis
    by (simp add: rate_limit_prog_def token_prog_def identity_prog_def try_prog_def)
qed

lemma gated_safe_body:
  assumes "accepted_ctx S t tok ctx w" "\<And>a. may_send S t0 t tok (f a)"
  shows "server_safe S t0 t (\<lambda>r v. is_ok r \<longrightarrow> cleared S t tok v) (try_prog (rate_limit_prog (se_tools S) t ctx c) f) w"
proof (rule safe_try [where Q = "\<lambda>_. cleared S t tok"])
  show "server_safe S t0 t (\<lambda>r v. case r of Inl e \<Rightarrow> is_ok (Inl e) \<longrightarrow> cleared S t tok v | Inr a \<Rightarrow> cleared S t tok v)
      (rate_limit_prog (se_tools S) t ctx c) w"
    by (rule safe_weaken [OF rate_limit_safe [OF assms(1)]]) (auto split: sum.splits)
  show "server_safe S t0 t (\<lambda>r v. is_ok r \<longrightarrow> cleared S t tok v) (f a) v" if "cleared S t tok v" for a v
    by (rule safe_weaken [where Q = "\<lambda>_. cleared S t tok"]) (use assms(2) [of a] that in \<open>simp_all add: may_send_def\<close>)
qed

lemma body_prog_safe:
  assumes "client_ok S" "accepted_ctx S t tok ctx w"
  shows "server_safe S t0 t (\<lambda>r v. is_ok r \<longrightarrow> cleared S t tok v) (body_prog (se_tools S) t ctx call) w"
proof -
  have tok: "cx_token ctx = Some tok" using assms(2) by (simp add: accepted_ctx_def)
  show ?thesis
    by (cases call; simp only: body_prog.simps whoami_prog_def tool_list_address_books_prog_def tool_list_contacts_prog_def
        tool_upcoming_birthdays_prog_def tool_search_contacts_prog_def tool_create_contact_prog_def tool_update_contact_prog_def
        tool_delete_contact_prog_def Let_def se_tools_fields; rule gated_safe_body [OF assms(2)];
      intro may_send_if may_send_token [OF tok] may_send_books may_send_search may_send_scan may_send_intros client_keeps assms(1))
qed

subsection \<open>The handlers and the layers\<close>

lemma server_act:
  assumes "\<And>v a v'. server_fwd w v \<Longrightarrow> server_inv S t0 v \<Longrightarrow> f v = (a, v') \<Longrightarrow>
      server_inv S t0 v' \<and> server_guar t v v' \<and> Q a v'"
  shows "server_safe S t0 t Q (act f) w"
proof (rule safe_act)
  show "server_inv S t0 v' \<and> server_guar t v v' \<and> Q a v'" if "server_rely t w v" "server_inv S t0 v" "f v = (a, v')" for v a v'
    by (rule assms [OF rely_fwd [OF that(1)] that(2,3)])
qed simp

text \<open>A step that touches neither the log of requests, the validation client nor the limits.\<close>

lemma server_inv_aside:
  assumes "server_inv S t0 v" "sw_carddav v' = sw_carddav v" "sw_oidc v' = sw_oidc v" "sw_limits v' = sw_limits v"
    and "tracker.inv (sw_last_used v')" "\<exists>f. proxy_reach (se_ops S) (rt_proxy (se_server S)) f (sw_proxy v')"
  shows "server_inv S t0 v' \<and> server_guar t v v'"
proof -
  have fwd: "server_fwd v v'" using server_fwd_refl [of v] assms(2-4) by (simp add: server_fwd_def)
  have "vouched S v'" by (rule vouched_same [OF _ fwd]) (use assms(1,2) in \<open>simp_all add: server_inv_def\<close>)
  with assms fwd show ?thesis by (simp add: server_inv_def server_guar_def)
qed

lemma server_act_aside:
  assumes "\<And>v a v'. server_fwd w v \<Longrightarrow> server_inv S t0 v \<Longrightarrow> f v = (a, v') \<Longrightarrow>
      sw_carddav v' = sw_carddav v \<and> sw_oidc v' = sw_oidc v \<and> sw_limits v' = sw_limits v
      \<and> tracker.inv (sw_last_used v') \<and> (\<exists>f. proxy_reach (se_ops S) (rt_proxy (se_server S)) f (sw_proxy v')) \<and> Q a v'"
  shows "server_safe S t0 t Q (act f) w"
proof (rule server_act)
  fix v a v' assume v: "server_fwd w v" "server_inv S t0 v" "f v = (a, v')"
  with assms [OF this] server_inv_aside [OF v(2), of v' t] show "server_inv S t0 v' \<and> server_guar t v v' \<and> Q a v'" by blast
qed

lemma log_step_safe: "K w \<Longrightarrow> (\<And>w w'. K w \<Longrightarrow> server_fwd w w' \<Longrightarrow> K w') \<Longrightarrow> server_safe S t0 t (\<lambda>_. K) (act (log_step e)) w"
proof (rule server_act_aside)
  fix v a v' assume k: "K w" "\<And>w w'. K w \<Longrightarrow> server_fwd w w' \<Longrightarrow> K w'"
    and v: "server_fwd w v" "server_inv S t0 v" "log_step e v = (a, v')"
  then have v': "v' = v\<lparr>sw_log := sw_log v @ [e]\<rparr>" by (simp add: log_step_def)
  have "server_fwd v v'" using server_fwd_refl [of v] by (simp add: v' server_fwd_def)
  with k v(1) have "K v'" by blast
  with v(2) show "sw_carddav v' = sw_carddav v \<and> sw_oidc v' = sw_oidc v \<and> sw_limits v' = sw_limits v
      \<and> tracker.inv (sw_last_used v') \<and> (\<exists>f. proxy_reach (se_ops S) (rt_proxy (se_server S)) f (sw_proxy v')) \<and> K v'"
    by (simp add: v' server_inv_def)
qed

lemma dav_part_act: "dav_part (act f) = act (\<lambda>w. case f (sw_carddav w) of (a, d) \<Rightarrow> (a, w\<lparr>sw_carddav := d\<rparr>))"
  by (simp add: dav_part_def act_def fun_eq_iff split: prod.splits)

lemma evict_safe: "server_safe S t0 t (\<lambda>_ _. True) (dav_part (act (\<lambda>d. ((), evict (se_dav S) tok d)))) w"
  unfolding dav_part_act
proof (rule server_act)
  fix v :: "('a, 'b, 'c, 'd, 'e, 'f, 'g) server_world" and a v'
  assume v: "server_inv S t0 v"
    "(case ((), evict (se_dav S) tok (sw_carddav v)) of (a, d) \<Rightarrow> (a, v\<lparr>sw_carddav := d\<rparr>)) = (a, v')"
  let ?d = "evict (se_dav S) tok (sw_carddav v)"
  from v(2) have v': "v' = v\<lparr>sw_carddav := ?d\<rparr>" by simp
  have d: "ds_sent ?d = ds_sent (sw_carddav v)" "ds_ticks ?d = ds_ticks (sw_carddav v)" by (simp_all add: evict_def)
  have fwd: "server_fwd v v'"
    using server_fwd_refl [of v] by (simp add: v' server_fwd_def dav_rely_def d)
  have "forgets (sw_carddav v) ?d" by (simp add: forgets_def evict_def discoveries_inv_remove)
  then have "dav_inv (se_dav S) (se_client S) ?d" by (rule forgets_inv) (use v(1) in \<open>simp add: server_inv_def\<close>)
  moreover have "vouched S v'"
    by (rule vouched_more [OF _ fwd, where new = "[]"]) (use v(1) in \<open>simp_all add: server_inv_def v' d\<close>)
  ultimately show "server_inv S t0 v' \<and> server_guar t v v' \<and> True"
    using v(1) fwd by (simp add: server_inv_def server_guar_def v')
qed

lemma drop_safe: "server_safe S t0 t (\<lambda>_ _. True) (oidc_part (drop_prog (se_jwt S) tok)) w"
  by (rule safe_weaken [OF oidc_part_safe [OF drop_prog_safe]]) simp

lemma react_prog_safe: "server_safe S t0 t (\<lambda>r' v. is_ok r' \<longrightarrow> is_ok r) (react_prog (se_tools S) ctx r) w"
proof -
  have "server_safe S t0 t (\<lambda>r' v. is_ok r' \<longrightarrow> is_ok r)
     (bind_prog (dav_part (act (\<lambda>d. ((), evict (se_dav S) tok d)))) (\<lambda>_.
      bind_prog (oidc_part (drop_prog (se_jwt S) tok)) (\<lambda>_. Ret (Err (Fail expired_err))))) w" for tok
    by (intro safe_bind [OF evict_safe] safe_bind [OF drop_safe]) simp
  then show ?thesis
    by (auto simp: react_prog_def split: sum.splits stop.splits option.splits)
qed

lemma mcp_prog_safe:
  assumes "client_ok S" "accepted_ctx S t tok ctx w"
  shows "server_safe S t0 t (\<lambda>r v. is_ok r \<longrightarrow> cleared S t tok v) (mcp_prog (se_tools S) t ctx call) w"
  unfolding mcp_prog_handler handler_def
proof (rule safe_bind)
  show "server_safe S t0 t (\<lambda>_. accepted_ctx S t tok ctx) (act (\<lambda>w. (lw_now (sw_limits w), w))) w"
  proof (rule server_act)
    fix v a v' assume v: "server_fwd w v" "server_inv S t0 v" "(lw_now (sw_limits v), v) = (a, v')"
    with accepted_ctx_fwd [OF assms(2) v(1)] show "server_inv S t0 v' \<and> server_guar t v v' \<and> accepted_ctx S t tok ctx v'" by simp
  qed
next
  fix started v assume v: "accepted_ctx S t tok ctx v"
  let ?audit = "\<lambda>r. audit_step t started (emit_tool_audit (tool_name call) (audit_user ctx) (tool_resource call)) (count_of call) r"
  show "server_safe S t0 t (\<lambda>r v. is_ok r \<longrightarrow> cleared S t tok v)
     (bind_prog (body_prog (se_tools S) t ctx call) (\<lambda>result. bind_prog (react_prog (se_tools S) ctx result) (\<lambda>result. act (?audit result)))) v"
  proof (rule safe_bind [OF body_prog_safe [OF assms(1) v]])
    fix r :: "stop + tool_result" and u assume u: "is_ok r \<longrightarrow> cleared S t tok u"
    show "server_safe S t0 t (\<lambda>r v. is_ok r \<longrightarrow> cleared S t tok v) (bind_prog (react_prog (se_tools S) ctx r) (\<lambda>result. act (?audit result))) u"
    proof (rule safe_bind [OF server_knows [where K = "\<lambda>v. is_ok r \<longrightarrow> cleared S t tok v", OF react_prog_safe u]])
      show "is_ok r \<longrightarrow> cleared S t tok v'" if "is_ok r \<longrightarrow> cleared S t tok v" "server_fwd v v'" for v v'
        using that by (auto intro: cleared_fwd)
      fix r' :: "stop + tool_result" and x assume x: "(is_ok r' \<longrightarrow> is_ok r) \<and> (is_ok r \<longrightarrow> cleared S t tok x)"
      show "server_safe S t0 t (\<lambda>r v. is_ok r \<longrightarrow> cleared S t tok v) (act (?audit r')) x"
      proof (rule server_act_aside)
        fix y a y' assume y: "server_fwd x y" "server_inv S t0 y" "?audit r' y = (a, y')"
        then have y': "a = r'" "sw_carddav y' = sw_carddav y \<and> sw_oidc y' = sw_oidc y \<and> sw_limits y' = sw_limits y
            \<and> sw_last_used y' = sw_last_used y \<and> sw_proxy y' = sw_proxy y"
          by (auto simp: audit_step_def Let_def split: sum.splits stop.splits)
        have "server_fwd y y'" using server_fwd_refl [of y] y'(2) by (simp add: server_fwd_def)
        then have "is_ok r' \<longrightarrow> cleared S t tok y'" using x y(1) by (auto intro: cleared_fwd)
        with y(2) y' show "sw_carddav y' = sw_carddav y \<and> sw_oidc y' = sw_oidc y \<and> sw_limits y' = sw_limits y
            \<and> tracker.inv (sw_last_used y') \<and> (\<exists>f. proxy_reach (se_ops S) (rt_proxy (se_server S)) f (sw_proxy y'))
            \<and> (is_ok a \<longrightarrow> cleared S t tok y')" by (simp add: server_inv_def)
      qed
    qed
  qed
qed

text \<open>What a task knows of its request once the middleware let it through.\<close>

definition let_in ::
  "('u, 'h, 'ip, 'k, 'j, 'q, 'b, 'd, 'a, 't) setting \<Rightarrow> 't \<Rightarrow> http_request \<Rightarrow> ('u, 'h, 'ip, 'k, 'q, 'b, 't) server_world \<Rightarrow> bool" where
  "let_in S t req w \<longleftrightarrow> (\<exists>tok i. extract_bearer (hq_header (se_request S t) ''authorization'') = Some tok
     \<and> req = (se_request S t)\<lparr>hq_identity := Some i, hq_token := Some tok\<rparr> \<and> accepted_by (se_jwt S) t tok i (sw_oidc w))"

text \<open>Past the session limiter: a request for a new session passed its user's limit.\<close>

definition session_passed ::
  "http_request \<Rightarrow> 't \<Rightarrow> ('u, 'h, 'ip, 'k, 'q, 'b, 't) server_world \<Rightarrow> bool" where
  "session_passed req t w \<longleftrightarrow> (is_fresh_mcp_session_request req \<longrightarrow>
     (\<exists>i. hq_identity req = Some i \<and> passed (sw_limits w) t InitSub (ai_user_id i)))"

lemma let_in_fwd: "let_in S t req w \<Longrightarrow> server_fwd w w' \<Longrightarrow> let_in S t req w'"
  unfolding let_in_def server_fwd_def by (blast intro: accepted_by_grows)

lemma session_passed_fwd: "session_passed req t w \<Longrightarrow> server_fwd w w' \<Longrightarrow> session_passed req t w'"
  unfolding session_passed_def server_fwd_def by (meson passed_fwd)

lemma bearer_auth_prog_safe:
  fixes w :: "('u, 'h, 'ip, 'k, 'q, 'b, 't) server_world"
  shows "server_safe S t0 t (\<lambda>r v. \<forall>req. r = Inr req \<longrightarrow> let_in S t req v)
    (bearer_auth_prog (ap_auth (se_env S)) (se_config S) (se_reply S) t (se_request S t)) w"
proof (cases "extract_bearer (hq_header (se_request S t) ''authorization'')")
  case None
  then show ?thesis by (simp add: bearer_auth_prog_def)
next
  case (Some tok)
  let ?E = "ap_auth (se_env S)" and ?req = "se_request S t"
  let ?Q = "\<lambda>r v. \<forall>req. r = Inr req \<longrightarrow> let_in S t req v"
  have logged: "server_safe S t0 t ?Q (bind_prog (act (log_step e)) (\<lambda>_. Ret (Inl resp))) v" for e resp v
    by (rule safe_bind [OF log_step_safe [where K = "\<lambda>_. True"]]) simp_all
  have entered: "server_safe S t0 t ?Q (bind_prog (act (log_step e)) (\<lambda>_. bind_prog
        (if b then Ret () else act (record_step th ip)) (\<lambda>_. Ret (Inr (?req\<lparr>hq_identity := Some i, hq_token := Some tok\<rparr>))))) v"
    if k: "let_in S t (?req\<lparr>hq_identity := Some i, hq_token := Some tok\<rparr>) v" for e b th ip i v
  proof (rule safe_bind [OF log_step_safe [where K = "let_in S t (?req\<lparr>hq_identity := Some i, hq_token := Some tok\<rparr>)", OF k let_in_fwd]])
    fix x u assume u: "let_in S t (?req\<lparr>hq_identity := Some i, hq_token := Some tok\<rparr>) u"
    have "server_safe S t0 t (\<lambda>_. let_in S t (?req\<lparr>hq_identity := Some i, hq_token := Some tok\<rparr>)) (act (record_step th ip)) u"
    proof (rule server_act_aside)
      fix y a y' assume y: "server_fwd u y" "server_inv S t0 y" "record_step th ip y = (a, y')"
      then have y': "y' = y\<lparr>sw_last_used := record_use (sw_wall y) th ip (sw_last_used y)\<rparr>" by (simp add: record_step_def)
      have "server_fwd y y'" by (simp add: y' server_fwd_def)
      with u y(1) have "let_in S t (?req\<lparr>hq_identity := Some i, hq_token := Some tok\<rparr>) y'" by (blast intro: let_in_fwd)
      moreover have "tracker.inv (record_use (sw_wall y) th ip (sw_last_used y))"
        using y(2) by (intro tracker.inv_ins) (simp add: server_inv_def)
      ultimately show "sw_carddav y' = sw_carddav y \<and> sw_oidc y' = sw_oidc y \<and> sw_limits y' = sw_limits y
          \<and> tracker.inv (sw_last_used y') \<and> (\<exists>f. proxy_reach (se_ops S) (rt_proxy (se_server S)) f (sw_proxy y'))
          \<and> let_in S t (?req\<lparr>hq_identity := Some i, hq_token := Some tok\<rparr>) y'" using y(2) by (simp add: y' server_inv_def)
    qed
    note stamp = safe_bind [OF this, where Q' = ?Q]
    show "server_safe S t0 t ?Q (bind_prog (if b then Ret () else act (record_step th ip))
        (\<lambda>_. Ret (Inr (?req\<lparr>hq_identity := Some i, hq_token := Some tok\<rparr>)))) u"
      by (cases b) (use u in \<open>auto intro!: stamp\<close>)
  qed
  have val: "server_safe S t0 t (\<lambda>r v. accept_post (se_jwt S) t tok r (sw_oidc v))
      (oidc_part (validate_prog (ae_jwt ?E) (se_reply S) t tok)) w"
    by (rule oidc_part_safe [OF validate_prog_safe])
  show ?thesis
    unfolding bearer_auth_prog_def Some option.case Let_def
  proof (rule safe_bind [OF val])
    fix r and v :: "('u, 'h, 'ip, 'k, 'q, 'b, 't) server_world" assume v: "accept_post (se_jwt S) t tok r (sw_oidc v)"
    consider e where "r = Inl e" | "r = Inr None" | i where "r = Inr (Some i)" by (metis sum.exhaust option.exhaust)
    then show "server_safe S t0 t ?Q (case r of Inl e \<Rightarrow> bind_prog (act (log_step (Validation t (audit_introspect (hash_of ?E tok) OUT_ERROR None))))
          (\<lambda>_. Ret (Inl internal_error_response))
        | Inr None \<Rightarrow> bind_prog (act (log_step (Validation t (audit_introspect (hash_of ?E tok) OUT_INACTIVE None))))
          (\<lambda>_. Ret (Inl (unauthorized (ae_header_valid ?E) (cf_resource_url (se_config S)))))
        | Inr (Some identity) \<Rightarrow> bind_prog (act (log_step (Validation t (audit_introspect (hash_of ?E tok) OUT_ACTIVE (ai_email identity)))))
          (\<lambda>_. bind_prog (if hq_path ?req = ''/token/introspect'' then Ret ()
              else act (record_step (hash_of ?E tok) (parse_client_ip (ae_parse_ip ?E) (hq_header ?req ''x-forwarded-for'') (cf_trusted_proxy_hops (se_config S)))))
            (\<lambda>_. Ret (Inr (?req\<lparr>hq_identity := Some identity, hq_token := Some tok\<rparr>))))) v"
    proof cases
      case 3
      with v Some have "let_in S t (?req\<lparr>hq_identity := Some i, hq_token := Some tok\<rparr>) v" by (auto simp: let_in_def)
      from entered [OF this] show ?thesis unfolding 3 sum.case option.case .
    qed (simp_all only: sum.case option.case logged)
  qed
qed

lemma initialize_prog_safe:
  assumes k: "let_in S t req w"
  shows "server_safe S t0 t (\<lambda>r v. \<forall>req'. r = Inr req' \<longrightarrow> req' = req \<and> let_in S t req v \<and> session_passed req t v)
    (initialize_rate_limit_prog (ap_governor (se_env S)) (hash_of (ap_auth (se_env S))) t req) w"
proof (cases "is_fresh_mcp_session_request req")
  case False
  with k show ?thesis by (simp add: initialize_rate_limit_prog_def session_passed_def)
next
  case True
  from k obtain tok i where ti: "hq_token req = Some tok" "hq_identity req = Some i" by (auto simp: let_in_def)
  let ?Q = "\<lambda>r v. \<forall>req'. r = Inr req' \<longrightarrow> req' = req \<and> let_in S t req v \<and> session_passed req t v"
  let ?G = "ap_governor (se_env S)" and ?h = "hash_of (ap_auth (se_env S)) tok"
  have "limits_safe ?G t0 (se_quotas S) (\<lambda>_ _ _. True) (\<lambda>r l. is_ok r \<longrightarrow> (case Some (ai_user_id i) of
      None \<Rightarrow> passed l t InitBearer ?h | Some u \<Rightarrow> passed l t InitSub u)) (init_prog ?G t ?h (Some (ai_user_id i))) (sw_limits w)"
    by (rule init_prog_safe) simp
  from server_knows [where K = "let_in S t req", OF limits_part_safe [OF this] k let_in_fwd]
  have lim: "server_safe S t0 t (\<lambda>r v. (is_ok r \<longrightarrow> passed (sw_limits v) t InitSub (ai_user_id i)) \<and> let_in S t req v)
      (limits_part (init_prog ?G t ?h (Some (ai_user_id i)))) w" by simp
  have logged: "server_safe S t0 t ?Q (bind_prog (act (log_step e)) (\<lambda>_. Ret (Inl resp))) v" for e resp v
    by (rule safe_bind [OF log_step_safe [where K = "\<lambda>_. True"]]) simp_all
  with True ti show ?thesis
    unfolding initialize_rate_limit_prog_def
    by (auto intro!: safe_bind [OF lim] simp: session_passed_def split: sum.splits)
qed

text \<open>What an answer tells.\<close>

definition answer_post ::
  "('u, 'h, 'ip, 'k, 'j, 'q, 'b, 'd, 'a, 't) setting \<Rightarrow> 't \<Rightarrow> 'ip served \<Rightarrow> ('u, 'h, 'ip, 'k, 'q, 'b, 't) server_world \<Rightarrow> bool" where
  "answer_post S t out w \<longleftrightarrow>
     (\<forall>resp. out \<noteq> Answered resp) \<longrightarrow> (\<exists>req. let_in S t req w \<and> session_passed req t w
       \<and> (\<forall>r. out = Called (Ok r) \<longrightarrow> (\<exists>tok. hq_token req = Some tok \<and> cleared S t tok w)))"

lemma route_prog_safe:
  assumes "client_ok S" "let_in S t req w" "session_passed req t w"
  shows "server_safe S t0 t (answer_post S t) (route_prog (se_env S) (se_client S) t (se_input S t) req) w"
proof -
  from assms(2) obtain tok i where ti: "extract_bearer (hq_header (se_request S t) ''authorization'') = Some tok"
    "req = (se_request S t)\<lparr>hq_identity := Some i, hq_token := Some tok\<rparr>" "accepted_by (se_jwt S) t tok i (sw_oidc w)"
    by (auto simp: let_in_def)
  have introspected: "server_safe S t0 t (answer_post S t) (act (introspect_step (ap_auth (se_env S)) req)) w"
  proof (rule server_act_aside)
    fix v a v' assume v: "server_fwd w v" "server_inv S t0 v" "introspect_step (ap_auth (se_env S)) req v = (a, v')"
    then have "v' = v" "\<And>r. a \<noteq> Called r" by (auto simp: introspect_step_def split: sum.splits)
    moreover have "let_in S t req v" "session_passed req t v"
      using let_in_fwd [OF assms(2) v(1)] session_passed_fwd [OF assms(3) v(1)] by simp_all
    ultimately show "sw_carddav v' = sw_carddav v \<and> sw_oidc v' = sw_oidc v \<and> sw_limits v' = sw_limits v
        \<and> tracker.inv (sw_last_used v') \<and> (\<exists>f. proxy_reach (se_ops S) (rt_proxy (se_server S)) f (sw_proxy v'))
        \<and> answer_post S t a v'" using v(2) by (auto simp: server_inv_def answer_post_def)
  qed
  have called: "server_safe S t0 t (answer_post S t)
      (bind_prog (mcp_prog (tools_of (se_env S) (se_client S)) t (ctx_in (se_input S t) req) call) (\<lambda>r. Ret (Called r))) w"
    if "under_mcp (hq_path req)" for call
  proof -
    have ctx: "accepted_ctx S t tok (ctx_in (se_input S t) req) w"
      using that ti by (simp add: accepted_ctx_def ctx_in_def)
    have "server_safe S t0 t (\<lambda>r v. (is_ok r \<longrightarrow> cleared S t tok v) \<and> let_in S t req v \<and> session_passed req t v)
        (mcp_prog (se_tools S) t (ctx_in (se_input S t) req) call) w"
      by (rule server_knows [where K = "\<lambda>v. let_in S t req v \<and> session_passed req t v", OF mcp_prog_safe [OF assms(1) ctx]])
        (use assms(2,3) in \<open>auto intro: let_in_fwd session_passed_fwd\<close>)
    then show ?thesis
      unfolding se_tools_def by (rule safe_bind) (use ti(2) in \<open>auto simp: answer_post_def\<close>)
  qed
  from introspected called assms(2,3) show ?thesis
    by (auto simp: route_prog_def answer_post_def split: option.splits)
qed

lemma serve_prog_safe:
  fixes w :: "('u, 'h, 'ip, 'k, 'q, 'b, 't) server_world"
  assumes "client_ok S"
  shows "server_safe S t0 t (answer_post S t) (serve_prog (se_env S) (se_config S) (se_client S) (se_reply S) t (se_input S t)) w"
proof -
  have ans: "server_safe S t0 t (answer_post S t) (Ret (Answered resp)) v" for resp and v :: "('u, 'h, 'ip, 'k, 'q, 'b, 't) server_world"
    by (simp add: answer_post_def)
  have admitted: "server_safe S t0 t (answer_post S t)
      (bind_prog (initialize_rate_limit_prog (ap_governor (se_env S)) (hash_of (ap_auth (se_env S))) t req) (\<lambda>r2. case r2 of
         Inl resp \<Rightarrow> Ret (Answered resp) | Inr req2 \<Rightarrow> route_prog (se_env S) (se_client S) t (se_input S t) req2)) v"
    if "let_in S t req v" for req v
    by (rule safe_bind [OF initialize_prog_safe [OF that]])
      (auto intro: ans route_prog_safe [OF assms] simp del: safe.simps(1) split: sum.splits)
  show ?thesis
    unfolding serve_prog_def
    by (auto intro!: ans safe_bind [OF bearer_auth_prog_safe] admitted simp del: safe.simps(1) split: option.splits sum.splits)
qed

text \<open>A public handler touches only what the flows and the relay hold.\<close>

lemma public_step_safe: "server_safe S t0 t (\<lambda>ans _. \<forall>out. ans \<noteq> Behind_layers out) (act (public_step (se_ops S) (se_config S) inp ep)) w"
proof (rule server_act_aside)
  fix v :: "('a, 'b, 'c, 'd, 'e, 'f, 'g) server_world" and a v'
  assume v: "server_inv S t0 v" "public_step (se_ops S) (se_config S) inp ep v = (a, v')"
  from v(1) obtain f where f: "proxy_reach (se_ops S) (rt_proxy (se_server S)) f (sw_proxy v)" by (auto simp: server_inv_def)
  let ?pu = "public_at inp v" and ?W = "se_ops S"
  obtain a' s where h: "public_handler ?W (se_config S) ?pu ep (server_at v) = (a', s)" by fastforce
  with v(2) have v': "a = a'" "v' = v\<lparr>sw_proxy := rt_proxy s, sw_upstream := rt_upstream s\<rparr>" by (simp_all add: public_step_def)
  have at: "rt_proxy (server_at v) = sw_proxy v" by (simp add: server_at_def)
  have "\<exists>f. proxy_reach ?W (rt_proxy (se_server S)) f (rt_proxy s)"
  proof (cases ep)
    case Ep_Authorize
    obtain r p where r: "authorize ?W (pu_now ?pu) (pu_random ?pu) (pu_query ?pu) (sw_proxy v) = (r, p)" by fastforce
    with h Ep_Authorize have "rt_proxy s = p" by (auto simp: public_handler_def at)
    with reach_authorize [OF f r] show ?thesis by blast
  next
    case Ep_Callback
    obtain r p where r: "callback ?W (pu_now ?pu) (pu_query ?pu) (sw_proxy v) = (r, p)" by fastforce
    with h Ep_Callback have "rt_proxy s = p" by (auto simp: public_handler_def at)
    with reach_callback [OF f r] show ?thesis by blast
  qed (use h f in \<open>auto simp: public_handler_def at Let_def split: sum.splits prod.splits\<close>)
  moreover have "a' \<noteq> Behind_layers out" for out
    using h by (auto simp: public_handler_def Let_def split: endpoint.splits sum.splits prod.splits)
  ultimately show "sw_carddav v' = sw_carddav v \<and> sw_oidc v' = sw_oidc v \<and> sw_limits v' = sw_limits v
      \<and> tracker.inv (sw_last_used v') \<and> (\<exists>f. proxy_reach ?W (rt_proxy (se_server S)) f (sw_proxy v'))
      \<and> (\<forall>out. a \<noteq> Behind_layers out)" using v(1) by (simp add: v' server_inv_def)
qed

definition router_post ::
  "('u, 'h, 'ip, 'k, 'j, 'q, 'b, 'd, 'a, 't) setting \<Rightarrow> 't \<Rightarrow> 'ip answer \<Rightarrow> ('u, 'h, 'ip, 'k, 'q, 'b, 't) server_world \<Rightarrow> bool" where
  "router_post S t ans w \<longleftrightarrow> (\<forall>out. ans = Behind_layers out \<longrightarrow> answer_post S t out w)"

lemma router_prog_safe:
  assumes "client_ok S"
  shows "server_safe S t0 t (router_post S t)
    (router_prog (se_env S) (se_ops S) (se_layered S) (se_config S) (se_client S) (se_reply S) t (se_input S t)) w"
proof (cases "behind (se_layered S) (hq_path (se_request S t))")
  case True
  have "server_safe S t0 t (router_post S t)
      (bind_prog (serve_prog (se_env S) (se_config S) (se_client S) (se_reply S) t (se_input S t)) (\<lambda>out. Ret (Behind_layers out))) w"
    by (rule safe_bind [OF serve_prog_safe [OF assms]]) (simp add: router_post_def)
  with True show ?thesis by (simp add: router_prog_def)
next
  case False
  have "server_safe S t0 t (router_post S t) (act (public_step (se_ops S) (se_config S) (se_input S t) ep)) w" for ep
    by (rule safe_weaken [OF public_step_safe]) (simp add: router_post_def)
  with False show ?thesis by (auto simp: router_prog_def router_post_def split: option.splits)
qed

subsection \<open>The pool of requests\<close>

definition server_spawn ::
  "('u, 'h, 'ip, 'k, 'j, 'q, 'b, 'd, 'a, 't) setting \<Rightarrow> 't \<Rightarrow> ('u, 'h, 'ip, 'k, 'q, 'b, 't, 'ip answer) server_prog \<Rightarrow> bool" where
  "server_spawn S t p \<longleftrightarrow>
     p = router_prog (se_env S) (se_ops S) (se_layered S) (se_config S) (se_client S) (se_reply S) t (se_input S t)"

text \<open>The monotonic clocks go forward; the wall clocks go anywhere.\<close>

definition server_clocks :: "('u, 'h, 'ip, 'k, 'q, 'b, 't) server_world \<Rightarrow> ('u, 'h, 'ip, 'k, 'q, 'b, 't) server_world \<Rightarrow> bool" where
  "server_clocks w w' \<longleftrightarrow> (\<exists>ow lw wall. oidc_outside (sw_oidc w) ow \<and> clock_moves (sw_limits w) lw
     \<and> w' = w\<lparr>sw_oidc := ow, sw_limits := lw, sw_wall := wall\<rparr>)"

definition world_start ::
  "('u, 'h, 'ip, 'k, 'q, 'b) server \<Rightarrow> instant \<Rightarrow> int \<Rightarrow> instant \<Rightarrow> ('u, 'h, 'ip, 'k, 'q, 'b, 't) server_world" where
  "world_start s now unix wall =
     \<lparr>sw_oidc = oidc_world_start (as_logto (rt_app s)) now unix, sw_last_used = as_last_used (rt_app s),
      sw_carddav = as_carddav (rt_app s), sw_limits = limits_start now (as_limiter (rt_app s)) (as_initialize (rt_app s)),
      sw_proxy = rt_proxy s, sw_upstream = rt_upstream s, sw_wall = wall, sw_log = []\<rparr>"

text \<open>The service of a setting was started from its configuration.\<close>

definition started :: "('u, 'h, 'ip, 'k, 'j, 'q, 'b, 'd, 'a, 't) setting \<Rightarrow> bool" where
  "started S \<longleftrightarrow> build_server (se_env S) (se_config S) = Ok (se_client S, se_server S)"

abbreviation requests_reach where
  "requests_reach S now unix wall \<equiv> pool_reach server_clocks (server_spawn S) (world_start (se_server S) now unix wall)"

lemma server_clocks_ok:
  assumes "server_clocks w w'" "server_inv S t0 w"
  shows "server_inv S t0 w' \<and> server_rely t w w'"
proof -
  from assms(1) obtain ow lw wall where o: "oidc_outside (sw_oidc w) ow" "clock_moves (sw_limits w) lw"
    and w': "w' = w\<lparr>sw_oidc := ow, sw_limits := lw, sw_wall := wall\<rparr>" by (auto simp: server_clocks_def)
  from assms(2) have inv: "world_inv (se_jwt S) (se_reply S) (se_logto S) (sw_oidc w)"
    "limits_inv (ap_governor (se_env S)) t0 (se_quotas S) (\<lambda>_ _ _. True) (sw_limits w)" by (simp_all add: server_inv_def)
  note oi = oidc_outside_ok [OF o(1) inv(1), of t] and li = limits_inv_clock [OF inv(2) o(2)]
  from oi have "grows (sw_oidc w) ow" by (auto intro: rely_grows)
  with li have fwd: "server_fwd w w'" by (simp add: server_fwd_def w')
  have "vouched S w'" by (rule vouched_same [OF _ fwd]) (use assms(2) in \<open>simp_all add: server_inv_def w'\<close>)
  with assms(2) oi li fwd show ?thesis by (simp add: server_inv_def server_rely_def w')
qed

lemma started_ok:
  assumes "url_laws (se_dav S)" "started S"
  shows "client_ok S" "server_inv S now (world_start (se_server S) now unix wall)"
proof -
  note b = build_server_parts [OF assms(2) [unfolded started_def]]
  note a = build_app_parts [OF b(1)]
  show "client_ok S" using client_new_well_formed [OF assms(1) a(2)] assms(1) by (simp add: client_ok_def)
  let ?a = "rt_app (se_server S)" and ?G = "ap_governor (se_env S)"
  have "as_initialize ?a = init_limiter_new ?G INITIALIZE_REPLENISH MAX_INITIALIZES_PER_IDENTITY"
    by (rule a(6))
  with limits_inv_start [OF a(5)] have "limits_inv ?G now (se_quotas S) (\<lambda>_ _ _. True)
      (limits_start now (as_limiter ?a) (as_initialize ?a) :: ('f, 'g, 'k) limits_world)" by blast
  with world_inv_start [OF a(1)] dav_inv_start [of "se_dav S" "se_client S"] a(3,4)
  show "server_inv S now (world_start (se_server S) now unix wall)"
    by (auto simp: server_inv_def world_start_def vouched_def dav_start_def tracker.inv_empty intro: reach_start)
qed

lemma server_pool_safe:
  assumes "url_laws (se_dav S)" "started S" "requests_reach S now unix wall c"
  shows "pool_safe (server_inv S now) server_rely server_guar (router_post S) c"
proof (rule pool_invariant [where outside = server_clocks and start = "server_spawn S", OF _ _ _ _ _ _ assms(3)])
  show "server_inv S now (world_start (se_server S) now unix wall)" by (rule started_ok(2) [OF assms(1,2)])
  show "server_safe S now t (router_post S t) p w" if "server_spawn S t p" for t p w
    using that router_prog_safe [OF started_ok(1) [OF assms(1,2)]] by (simp add: server_spawn_def)
  show "server_inv S now w' \<and> server_rely t w w'" if "server_clocks w w'" "server_inv S now w" for w w' t
    by (rule server_clocks_ok [OF that])
  show "server_rely u w w'" if "t \<noteq> u" "server_guar t w w'" for t u w w'
    by (rule server_guar_others [OF that])
qed (rule server_rely_refl server_rely_trans)+

end
