(* ===== verification/Server_Concurrent.thy ===== *)
theory Server_Concurrent
  imports Server_Pool
begin

text \<open>
  What the whole service promises when requests overlap, over the pool of \<open>Server_Pool\<close>.

  \<^item> The one lock a request may wait for is the gate of the JWKS refresh (\<open>Logto_Tasks\<close>); every other lock is
    taken and released within a step. \<open>calm\<close> programs are tidy with that gate, and every program of the service is.
  \<^item> The properties: who stands behind each request in the CardDAV log, that requests in flight can always be
    finished, and that a request served alone does what \<open>router\<close> says.
\<close>

subsection \<open>Requests are tidy with the gate\<close>

abbreviation refreshing :: "'t \<Rightarrow> ('u, 'h, 'ip, 'k, 'q, 'b, 't) server_world \<Rightarrow> bool" where
  "refreshing t w \<equiv> gate_held t (sw_oidc w)"

definition calm :: "'t \<Rightarrow> ('u, 'h, 'ip, 'k, 'q, 'b, 't, 'r) server_prog \<Rightarrow> bool" where
  "calm t p \<longleftrightarrow> tidy refreshing t False p False"

named_theorems calm_intros \<open>programs that are tidy with the gate\<close>

lemma calm_Ret [calm_intros]: "calm t (Ret r)"
  by (simp add: calm_def)

lemma calm_act [calm_intros]: "(\<And>w. sw_oidc (snd (f w)) = sw_oidc w) \<Longrightarrow> calm t (act f)"
  unfolding calm_def by (rule tidy_act) simp

lemma calm_bind [calm_intros]: "calm t m \<Longrightarrow> (\<And>a. calm t (k a)) \<Longrightarrow> calm t (bind_prog m k)"
  unfolding calm_def by (rule tidy_bind)

lemma calm_try [calm_intros]: "calm t m \<Longrightarrow> (\<And>a. calm t (f a)) \<Longrightarrow> calm t (try_prog m f)"
  unfolding calm_def by (rule tidy_try)

lemma calm_if [calm_intros]: "calm t p \<Longrightarrow> calm t q \<Longrightarrow> calm t (if b then p else q)"
  by simp

lemma calm_parts:
  "never_waits d \<Longrightarrow> calm t (dav_part d)" "never_waits l \<Longrightarrow> calm t (limits_part l)"
  by (auto simp: calm_def dav_part_def limits_part_def intro!: tidy_quiet quiet_zoom_aside)

lemma calm_oidc: "tidy gate_held t False v False \<Longrightarrow> calm t (oidc_part v)"
  unfolding calm_def oidc_part_def by (rule tidy_zoom) simp_all

lemma calm_dav [calm_intros]: "never_waits p \<Longrightarrow> calm t (dav_call_prog T p)"
  unfolding dav_call_prog_def by (intro calm_intros calm_parts)

lemma calm_checks [calm_intros]:
  "calm t (limits_part (limiter_prog G t h sub c))" "calm t (limits_part (init_prog G t h sub))"
  by (auto intro!: calm_parts never_waits_rules simp: limiter_prog_def init_prog_def charge_prog_def split: option.splits)

lemma calm_context [calm_intros]: "calm t (token_prog ctx)" "calm t (identity_prog ctx)" "calm t (fallible_prog r)"
  by (simp_all add: token_prog_def identity_prog_def fallible_prog_def calm_Ret)

lemma calm_limit [calm_intros]: "calm t (rate_limit_prog T t ctx c)"
  unfolding rate_limit_prog_def by (intro calm_intros)

lemma calm_books [calm_intros]: "calm t (books_prog T tok href)"
  unfolding books_prog_def by (cases href) (auto intro!: calm_intros never_waits_progs)

lemma calm_search [calm_intros]: "calm t (search_books_prog T tok query limit seen contacts hrefs)"
proof (induction hrefs arbitrary: seen contacts)
  case (Cons href hrefs)
  show ?case
    unfolding search_books_prog.simps Let_def split_beta
    by (intro calm_intros Cons.IH never_waits_progs)
qed (simp add: calm_Ret)

lemma calm_scan [calm_intros]: "calm t (scan_books_prog T tok today days hrefs acc)"
proof (induction hrefs arbitrary: acc)
  case (Cons href hrefs)
  show ?case
    unfolding scan_books_prog.simps
    by (intro calm_intros Cons.IH never_waits_progs)
qed (simp add: calm_Ret)

lemma calm_body [calm_intros]: "calm t (body_prog T t ctx call)"
  by (cases call; simp only: body_prog.simps whoami_prog_def tool_list_address_books_prog_def tool_list_contacts_prog_def
      tool_upcoming_birthdays_prog_def tool_search_contacts_prog_def tool_create_contact_prog_def tool_update_contact_prog_def
      tool_delete_contact_prog_def Let_def; intro calm_intros never_waits_progs)

lemma calm_react [calm_intros]: "calm t (react_prog T ctx r)"
proof -
  have "calm t (bind_prog (dav_part (act (\<lambda>d. ((), evict (tv_dav T) tok d)))) (\<lambda>_.
      bind_prog (oidc_part (drop_prog (tv_jwt T) tok)) (\<lambda>_. Ret (Err (Fail expired_err)))))" for tok
    by (intro calm_intros calm_parts calm_oidc drop_prog_tidy never_waits_act)
  then show ?thesis by (auto simp: react_prog_def intro: calm_Ret split: sum.splits stop.splits option.splits)
qed

lemma calm_mcp [calm_intros]: "calm t (mcp_prog T t ctx call)"
  unfolding mcp_prog_handler handler_def
  by (intro calm_intros) (auto simp: audit_step_def Let_def split: sum.splits stop.splits)

lemma calm_log [calm_intros]: "calm t (act (log_step e))" "calm t (act (record_step th ip))"
  by (auto intro!: calm_act simp: log_step_def record_step_def)

lemma calm_bearer_auth [calm_intros]: "calm t (bearer_auth_prog E cfg reply t req)"
proof (cases "extract_bearer (hq_header req ''authorization'')")
  case None
  then show ?thesis by (simp add: bearer_auth_prog_def calm_Ret)
next
  case (Some tok)
  show ?thesis
    unfolding bearer_auth_prog_def Some option.case Let_def
  proof (rule calm_bind)
    show "calm t (oidc_part (validate_prog (ae_jwt E) reply t tok))" by (rule calm_oidc [OF validate_prog_tidy])
    fix r :: "validation_error + authenticated_identity option"
    consider e where "r = Inl e" | "r = Inr None" | i where "r = Inr (Some i)" by (metis sum.exhaust option.exhaust)
    then show "calm t (case r of Inl e \<Rightarrow> bind_prog (act (log_step (Validation t (audit_introspect (hash_of E tok) OUT_ERROR None))))
          (\<lambda>_. Ret (Inl internal_error_response))
        | Inr None \<Rightarrow> bind_prog (act (log_step (Validation t (audit_introspect (hash_of E tok) OUT_INACTIVE None))))
          (\<lambda>_. Ret (Inl (unauthorized (ae_header_valid E) (cf_resource_url cfg))))
        | Inr (Some identity) \<Rightarrow> bind_prog (act (log_step (Validation t (audit_introspect (hash_of E tok) OUT_ACTIVE (ai_email identity)))))
          (\<lambda>_. bind_prog (if hq_path req = ''/token/introspect'' then Ret ()
              else act (record_step (hash_of E tok) (parse_client_ip (ae_parse_ip E) (hq_header req ''x-forwarded-for'') (cf_trusted_proxy_hops cfg))))
            (\<lambda>_. Ret (Inr (req\<lparr>hq_identity := Some identity, hq_token := Some tok\<rparr>)))))"
      by cases (simp_all only: sum.case option.case, (intro calm_intros)+)
  qed
qed

lemma calm_initialize [calm_intros]: "calm t (initialize_rate_limit_prog G hash t req)"
proof -
  have "calm t (bind_prog (limits_part (init_prog G t h (Some u))) (\<lambda>r. case r of
      Inl bucket \<Rightarrow> bind_prog (act (log_step (Refusal t (rejected_as_str bucket)))) (\<lambda>_. Ret (Inl resp))
    | Inr _ \<Rightarrow> Ret (Inr req)))" for h u resp
    by (rule calm_bind [OF calm_checks(2)]) (auto intro!: calm_intros split: sum.splits)
  then show ?thesis by (auto simp: initialize_rate_limit_prog_def intro: calm_Ret split: option.splits)
qed

lemma calm_route [calm_intros]: "calm t (route_prog E client t inp req)"
proof -
  have "calm t (act (introspect_step (ap_auth E) req))" by (rule calm_act) (simp add: introspect_step_def)
  then show ?thesis by (auto simp: route_prog_def intro!: calm_Ret calm_bind calm_mcp split: option.splits)
qed

lemma calm_router: "calm t (router_prog E W layered cfg client reply t inp)"
proof -
  have admitted: "calm t (bind_prog (initialize_rate_limit_prog G h t req1) (\<lambda>r2. case r2 of
      Inl resp \<Rightarrow> Ret (Answered resp) | Inr req2 \<Rightarrow> route_prog E client t inp req2))" for G h req1
    by (rule calm_bind [OF calm_initialize]) (auto intro: calm_intros split: sum.splits)
  have "calm t (bind_prog (bearer_auth_prog (ap_auth E) cfg reply t (ri_request inp)) (\<lambda>r. case r of
      Inl resp \<Rightarrow> Ret (Answered resp)
    | Inr req1 \<Rightarrow> bind_prog (initialize_rate_limit_prog (ap_governor E) (hash_of (ap_auth E)) t req1) (\<lambda>r2. case r2 of
        Inl resp \<Rightarrow> Ret (Answered resp) | Inr req2 \<Rightarrow> route_prog E client t inp req2)))"
    by (rule calm_bind [OF calm_bearer_auth]) (auto intro: calm_Ret admitted split: sum.splits)
  then have "calm t (serve_prog E cfg client reply t inp)"
    by (auto simp: serve_prog_def intro: calm_Ret split: option.splits)
  then have "calm t (bind_prog (serve_prog E cfg client reply t inp) (\<lambda>out. Ret (Behind_layers out)))"
    by (intro calm_bind calm_Ret)
  moreover have "calm t (act (public_step W cfg inp ep))" for ep
    by (rule calm_act) (simp add: public_step_def split_beta Let_def)
  ultimately show ?thesis by (auto simp: router_prog_def intro: calm_Ret split: option.splits)
qed

lemma spawned_tidy: "server_spawn S t p \<Longrightarrow> tidy refreshing t False p False"
  by (simp add: server_spawn_def calm_router [unfolded calm_def])

lemma clocks_keep_gate: "server_clocks w w' \<Longrightarrow> refreshing u w' = refreshing u w"
  by (auto simp: server_clocks_def oidc_outside_def)

lemma start_no_gate: "\<not> refreshing u (world_start s now unix wall)"
  by (simp add: world_start_def oidc_world_start_def)

lemma within_zoom: "within p n \<Longrightarrow> within (zoom get put p) n"
  by (induction p arbitrary: n rule: prog_induct) (auto simp: within_Step split_beta)

lemma bearer_auth_within: "within (bearer_auth_prog E cfg reply t req) 15"
proof (cases "extract_bearer (hq_header req ''authorization'')")
  case (Some tok)
  have v: "within (oidc_part (validate_prog (ae_jwt E) reply t tok)) 13"
    unfolding oidc_part_def by (rule within_zoom [OF validate_prog_within])
  have "within (bearer_auth_prog E cfg reply t req) (13 + 2)"
    unfolding bearer_auth_prog_def Some option.case Let_def
    by (rule within_bind [OF v]) (auto intro!: within_act_bind split: sum.splits option.splits)
  then show ?thesis by simp
qed (simp add: bearer_auth_prog_def)

subsection \<open>A sample run\<close>

definition sample_input :: "gdate request_input" where
  "sample_input = \<lparr>ri_request = sample_request, ri_public = sample_public, ri_today = the (gd_ymd 2024 2 29), ri_random = ''r''\<rparr>"

definition sample_setting ::
  "(string \<times> string, string, nat, string, gcra_quota, gcra_bucket) server
     \<Rightarrow> (string \<times> string, string, nat, string, string, gcra_quota, gcra_bucket, gdate, nat, nat) setting" where
  "sample_setting s0 =
     \<lparr>se_env = sample_app, se_ops = sample_ops, se_layered = True, se_config = sample_config, se_client = sample_client,
      se_server = s0, se_reply = (\<lambda>_. JwkSet [''KEY'']), se_input = (\<lambda>_. sample_input)\<rparr>"

lemma sample_requests:
  "\<exists>s0 w v q1 q2. started (sample_setting s0)
     \<and> requests_reach (sample_setting s0) 10 900 5 (w, [1 \<mapsto> Ret (Behind_layers (Called (Ok v)))])
     \<and> ds_sent (sw_carddav w) = [q1, q2]"
proof -
  obtain s0 where s0: "build_server sample_app sample_config = Ok (sample_client, s0)"
    using sample_build by (auto simp: build_server_def)
  let ?S = "sample_setting s0"
  let ?p = "router_prog sample_app sample_ops True sample_config sample_client (\<lambda>_. JwkSet [''KEY'']) (1::nat) sample_input"
  let ?w = "world_start s0 10 900 5 :: (string \<times> string, string, nat, string, gcra_quota, gcra_bucket, nat) server_world"
  obtain ans w where r: "run ?p ?w = (ans, w)" by fastforce
  have gate: "ow_gate (sw_oidc ?w) = None" by (simp add: world_start_def oidc_world_start_def)
  have at: "server_at ?w = s0" "app_io_at (\<lambda>_. JwkSet [''KEY'']) sample_input ?w = sample_app_io"
    by (simp_all add: server_at_def app_io_at_def world_start_def oidc_world_start_def limits_start_def clocks_of_def
        sample_app_io_def sample_io_def sample_clocks_def sample_input_def)
  have req: "ri_request sample_input = sample_request" "behind True (hq_path sample_request)"
    by (simp_all add: sample_input_def behind_def under_mcp_def sample_request_def)
  from run_router_prog [OF r gate] obtain log where ro: "router sample_app sample_ops True sample_config sample_client
      sample_app_io (public_at sample_input ?w) sample_request s0 = (ans, log, server_at w)"
    unfolding at req by blast
  from sample_serve [OF build_server_parts(1) [OF s0]] obtain v log' st' q1 q2 where
    sv: "serve sample_app sample_config sample_client sample_app_io sample_request (rt_app s0) = (Called (Inr v), log', st')"
      "ds_sent (as_carddav st') = [q1, q2]" by blast
  with ro req(2) have "ans = Behind_layers (Called (Ok v))" "server_at w = s0\<lparr>rt_app := st'\<rparr>" by (simp_all add: router_def)
  from this(1) arg_cong [OF this(2), of "\<lambda>s. as_carddav (rt_app s)"] sv(2)
  have a: "ans = Behind_layers (Called (Ok v))" "ds_sent (sw_carddav w) = [q1, q2]" by (simp_all add: server_at_def)
  have start: "server_spawn ?S 1 ?p" by (simp add: server_spawn_def sample_setting_def)
  from tidy_alone [OF spawned_tidy [OF start], of ?w] gate have "clear ?p ?w" by simp
  from lone_task [where outside = server_clocks and start = "server_spawn ?S" and p = ?p, OF start this] r a(1)
  have "requests_reach ?S 10 900 5 (w, [1 \<mapsto> Ret (Behind_layers (Called (Ok v)))])" by (simp add: sample_setting_def)
  moreover have "started ?S" using s0 by (simp add: started_def sample_setting_def)
  ultimately show ?thesis using a(2) by blast
qed

subsection \<open>Properties\<close>

text \<open>
  Who stands behind an identity: this task verified its own token, or it found the identity in the cache, where a
  verification of a token with the same hash had put it, not removed since, less than a minute and before the
  token's expiry after the clocks were read for the entry.
\<close>

definition verified_for ::
  "('u, 'h, 'ip, 'k, 'j, 'q, 'b, 'd, 'a, 't) setting \<Rightarrow> 't \<Rightarrow> string \<Rightarrow> authenticated_identity \<Rightarrow> ('h, 'k, 't) oidc_world \<Rightarrow> bool" where
  "verified_for S t tok i w \<longleftrightarrow> (let J = se_jwt S; genuine_now = genuine J (se_logto S) (served (se_reply S) (ow_sent w)) in
     (\<exists>d unix x. Decoded t d unix tok i x \<in> set (ow_events w) \<and> genuine_now unix tok i x)
     \<or> (\<exists>pre a mid e old m unix x t0 d unix1 token.
          ow_events w = pre @ Found t a (jw_sha J tok) i # mid @ Stored (jw_sha J tok) e # old
          \<and> Removed (jw_sha J tok) \<notin> set mid \<and> Timed m unix (jw_sha J tok) i x \<in> set old
          \<and> Decoded t0 d unix1 token i x \<in> set old \<and> jw_sha J token = jw_sha J tok \<and> genuine_now unix1 token i x
          \<and> d \<le> m \<and> m \<le> a \<and> a < m + secs 60 \<and> a < m + secs (nat (x - unix))))"

lemma accepted_verified:
  assumes inv: "world_inv (se_jwt S) (se_reply S) (se_logto S) w" and "accepted_by (se_jwt S) t tok i w"
  shows "verified_for S t tok i w"
  using assms(2) unfolding accepted_by_def
proof
  assume "\<exists>d u x. Decoded t d u tok i x \<in> set (ow_events w)"
  then obtain d u x where "Decoded t d u tok i x \<in> set (ow_events w)" by blast
  with decoded_genuine [OF inv this] show ?thesis unfolding verified_for_def Let_def by (intro disjI1) blast
next
  assume "\<exists>a. Found t a (jw_sha (se_jwt S) tok) i \<in> set (ow_events w)"
  then obtain a pre past where f: "ow_events w = pre @ Found t a (jw_sha (se_jwt S) tok) i # past" by (meson split_list)
  from found_backed [OF inv f] f show ?thesis unfolding verified_for_def Let_def by blast
qed

text \<open>
  C1: only the verified bearer of a request reaches the CardDAV server, when requests overlap. For a service that
  started and any requests to any of its routes, served concurrently and interleaved at every lock, clock
  read and network wait, any of them dropped half way: whenever a request is in the CardDAV server's log, some
  task stands behind it. That task's request goes to \<open>/mcp\<close>; its own \<open>Authorization\<close> header is \<open>Bearer\<close> and
  a token; an identity for the token was verified for that task against the configured issuer and
  audiences; that task passed the bearer's and the user's tool-call limit; and what was sent goes to
  the origin of the configured base URL with that token and no other authorization.
\<close>

theorem only_verified_bearers_concurrently:
  assumes "url_laws (se_dav S)" "started S" "requests_reach S now unix wall (w, P)" "q \<in> set (ds_sent (sw_carddav w))"
  shows "\<exists>t raw v tok i c. under_mcp (hq_path (se_request S t))
    \<and> hq_header (se_request S t) ''authorization'' = Some raw \<and> trim raw = ''Bearer'' @ SPC # v \<and> tok = trim v \<and> tok \<noteq> []
    \<and> verified_for S t tok i (sw_oidc w)
    \<and> lc_expected_issuer (se_logto S) = trim_end_matches (CHR ''/'') (cf_authorization_server (se_config S))
    \<and> lc_expected_audiences (se_logto S) = accepted_token_audiences (se_config S)
    \<and> passed (sw_limits w) t (BearerSlot c) (hash_of (ap_auth (se_env S)) tok)
    \<and> passed (sw_limits w) t (SubSlot c) (ai_user_id i)
    \<and> same_origin (se_dav S) (rq_url q) (cl_base_url (se_client S))
    \<and> filter (\<lambda>h. fst h = ''authorization'') (rq_headers q) = [(''authorization'', ''Bearer '' @ tok)]"
proof -
  from server_pool_safe [OF assms(1-3)] have inv: "server_inv S now w" by (simp add: pool_safe_def)
  with assms(4) obtain t tok where c: "cleared S t tok w" "confined (se_dav S) (se_client S) tok q"
    by (auto simp: server_inv_def vouched_def)
  from c(1) obtain raw v i k where t: "hq_header (se_request S t) ''authorization'' = Some raw" "trim raw = ''Bearer'' @ SPC # v"
    "tok = trim v" "tok \<noteq> []" "under_mcp (hq_path (se_request S t))" "accepted_by (se_jwt S) t tok i (sw_oidc w)"
    "passed (sw_limits w) t (BearerSlot k) (hash_of (ap_auth (se_env S)) tok)" "passed (sw_limits w) t (SubSlot k) (ai_user_id i)"
    unfolding cleared_def extract_bearer_Some by blast
  from inv accepted_verified [OF _ t(6)] have ver: "verified_for S t tok i (sw_oidc w)" by (simp add: server_inv_def)
  from build_app_parts(1) [OF build_server_parts(1) [OF assms(2) [unfolded started_def]]]
  have cfg: "lc_expected_issuer (se_logto S) = trim_end_matches (CHR ''/'') (cf_authorization_server (se_config S))"
    "lc_expected_audiences (se_logto S) = accepted_token_audiences (se_config S)" by (auto dest: logto_new_config)
  from c(2) t ver cfg show ?thesis
    by (intro exI [of _ t] exI [of _ raw] exI [of _ v] exI [of _ tok] exI [of _ i] exI [of _ k])
      (simp add: confined_def bearer_auth_header_def)
qed

theorem only_verified_bearers_concurrently_witness:
  "\<exists>s0 w P q i t. started (sample_setting s0) \<and> requests_reach (sample_setting s0) 10 900 5 (w, P)
     \<and> q \<in> set (ds_sent (sw_carddav w)) \<and> verified_for (sample_setting s0) t ''tok'' i (sw_oidc w)
     \<and> filter (\<lambda>h. fst h = ''authorization'') (rq_headers q) = [(''authorization'', ''Bearer '' @ ''tok'')]"
proof -
  obtain s0 w v q1 q2 where s: "started (sample_setting s0)"
    "requests_reach (sample_setting s0) 10 900 5 (w, [1 \<mapsto> Ret (Behind_layers (Called (Ok v)))])" "ds_sent (sw_carddav w) = [q1, q2]"
    using sample_requests by blast
  have "url_laws (se_dav (sample_setting s0))" using sample_laws by (simp add: sample_setting_def sample_app_def)
  from only_verified_bearers_concurrently [OF this s(1,2), of q1] s(3) obtain t raw v tok i where
    q: "hq_header (se_request (sample_setting s0) t) ''authorization'' = Some raw" "trim raw = ''Bearer'' @ SPC # v"
      "tok = trim v" "tok \<noteq> []" "verified_for (sample_setting s0) t tok i (sw_oidc w)"
      "filter (\<lambda>h. fst h = ''authorization'') (rq_headers q1) = [(''authorization'', ''Bearer '' @ tok)]" by auto
  then have "extract_bearer (hq_header sample_request ''authorization'') = Some tok"
    unfolding extract_bearer_Some by (auto simp: sample_setting_def sample_input_def)
  then have "tok = ''tok''" by (simp add: sample_extract)
  with s q(5,6) show ?thesis by (intro exI [of _ s0] exI [of _ w] exI [of _ q1] exI [of _ i] exI [of _ t] exI conjI) simp_all
qed

text \<open>
  C10: requests in flight get through. In every state the service can reach, a task that holds the refresh
  gate is running and can move; a task that cannot move waits for that gate only; and any request in
  flight can be taken to its answer. Authenticating a request takes at most 15 steps, whatever the others do.
\<close>

theorem requests_get_through:
  fixes w :: "('u, 'h, 'ip, 'k, 'q, 'b, 't) server_world"
  assumes "requests_reach S now unix wall (w, P)"
  shows "(\<forall>t. refreshing t w \<longrightarrow> (\<exists>g d f. P t = Some (Step g d f) \<and> g w))
    \<and> (\<forall>t g d f. P t = Some (Step g d f) \<longrightarrow> g w \<or> (\<exists>u. refreshing u w))
    \<and> (\<forall>t p. P t = Some p \<longrightarrow> (\<exists>w' P' ans. (pool_step server_clocks (server_spawn S))\<^sup>*\<^sup>* (w, P) (w', P') \<and> P' t = Some (Ret ans)))
    \<and> within (bearer_auth_prog E cfg reply t req :: ('u, 'h, 'ip, 'k, 'q, 'b, 't, http_response + http_request) server_prog) 15"
proof -
  have prog: "(\<forall>t. refreshing t w \<longrightarrow> (\<exists>g d f. P t = Some (Step g d f) \<and> g w))
    \<and> (\<forall>t g d f. P t = Some (Step g d f) \<longrightarrow> g w \<or> (\<exists>u. refreshing u w))"
    by (rule pool_progress [where H = refreshing, OF spawned_tidy clocks_keep_gate start_no_gate assms])
  have ends: "\<exists>w' P' ans. (pool_step server_clocks (server_spawn S))\<^sup>*\<^sup>* (w, P) (w', P') \<and> P' t = Some (Ret ans)"
    if "P t = Some p" for t p
    by (rule pool_finishes [where H = refreshing, OF spawned_tidy clocks_keep_gate start_no_gate _ assms that]) simp_all
  show ?thesis
    by (rule conjI [OF conjunct1 [OF prog] conjI [OF conjunct2 [OF prog] conjI [OF _ bearer_auth_within]]]) (use ends in blast)
qed

theorem requests_get_through_witness:
  "\<exists>s0 w p w' P' ans. server_spawn (sample_setting s0) 1 p
     \<and> requests_reach (sample_setting s0) 10 900 5 (w, [1 \<mapsto> p])
     \<and> (pool_step server_clocks (server_spawn (sample_setting s0)))\<^sup>*\<^sup>* (w, [1 \<mapsto> p]) (w', P') \<and> P' 1 = Some (Ret ans)"
proof -
  obtain s0 where "started (sample_setting s0)" using sample_requests by blast
  let ?S = "sample_setting s0"
  obtain p where p: "server_spawn ?S 1 p" by (simp add: server_spawn_def)
  let ?w = "world_start (se_server ?S) 10 900 5"
  have "requests_reach ?S 10 900 5 (?w, [1 \<mapsto> p])"
    by (rule pool_reach_step [OF pool_reach_start spawn]) (use p in simp_all)
  with p requests_get_through [OF this, THEN conjunct2, THEN conjunct2, THEN conjunct1, rule_format, of 1 p] show ?thesis
    unfolding fun_upd_same by blast
qed

text \<open>
  C11: served alone, a request does what the sequential service says. In any state the service can reach in which
  nobody holds the refresh gate, a request that is spawned and not disturbed ends with the answer, the
  state and the log that \<open>router\<close> gives for it, whatever other requests are in flight.
\<close>

theorem undisturbed_requests_are_routed:
  assumes "P t = None" "ow_gate (sw_oidc w) = None"
  shows "\<exists>w' ans log. (pool_step server_clocks (server_spawn S))\<^sup>*\<^sup>* (w, P) (w', P(t \<mapsto> Ret ans))
    \<and> router (se_env S) (se_ops S) (se_layered S) (se_config S) (se_client S) (app_io_at (se_reply S) (se_input S t) w)
        (public_at (se_input S t) w) (se_request S t) (server_at w) = (ans, log, server_at w')
    \<and> sw_log w' = sw_log w @ log_entries t (lw_now (sw_limits w)) log"
proof -
  let ?p = "router_prog (se_env S) (se_ops S) (se_layered S) (se_config S) (se_client S) (se_reply S) t (se_input S t)"
  have start: "server_spawn S t ?p" by (simp add: server_spawn_def)
  obtain ans w' where r: "run ?p w = (ans, w')" by fastforce
  from tidy_alone [OF spawned_tidy [OF start], of w] assms(2) have clear: "clear ?p w" by simp
  have "pool_step server_clocks (server_spawn S) (w, P) (w, P(t \<mapsto> ?p))" by (rule spawn [where P = P, OF assms(1)]) (rule start)
  moreover have "(pool_step server_clocks (server_spawn S))\<^sup>*\<^sup>* (w, P(t \<mapsto> ?p)) (w', P(t \<mapsto> Ret ans))"
    using lone_run [OF clear, of "P(t \<mapsto> ?p)" t server_clocks "server_spawn S"] r by simp
  ultimately have "(pool_step server_clocks (server_spawn S))\<^sup>*\<^sup>* (w, P) (w', P(t \<mapsto> Ret ans))"
    by (rule converse_rtranclp_into_rtranclp)
  with run_router_prog [OF r assms(2)] show ?thesis by blast
qed

theorem undisturbed_requests_are_routed_witness:
  "\<exists>s0 w' ans log. (pool_step server_clocks (server_spawn (sample_setting s0)))\<^sup>*\<^sup>*
       (world_start s0 10 900 5, \<lambda>_. None) (w', [1 \<mapsto> Ret ans])
     \<and> router sample_app sample_ops True sample_config sample_client
         (app_io_at (\<lambda>_. JwkSet [''KEY'']) sample_input (world_start s0 10 900 5 :: (_, _, _, _, _, _, nat) server_world))
         (public_at sample_input (world_start s0 10 900 5 :: (_, _, _, _, _, _, nat) server_world)) sample_request s0
       = (ans, log, server_at w')"
proof -
  obtain s0 where "started (sample_setting s0)" using sample_requests by blast
  let ?w = "world_start s0 10 900 5 :: (string \<times> string, string, nat, string, gcra_quota, gcra_bucket, nat) server_world"
  have at: "server_at ?w = s0" "ow_gate (sw_oidc ?w) = None"
    by (simp_all add: server_at_def world_start_def oidc_world_start_def limits_start_def)
  have "se_request (sample_setting s0) 1 = sample_request" by (simp add: sample_setting_def sample_input_def)
  with undisturbed_requests_are_routed [where t = 1 and S = "sample_setting s0", OF refl at(2)] at(1) show ?thesis
    by (auto simp: sample_setting_def)
qed

end
