(* ===== verification/Metrics.thy ===== *)
theory Metrics
  imports Rust_Map Web_Types
begin

text \<open>
  The Prometheus metrics, \<open>src/src/metrics.rs\<close>.

  A counter or histogram vector of the \<open>prometheus\<close> crate is a map from label values to the count, or to
  the observed durations: \<open>with_label_values\<close> creates a series on first use. A vector that is registered lazily, on its first use, is
  the same as one that is empty until then. The registry is the record \<open>metrics\<close>; the text encoder is an argument of the handler. Bucket boundaries only decide how
  the observations are displayed.
\<close>

type_synonym counter_vec = "(string list, nat) hmap"
type_synonym histogram_vec = "(string list, duration list) hmap"

record metrics =
  TOOL_CALLS_TOTAL :: counter_vec
  TOOL_LATENCY_SECONDS :: histogram_vec
  INTROSPECT_TOTAL :: counter_vec
  INTROSPECT_LATENCY_SECONDS :: histogram_vec
  INITIALIZE_REJECTED_TOTAL :: counter_vec

definition metrics_init :: metrics where
  "metrics_init = \<lparr>TOOL_CALLS_TOTAL = [], TOOL_LATENCY_SECONDS = [], INTROSPECT_TOTAL = [],
     INTROSPECT_LATENCY_SECONDS = [], INITIALIZE_REJECTED_TOTAL = []\<rparr>"

definition inc :: "string list \<Rightarrow> counter_vec \<Rightarrow> counter_vec" where
  "inc labels v = hm_insert labels (case hm_get v labels of Some n \<Rightarrow> n + 1 | None \<Rightarrow> 1) v"

definition observe :: "string list \<Rightarrow> duration \<Rightarrow> histogram_vec \<Rightarrow> histogram_vec" where
  "observe labels d v = hm_insert labels (case hm_get v labels of Some ds \<Rightarrow> ds @ [d] | None \<Rightarrow> [d]) v"

definition record_tool_call :: "string \<Rightarrow> string \<Rightarrow> duration \<Rightarrow> metrics \<Rightarrow> metrics" where
  "record_tool_call tool out elapsed m =
     m\<lparr>TOOL_CALLS_TOTAL := inc [tool, out] (TOOL_CALLS_TOTAL m),
       TOOL_LATENCY_SECONDS := observe [tool] elapsed (TOOL_LATENCY_SECONDS m)\<rparr>"

definition record_introspect :: "string \<Rightarrow> duration \<Rightarrow> metrics \<Rightarrow> metrics" where
  "record_introspect out elapsed m =
     m\<lparr>INTROSPECT_TOTAL := inc [out] (INTROSPECT_TOTAL m),
       INTROSPECT_LATENCY_SECONDS := observe [out] elapsed (INTROSPECT_LATENCY_SECONDS m)\<rparr>"

definition metrics_handler :: "(metrics \<Rightarrow> string option) \<Rightarrow> metrics \<Rightarrow> http_response" where
  "metrics_handler encode m =
     (case encode m of
        None \<Rightarrow> plain_response 500 (''encode error'' @ [LF])
      | Some buf \<Rightarrow>
          \<lparr>rs_status = 200, rs_headers = [(''content-type'', ''text/plain; version=0.0.4; charset=utf-8'')],
           rs_body = (if utf8 buf then buf else [])\<rparr>)"

subsection \<open>Series and totals\<close>

definition total :: "counter_vec \<Rightarrow> nat" where
  "total v = sum_list (map snd v)"

definition series :: "('k, 'v) hmap \<Rightarrow> 'k set" where
  "series v = fst ` set v"

lemma series_insert: "series (hm_insert k x v) = insert k (series v)"
proof -
  have "set (map fst (hm_insert k x v)) = insert k (set (map fst v))"
    by (induction v) (auto simp: hm_insert_def)
  then show ?thesis by (simp add: series_def)
qed

lemma series_Nil [simp]: "series [] = {}"
  by (simp add: series_def)

lemma total_insert: "total (hm_insert k n v) + (case hm_get v k of None \<Rightarrow> 0 | Some x \<Rightarrow> x) = total v + n"
  by (induction v) (auto simp: total_def hm_insert_def hm_get_def)

lemma total_inc [simp]: "total (inc labels v) = total v + 1"
  using total_insert [of labels "case hm_get v labels of Some n \<Rightarrow> n + 1 | None \<Rightarrow> 1" v]
  by (simp add: inc_def split: option.splits)

lemma series_inc [simp]: "series (inc labels v) = insert labels (series v)"
  by (simp add: inc_def series_insert)

lemma series_observe [simp]: "series (observe labels d v) = insert labels (series v)"
  by (simp add: observe_def series_insert)

lemma wf_inc [simp]: "hm_wf v \<Longrightarrow> hm_wf (inc labels v)"
  by (simp add: inc_def hm_wf_insert)

lemma series_bound:
  assumes "hm_wf v" "series v \<subseteq> S" "finite S"
  shows "hm_len v \<le> card S"
proof -
  have "hm_len v = card (series v)"
    using assms(1) distinct_card [of "map fst v"] by (simp only: hm_len_def hm_wf_def series_def length_map set_map)
  with card_mono [OF assms(3,2)] show ?thesis by simp
qed

end
