(* ===== verification/Server_Metrics.thy ===== *)
theory Server_Metrics
  imports Server_Main Metrics
begin

text \<open>
  What the server counts: the log of each served request (\<open>Server_Main\<close>) applied to the metrics
  (\<open>Metrics\<close>), over a sequence of requests served one after the other, none of them dropped. The
  counters are sums, so the order of overlapping requests would not change them; a dropped request counts
  for what it reached.
\<close>

text \<open>One request with what it reads from outside, and the time its validation and its tool took.\<close>

record ('j, 'd) traffic =
  tr_io :: "('j, 'd) app_io"
  tr_request :: http_request
  tr_validation :: duration
  tr_tool :: duration

definition count_log :: "app_log \<Rightarrow> duration \<Rightarrow> duration \<Rightarrow> metrics \<Rightarrow> metrics" where
  "count_log log validation tool m =
     (let m1 = foldl (\<lambda>m e. record_introspect (outcome_str (ie_outcome e)) validation m) m (lg_validations log);
          m2 = (case lg_refusal log of
                  None \<Rightarrow> m1
                | Some bucket \<Rightarrow> m1\<lparr>INITIALIZE_REJECTED_TOTAL := inc [bucket] (INITIALIZE_REJECTED_TOTAL m1)\<rparr>)
      in case lg_tool log of
           None \<Rightarrow> m2
         | Some e \<Rightarrow> record_tool_call (te_method e) (outcome_str (te_outcome e)) tool m2)"

fun serve_all ::
  "('u, 'h, 'ip, 'k, 'j, 'q, 'b, 'd) app_env \<Rightarrow> 'a config \<Rightarrow> ('u, 'ip) dav_client \<Rightarrow> ('j, 'd) traffic list
     \<Rightarrow> ('u, 'h, 'ip, 'k, 'q, 'b) app_state \<Rightarrow> metrics \<Rightarrow> metrics" where
  "serve_all E cfg client [] st m = m"
| "serve_all E cfg client (t # ts) st m =
     (let (_, log, st') = serve E cfg client (tr_io t) (tr_request t) st
      in serve_all E cfg client ts st' (count_log log (tr_validation t) (tr_tool t) m))"

definition tool_names :: "string set" where
  "tool_names = {''whoami'', ''list_address_books'', ''list_contacts'', ''upcoming_birthdays'', ''search_contacts'',
     ''create_contact'', ''update_contact'', ''delete_contact''}"

lemma tool_name_in: "tool_name call \<in> tool_names"
  by (cases call) (simp_all add: tool_names_def)

lemma emit_tool_audit_label:
  "te_method (emit_tool_audit tool user resource count r) = tool"
  "outcome_str (te_outcome (emit_tool_audit tool user resource count r)) \<in> {''ok'', ''error'', ''rate_limited''}"
  by (auto simp: emit_tool_audit_def tool_call_def Let_def split: sum.splits)

lemma call_tool_label:
  assumes "call_tool T ctx call s = (r, Some e, s')"
  shows "te_method e \<in> tool_names \<and> outcome_str (te_outcome e) \<in> {''ok'', ''error'', ''rate_limited''}"
proof -
  from assms have "\<exists>count res. e = emit_tool_audit (tool_name call) (audit_user ctx) (tool_resource call) count res"
    by (auto simp: call_tool_def Let_def split: prod.splits sum.splits stop.splits)
  then show ?thesis using emit_tool_audit_label tool_name_in by fastforce
qed

text \<open>The middleware validates, and logs, exactly when the request names a bearer.\<close>

lemma bearer_auth_log:
  assumes "bearer_auth A cfg io req st = (r, au, evs)"
  shows "(extract_bearer (hq_header req ''authorization'') = None \<and> evs = [] \<and> (\<exists>resp. r = Inl resp))
    \<or> (extract_bearer (hq_header req ''authorization'') \<noteq> None
       \<and> (\<exists>e. evs = [e] \<and> outcome_str (ie_outcome e) \<in> {''active'', ''inactive'', ''error''}))"
  using assms
  by (auto simp: bearer_auth_def audit_introspect_def Let_def split: option.splits prod.splits sum.splits if_splits)

lemma initialize_refusal:
  assumes "initialize_rate_limit G hash now req l = (r, l', Some b)"
  shows "b = ''subject''"
  using assms
  by (auto simp: initialize_rate_limit_def init_check_def Let_def split: if_splits option.splits prod.splits sum.splits)

definition validated :: "('u, 'h, 'ip, 'k, 'j, 'q, 'b, 'd) app_env \<Rightarrow> http_request \<Rightarrow> bool" where
  "validated E req \<longleftrightarrow> ap_body_limit E MAX_MCP_REQUEST_BYTES req = None
     \<and> extract_bearer (hq_header req ''authorization'') \<noteq> None"

lemma serve_log:
  assumes "serve E cfg client io req st = (out, log, st')"
  shows "lg_validations log = [] \<and> \<not> validated E req
      \<or> (\<exists>e. lg_validations log = [e] \<and> validated E req \<and> outcome_str (ie_outcome e) \<in> {''active'', ''inactive'', ''error''})"
    and "lg_refusal log \<in> {None, Some ''subject''}"
    and "\<And>e. lg_tool log = Some e \<Longrightarrow> te_method e \<in> tool_names \<and> outcome_str (te_outcome e) \<in> {''ok'', ''error'', ''rate_limited''}"
proof -
  have "(lg_validations log = [] \<and> \<not> validated E req
      \<or> (\<exists>e. lg_validations log = [e] \<and> validated E req \<and> outcome_str (ie_outcome e) \<in> {''active'', ''inactive'', ''error''}))
    \<and> lg_refusal log \<in> {None, Some ''subject''}
    \<and> (\<forall>e. lg_tool log = Some e \<longrightarrow> te_method e \<in> tool_names \<and> outcome_str (te_outcome e) \<in> {''ok'', ''error'', ''rate_limited''})"
    using assms
  proof (cases rule: serve_cases)
    case (too_large resp)
    then show ?thesis by (simp add: validated_def)
  next
    case (turned_away resp au evs)
    with bearer_auth_log [OF turned_away(2)] show ?thesis by (auto simp: validated_def)
  next
    case (refused req1 resp au evs l refusal)
    with bearer_auth_log [OF refused(2)] initialize_refusal [of _ _ _ req1 _ _ l] show ?thesis
      by (cases refusal) (auto simp: validated_def)
  next
    case (routed req1 au evs st2 ev)
    have "te_method e \<in> tool_names \<and> outcome_str (te_outcome e) \<in> {''ok'', ''error'', ''rate_limited''}" if "ev = Some e" for e
      using routed(6)
    proof (cases rule: route_cases)
      case (tool call r s)
      with that call_tool_label [of "tools_of E client" "ctx_of io req1" call "service_of st2" r e s] show ?thesis by blast
    qed (use that in simp)
    with routed bearer_auth_log [OF routed(2)] show ?thesis by (auto simp: validated_def)
  qed
  then show "lg_validations log = [] \<and> \<not> validated E req
      \<or> (\<exists>e. lg_validations log = [e] \<and> validated E req \<and> outcome_str (ie_outcome e) \<in> {''active'', ''inactive'', ''error''})"
    and "lg_refusal log \<in> {None, Some ''subject''}"
    and "\<And>e. lg_tool log = Some e \<Longrightarrow> te_method e \<in> tool_names \<and> outcome_str (te_outcome e) \<in> {''ok'', ''error'', ''rate_limited''}"
    by blast+
qed

definition call_labels :: "string list set" where
  "call_labels = (\<lambda>(t, c). [t, c]) ` (tool_names \<times> {''ok'', ''error'', ''rate_limited''})"

definition validation_labels :: "string list set" where
  "validation_labels = {[''active''], [''inactive''], [''error'']}"

lemma label_sets: "finite call_labels" "card call_labels \<le> 24" "finite validation_labels" "card validation_labels \<le> 3"
proof -
  have "card tool_names \<le> 8" by (simp add: tool_names_def card_insert_if)
  moreover have "card (tool_names \<times> {''ok'', ''error'', ''rate_limited''}) = card tool_names * 3"
    by (simp only: card_cartesian_product) simp
  moreover show "finite call_labels" by (simp add: call_labels_def tool_names_def)
  ultimately show "card call_labels \<le> 24"
    using card_image_le [of "tool_names \<times> {''ok'', ''error'', ''rate_limited''}" "\<lambda>(t, c). [t, c]"]
    unfolding call_labels_def by (simp add: tool_names_def)
  show "finite validation_labels" "card validation_labels \<le> 3"
    by (simp_all add: validation_labels_def)
qed

text \<open>What holds of the metrics after \<open>n\<close> validations.\<close>

definition metrics_ok :: "nat \<Rightarrow> metrics \<Rightarrow> bool" where
  "metrics_ok n m \<longleftrightarrow> hm_wf (TOOL_CALLS_TOTAL m) \<and> hm_wf (INTROSPECT_TOTAL m) \<and> hm_wf (INITIALIZE_REJECTED_TOTAL m)
     \<and> series (TOOL_CALLS_TOTAL m) \<subseteq> call_labels \<and> series (TOOL_LATENCY_SECONDS m) \<subseteq> (\<lambda>t. [t]) ` tool_names
     \<and> series (INTROSPECT_TOTAL m) \<subseteq> validation_labels \<and> series (INTROSPECT_LATENCY_SECONDS m) \<subseteq> validation_labels
     \<and> series (INITIALIZE_REJECTED_TOTAL m) \<subseteq> {[''subject'']} \<and> total (INTROSPECT_TOTAL m) = n"

lemma metrics_ok_log:
  assumes "metrics_ok n m"
    and "lg_validations log = [] \<and> k = 0
      \<or> (\<exists>e. lg_validations log = [e] \<and> k = 1 \<and> outcome_str (ie_outcome e) \<in> {''active'', ''inactive'', ''error''})"
    and "lg_refusal log \<in> {None, Some ''subject''}"
    and "\<And>e. lg_tool log = Some e \<Longrightarrow> te_method e \<in> tool_names \<and> outcome_str (te_outcome e) \<in> {''ok'', ''error'', ''rate_limited''}"
  shows "metrics_ok (n + k) (count_log log v d m)"
proof -
  let ?m1 = "foldl (\<lambda>m e. record_introspect (outcome_str (ie_outcome e)) v m) m (lg_validations log)"
  let ?m2 = "case lg_refusal log of None \<Rightarrow> ?m1
    | Some bucket \<Rightarrow> ?m1\<lparr>INITIALIZE_REJECTED_TOTAL := inc [bucket] (INITIALIZE_REJECTED_TOTAL ?m1)\<rparr>"
  have 1: "metrics_ok (n + k) ?m1"
    using assms(1,2) by (auto simp: metrics_ok_def record_introspect_def validation_labels_def)
  then have 2: "metrics_ok (n + k) ?m2"
    using assms(3) by (auto simp: metrics_ok_def)
  show ?thesis
  proof (cases "lg_tool log")
    case None
    with 2 show ?thesis by (simp add: count_log_def Let_def)
  next
    case (Some e)
    with assms(4) have "[te_method e, outcome_str (te_outcome e)] \<in> call_labels" "te_method e \<in> tool_names"
      by (auto simp: call_labels_def)
    with 2 have "metrics_ok (n + k) (record_tool_call (te_method e) (outcome_str (te_outcome e)) d ?m2)"
      by (simp add: metrics_ok_def record_tool_call_def)
    with Some show ?thesis by (simp add: count_log_def Let_def)
  qed
qed

lemma serve_all_ok:
  "metrics_ok n m \<Longrightarrow> metrics_ok (n + length (filter (\<lambda>t. validated E (tr_request t)) ts)) (serve_all E cfg client ts st m)"
proof (induction ts arbitrary: n m st)
  case (Cons t ts)
  obtain out log st' where s: "serve E cfg client (tr_io t) (tr_request t) st = (out, log, st')" by (metis prod_cases3)
  have "metrics_ok (n + (if validated E (tr_request t) then 1 else 0)) (count_log log (tr_validation t) (tr_tool t) m)"
    by (rule metrics_ok_log [OF Cons.prems _ serve_log(2,3) [OF s]]) (use serve_log(1) [OF s] in auto)
  from Cons.IH [OF this, of st'] s show ?case by (cases "validated E (tr_request t)") simp_all
qed simp

subsection \<open>Properties\<close>

text \<open>
  C24: the label discipline of the metrics. Over any sequence of requests served one after the other, none
  dropped half way, whatever they contain, every
  series of the tool counters is labelled with one of the eight tool names and one of three outcomes,
  every series of the validation counters with one of three outcomes, and the only label of refused
  sessions is \<open>subject\<close>; so there are at most 24, 3 and 1 counters. The validation counters add up to
  the number of requests that named a bearer and were not refused by the body limit, which comes before
  the validation.
\<close>

theorem metrics_label_discipline:
  "let m = serve_all E cfg client ts st metrics_init in
     series (TOOL_CALLS_TOTAL m) \<subseteq> {[t, c] |t c. t \<in> tool_names \<and> c \<in> {''ok'', ''error'', ''rate_limited''}}
     \<and> series (TOOL_LATENCY_SECONDS m) \<subseteq> (\<lambda>t. [t]) ` tool_names
     \<and> series (INTROSPECT_TOTAL m) \<union> series (INTROSPECT_LATENCY_SECONDS m) \<subseteq> {[''active''], [''inactive''], [''error'']}
     \<and> series (INITIALIZE_REJECTED_TOTAL m) \<subseteq> {[''subject'']}
     \<and> hm_len (TOOL_CALLS_TOTAL m) \<le> 24 \<and> hm_len (INTROSPECT_TOTAL m) \<le> 3 \<and> hm_len (INITIALIZE_REJECTED_TOTAL m) \<le> 1
     \<and> total (INTROSPECT_TOTAL m) = length (filter (\<lambda>t. validated E (tr_request t)) ts)"
proof -
  let ?m = "serve_all E cfg client ts st metrics_init"
  have "metrics_ok 0 metrics_init" by (simp add: metrics_ok_def metrics_init_def total_def)
  from serve_all_ok [OF this, of E ts cfg client st] have
    ok: "metrics_ok (length (filter (\<lambda>t. validated E (tr_request t)) ts)) ?m" by simp
  then have "hm_len (TOOL_CALLS_TOTAL ?m) \<le> card call_labels" "hm_len (INTROSPECT_TOTAL ?m) \<le> card validation_labels"
    "hm_len (INITIALIZE_REJECTED_TOTAL ?m) \<le> card {[''subject'']}"
    unfolding metrics_ok_def by (blast intro: series_bound label_sets finite.intros)+
  with ok label_sets show ?thesis
    by (auto simp: Let_def metrics_ok_def call_labels_def validation_labels_def)
qed

end
