(* ===== verification/Process.thy ===== *)
theory Process
  imports Server_Concurrent Metrics
begin

text \<open>
  The process: \<open>main\<close>, \<open>init_tracing\<close> and \<open>shutdown_signal\<close> of \<open>src/src/main.rs\<close>, and \<open>src/src/telemetry.rs\<close>.

  \<^item> \<open>main_start\<close> is \<open>main\<close> up to its \<open>select!\<close>: what happens in order (\<open>startup_event\<close>), and the error it
    returns or the service it runs. The log subscriber, the OTLP exporter and the sockets are third-party:
    \<open>process_env\<close> holds what they answer.
  \<^item> \<open>lifecycle\<close> is the state of the \<open>select!\<close>: for each of the two listeners, whether it accepts connections
    and how many requests are in flight on it. \<open>axum::serve(..).with_graceful_shutdown(f)\<close> stops
    accepting once \<open>f\<close> is ready and is ready itself when no request is in flight. A \<open>select!\<close> ends with
    the first of its futures that is ready and drops the others; then \<open>main\<close> returns, and with the
    runtime every connection ends.
\<close>

subsection \<open>Telemetry and tracing\<close>

definition OTEL_EXPORTER_OTLP_ENDPOINT :: string where
  "OTEL_EXPORTER_OTLP_ENDPOINT = ''OTEL_EXPORTER_OTLP_ENDPOINT''"

definition CARGO_PKG_VERSION :: string where "CARGO_PKG_VERSION = ''0.1.6''"

record otel_layer =
  ot_endpoint :: string
  ot_resource :: "(string \<times> string) list"
  ot_tracer :: string

text \<open>The second component is what is printed to standard error.\<close>

definition try_build_otel_layer ::
  "(string \<Rightarrow> string option) \<Rightarrow> environment \<Rightarrow> otel_layer option \<times> string option" where
  "try_build_otel_layer exporter_error env =
     (case env_ok (env OTEL_EXPORTER_OTLP_ENDPOINT) of
        None \<Rightarrow> (None, None)
      | Some endpoint \<Rightarrow>
          (case exporter_error endpoint of
             Some err \<Rightarrow> (None, Some (''carddav-mcp: OTLP exporter init failed: '' @ err @ ''; disabling OTel tracing''))
           | None \<Rightarrow>
               (Some \<lparr>ot_endpoint = endpoint,
                  ot_resource = [(''service.name'', ''carddav-mcp''), (''service.version'', CARGO_PKG_VERSION)],
                  ot_tracer = ''carddav-mcp''\<rparr>, None)))"

datatype log_format = Json | Compact

record 'f subscriber =
  su_filter :: 'f
  su_otel :: "otel_layer option"
  su_format :: log_format

text \<open>
  \<open>EnvFilter::try_from_default_env\<close> is an argument: it reads \<open>RUST_LOG\<close>, and fails if that is not set
  or not a filter.
\<close>

record ('f, 'a) process_env =
  pe_filter_from_env :: "environment \<Rightarrow> 'f option"
  pe_filter_new :: "string \<Rightarrow> 'f"
  pe_exporter_error :: "string \<Rightarrow> string option"
  pe_bind_error :: "'a list \<Rightarrow> 'a \<Rightarrow> string option"

definition init_tracing :: "('f, 'a) process_env \<Rightarrow> environment \<Rightarrow> 'f subscriber \<times> string option" where
  "init_tracing X env =
     (let env_filter = (case pe_filter_from_env X env of
            Some f \<Rightarrow> f | None \<Rightarrow> pe_filter_new X ''carddav_mcp=info,tower_http=info,axum=info,info'');
          (otel, printed) = try_build_otel_layer (pe_exporter_error X) env;
          json_layer = (env_ok (env ''CARDDAV_MCP_LOG_FORMAT'') = Some ''json'')
      in (\<lparr>su_filter = env_filter, su_otel = otel, su_format = (if json_layer then Json else Compact)\<rparr>, printed))"

subsection \<open>Startup\<close>

datatype listener = PublicListener | MetricsListener

datatype ('f, 'a) startup_event =
    Tracing "'f subscriber" "string option"
  | MetricsRegistered metrics
  | Bound listener 'a

record ('u, 'h, 'ip, 'k, 'q, 'b, 'a) running =
  rn_config :: "'a config"
  rn_client :: "('u, 'ip) dav_client"
  rn_server :: "('u, 'h, 'ip, 'k, 'q, 'b) server"

text \<open>\<open>TcpListener::bind(addr).await?\<close>, which may fail for an address that is bound already.\<close>

definition bind_listener ::
  "('f, 'a) process_env \<Rightarrow> listener \<Rightarrow> 'a list \<Rightarrow> 'a \<Rightarrow> anyhow + ('f, 'a) startup_event" where
  "bind_listener X l bound addr = (case pe_bind_error X bound addr of Some e \<Rightarrow> Err e | None \<Rightarrow> Ok (Bound l addr))"

definition main_start ::
  "('f, 'a) process_env \<Rightarrow> ('u, 'h, 'ip, 'k, 'j, 'q, 'b, 'd) app_env \<Rightarrow> url_parser \<Rightarrow> 'a addr_ops \<Rightarrow> environment
     \<Rightarrow> ('f, 'a) startup_event list \<times> (anyhow + ('u, 'h, 'ip, 'k, 'q, 'b, 'a) running)" where
  "main_start X E P A env =
     (let (subscriber, printed) = init_tracing X env;
          started = [Tracing subscriber printed, MetricsRegistered metrics_init]
      in case config_from_env P A env of
           Inl e \<Rightarrow> (started, Err e)
         | Inr config \<Rightarrow>
             let bind_addr = cf_bind_addr config; metrics_bind_addr = cf_metrics_bind_addr config in
             (case build_server E config of
                Inl e \<Rightarrow> (started, Err e)
              | Inr (client, app) \<Rightarrow>
                  (case bind_listener X PublicListener [] bind_addr of
                     Inl e \<Rightarrow> (started, Err e)
                   | Inr public_bound \<Rightarrow>
                       (case bind_listener X MetricsListener [bind_addr] metrics_bind_addr of
                          Inl e \<Rightarrow> (started @ [public_bound], Err e)
                        | Inr metrics_bound \<Rightarrow>
                            (started @ [public_bound, metrics_bound],
                             Ok \<lparr>rn_config = config, rn_client = client, rn_server = app\<rparr>)))))"

text \<open>The router of the internal listener.\<close>

definition metrics_app :: "(metrics \<Rightarrow> string option) \<Rightarrow> http_request \<Rightarrow> metrics \<Rightarrow> http_response" where
  "metrics_app encode req m =
     (if hq_path req \<noteq> ''/metrics'' then empty_response 404
      else if \<not> takes ''GET'' (hq_method req) then method_not_allowed (allow ''GET'')
      else metrics_handler encode m)"

subsection \<open>Serving and shutdown\<close>

record serving =
  sv_accepting :: bool
  sv_in_flight :: nat

datatype unix_signal = SIGTERM | SIGINT

text \<open>\<open>pl_signals\<close> are the signals received since the handlers were installed.\<close>

record lifecycle =
  pl_signals :: "unix_signal set"
  pl_public :: serving
  pl_metrics :: serving

datatype process = Running lifecycle | Exited "anyhow + unit" lifecycle

fun serving_of :: "listener \<Rightarrow> lifecycle \<Rightarrow> serving" where
  "serving_of PublicListener p = pl_public p"
| "serving_of MetricsListener p = pl_metrics p"

fun set_serving :: "listener \<Rightarrow> serving \<Rightarrow> lifecycle \<Rightarrow> lifecycle" where
  "set_serving PublicListener s p = p\<lparr>pl_public := s\<rparr>"
| "set_serving MetricsListener s p = p\<lparr>pl_metrics := s\<rparr>"

definition serving_start :: serving where
  "serving_start = \<lparr>sv_accepting = True, sv_in_flight = 0\<rparr>"

definition lifecycle_start :: lifecycle where
  "lifecycle_start = \<lparr>pl_signals = {}, pl_public = serving_start, pl_metrics = serving_start\<rparr>"

text \<open>\<open>shutdown_signal\<close> is ready; each of its three futures has its own handlers, and they become ready together.\<close>

definition shutdown_signal :: "lifecycle \<Rightarrow> bool" where
  "shutdown_signal p \<longleftrightarrow> SIGTERM \<in> pl_signals p \<or> SIGINT \<in> pl_signals p"

text \<open>\<open>drained\<close> and \<open>failed\<close> end the \<open>select!\<close> by a server, \<open>shut_down\<close> by its third branch.\<close>

inductive process_step :: "process \<Rightarrow> process \<Rightarrow> bool" where
  request: "serving_of l p = s \<Longrightarrow> sv_accepting s \<Longrightarrow>
    process_step (Running p) (Running (set_serving l (s\<lparr>sv_in_flight := sv_in_flight s + 1\<rparr>) p))"
| answered: "serving_of l p = s \<Longrightarrow> sv_in_flight s = Suc n \<Longrightarrow>
    process_step (Running p) (Running (set_serving l (s\<lparr>sv_in_flight := n\<rparr>) p))"
| signalled: "process_step (Running p) (Running (p\<lparr>pl_signals := insert sg (pl_signals p)\<rparr>))"
| closing: "shutdown_signal p \<Longrightarrow> process_step (Running p) (Running (set_serving l ((serving_of l p)\<lparr>sv_accepting := False\<rparr>) p))"
| drained: "\<not> sv_accepting (serving_of l p) \<Longrightarrow> sv_in_flight (serving_of l p) = 0 \<Longrightarrow>
    process_step (Running p) (Exited (Ok ()) p)"
| failed: "process_step (Running p) (Exited (Err e) p)"
| shut_down: "shutdown_signal p \<Longrightarrow> process_step (Running p) (Exited (Ok ()) p)"

inductive_cases process_stepE [elim!]: "process_step (Running p) c"
inductive_simps process_step_Exited [simp]: "process_step (Exited r p) c"

definition process_reach :: "process \<Rightarrow> bool" where
  "process_reach c \<longleftrightarrow> process_step\<^sup>*\<^sup>* (Running lifecycle_start) c"

lemma process_reach_step: "process_reach c \<Longrightarrow> process_step c c' \<Longrightarrow> process_reach c'"
  unfolding process_reach_def by (rule rtranclp.rtrancl_into_rtrancl)

lemma serving_set [simp]:
  "serving_of l (set_serving k s p) = (if l = k then s else serving_of l p)" "shutdown_signal (set_serving k s p) = shutdown_signal p"
  by (cases l; cases k; simp) (cases k; simp add: shutdown_signal_def)

text \<open>A listener that stopped accepting was told to, and only a signal ends the process without an error.\<close>

fun process_inv :: "process \<Rightarrow> bool" where
  "process_inv (Running p) \<longleftrightarrow> (\<forall>l. sv_accepting (serving_of l p) \<or> shutdown_signal p)"
| "process_inv (Exited r p) \<longleftrightarrow> (r = Ok () \<longrightarrow> shutdown_signal p)"

lemma shutdown_signal_insert [simp]: "shutdown_signal (p\<lparr>pl_signals := insert sg (pl_signals p)\<rparr>)"
  by (cases sg) (simp_all add: shutdown_signal_def)

lemma serving_of_signals [simp]: "serving_of l (p\<lparr>pl_signals := S\<rparr>) = serving_of l p"
  by (cases l) simp_all

lemma process_inv_step: "process_step c c' \<Longrightarrow> process_inv c \<Longrightarrow> process_inv c'"
  by (induction rule: process_step.induct) auto

lemma process_reach_inv: "process_reach c \<Longrightarrow> process_inv c"
  unfolding process_reach_def
proof (induction rule: rtranclp_induct)
  case base
  have "sv_accepting (serving_of l lifecycle_start)" for l
    by (cases l) (simp_all add: lifecycle_start_def serving_start_def)
  then show ?case by simp
next
  case (step c c')
  then show ?case by (blast intro: process_inv_step)
qed

text \<open>Any number of requests may be in flight when the signal arrives.\<close>

definition in_flight :: "nat \<Rightarrow> lifecycle" where
  "in_flight n = lifecycle_start\<lparr>pl_public := serving_start\<lparr>sv_in_flight := n\<rparr>\<rparr>"

lemma in_flight_reach: "process_reach (Running (in_flight n))"
proof (induction n)
  case 0
  have "in_flight 0 = lifecycle_start" by (simp add: in_flight_def lifecycle_start_def serving_start_def)
  then show ?case by (simp add: process_reach_def)
next
  case (Suc n)
  have "process_step (Running (in_flight n)) (Running (in_flight (Suc n)))"
    using process_step.request [of PublicListener "in_flight n" "pl_public (in_flight n)"]
    by (simp add: in_flight_def serving_start_def)
  with Suc show ?case by (rule process_reach_step)
qed

subsection \<open>Properties\<close>

text \<open>
  C20: the process serves only what was validated. A listener is bound only after the configuration was read
  and the service built from it, the public one at its configured address before the internal
  one; the service that runs is the one built; whether spans are exported decides nothing but
  the subscriber. Metrics are on the internal listener only: no public route is \<open>/metrics\<close>, and the
  internal listener answers everything else with 404.
\<close>

theorem startup_is_validated:
  assumes "main_start X E P A env = (evs, r)"
  shows "(\<forall>l a. Bound l a \<in> set evs \<longrightarrow> (\<exists>cfg s. config_from_env P A env = Ok cfg \<and> build_server E cfg = Ok s
        \<and> a = (case l of PublicListener \<Rightarrow> cf_bind_addr cfg | MetricsListener \<Rightarrow> cf_metrics_bind_addr cfg)))
    \<and> (\<forall>rn. r = Ok rn \<longrightarrow> config_from_env P A env = Ok (rn_config rn)
        \<and> build_server E (rn_config rn) = Ok (rn_client rn, rn_server rn)
        \<and> (\<exists>su printed. evs = [Tracing su printed, MetricsRegistered metrics_init,
             Bound PublicListener (cf_bind_addr (rn_config rn)), Bound MetricsListener (cf_metrics_bind_addr (rn_config rn))]))
    \<and> snd (main_start (X\<lparr>pe_exporter_error := f\<rparr>) E P A env) = r
    \<and> map_of public_routes ''/metrics'' = None \<and> (hq_path req \<noteq> ''/metrics'' \<longrightarrow> metrics_app encode req m = empty_response 404)"
proof -
  have "(\<forall>l a. Bound l a \<in> set evs \<longrightarrow> (\<exists>cfg s. config_from_env P A env = Ok cfg \<and> build_server E cfg = Ok s
        \<and> a = (case l of PublicListener \<Rightarrow> cf_bind_addr cfg | MetricsListener \<Rightarrow> cf_metrics_bind_addr cfg)))
    \<and> (\<forall>rn. r = Ok rn \<longrightarrow> config_from_env P A env = Ok (rn_config rn)
        \<and> build_server E (rn_config rn) = Ok (rn_client rn, rn_server rn)
        \<and> (\<exists>su printed. evs = [Tracing su printed, MetricsRegistered metrics_init,
             Bound PublicListener (cf_bind_addr (rn_config rn)), Bound MetricsListener (cf_metrics_bind_addr (rn_config rn))]))"
    using assms
    by (auto simp: main_start_def bind_listener_def Let_def split: prod.splits sum.splits option.splits)
  moreover have "snd (main_start (X\<lparr>pe_exporter_error := f\<rparr>) E P A env) = snd (main_start X E P A env)"
    by (simp add: main_start_def bind_listener_def Let_def split_beta split: sum.split option.split)
  moreover have "map_of public_routes ''/metrics'' = None" by (simp add: public_routes_def)
  ultimately show ?thesis using assms by (simp add: metrics_app_def)
qed

definition sample_process :: "(unit, string) process_env" where
  "sample_process = \<lparr>pe_filter_from_env = (\<lambda>_. None), pe_filter_new = (\<lambda>_. ()), pe_exporter_error = (\<lambda>_. None),
     pe_bind_error = (\<lambda>_ _. None)\<rparr>"

theorem startup_is_validated_witness:
  "\<exists>evs rn. main_start sample_process (sample_app\<lparr>ap_dav := sample_env\<lparr>ev_parse := \<lambda>_. Some (''h'', ''/'')\<rparr>\<rparr>)
       sample_url_parser sample_addrs sample_settings = (evs, Ok rn)
     \<and> evs ! 2 = Bound PublicListener (cf_bind_addr (rn_config rn))"
proof -
  let ?E = "sample_app\<lparr>ap_dav := sample_env\<lparr>ev_parse := \<lambda>_. Some (''h'', ''/'')\<rparr>\<rparr>"
  obtain cfg client s0 where "config_from_env sample_url_parser sample_addrs sample_settings = Ok cfg"
    "build_server ?E cfg = Ok (client, s0)" using sample_settings_start by (metis prod.exhaust)
  then obtain evs rn where m: "main_start sample_process ?E sample_url_parser sample_addrs sample_settings = (evs, Ok rn)"
    by (simp add: main_start_def bind_listener_def sample_process_def Let_def split_beta)
  from startup_is_validated [OF m, THEN conjunct2, THEN conjunct1] m show ?thesis by fastforce
qed

text \<open>
  C21: the process ends without an error only on a signal, and until then both listeners accept. But the
  shutdown is not graceful: the third branch of the \<open>select!\<close> is ready as soon as the signal arrives,
  so the process may end with any number of requests in flight, which \<open>with_graceful_shutdown\<close> on the
  two servers was to wait for.
\<close>

theorem shutdown_on_signal_drops_requests:
  "(\<forall>p. process_reach (Exited (Ok ()) p) \<longrightarrow> shutdown_signal p)
   \<and> (\<forall>p l. process_reach (Running p) \<longrightarrow> sv_accepting (serving_of l p) \<or> shutdown_signal p)
   \<and> (\<forall>n. \<exists>p. process_reach (Exited (Ok ()) p) \<and> sv_in_flight (pl_public p) = n \<and> sv_accepting (pl_public p))"
proof -
  have "\<exists>p. process_reach (Exited (Ok ()) p) \<and> sv_in_flight (pl_public p) = n \<and> sv_accepting (pl_public p)" for n
  proof -
    let ?p = "(in_flight n)\<lparr>pl_signals := insert SIGTERM (pl_signals (in_flight n))\<rparr>"
    have "process_reach (Running ?p)" by (rule process_reach_step [OF in_flight_reach signalled])
    then have "process_reach (Exited (Ok ()) ?p)" by (rule process_reach_step) (rule shut_down, simp add: shutdown_signal_def)
    then show ?thesis by (intro exI [of _ ?p]) (simp add: in_flight_def serving_start_def)
  qed
  then show ?thesis using process_reach_inv by fastforce
qed

theorem shutdown_on_signal_drops_requests_witness:
  "\<exists>p. process_reach (Exited (Ok ()) p) \<and> shutdown_signal p \<and> sv_in_flight (pl_public p) = 3"
  using shutdown_on_signal_drops_requests by blast

end
