(* ===== verification/Unit_Tests.thy ===== *)
theory Unit_Tests
  imports Process "HOL-Library.Code_Target_Nat"
begin

text \<open>
  The repository's own unit tests, read against the model: one definition per Rust test function, the
  conjunction of what it asserts, and a lemma that the model passes it. They check the definitions
  of the other theories on the inputs the authors chose, one module of \<open>src/src\<close> after the other; the tests that
  need a URL parser, an HTTP server or a router are in \<open>Unit_Tests_Net\<close>.

  \<open>assert!(x.is_some())\<close> and \<open>x.unwrap()\<close> are \<open>is_some_and\<close>, \<open>x.unwrap()\<close> of a \<open>Result\<close> is \<open>is_ok_and\<close>. What a test takes
  from the outside (the clock) is an argument of its definition.
\<close>

definition is_some_and :: "('a \<Rightarrow> bool) \<Rightarrow> 'a option \<Rightarrow> bool" where
  "is_some_and f x = (case x of None \<Rightarrow> False | Some a \<Rightarrow> f a)"

definition is_ok_and :: "('a \<Rightarrow> bool) \<Rightarrow> 'e + 'a \<Rightarrow> bool" where
  "is_ok_and f x = (case x of Inl _ \<Rightarrow> False | Inr a \<Rightarrow> f a)"

lemma is_some_and_simps [simp]: "is_some_and f (Some a) = f a" "\<not> is_some_and f None"
  by (simp_all add: is_some_and_def)

lemma is_ok_and_simps [simp]: "is_ok_and f (Inr a) = f a" "\<not> is_ok_and f (Inl e)"
  by (simp_all add: is_ok_and_def)

text \<open>\<open>str::contains\<close> of a substring, and \<open>str::lines\<close>.\<close>

fun str_contains :: "string \<Rightarrow> string \<Rightarrow> bool" where
  "str_contains needle [] = (needle = [])"
| "str_contains needle (c # s) = (starts_with needle (c # s) \<or> str_contains needle s)"

definition str_lines :: "string \<Rightarrow> string list" where
  "str_lines s = map (\<lambda>l. if ends_with [CR] l then butlast l else l)
     (let ls = split_on LF s in if last ls = [] then butlast ls else ls)"

text \<open>\<open>Ipv4Addr::from_str\<close>; no test has the text of an IPv6 address.\<close>

type_synonym ipv4 = "nat \<times> nat \<times> nat \<times> nat"

definition octet_from_str :: "string \<Rightarrow> nat option" where
  "octet_from_str s =
     (if s = [] \<or> 3 < length s \<or> \<not> list_all is_ascii_digit s \<or> 1 < length s \<and> hd s = CHR ''0'' then None
      else parse_uint 8 s)"

definition ipv4_from_str :: "string \<Rightarrow> ipv4 option" where
  "ipv4_from_str s =
     (case map octet_from_str (split_on (CHR ''.'') s) of
        [Some a, Some b, Some c, Some d] \<Rightarrow> Some (a, b, c, d)
      | _ \<Rightarrow> None)"

subsection \<open>\<open>audit.rs\<close>\<close>

definition is_ascii_hexdigit :: "char \<Rightarrow> bool" where
  "is_ascii_hexdigit c \<longleftrightarrow> c \<in> set ''0123456789abcdefABCDEF''"

definition token_hash_is_16_hex_chars :: "(string \<Rightarrow> char list) \<Rightarrow> (char list \<Rightarrow> string) \<Rightarrow> bool" where
  "token_hash_is_16_hex_chars sha hex \<longleftrightarrow>
     (let h = token_hash sha hex ''any-bearer-string'' in length h = 16 \<and> list_all is_ascii_hexdigit h)"

definition is_safe_id_accepts_dav_ids_and_emails :: bool where
  "is_safe_id_accepts_dav_ids_and_emails \<longleftrightarrow>
     is_safe_id ''Mca12345'' \<and> is_safe_id ''/dav/card/julian/default/'' \<and> is_safe_id ''alice@kampong.social''
     \<and> \<not> is_safe_id ''has space'' \<and> \<not> is_safe_id (''inject'' @ [LF] @ ''outcome=ok'') \<and> \<not> is_safe_id ''''"

definition error_class_maps_known_codes :: bool where
  "error_class_maps_known_codes \<longleftrightarrow>
     error_class (internal_error ''x'') = ''internal'' \<and> error_class (invalid_params ''x'') = ''invalid_params''"

definition outcomes_are_stable_strings :: bool where
  "outcomes_are_stable_strings \<longleftrightarrow>
     outcome_str OUT_OK = ''ok'' \<and> outcome_str OUT_ERROR = ''error'' \<and> outcome_str OUT_RATE_LIMITED = ''rate_limited''"

text \<open>The digest has 32 bytes, and the hexadecimal text has two digits for each.\<close>

lemma token_hash_is_16_hex_chars:
  assumes "\<And>t. length (sha t) = 32" "\<And>b. length (hex b) = 2 * length b" "\<And>b. list_all is_ascii_hexdigit (hex b)"
  shows "token_hash_is_16_hex_chars sha hex"
  by (simp add: token_hash_is_16_hex_chars_def token_hash_def assms)

lemma audit_tests:
  "is_safe_id_accepts_dav_ids_and_emails" "error_class_maps_known_codes" "outcomes_are_stable_strings"
  by code_simp+

subsection \<open>\<open>last_used.rs\<close>\<close>

definition record_then_get_round_trip :: "instant \<Rightarrow> bool" where
  "record_then_get_round_trip now \<longleftrightarrow>
     (let t = record_use now ''abc'' (Some ((192, 0, 2, 1) :: ipv4)) tracker_new in
      is_some_and (\<lambda>r. lu_ip r = Some (192, 0, 2, 1)) (get_use t ''abc''))"

definition record_overwrites_previous_entry_for_same_key :: "instant \<Rightarrow> bool" where
  "record_overwrites_previous_entry_for_same_key now \<longleftrightarrow>
     (let t = record_use now ''k'' None (tracker_new :: ipv4 last_used_map);
          t = record_use (now + 10000000) ''k'' (Some (10, 0, 0, 1)) t
      in is_some_and (\<lambda>r. lu_ip r = Some (10, 0, 0, 1)) (get_use t ''k''))"

definition get_returns_none_for_unknown_hash :: bool where
  "get_returns_none_for_unknown_hash \<longleftrightarrow> get_use tracker_new ''nope'' = (None :: ipv4 last_used_record option)"

definition parse_client_ip_with_one_trusted_hop_takes_rightmost :: bool where
  "parse_client_ip_with_one_trusted_hop_takes_rightmost \<longleftrightarrow>
     parse_client_ip ipv4_from_str (Some ''203.0.113.5'') 1 = Some (203, 0, 113, 5)
     \<and> parse_client_ip ipv4_from_str (Some ''1.2.3.4, 10.0.0.1, 198.51.100.7'') 1 = Some (198, 51, 100, 7)
     \<and> parse_client_ip ipv4_from_str (Some ''  198.51.100.7  ,  10.0.0.1  '') 1 = Some (10, 0, 0, 1)"

definition parse_client_ip_with_two_trusted_hops_takes_third_from_right :: bool where
  "parse_client_ip_with_two_trusted_hops_takes_third_from_right \<longleftrightarrow>
     parse_client_ip ipv4_from_str (Some ''198.51.100.7, 10.0.0.1'') 2 = Some (198, 51, 100, 7)
     \<and> parse_client_ip ipv4_from_str (Some ''1.2.3.4, 198.51.100.7, 10.0.0.1'') 2 = Some (198, 51, 100, 7)"

definition parse_client_ip_returns_none_when_chain_shorter_than_trust :: bool where
  "parse_client_ip_returns_none_when_chain_shorter_than_trust \<longleftrightarrow>
     parse_client_ip ipv4_from_str (Some ''198.51.100.7'') 2 = None"

definition parse_client_ip_returns_none_when_no_proxies_trusted :: bool where
  "parse_client_ip_returns_none_when_no_proxies_trusted \<longleftrightarrow>
     parse_client_ip ipv4_from_str (Some ''198.51.100.7'') 0 = None"

definition xff_entry_count_matches_what_the_parser_splits :: bool where
  "xff_entry_count_matches_what_the_parser_splits \<longleftrightarrow>
     xff_entry_count None = 0 \<and> xff_entry_count (Some ''198.51.100.7'') = 1
     \<and> xff_entry_count (Some ''198.51.100.7, 10.0.0.1'') = 2 \<and> xff_entry_count (Some '', , ,'') = 4
     \<and> xff_entry_count (Some '''') = 1"

definition parse_client_ip_returns_none_for_garbage :: bool where
  "parse_client_ip_returns_none_for_garbage \<longleftrightarrow>
     parse_client_ip ipv4_from_str None 1 = None \<and> parse_client_ip ipv4_from_str (Some '''') 1 = None
     \<and> parse_client_ip ipv4_from_str (Some ''not an ip'') 1 = None \<and> parse_client_ip ipv4_from_str (Some '', , ,'') 1 = None"

lemma last_used_tests:
  "record_then_get_round_trip now" "record_overwrites_previous_entry_for_same_key now" "get_returns_none_for_unknown_hash"
  by (simp_all add: record_then_get_round_trip_def record_overwrites_previous_entry_for_same_key_def
      get_returns_none_for_unknown_hash_def record_use_def get_use_def tracker_new_def MAX_ENTRIES_def)

lemma client_ip_tests:
  "parse_client_ip_with_one_trusted_hop_takes_rightmost"
  "parse_client_ip_with_two_trusted_hops_takes_third_from_right"
  "parse_client_ip_returns_none_when_chain_shorter_than_trust"
  "parse_client_ip_returns_none_when_no_proxies_trusted"
  "xff_entry_count_matches_what_the_parser_splits"
  "parse_client_ip_returns_none_for_garbage"
  by code_simp+

text \<open>The record as \<open>serde\<close> writes it, \<open>show_ip\<close> being the text of an address, and \<open>Value::as_i64\<close> of a number that is not negative.\<close>

definition last_used_json :: "('ip \<Rightarrow> string) \<Rightarrow> 'ip last_used_record \<Rightarrow> json" where
  "last_used_json show_ip r =
     JObject [(''at_unix'', JNumber (digits_of (nat (ser_unix_secs (lu_at r))))),
              (''ip'', case lu_ip r of None \<Rightarrow> JNull | Some ip \<Rightarrow> JString (show_ip ip))]"

definition json_as_i64 :: "json \<Rightarrow> int option" where
  "json_as_i64 v = (case v of JNumber s \<Rightarrow> map_option int (parse_uint 63 s) | _ \<Rightarrow> None)"

definition at_field_serialises_as_unix_seconds :: "(ipv4 \<Rightarrow> string) \<Rightarrow> instant \<Rightarrow> bool" where
  "at_field_serialises_as_unix_seconds show_ip now \<longleftrightarrow>
     (let t = record_use now ''a'' None tracker_new in
      is_some_and (\<lambda>r. let json = last_used_json show_ip r in
          Option.bind (json_get json ''at_unix'') json_as_i64 \<noteq> None \<and> json_get json ''ip'' = Some JNull) (get_use t ''a''))"

lemma digits_of_ne: "digits_of n \<noteq> []"
  by (subst digits_of.simps) simp

lemma at_field_test: "at_field_serialises_as_unix_seconds show_ip now"
proof -
  let ?n = "nat (ser_unix_secs now)"
  have "ser_unix_secs now < 2 ^ 63" by (simp add: ser_unix_secs_def Let_def)
  then have "?n < 2 ^ 63" by (simp add: nat_less_iff ser_unix_secs_def Let_def)
  then have "parse_uint 63 (digits_of ?n) = Some ?n"
    using parse_uint_digits [of "digits_of ?n" 63] by (simp add: digits_val_digits_of digits_of_all digits_of_ne)
  then show ?thesis
    by (simp add: at_field_serialises_as_unix_seconds_def record_use_def get_use_def tracker_new_def MAX_ENTRIES_def
        last_used_json_def json_get_def json_as_i64_def)
qed

subsection \<open>\<open>birthday.rs\<close>\<close>

text \<open>The calendar on plain triples, to compute with; \<open>add_days\<close> goes month by month.\<close>

function add_days :: "nat \<Rightarrow> int \<times> nat \<times> nat \<Rightarrow> int \<times> nat \<times> nat" where
  "add_days n (y, m, d) =
     (if n = 0 \<or> d + n \<le> month_len y m then (y, m, d + n)
      else add_days (n - (month_len y m - d + 1)) (if m < 12 then (y, m + 1, 1) else (y + 1, 1, 1)))"
  by pat_completeness auto
termination
  by (relation "measure fst") auto

lemma next_day_in_month: "d + j \<le> month_len y m \<Longrightarrow> (next_day ^^ j) (y, m, d) = (y, m, d + j)"
  by (induction j) auto

lemma month_len_pos: "1 \<le> m \<Longrightarrow> m \<le> 12 \<Longrightarrow> 1 \<le> month_len y m"
  by (simp add: month_len_def)

lemma add_days_next_day: "valid_date t \<Longrightarrow> add_days n t = (next_day ^^ n) t"
proof (induction n t rule: add_days.induct)
  case (1 n y m d)
  show ?case
  proof (cases "n = 0 \<or> d + n \<le> month_len y m")
    case True
    then show ?thesis by (auto simp: next_day_in_month)
  next
    case False
    let ?k = "month_len y m - d + 1" and ?t = "if m < 12 then (y, m + 1, 1) else (y + 1, 1, 1)"
    have v: "d \<le> month_len y m" "1 \<le> m" "m \<le> 12" using "1.prems" by (auto simp: valid_date_def valid_ymd_def)
    have "(next_day ^^ (month_len y m - d)) (y, m, d) = (y, m, month_len y m)"
      using next_day_in_month [of d "month_len y m - d" y m] v by simp
    then have k: "(next_day ^^ ?k) (y, m, d) = ?t" by simp
    have "valid_date ?t" using v month_len_pos by (auto simp: valid_date_def valid_ymd_def)
    with "1.IH" [OF False] have "add_days n (y, m, d) = (next_day ^^ (n - ?k)) ?t" using False by simp
    also have "\<dots> = (next_day ^^ (n - ?k)) ((next_day ^^ ?k) (y, m, d))" by (simp only: k)
    also have "\<dots> = (next_day ^^ (n - ?k + ?k)) (y, m, d)" by (simp only: funpow_add comp_apply)
    also have "n - ?k + ?k = n" using False v by simp
    finally show ?thesis .
  qed
qed


definition civil :: "(int \<times> nat \<times> nat) calendar" where
  "civil = \<lparr>cal_ymd = (\<lambda>y m d. if valid_ymd y m d \<and> -262143 \<le> y \<and> y \<le> 262142 then Some (y, m, d) else None),
     cal_year = fst, cal_num = date_number,
     cal_add = (\<lambda>t n. let t' = add_days n t in if -262143 \<le> fst t' \<and> fst t' \<le> 262142 then Some t' else None),
     cal_min_year = -262143, cal_max_year = 262142\<rparr>"

text \<open>\<open>NaiveDate::from_ymd_opt(y, m, d).unwrap()\<close>\<close>

definition day :: "int \<Rightarrow> nat \<Rightarrow> nat \<Rightarrow> gdate" where
  "day y m d = the (cal_ymd gregorian y m d)"

definition civil_date :: "int \<times> nat \<times> nat \<Rightarrow> bool" where
  "civil_date t \<longleftrightarrow> valid_date t \<and> -262143 \<le> fst t \<and> fst t \<le> 262142"

definition day_of :: "int \<times> nat \<times> nat \<Rightarrow> gdate" where
  "day_of t = (case t of (y, m, d) \<Rightarrow> day y m d)"

lemma day_of_num: "civil_date t \<Longrightarrow> cal_num gregorian (day_of t) = cal_num civil t \<and> cal_year gregorian (day_of t) = cal_year civil t"
  using gdate_of [of "fst t" "fst (snd t)" "snd (snd t)"]
  by (cases t) (simp add: civil_date_def valid_date_def day_of_def day_def gdate_of_def gregorian_def civil_def date_number_def)

lemma ymd_civil: "cal_ymd gregorian y m d = map_option day_of (cal_ymd civil y m d)"
  using gregorian.ymd_valid [of y m d]
  by (auto simp: civil_def day_of_def day_def gregorian_def split: if_splits)

lemma civil_ymd_date: "cal_ymd civil y m d = Some t \<Longrightarrow> civil_date t"
  by (auto simp: civil_def civil_date_def valid_date_def split: if_splits)

lemma occurrence_civil: "occurrence_in gregorian b y = map_option day_of (occurrence_in civil b y)"
  by (cases "cal_ymd civil y (bd_month b) (bd_day b)") (simp_all add: occurrence_in_def ymd_civil)

lemma civil_occurrence_date: "occurrence_in civil b y = Some t \<Longrightarrow> civil_date t"
  by (auto simp: occurrence_in_def split: option.splits if_splits intro: civil_ymd_date)

lemma days_until_in_civil:
  "civil_date t \<Longrightarrow> days_until_in gregorian b (day_of t) ys = days_until_in civil b t ys"
  by (induction ys) (auto simp: occurrence_civil day_of_num civil_occurrence_date split: option.split)

lemma days_until_civil: "civil_date t \<Longrightarrow> days_until gregorian b (day_of t) = days_until civil b t"
  by (simp only: days_until_def first_year_def day_of_num days_until_in_civil)

lemma within_window_civil: "civil_date t \<Longrightarrow> within_window gregorian b (day_of t) n = within_window civil b t n"
  by (simp add: within_window_def days_until_civil)

lemma civil_add:
  assumes "civil_date t"
  shows "cal_add gregorian (day_of t) n = map_option day_of (cal_add civil t n)"
proof -
  let ?t = "(next_day ^^ n) t"
  have v: "valid_date ?t" and n: "date_number ?t = date_number t + int n"
    using next_days [of t n] assms by (auto simp: civil_date_def)
  have a: "add_days n t = ?t" using assms by (simp add: civil_date_def add_days_next_day)
  have num: "cal_num gregorian (day_of t) = date_number t" using day_of_num [OF assms] by (simp add: civil_def)
  show ?thesis
  proof (cases "civil_date ?t")
    case True
    then have "cal_num gregorian (day_of ?t) = cal_num gregorian (day_of t) + int n"
      using day_of_num [OF True] num n by (simp add: civil_def)
    then have "cal_add gregorian (day_of t) n = Some (day_of ?t)" using gregorian.add_num by blast
    with True a show ?thesis by (simp add: civil_def civil_date_def Let_def)
  next
    case False
    have "cal_add gregorian (day_of t) n = None"
    proof (rule ccontr)
      assume "cal_add gregorian (day_of t) n \<noteq> None"
      then obtain g where g: "cal_num gregorian g = date_number t + int n" using gregorian.add_num num by auto
      obtain m d where "cal_ymd gregorian (cal_year gregorian g) m d = Some g" using gregorian.ymd_all by blast
      then obtain t' where t': "civil_date t'" "g = day_of t'" using ymd_civil civil_ymd_date by fastforce
      then have "date_number t' = date_number ?t" using day_of_num [OF t'(1)] g n by (simp add: civil_def)
      with t'(1) v False show False using date_number_inj [of t' ?t] by (simp add: civil_date_def)
    qed
    with False v a show ?thesis by (auto simp: civil_def civil_date_def Let_def)
  qed
qed

lemma turning_civil: "civil_date t \<Longrightarrow> turning gregorian b (day_of t) = turning civil b t"
proof -
  assume t: "civil_date t"
  have "cal_add civil t n = Some t' \<Longrightarrow> civil_date t'" for n t'
    using next_days [of t n] t by (auto simp: civil_def civil_date_def Let_def add_days_next_day split: if_splits)
  then show ?thesis
    by (auto simp: turning_def days_until_civil [OF t] civil_add [OF t] day_of_num option.map_comp comp_def
        intro!: option.map_cong split: option.split)
qed

lemma parse_bday_civil: "parse_bday gregorian v = parse_bday civil v"
  unfolding parse_bday_def Let_def
  by (intro if_cong refl arg_cong [where f = "Option.bind _"] ext)
    (auto simp: ymd_civil option.map_comp comp_def split: option.split Option.bind_split)

definition parses_every_form_the_spec_permits :: bool where
  "parses_every_form_the_spec_permits \<longleftrightarrow>
     is_some_and (\<lambda>b. bd_year b = Some 1984) (parse_bday gregorian ''1984-03-17'')
     \<and> is_some_and (\<lambda>b. bd_month b = 3) (parse_bday gregorian ''19840317'')
     \<and> is_some_and (\<lambda>b. bd_year b = None) (parse_bday gregorian ''--03-17'')
     \<and> is_some_and (\<lambda>b. bd_day b = 17) (parse_bday gregorian ''--0317'')
     \<and> is_some_and (\<lambda>b. bd_day b = 17) (parse_bday gregorian ''1984-03-17T09:00:00Z'')
     \<and> is_some_and (\<lambda>b. bd_raw b = ''1984-03-17'') (parse_bday gregorian '' 1984-03-17 '')"

definition unparseable_values_return_none_rather_than_erroring :: bool where
  "unparseable_values_return_none_rather_than_erroring \<longleftrightarrow>
     list_all (\<lambda>v. parse_bday gregorian v = None)
       ['''', ''   '', ''unknown'', ''circa 1984'', ''1984'', ''1984-03'', ''--13-01'', ''--02-30'', ''1997-02-29'']"

definition today_is_zero_and_the_window_edge_is_inclusive :: bool where
  "today_is_zero_and_the_window_edge_is_inclusive \<longleftrightarrow> (let today = day 2026 8 29 in
     is_some_and (\<lambda>b. days_until gregorian b today = 0) (parse_bday gregorian ''--08-29'')
     \<and> is_some_and (\<lambda>b. days_until gregorian b today = 14) (parse_bday gregorian ''--09-12'')
     \<and> is_some_and (\<lambda>b. days_until gregorian b today = 15) (parse_bday gregorian ''--09-13''))"

definition a_birthday_just_past_wraps_to_next_year :: bool where
  "a_birthday_just_past_wraps_to_next_year \<longleftrightarrow> (let today = day 2026 8 29 in
     is_some_and (\<lambda>b. days_until gregorian b today = 364) (parse_bday gregorian ''--08-28''))"

definition the_window_crosses_the_year_boundary :: bool where
  "the_window_crosses_the_year_boundary \<longleftrightarrow> (let today = day 2026 12 28 in
     is_some_and (\<lambda>b. days_until gregorian b today = 6) (parse_bday gregorian ''--01-03'')
     \<and> is_some_and (\<lambda>b. days_until gregorian b today = 3) (parse_bday gregorian ''--12-31''))"

definition a_leap_day_birthday_falls_on_the_first_of_march_in_a_common_year :: bool where
  "a_leap_day_birthday_falls_on_the_first_of_march_in_a_common_year \<longleftrightarrow>
     is_some_and (\<lambda>leap. days_until gregorian leap (day 2026 2 28) = 1 \<and> days_until gregorian leap (day 2026 3 1) = 0
       \<and> days_until gregorian leap (day 2028 2 28) = 1 \<and> days_until gregorian leap (day 2028 2 29) = 0)
       (parse_bday gregorian ''1996-02-29'')"

definition the_thirty_day_window_answers_where_the_fourteen_day_window_is_empty :: bool where
  "the_thirty_day_window_answers_where_the_fourteen_day_window_is_empty \<longleftrightarrow>
     (let today = day 2026 8 29;
          cards = [''--09-13'', ''--09-20'', ''--09-28'', ''--08-28'', ''1984-06-01''];
          within = (\<lambda>days. length (filter (\<lambda>b. within_window gregorian b today days \<noteq> None)
                       (List.map_filter (parse_bday gregorian) cards)))
      in within 30 = 3 \<and> within 14 = 0 \<and> within 15 = 1)"

definition a_birthday_does_not_occur_before_the_year_it_records :: bool where
  "a_birthday_does_not_occur_before_the_year_it_records \<longleftrightarrow>
     is_some_and (\<lambda>born. days_until gregorian born (day 1983 3 16) = 367 \<and> days_until gregorian born (day 1984 3 17) = 0
       \<and> turning gregorian born (day 1983 3 16) = Some (Some 0)) (parse_bday gregorian ''1984-03-17'')
     \<and> is_some_and (\<lambda>b. days_until gregorian b (day 1983 3 16) = 1) (parse_bday gregorian ''--03-17'')"

definition within_window_includes_the_last_day_and_excludes_the_next :: bool where
  "within_window_includes_the_last_day_and_excludes_the_next \<longleftrightarrow> (let today = day 2026 8 29 in
     is_some_and (\<lambda>at_14. within_window gregorian at_14 today 14 = Some 14) (parse_bday gregorian ''--09-12'')
     \<and> is_some_and (\<lambda>at_15. within_window gregorian at_15 today 14 = None \<and> within_window gregorian at_15 today 15 = Some 15)
         (parse_bday gregorian ''--09-13'')
     \<and> is_some_and (\<lambda>b. within_window gregorian b today 0 = Some 0) (parse_bday gregorian ''--08-29''))"

definition age_is_reported_only_when_the_card_records_a_year :: bool where
  "age_is_reported_only_when_the_card_records_a_year \<longleftrightarrow> (let today = day 2026 8 29 in
     is_some_and (\<lambda>b. turning gregorian b today = Some (Some 42)) (parse_bday gregorian ''1984-09-12'')
     \<and> is_some_and (\<lambda>b. turning gregorian b today = Some (Some 43)) (parse_bday gregorian ''1984-08-28'')
     \<and> is_some_and (\<lambda>b. turning gregorian b today = Some None) (parse_bday gregorian ''--09-12''))"

lemma civil_days:
  assumes "civil_date (y, m, d)"
  shows "days_until gregorian b (day y m d) = days_until civil b (y, m, d)"
    and "within_window gregorian b (day y m d) n = within_window civil b (y, m, d) n"
    and "turning gregorian b (day y m d) = turning civil b (y, m, d)"
  using days_until_civil [OF assms] within_window_civil [OF assms] turning_civil [OF assms]
  by (simp_all add: day_of_def)

lemma test_days:
  "civil_date (2026, 8, 29)" "civil_date (2026, 12, 28)" "civil_date (2026, 2, 28)" "civil_date (2026, 3, 1)"
  "civil_date (2028, 2, 28)" "civil_date (2028, 2, 29)" "civil_date (1983, 3, 16)" "civil_date (1984, 3, 17)"
  by code_simp+

lemmas to_civil = Let_def parse_bday_civil test_days [THEN civil_days(1)] test_days [THEN civil_days(2)] test_days [THEN civil_days(3)]

lemma parse_bday_tests:
  "parses_every_form_the_spec_permits" "unparseable_values_return_none_rather_than_erroring"
  unfolding parses_every_form_the_spec_permits_def unparseable_values_return_none_rather_than_erroring_def to_civil
  by code_simp+

lemma days_until_tests:
  "today_is_zero_and_the_window_edge_is_inclusive" "a_birthday_just_past_wraps_to_next_year"
  "the_window_crosses_the_year_boundary" "a_leap_day_birthday_falls_on_the_first_of_march_in_a_common_year"
  unfolding today_is_zero_and_the_window_edge_is_inclusive_def a_birthday_just_past_wraps_to_next_year_def
    the_window_crosses_the_year_boundary_def a_leap_day_birthday_falls_on_the_first_of_march_in_a_common_year_def to_civil
  by code_simp+

lemma window_tests:
  "the_thirty_day_window_answers_where_the_fourteen_day_window_is_empty"
  "within_window_includes_the_last_day_and_excludes_the_next"
  unfolding the_thirty_day_window_answers_where_the_fourteen_day_window_is_empty_def
    within_window_includes_the_last_day_and_excludes_the_next_def to_civil
  by code_simp+

lemma birth_year_test: "a_birthday_does_not_occur_before_the_year_it_records"
  unfolding a_birthday_does_not_occur_before_the_year_it_records_def to_civil
  by code_simp

lemma age_test: "age_is_reported_only_when_the_card_records_a_year"
  unfolding age_is_reported_only_when_the_card_records_a_year_def to_civil
  by code_simp

subsection \<open>\<open>mcp.rs\<close>\<close>

definition test_contact :: contact_input where
  "test_contact = \<lparr>ci_uid = None, ci_full_name = ''Alice Example'', ci_given_name = Some ''Alice'',
     ci_family_name = Some ''Example'', ci_emails = [''alice@kanjo.sg''], ci_phones = [''+65 6123 4567''],
     ci_organization = Some ''Kampong Social Club'', ci_title = Some ''Member'',
     ci_note = Some (''Line one'' @ [LF] @ ''Line two'')\<rparr>"

definition vcard_round_trip_extracts_common_fields :: bool where
  "vcard_round_trip_extracts_common_fields \<longleftrightarrow>
     is_some_and (is_ok_and (\<lambda>vcard. ends_with (''END:VCARD'' @ [CR, LF]) vcard
       \<and> (let parsed = parse_vcard vcard in
          pv_uid parsed = Some ''alice-1@carddav-mcp'' \<and> pv_full_name parsed = Some ''Alice Example''
          \<and> pv_given_name parsed = Some ''Alice'' \<and> pv_family_name parsed = Some ''Example''
          \<and> pv_emails parsed = [''alice@kanjo.sg'']
          \<and> pv_note parsed = Some (''Line one'' @ [LF] @ ''Line two''))))
       (build_vcard test_contact ''alice-1@carddav-mcp'')"

definition vcard_escaping_blocks_property_injection :: bool where
  "vcard_escaping_blocks_property_injection \<longleftrightarrow>
     (let input = test_contact\<lparr>ci_full_name := ''Alice'' @ [CR, LF] @ ''EMAIL:attacker@evil.test''\<rparr> in
      is_some_and (is_ok_and (\<lambda>vcard. str_contains (''FN:Alice'' @ [BSL] @ ''nEMAIL:attacker@evil.test'') vcard
        \<and> length (filter (starts_with ''EMAIL:'') (str_lines vcard)) = 1))
        (build_vcard input ''safe-id''))"

text \<open>The character is three bytes of UTF-8.\<close>

definition folded_utf8_lines_unfold_without_corruption :: bool where
  "folded_utf8_lines_unfold_without_corruption \<longleftrightarrow>
     (let input = test_contact\<lparr>ci_note := Some (concat (replicate 80 [CHR 0xE7, CHR 0x95, CHR 0x8C]))\<rparr> in
      is_some_and (is_ok_and (\<lambda>vcard. str_contains [CR, LF, SPC] vcard \<and> pv_note (parse_vcard vcard) = ci_note input))
        (build_vcard input ''utf8-id''))"

definition list_limit_is_bounded :: bool where
  "list_limit_is_bounded \<longleftrightarrow> validated_limit 1000 = Ok MAX_CONTACT_LIMIT \<and> \<not> is_ok (validated_limit 0)"

lemma vcard_tests:
  "vcard_round_trip_extracts_common_fields" "vcard_escaping_blocks_property_injection"
  by code_simp+

lemma folding_test: "folded_utf8_lines_unfold_without_corruption"
  by code_simp

lemma limit_test: "list_limit_is_bounded"
  by code_simp

subsection \<open>\<open>auth.rs\<close>\<close>

definition extracts_well_formed_bearer :: bool where
  "extracts_well_formed_bearer \<longleftrightarrow> extract_bearer (Some ''Bearer abc.def.ghi'') = Some ''abc.def.ghi''"

definition rejects_lowercase_scheme :: bool where
  "rejects_lowercase_scheme \<longleftrightarrow> extract_bearer (Some ''bearer abc'') = None"

definition rejects_basic_scheme :: bool where
  "rejects_basic_scheme \<longleftrightarrow> extract_bearer (Some ''Basic dXNlcjpwYXNz'') = None"

definition rejects_empty_token :: bool where
  "rejects_empty_token \<longleftrightarrow> extract_bearer (Some ''Bearer '') = None"

definition trims_whitespace_around_token :: bool where
  "trims_whitespace_around_token \<longleftrightarrow> extract_bearer (Some ''Bearer   xyz   '') = Some ''xyz''"

text \<open>A header value of visible ASCII characters and spaces is valid.\<close>

definition unauthorized_has_www_authenticate :: bool where
  "unauthorized_has_www_authenticate \<longleftrightarrow>
     (let r = unauthorized (list_all (\<lambda>c. 32 \<le> code c \<and> code c < 127)) ''https://carddav-mcp.example.test'' in
      rs_status r = 401 \<and> is_some_and (str_contains ''resource_metadata='') (map_of (rs_headers r) ''www-authenticate''))"

lemma bearer_tests:
  "extracts_well_formed_bearer" "rejects_lowercase_scheme" "rejects_basic_scheme" "rejects_empty_token"
  "trims_whitespace_around_token" "unauthorized_has_www_authenticate"
  by code_simp+

subsection \<open>\<open>metrics.rs\<close>\<close>

definition record_tool_call_advances_counter :: "metrics \<Rightarrow> bool" where
  "record_tool_call_advances_counter m \<longleftrightarrow>
     (let m = m\<lparr>TOOL_CALLS_TOTAL := hm_insert [''__test_tool'', ''ok''] 0 (TOOL_CALLS_TOTAL m)\<rparr>;
          m = record_tool_call ''__test_tool'' ''ok'' (50 * 1000000) m;
          m = record_tool_call ''__test_tool'' ''ok'' (70 * 1000000) m
      in hm_get (TOOL_CALLS_TOTAL m) [''__test_tool'', ''ok''] = Some 2)"

lemma record_tool_call_advances_counter: "record_tool_call_advances_counter m"
  by (simp add: record_tool_call_advances_counter_def record_tool_call_def inc_def)

text \<open>\<open>gather()\<close> lists the families that have a labelled child, under the names they are registered with.\<close>

definition gathered :: "metrics \<Rightarrow> string list" where
  "gathered m =
     concat [if TOOL_CALLS_TOTAL m = [] then [] else [''carddav_mcp_tool_calls_total''],
             if TOOL_LATENCY_SECONDS m = [] then [] else [''carddav_mcp_tool_latency_seconds''],
             if INTROSPECT_TOTAL m = [] then [] else [''carddav_mcp_introspect_total''],
             if INTROSPECT_LATENCY_SECONDS m = [] then [] else [''carddav_mcp_introspect_latency_seconds''],
             if INITIALIZE_REJECTED_TOTAL m = [] then [] else [''carddav_mcp_initialize_rejected_total'']]"

definition metrics_text_output_includes_registered_families :: "metrics \<Rightarrow> bool" where
  "metrics_text_output_includes_registered_families m \<longleftrightarrow>
     (let m = record_introspect ''active'' 1000000 (record_tool_call ''__families_test'' ''ok'' 1000000 m); names = gathered m in
      ''carddav_mcp_tool_calls_total'' \<in> set names \<and> ''carddav_mcp_introspect_total'' \<in> set names)"

lemma families_test: "metrics_text_output_includes_registered_families m"
  by (simp add: metrics_text_output_includes_registered_families_def record_introspect_def record_tool_call_def inc_def
      gathered_def hm_insert_def Let_def)

subsection \<open>\<open>rate_limit.rs\<close>\<close>

text \<open>
  The tests run in far less than a refill period, so the clock stands still. \<open>read\<close> and \<open>written\<close> are the calls
  of \<open>Limiter::check\<close>, and \<open>answers\<close> whether each passed.
\<close>

definition read :: "instant \<Rightarrow> string \<Rightarrow> string option \<Rightarrow> tool_request" where
  "read now h s = \<lparr>tr_now = now, tr_bearer = h, tr_sub = s, tr_category = Read\<rparr>"

definition written :: "instant \<Rightarrow> string \<Rightarrow> string option \<Rightarrow> tool_request" where
  "written now h s = \<lparr>tr_now = now, tr_bearer = h, tr_sub = s, tr_category = Write\<rparr>"

definition answers :: "tool_request list \<Rightarrow> gcra_bucket limiter \<Rightarrow> bool list" where
  "answers rs l = map snd (fst (limiter_run gcra rs l))"

definition zero_quota_rejected :: bool where
  "zero_quota_rejected \<longleftrightarrow> limiter_new 0 1 = (None :: gcra_bucket limiter option) \<and> limiter_new 1 0 = (None :: gcra_bucket limiter option)"

definition reads_and_writes_have_independent_buckets :: "instant \<Rightarrow> bool" where
  "reads_and_writes_have_independent_buckets now \<longleftrightarrow> is_some_and (\<lambda>l.
     answers [read now ''h'' (Some ''s''), read now ''h'' (Some ''s''), read now ''h'' (Some ''s''),
       written now ''h'' (Some ''s''), written now ''h'' (Some ''s''), written now ''h'' (Some ''s'')] l
     = [True, True, False, True, True, False]) (limiter_new 2 2)"

definition distinct_bearers_dont_share_a_bucket :: "instant \<Rightarrow> bool" where
  "distinct_bearers_dont_share_a_bucket now \<longleftrightarrow> is_some_and (\<lambda>l.
     answers [read now ''h1'' None, read now ''h1'' None, read now ''h2'' None] l = [True, False, True]) (limiter_new 1 1)"

definition sub_bucket_denies_across_bearers_for_same_user :: "instant \<Rightarrow> bool" where
  "sub_bucket_denies_across_bearers_for_same_user now \<longleftrightarrow> is_some_and (\<lambda>l.
     answers [read now ''h1'' (Some ''user-A''), read now ''h2'' (Some ''user-A'')] l = [True, False]) (limiter_new 1 1)"

definition no_sub_means_bearer_only :: "instant \<Rightarrow> bool" where
  "no_sub_means_bearer_only now \<longleftrightarrow> is_some_and (\<lambda>l.
     answers [read now ''h1'' None, read now ''h1'' None, read now ''h2'' None] l = [True, False, True]) (limiter_new 1 1)"

fun init_answers ::
  "instant \<Rightarrow> (string \<times> string option) list \<Rightarrow> (gcra_quota, gcra_bucket) init_limiter \<Rightarrow> (rejected_by + unit) list" where
  "init_answers now [] l = []"
| "init_answers now ((h, s) # rest) l = (let (r, l') = init_check gcra now h s l in r # init_answers now rest l')"

definition initialize_limiter_denies_after_burst_and_names_the_subject_bucket :: "instant \<Rightarrow> bool" where
  "initialize_limiter_denies_after_burst_and_names_the_subject_bucket now \<longleftrightarrow>
     init_answers now [(''h'', Some ''s''), (''h'', Some ''s''), (''h'', Some ''s'')] (init_limiter_new gcra (secs 60) 2)
     = [Ok (), Ok (), Err Subject]"

definition a_refused_initialize_spends_nothing :: "instant \<Rightarrow> bool" where
  "a_refused_initialize_spends_nothing now \<longleftrightarrow>
     init_answers now [(''h1'', Some ''s''), (''h2'', Some ''s''), (''h2'', Some ''s''), (''h2'', None)]
       (init_limiter_new gcra (secs 3600) 1)
     = [Ok (), Err Subject, Err Subject, Ok ()]"

definition a_drained_bucket_refills_one_connection_in_minutes :: bool where
  "a_drained_bucket_refills_one_connection_in_minutes \<longleftrightarrow> INITIALIZE_REPLENISH * 2 \<le> secs 300"

definition burst_covers_a_full_fleet_restart_at_two_charges_each :: "instant \<Rightarrow> bool" where
  "burst_covers_a_full_fleet_restart_at_two_charges_each now \<longleftrightarrow>
     list_all is_ok (init_answers now
       (concat (map (\<lambda>agent. replicate 2 (''bearer'' @ digits_of agent, Some ''julian'')) [0..<8]))
       (init_limiter_new gcra INITIALIZE_REPLENISH MAX_INITIALIZES_PER_IDENTITY))"

definition initialize_limiter_denies_across_bearers_for_same_sub :: "instant \<Rightarrow> bool" where
  "initialize_limiter_denies_across_bearers_for_same_sub now \<longleftrightarrow>
     map is_ok (init_answers now [(''h1'', Some ''s''), (''h2'', Some ''s'')] (init_limiter_new gcra (secs 60) 1)) = [True, False]"

definition initialize_limiter_no_sub_uses_bearer_only :: "instant \<Rightarrow> bool" where
  "initialize_limiter_no_sub_uses_bearer_only now \<longleftrightarrow>
     map is_ok (init_answers now [(''h'', None), (''h'', None), (''h2'', None)] (init_limiter_new gcra (secs 60) 1))
     = [True, False, True]"

lemmas limiter_eval = answers_def read_def written_def limiter_step_def limiter_check_def get_or_insert_def
  get_or_insert_with_quota_def bucket_check_def admit_def make_room_def hm_len_def hm_insert_def hm_get_def
  gcra_def gcra_check_def per_min_def bearer_map_def sub_map_def set_bearer_map_def set_sub_map_def empty_buckets_def
  limiter_new_def MAX_BUCKETS_PER_MAP_def secs_def Let_def

lemma limiter_tests:
  "zero_quota_rejected" "reads_and_writes_have_independent_buckets now" "distinct_bearers_dont_share_a_bucket now"
  "sub_bucket_denies_across_bearers_for_same_user now" "no_sub_means_bearer_only now"
  unfolding zero_quota_rejected_def reads_and_writes_have_independent_buckets_def distinct_bearers_dont_share_a_bucket_def
    sub_bucket_denies_across_bearers_for_same_user_def no_sub_means_bearer_only_def
  by (simp_all add: limiter_eval)

lemmas init_limiter_eval = limiter_eval init_check_def charge_def init_limiter_new_def

lemma init_limiter_tests:
  "initialize_limiter_denies_after_burst_and_names_the_subject_bucket now" "a_refused_initialize_spends_nothing now"
  "initialize_limiter_denies_across_bearers_for_same_sub now" "initialize_limiter_no_sub_uses_bearer_only now"
  "a_drained_bucket_refills_one_connection_in_minutes"
  unfolding initialize_limiter_denies_after_burst_and_names_the_subject_bucket_def a_refused_initialize_spends_nothing_def
    initialize_limiter_denies_across_bearers_for_same_sub_def initialize_limiter_no_sub_uses_bearer_only_def
    a_drained_bucket_refills_one_connection_in_minutes_def
  by (simp_all add: init_limiter_eval INITIALIZE_REPLENISH_def)

lemma fleet_test: "burst_covers_a_full_fleet_restart_at_two_charges_each now"
  unfolding burst_covers_a_full_fleet_restart_at_two_charges_each_def
  by (simp add: init_limiter_eval INITIALIZE_REPLENISH_def MAX_INITIALIZES_PER_IDENTITY_def upt_conv_Cons numeral_2_eq_2)

subsection \<open>Bounded maps under churn\<close>

text \<open>
  A bounded map that is put new keys one after the other, none of its entries expiring: it grows to its
  cap and stays there.
\<close>

locale churned_map =
  fixes cap :: nat
    and put :: "'k \<Rightarrow> 'm \<Rightarrow> 'm"
    and entries :: "'m \<Rightarrow> ('k, 'v) hmap"
    and good :: "'m \<Rightarrow> bool"
  assumes good_put: "good m \<Longrightarrow> good (put k m)"
    and len_put: "good m \<Longrightarrow> \<not> hm_contains (entries m) k \<Longrightarrow>
      hm_len (entries (put k m)) = min cap (Suc (hm_len (entries m)))"
    and keys_put: "good m \<Longrightarrow> hm_contains (entries (put k m)) k' \<Longrightarrow> k' = k \<or> hm_contains (entries m) k'"
begin

lemma put_fresh:
  "good m \<Longrightarrow> k \<notin> set ks \<Longrightarrow> \<forall>j \<in> set ks. \<not> hm_contains (entries m) j \<Longrightarrow> \<forall>j \<in> set ks. \<not> hm_contains (entries (put k m)) j"
  using keys_put by blast

lemma run_good: "good m \<Longrightarrow> good (fold put ks m)"
  by (induction ks arbitrary: m) (simp_all add: good_put)

lemma run_len:
  assumes "good m" "distinct ks" "\<forall>k \<in> set ks. \<not> hm_contains (entries m) k" "hm_len (entries m) \<le> cap"
  shows "hm_len (entries (fold put ks m)) = min cap (hm_len (entries m) + length ks)"
  using assms
proof (induction ks arbitrary: m)
  case (Cons k ks)
  have "hm_len (entries (fold put ks (put k m))) = min cap (hm_len (entries (put k m)) + length ks)"
    using Cons.prems len_put [of m k] put_fresh [of m k ks] by (intro Cons.IH) (simp_all add: good_put)
  with Cons.prems len_put [of m k] show ?case by simp
qed simp

end

lemma hm_retain_all: "hm_wf m \<Longrightarrow> (\<And>k v. hm_get m k = Some v \<Longrightarrow> P k v) \<Longrightarrow> hm_retain P m = m"
  by (auto simp: hm_retain_def hm_wf_def hm_get_def intro!: filter_True)

lemma contains_get: "hm_contains m k \<longleftrightarrow> hm_get m k \<noteq> None"
  by (simp add: hm_contains_iff hm_get_def map_of_eq_None_iff)

lemma capped_put_fresh:
  assumes "0 < cap" "hm_wf m" "hm_len m \<le> cap" "\<And>k v. hm_get m k = Some v \<Longrightarrow> P k v" "\<not> hm_contains m k"
  shows "hm_len (capped_put cap P f k v m) = min cap (Suc (hm_len m))"
proof -
  have r: "hm_retain P m = m" using assms(2,4) by (rule hm_retain_all)
  have ne: "m \<noteq> []" if "cap \<le> hm_len m" using that assms(1) by auto
  have "\<not> hm_contains (evict_min f m) k"
    using assms(5) hm_get_evict_min [of f m k] by (cases "hm_get (evict_min f m) k") (auto simp: contains_get)
  with assms ne hm_len_evict_min [OF assms(2), of f] show ?thesis
    by (auto simp: capped_put_def Let_def r hm_len_insert)
qed

definition seen_at :: "instant \<Rightarrow> gcra_bucket bucket_map \<Rightarrow> bool" where
  "seen_at now bm \<longleftrightarrow> bm_ok bm \<and> (\<forall>k e. hm_get (bm_entries bm) k = Some e \<longrightarrow> be_last_seen e = now)"

lemma admit_put:
  "hm_wf m \<Longrightarrow> hm_get m k = None \<Longrightarrow> admit now k a m = capped_put MAX_BUCKETS_PER_MAP (\<lambda>_ e. now - be_last_seen e < BUCKET_IDLE_TTL)
     be_last_seen k \<lparr>be_bucket = a, be_last_seen = now\<rparr> m"
  by (auto simp: admit_def make_room_def capped_put_def contains_get Let_def dest: hm_get_retain_le)

lemma charge_get:
  "hm_wf (bm_entries bm) \<Longrightarrow> hm_get (bm_entries (snd (charge G now k q bm))) k' = Some e \<Longrightarrow>
   be_last_seen e = now \<and> k' = k \<or> hm_get (bm_entries bm) k' = Some e"
  using buckets.get_ins_other [of "bm_entries bm" k' k now "length (bm_arena bm)" e]
    buckets.get_ins_same [of "bm_entries bm" now k "length (bm_arena bm)"]
  by (cases "hm_get (bm_entries bm) k"; cases "k' = k") (auto simp: charge_hit charge_miss)

interpretation bucket_churn: churned_map MAX_BUCKETS_PER_MAP "\<lambda>k bm. snd (charge gcra now k q bm)" bm_entries "seen_at now"
  for now q
proof unfold_locales
  fix bm :: "gcra_bucket bucket_map" and k k' :: string
  assume g: "seen_at now bm"
  then have wf: "hm_wf (bm_entries bm)" and len: "hm_len (bm_entries bm) \<le> MAX_BUCKETS_PER_MAP"
    by (simp_all add: seen_at_def bm_ok_def buckets.inv_def)
  have "bm_ok (snd (charge gcra now k q bm))" using g bm_ok_charge [of bm gcra now k q] by (simp add: seen_at_def)
  then show "seen_at now (snd (charge gcra now k q bm))"
    using g charge_get [OF wf, of gcra now k q] by (fastforce simp: seen_at_def)
  show "k' = k \<or> hm_contains (bm_entries bm) k'" if "hm_contains (bm_entries (snd (charge gcra now k q bm))) k'"
    using that charge_get [OF wf, of gcra now k q k'] by (auto simp: contains_get)
  show "hm_len (bm_entries (snd (charge gcra now k q bm))) = min MAX_BUCKETS_PER_MAP (Suc (hm_len (bm_entries bm)))"
    if "\<not> hm_contains (bm_entries bm) k"
  proof -
    from that have n: "hm_get (bm_entries bm) k = None" by (simp add: contains_get)
    have "hm_len (admit now k (length (bm_arena bm)) (bm_entries bm)) = min MAX_BUCKETS_PER_MAP (Suc (hm_len (bm_entries bm)))"
      unfolding admit_put [OF wf n] using g wf len that
      by (intro capped_put_fresh) (simp_all add: seen_at_def MAX_BUCKETS_pos BUCKET_IDLE_TTL_def secs_def)
    with n show ?thesis by (simp add: charge_miss)
  qed
qed

lemma seen_at_empty: "seen_at now empty_buckets"
  by (simp add: seen_at_def) (simp add: empty_buckets_def)

definition numbered :: "string \<Rightarrow> nat \<Rightarrow> string list" where
  "numbered prefix n = map (\<lambda>index. prefix @ digits_of index) [0..<n]"

lemma numbered_distinct: "distinct (numbered prefix n)"
proof -
  have "inj digits_of" by (rule injI) (metis digits_val_digits_of)
  then show ?thesis by (auto simp: numbered_def distinct_map inj_on_def)
qed

lemma length_numbered [simp]: "length (numbered prefix n) = n"
  by (simp add: numbered_def)

lemma churned_len:
  "hm_len (bm_entries (fold (\<lambda>k bm. snd (charge gcra now k q bm)) (numbered prefix (MAX_BUCKETS_PER_MAP + n)) empty_buckets))
     = MAX_BUCKETS_PER_MAP"
  using bucket_churn.run_len [OF seen_at_empty numbered_distinct [of prefix "MAX_BUCKETS_PER_MAP + n"], of now q]
  by (simp add: contains_get) (simp add: empty_buckets_def)

text \<open>A fresh bucket admits.\<close>

lemma charge_fresh: "hm_get (bm_entries bm) k = None \<Longrightarrow> fst (charge gcra now k q bm)"
  by (simp add: charge_miss) (simp add: gcra_def gcra_check_def Let_def)

definition bearer_maps_remain_bounded_under_token_churn :: "instant \<Rightarrow> bool" where
  "bearer_maps_remain_bounded_under_token_churn now \<longleftrightarrow> is_some_and (\<lambda>limiter.
     let (out, limiter) = limiter_run gcra (map (\<lambda>k. read now k None) (numbered ''bearer-'' (MAX_BUCKETS_PER_MAP + 100))) limiter in
     list_all snd out \<and> hm_len (bm_entries (lm_bearer_read limiter)) = MAX_BUCKETS_PER_MAP) (limiter_new 100000 1)"

definition initialize_maps_remain_bounded_under_token_churn :: "instant \<Rightarrow> bool" where
  "initialize_maps_remain_bounded_under_token_churn now \<longleftrightarrow>
     (let (out, limiter) = init_run gcra
        (map (\<lambda>k. \<lparr>ir_now = now, ir_bearer = k, ir_sub = None\<rparr>) (numbered ''bearer-'' (MAX_BUCKETS_PER_MAP + 100)))
        (init_limiter_new gcra (secs 60) 1)
      in list_all snd out \<and> hm_len (bm_entries (il_bearer limiter)) = MAX_BUCKETS_PER_MAP)"

lemma limiter_read:
  "limiter_step gcra (read now k None) l =
     (let (ok, bm) = charge gcra now k (gov_per_minute gcra (lm_reads_per_min l)) (lm_bearer_read l)
      in (if ok then Ok () else Err RateLimited, l\<lparr>lm_bearer_read := bm\<rparr>))"
  by (simp add: limiter_step_def read_def limiter_check_def get_or_insert_def charge_def per_min_def bearer_map_def
      set_bearer_map_def split: prod.split)

lemma reads_churn:
  assumes "seen_at now (lm_bearer_read l)" "distinct ks" "\<forall>k \<in> set ks. \<not> hm_contains (bm_entries (lm_bearer_read l)) k"
  shows "list_all snd (fst (limiter_run gcra (map (\<lambda>k. read now k None) ks) l))
    \<and> lm_bearer_read (snd (limiter_run gcra (map (\<lambda>k. read now k None) ks) l))
      = fold (\<lambda>k bm. snd (charge gcra now k (gov_per_minute gcra (lm_reads_per_min l)) bm)) ks (lm_bearer_read l)"
  using assms
proof (induction ks arbitrary: l)
  case (Cons k ks)
  let ?q = "gov_per_minute gcra (lm_reads_per_min l)"
  let ?l = "l\<lparr>lm_bearer_read := snd (charge gcra now k ?q (lm_bearer_read l))\<rparr>"
  have ok: "fst (charge gcra now k ?q (lm_bearer_read l))"
    using Cons.prems(3) by (intro charge_fresh) (simp add: contains_get)
  have "\<forall>j \<in> set ks. \<not> hm_contains (bm_entries (lm_bearer_read ?l)) j"
    using Cons.prems bucket_churn.put_fresh [of now "lm_bearer_read l" k ks ?q] by simp
  moreover have "seen_at now (lm_bearer_read ?l)" using bucket_churn.good_put [OF Cons.prems(1), of k ?q] by simp
  ultimately show ?case using Cons.IH [of ?l] Cons.prems(2) ok
    by (auto simp: limiter_read Let_def split: prod.splits)
qed simp

lemma init_churn:
  assumes "seen_at now (il_bearer l)" "distinct ks" "\<forall>k \<in> set ks. \<not> hm_contains (bm_entries (il_bearer l)) k"
  shows "list_all snd (fst (init_run gcra (map (\<lambda>k. \<lparr>ir_now = now, ir_bearer = k, ir_sub = None\<rparr>) ks) l))
    \<and> il_bearer (snd (init_run gcra (map (\<lambda>k. \<lparr>ir_now = now, ir_bearer = k, ir_sub = None\<rparr>) ks) l))
      = fold (\<lambda>k bm. snd (charge gcra now k (il_quota l) bm)) ks (il_bearer l)"
  using assms
proof (induction ks arbitrary: l)
  case (Cons k ks)
  let ?l = "l\<lparr>il_bearer := snd (charge gcra now k (il_quota l) (il_bearer l))\<rparr>"
  have ok: "fst (charge gcra now k (il_quota l) (il_bearer l))"
    using Cons.prems(3) by (intro charge_fresh) (simp add: contains_get)
  have "\<forall>j \<in> set ks. \<not> hm_contains (bm_entries (il_bearer ?l)) j"
    using Cons.prems bucket_churn.put_fresh [of now "il_bearer l" k ks "il_quota l"] by simp
  moreover have "seen_at now (il_bearer ?l)" using bucket_churn.good_put [OF Cons.prems(1), of k "il_quota l"] by simp
  ultimately show ?case using Cons.IH [of ?l] Cons.prems(2) ok
    by (auto simp: init_check_def Let_def split: prod.splits)
qed simp

lemma churn_tests: "bearer_maps_remain_bounded_under_token_churn now" "initialize_maps_remain_bounded_under_token_churn now"
proof -
  let ?ks = "numbered ''bearer-'' (MAX_BUCKETS_PER_MAP + 100)"
  have none: "\<forall>k \<in> set ?ks. \<not> hm_contains (bm_entries empty_buckets) k" by (simp add: contains_get) (simp add: empty_buckets_def)
  obtain l :: "gcra_bucket limiter" where l: "limiter_new 100000 1 = Some l" "lm_bearer_read l = empty_buckets"
    by (simp add: limiter_new_def)
  note r = reads_churn [of now l ?ks, unfolded l(2), OF seen_at_empty numbered_distinct none]
  then show "bearer_maps_remain_bounded_under_token_churn now"
    by (simp only: bearer_maps_remain_bounded_under_token_churn_def l is_some_and_simps Let_def split_beta churned_len)
  let ?i = "init_limiter_new gcra (secs 60) 1 :: (gcra_quota, gcra_bucket) init_limiter"
  have i: "il_bearer ?i = empty_buckets" by (simp add: init_limiter_new_def Let_def)
  note r = init_churn [of now ?i ?ks, unfolded i, OF seen_at_empty numbered_distinct none]
  then show "initialize_maps_remain_bounded_under_token_churn now"
    by (simp only: initialize_maps_remain_bounded_under_token_churn_def Let_def split_beta churned_len)
qed

end
