(* ===== verification/Unit_Tests_Net.thy ===== *)
theory Unit_Tests_Net
  imports Unit_Tests
begin

text \<open>
  The unit tests of \<open>config.rs\<close>, \<open>oauth_redirect.rs\<close>, \<open>oauth_metadata.rs\<close>, \<open>oauth_proxy.rs\<close> and \<open>logto_oidc.rs\<close>, as in \<open>Unit_Tests\<close>.
  They run against the \<open>url\<close> crate; \<open>plain_url\<close> and \<open>form_ops\<close> are the instances of those parameters they are
  evaluated with, which split the plain URLs and forms the tests are made of the way the crate does.
\<close>

subsection \<open>URLs and forms\<close>

definition cut :: "char \<Rightarrow> string \<Rightarrow> string \<times> string option" where
  "cut c s = (case split_once c s of None \<Rightarrow> (s, None) | Some (a, b) \<Rightarrow> (a, Some b))"

text \<open>The crate writes an IPv4 host in its canonical form.\<close>

definition canonical_host :: "string \<Rightarrow> string" where
  "canonical_host h = (if h \<in> {''127.1'', ''0177.0.0.1''} then ''127.0.0.1'' else h)"

definition plain_url :: url_parser where
  "plain_url s =
     (case cut (CHR '':'') s of
        (_, None) \<Rightarrow> None
      | (scheme, Some rest) \<Rightarrow>
          (case strip_prefix ''//'' rest of
             None \<Rightarrow> None
           | Some r \<Rightarrow>
               (let (r, fragment) = cut (CHR ''#'') r; (r, query) = cut (CHR ''?'') r;
                    authority = takeWhile (\<lambda>c. c \<noteq> CHR ''/'') r; path = dropWhile (\<lambda>c. c \<noteq> CHR ''/'') r;
                    (userinfo, hostport) = (case cut (CHR ''@'') authority of (u, Some h) \<Rightarrow> (u, h) | (h, None) \<Rightarrow> ([], h));
                    (username, password) = cut (CHR '':'') userinfo;
                    host = (if starts_with ''['' hostport then takeWhile (\<lambda>c. c \<noteq> CHR '']'') hostport @ '']''
                            else fst (cut (CHR '':'') hostport))
                in Some \<lparr>u_scheme = scheme, u_host = (if host = [] then None else Some (canonical_host host)),
                     u_path = (if path = [] \<and> scheme \<in> {''http'', ''https''} then ''/'' else path),
                     u_query = query, u_fragment = fragment, u_username = username, u_password = password\<rparr>)))"

text \<open>\<open>application/x-www-form-urlencoded\<close>.\<close>

definition hex_val :: "char \<Rightarrow> nat" where
  "hex_val c = (if is_ascii_digit c then code c - 48 else if code c < 97 then code c - 55 else code c - 87)"

fun percent_decode :: "string \<Rightarrow> string" where
  "percent_decode (c # h # l # r) =
     (if c = CHR ''%'' \<and> is_ascii_hexdigit h \<and> is_ascii_hexdigit l then char_of (16 * hex_val h + hex_val l) # percent_decode r
      else (if c = CHR ''+'' then SPC else c) # percent_decode (h # l # r))"
| "percent_decode (c # s) = (if c = CHR ''+'' then SPC else c) # percent_decode s"
| "percent_decode [] = []"

definition hex_char :: "nat \<Rightarrow> char" where
  "hex_char n = ''0123456789ABCDEF'' ! (n mod 16)"

definition form_encode :: "string \<Rightarrow> string" where
  "form_encode s = concat (map (\<lambda>c.
     if is_ascii_alphanumeric c \<or> c \<in> set ''*-._'' then [c]
     else if c = SPC then ''+'' else [CHR ''%'', hex_char (code c div 16), hex_char (code c)]) s)"

definition form_parse :: "string \<Rightarrow> pairs" where
  "form_parse s = map (\<lambda>p. case cut (CHR ''='') p of (k, v) \<Rightarrow> (percent_decode k, percent_decode (case v of Some v \<Rightarrow> v | None \<Rightarrow> [])))
     (filter (\<lambda>p. p \<noteq> []) (split_on (CHR ''&'') s))"

fun join_amp :: "string list \<Rightarrow> string" where
  "join_amp [] = []"
| "join_amp [p] = p"
| "join_amp (p # q # ps) = p @ ''&'' @ join_amp (q # ps)"

definition form_serialize :: "pairs \<Rightarrow> string" where
  "form_serialize ps = join_amp (map (\<lambda>(k, v). form_encode k @ ''='' @ form_encode v) ps)"

definition form_ops :: oauth_ops where
  "form_ops = \<lparr>oo_url = plain_url, oo_form_parse = form_parse, oo_form_serialize = form_serialize,
     oo_append_pairs = (\<lambda>u ps. u @ ''?'' @ form_serialize ps)\<rparr>"

text \<open>Socket addresses as their texts.\<close>

definition test_addrs :: "string addr_ops" where
  "test_addrs = \<lparr>ao_parse = Some, ao_loopback_metrics = ''127.0.0.1:9090'',
     ao_ip_is_loopback = (\<lambda>h. h \<in> {''127.0.0.1'', ''::1''})\<rparr>"

subsection \<open>\<open>config.rs\<close>\<close>

definition cfg :: "anyhow + string config" where
  "cfg = config_new plain_url test_addrs ''https://carddav-mcp.example.test/'' ''https://login.example.test/oidc''
     ''https://dav.example.test'' ''0.0.0.0:3000''"

definition default_trusted_proxy_hops_matches_the_measured_chain :: bool where
  "default_trusted_proxy_hops_matches_the_measured_chain \<longleftrightarrow> is_ok_and (\<lambda>c. cf_trusted_proxy_hops c = 2) cfg"

definition default_hops_selects_the_client_from_the_deployed_chain :: bool where
  "default_hops_selects_the_client_from_the_deployed_chain \<longleftrightarrow>
     (let observed = ''198.51.100.7, 10.0.0.1'' in
      is_ok_and (\<lambda>c. parse_client_ip ipv4_from_str (Some observed) (cf_trusted_proxy_hops c) = Some (198, 51, 100, 7)) cfg)"

definition strips_trailing_slash_on_resource_url :: bool where
  "strips_trailing_slash_on_resource_url \<longleftrightarrow> is_ok_and (\<lambda>c. cf_resource_url c = ''https://carddav-mcp.example.test'') cfg"

definition rejects_non_http_url :: bool where
  "rejects_non_http_url \<longleftrightarrow> \<not> is_ok (config_new plain_url test_addrs ''carddav-mcp.example.test''
     ''https://login.example.test'' ''https://dav.example.test'' ''0.0.0.0:3000'')"

definition rejects_cleartext_non_loopback_service_urls :: bool where
  "rejects_cleartext_non_loopback_service_urls \<longleftrightarrow> \<not> is_ok (config_new plain_url test_addrs
     ''http://carddav-mcp.example.test'' ''https://login.example.test'' ''https://dav.example.test'' ''0.0.0.0:3000'')"

definition allows_cleartext_loopback_urls_for_local_development :: bool where
  "allows_cleartext_loopback_urls_for_local_development \<longleftrightarrow>
     is_ok_and (\<lambda>config. cf_resource_url config = ''http://localhost:3000'')
       (config_new plain_url test_addrs ''http://localhost:3000'' ''http://127.0.0.1:4000/oidc'' ''http://[::1]:8080'' ''127.0.0.1:3000'')"

definition accepted_audiences_include_origin_and_mcp_path :: bool where
  "accepted_audiences_include_origin_and_mcp_path \<longleftrightarrow> is_ok_and (\<lambda>c.
     let a = accepted_token_audiences c in
     ''https://carddav-mcp.example.test'' \<in> set a \<and> ''https://carddav-mcp.example.test/mcp'' \<in> set a
     \<and> \<not> list_ex (\<lambda>x. x = ''stalwart'') a \<and> cf_stalwart_audience c = ''https://carddav-mcp.example.test'') cfg"

definition accepted_audiences_include_a_borrowed_stalwart_audience :: bool where
  "accepted_audiences_include_a_borrowed_stalwart_audience \<longleftrightarrow> is_ok_and (\<lambda>c.
     let c = c\<lparr>cf_stalwart_audience := ''https://jmap-mcp.example.test''\<rparr>; a = accepted_token_audiences c in
     ''https://carddav-mcp.example.test'' \<in> set a \<and> ''https://carddav-mcp.example.test/mcp'' \<in> set a
     \<and> ''https://jmap-mcp.example.test'' \<in> set a) cfg"

definition rejects_bare_stalwart_as_rfc8707_resource :: bool where
  "rejects_bare_stalwart_as_rfc8707_resource \<longleftrightarrow>
     \<not> is_absolute_http_uri plain_url ''stalwart'' \<and> \<not> is_absolute_http_uri plain_url ''''
     \<and> \<not> is_absolute_http_uri plain_url ''carddav-mcp.kampong.social''
     \<and> is_absolute_http_uri plain_url ''https://carddav-mcp.kampong.social''
     \<and> is_absolute_http_uri plain_url ''https://dav.kampong.social''"

definition metrics_bind_prefers_explicit_then_pod_ip_then_localhost :: bool where
  "metrics_bind_prefers_explicit_then_pod_ip_then_localhost \<longleftrightarrow>
     resolve_metrics_bind_addr test_addrs (Some ''0.0.0.0:1234'') (Some ''10.0.0.5'') = Ok ''0.0.0.0:1234''
     \<and> resolve_metrics_bind_addr test_addrs None (Some ''10.0.0.5'') = Ok ''10.0.0.5:9090''
     \<and> resolve_metrics_bind_addr test_addrs None None = Ok ''127.0.0.1:9090''"

lemma config_tests:
  "default_trusted_proxy_hops_matches_the_measured_chain" "default_hops_selects_the_client_from_the_deployed_chain"
  "strips_trailing_slash_on_resource_url" "rejects_non_http_url" "rejects_cleartext_non_loopback_service_urls"
  "allows_cleartext_loopback_urls_for_local_development" "rejects_bare_stalwart_as_rfc8707_resource"
  "metrics_bind_prefers_explicit_then_pod_ip_then_localhost"
  by code_simp+

lemma audience_tests:
  "accepted_audiences_include_origin_and_mcp_path" "accepted_audiences_include_a_borrowed_stalwart_audience"
  by code_simp+

subsection \<open>\<open>oauth_redirect.rs\<close>\<close>

definition allowlist :: "string \<Rightarrow> anyhow + string list" where
  "allowlist raw = parse_allowlist plain_url raw ''TEST''"

abbreviation admits :: "string list \<Rightarrow> string \<Rightarrow> bool" where
  "admits \<equiv> is_allowed_redirect_uri plain_url"

definition allowlist_matches_exact_redirect_uri_only :: bool where
  "allowlist_matches_exact_redirect_uri_only \<longleftrightarrow> is_ok_and (\<lambda>allowed.
     admits allowed ''https://claude.ai/api/mcp/auth_callback''
     \<and> \<not> admits allowed ''https://claude.ai/api/mcp/auth_callback/''
     \<and> \<not> admits allowed ''https://attacker.example/callback'') (allowlist ''https://claude.ai/api/mcp/auth_callback'')"

definition allowlist_rejects_fragments_and_userinfo :: bool where
  "allowlist_rejects_fragments_and_userinfo \<longleftrightarrow>
     \<not> is_ok (allowlist ''https://claude.ai/cb#frag'') \<and> \<not> is_ok (allowlist ''https://user@claude.ai/cb'')"

definition allowlist_accepts_private_use_schemes :: bool where
  "allowlist_accepts_private_use_schemes \<longleftrightarrow> is_ok_and (\<lambda>allowed.
     admits allowed ''cursor://anysphere.cursor-mcp/oauth/callback'' \<and> admits allowed ''grokbot://mcp/oauth/callback''
     \<and> \<not> admits allowed ''cursor://anysphere.cursor-mcp/oauth/callback/extra'' \<and> \<not> admits allowed ''evil://mcp/oauth/callback'')
     (allowlist ''cursor://anysphere.cursor-mcp/oauth/callback,grokbot://mcp/oauth/callback'')"

definition http_is_loopback_only :: bool where
  "http_is_loopback_only \<longleftrightarrow>
     list_all (\<lambda>uri. is_ok (allowlist uri)) [''http://localhost:8787/callback'', ''http://127.0.0.1:8787/callback'']
     \<and> list_all (\<lambda>uri. \<not> is_ok (allowlist uri)) [''http://evil.example/callback'', ''http://localhost.evil.example/callback'']"

definition loopback_entry_matches_any_port :: bool where
  "loopback_entry_matches_any_port \<longleftrightarrow> is_ok_and (\<lambda>allowed.
     admits allowed ''http://localhost:3118/callback'' \<and> admits allowed ''http://localhost:8787/callback''
     \<and> admits allowed ''http://localhost/callback'') (allowlist ''http://localhost:8787/callback'')"

definition loopback_port_relaxation_does_not_relax_host_or_path :: bool where
  "loopback_port_relaxation_does_not_relax_host_or_path \<longleftrightarrow>
     is_ok_and (\<lambda>allowed. \<not> admits allowed ''http://localhost:3118/other'' \<and> \<not> admits allowed ''http://localhost:3118/callback/extra''
       \<and> \<not> admits allowed ''http://127.0.0.1:3118/callback'' \<and> \<not> admits allowed ''http://[::1]/callback''
       \<and> \<not> admits allowed ''http://localhost:3118/callback?next=https://evil.example'') (allowlist ''http://localhost:8787/callback'')
     \<and> is_ok_and (\<lambda>loopback_ip. admits loopback_ip ''http://127.0.0.1:51423/callback''
       \<and> \<not> admits loopback_ip ''http://localhost:51423/callback'') (allowlist ''http://127.0.0.1:8787/callback'')"

definition non_loopback_entries_keep_exact_port_matching :: bool where
  "non_loopback_entries_keep_exact_port_matching \<longleftrightarrow> is_ok_and (\<lambda>allowed.
     \<not> admits allowed ''https://claude.ai:8443/api/mcp/auth_callback''
     \<and> \<not> admits allowed ''cursor://anysphere.cursor-mcp:8443/oauth/callback''
     \<and> \<not> admits allowed ''http://localhost:3118/api/mcp/auth_callback'')
     (allowlist ''https://claude.ai/api/mcp/auth_callback,cursor://anysphere.cursor-mcp/oauth/callback'')"

definition loopback_relaxation_checks_the_requested_scheme :: bool where
  "loopback_relaxation_checks_the_requested_scheme \<longleftrightarrow> is_ok_and (\<lambda>allowed.
     \<not> admits allowed ''https://localhost:3118/callback'' \<and> \<not> admits allowed ''cursor://localhost/callback'')
     (allowlist ''http://localhost:8787/callback'')"

definition loopback_relaxation_checks_the_entry_scheme :: bool where
  "loopback_relaxation_checks_the_entry_scheme \<longleftrightarrow>
     is_ok_and (\<lambda>https_entry. \<not> admits https_entry ''http://localhost:3118/callback''
       \<and> \<not> admits https_entry ''http://localhost:8443/callback'' \<and> admits https_entry ''https://localhost:8443/callback'')
       (allowlist ''https://localhost:8443/callback'')
     \<and> list_all (\<lambda>entry. is_ok_and (\<lambda>allowed. \<not> admits allowed ''http://127.0.0.1:3118/callback'') (allowlist entry))
         [''https://127.0.0.1:8443/callback'', ''https://127.1:8443/callback'', ''https://0177.0.0.1:8443/callback'']
     \<and> is_ok_and (\<lambda>private_entry. \<not> admits private_entry ''http://localhost:9999/callback''
         \<and> admits private_entry ''cursor://localhost/callback'') (allowlist ''cursor://localhost/callback'')"

definition mixed_scheme_allowlist_parses_every_entry :: bool where
  "mixed_scheme_allowlist_parses_every_entry \<longleftrightarrow> is_ok_and (\<lambda>allowed. length allowed = 9)
     (parse_allowlist plain_url
       (''https://claude.ai/api/mcp/auth_callback,'' @ ''https://claude.com/api/mcp/auth_callback,''
        @ ''https://www.cursor.com/agents/mcp/oauth/callback,'' @ ''cursor://anysphere.cursor-mcp/oauth/callback,''
        @ ''grokbot://mcp/oauth/callback,'' @ ''http://localhost:8787/callback,'' @ ''claude://claude.ai/oauth/callback,''
        @ ''claude://oauth/callback,'' @ ''cowork://oauth/callback'') ENV_OAUTH_REDIRECT_URIS)"

lemma redirect_tests:
  "allowlist_matches_exact_redirect_uri_only" "allowlist_rejects_fragments_and_userinfo"
  "allowlist_accepts_private_use_schemes" "http_is_loopback_only" "loopback_entry_matches_any_port"
  by code_simp+

lemma loopback_tests:
  "loopback_port_relaxation_does_not_relax_host_or_path" "non_loopback_entries_keep_exact_port_matching"
  "loopback_relaxation_checks_the_requested_scheme" "loopback_relaxation_checks_the_entry_scheme"
  by code_simp+

lemma mixed_allowlist_test: "mixed_scheme_allowlist_parses_every_entry"
  by code_simp

subsection \<open>\<open>oauth_metadata.rs\<close>\<close>

definition test_config :: "anyhow + string config" where
  "test_config = config_new plain_url test_addrs ''https://carddav-mcp.example.test'' ''https://login.example.test/oidc''
     ''https://mail.example.test'' ''0.0.0.0:3000''"

definition protected_resource_points_at_self :: bool where
  "protected_resource_points_at_self \<longleftrightarrow> is_ok_and (\<lambda>c. let m = protected_resource_from_config c in
     pr_resource m = ''https://carddav-mcp.example.test/mcp''
     \<and> pr_authorization_servers m = [''https://carddav-mcp.example.test'']
     \<and> ''header'' \<in> set (pr_bearer_methods_supported m) \<and> ''openid'' \<in> set (pr_scopes_supported m)) test_config"

definition as_metadata_is_same_origin_with_jwks_on_logto :: bool where
  "as_metadata_is_same_origin_with_jwks_on_logto \<longleftrightarrow> is_ok_and (\<lambda>c. let m = authorization_server_from_config c in
     as_issuer m = ''https://carddav-mcp.example.test''
     \<and> as_authorization_endpoint m = ''https://carddav-mcp.example.test/authorize''
     \<and> as_token_endpoint m = ''https://carddav-mcp.example.test/token''
     \<and> as_jwks_uri m = ''https://login.example.test/oidc/jwks''
     \<and> ''S256'' \<in> set (as_code_challenge_methods_supported m) \<and> as_registration_endpoint m = None) test_config"

definition as_metadata_advertises_registration_when_configured :: bool where
  "as_metadata_advertises_registration_when_configured \<longleftrightarrow> is_ok_and (\<lambda>c.
     let m = authorization_server_from_config (c\<lparr>cf_dcr_client_id := Some ''abc123''\<rparr>) in
     as_registration_endpoint m = Some ''https://carddav-mcp.example.test/register'') test_config"

definition registration_body :: "string list \<Rightarrow> json option" where
  "registration_body uris = Some (JObject [(''redirect_uris'', JArray (map JString uris))])"

definition register_rejects_unregistered_redirect_uri :: "instant \<Rightarrow> bool" where
  "register_rejects_unregistered_redirect_uri now \<longleftrightarrow> is_ok_and (\<lambda>c.
     let c = c\<lparr>cf_dcr_client_id := Some ''abc123'', cf_oauth_redirect_uris := [''https://claude.ai/api/mcp/auth_callback'']\<rparr> in
     (case register plain_url c now (registration_body [''https://attacker.example/cb'']) of
        Inl r \<Rightarrow> rs_status r = 400 | Inr _ \<Rightarrow> False)) test_config"

definition register_accepts_allowlisted_redirect_uri :: "instant \<Rightarrow> bool" where
  "register_accepts_allowlisted_redirect_uri now \<longleftrightarrow> is_ok_and (\<lambda>c.
     let c = c\<lparr>cf_dcr_client_id := Some ''abc123'', cf_oauth_redirect_uris := [''https://claude.ai/api/mcp/auth_callback'']\<rparr> in
     is_ok (register plain_url c now (registration_body [''https://claude.ai/api/mcp/auth_callback'']))) test_config"

definition register_accepts_cursor_and_grok_four_uri_body :: "instant \<Rightarrow> bool" where
  "register_accepts_cursor_and_grok_four_uri_body now \<longleftrightarrow> is_ok_and (\<lambda>c.
     let c = c\<lparr>cf_dcr_client_id := Some ''uw7dfhsvg6wq0p0eavk2i'', cf_oauth_redirect_uris :=
           [''https://claude.ai/api/mcp/auth_callback'', ''https://claude.com/api/mcp/auth_callback'',
            ''cursor://anysphere.cursor-mcp/oauth/callback'', ''grokbot://mcp/oauth/callback'',
            ''http://localhost:8787/callback'', ''https://www.cursor.com/agents/mcp/oauth/callback'']\<rparr> in
     is_ok (register plain_url c now (registration_body
       [''cursor://anysphere.cursor-mcp/oauth/callback'', ''grokbot://mcp/oauth/callback'',
        ''http://localhost:8787/callback'', ''https://www.cursor.com/agents/mcp/oauth/callback'']))) test_config"

definition www_authenticate_includes_resource_metadata_url :: bool where
  "www_authenticate_includes_resource_metadata_url \<longleftrightarrow>
     (let h = www_authenticate_header ''https://carddav-mcp.example.test'' in
      starts_with ''Bearer '' h \<and> str_contains (''resource_metadata='' @ [QUOT]
        @ ''https://carddav-mcp.example.test/.well-known/oauth-protected-resource/mcp'' @ [QUOT]) h)"

lemma metadata_tests:
  "protected_resource_points_at_self" "as_metadata_is_same_origin_with_jwks_on_logto"
  "as_metadata_advertises_registration_when_configured" "www_authenticate_includes_resource_metadata_url"
  by code_simp+

text \<open>Whether a registration is accepted does not depend on the clock.\<close>

lemma register_outcome: "is_ok (register P c now body) = is_ok (register P c 0 body)"
  "(case register P c now body of Inl r \<Rightarrow> f r | Inr _ \<Rightarrow> False) = (case register P c 0 body of Inl r \<Rightarrow> f r | Inr _ \<Rightarrow> False)"
  by (auto simp: register_def Let_def split: option.split)

lemma register_tests:
  "register_rejects_unregistered_redirect_uri now" "register_accepts_allowlisted_redirect_uri now"
  "register_accepts_cursor_and_grok_four_uri_body now"
  unfolding register_rejects_unregistered_redirect_uri_def register_accepts_allowlisted_redirect_uri_def
    register_accepts_cursor_and_grok_four_uri_body_def register_outcome [where now = now]
  by code_simp+

subsection \<open>\<open>oauth_proxy.rs\<close>\<close>

definition callback_url_derived_from_resource :: bool where
  "callback_url_derived_from_resource \<longleftrightarrow>
     (let st = proxy_new ''https://login.example.test/oidc/'' ''https://carddav-mcp.example.test'' [''https://claude.ai/cb'']
          ''https://carddav-mcp.example.test'' in
      px_callback_url st = ''https://carddav-mcp.example.test/oauth/callback''
      \<and> px_logto_base st = ''https://login.example.test/oidc'')"

definition claude_proxy :: proxy_state where
  "claude_proxy = proxy_new ''https://l.test/oidc'' ''https://r.test'' [''https://claude.ai/cb''] ''https://r.test''"

definition pending_roundtrip_and_expiry_guard :: "instant \<Rightarrow> bool" where
  "pending_roundtrip_and_expiry_guard now \<longleftrightarrow>
     (let (inserted, st) = pending_insert now ''abc''
            \<lparr>pd_client_redirect_uri = ''https://claude.ai/cb'', pd_client_state = Some ''xyz'', pd_created = now\<rparr> claude_proxy;
          (p, st) = pending_take now ''abc'' st
      in inserted
         \<and> is_some_and (\<lambda>p. pd_client_redirect_uri p = ''https://claude.ai/cb'' \<and> pd_client_state p = Some ''xyz'') p
         \<and> fst (pending_take now ''abc'' st) = None)"

definition claude_pending :: "instant \<Rightarrow> pending" where
  "claude_pending now = \<lparr>pd_client_redirect_uri = ''https://claude.ai/cb'', pd_client_state = None, pd_created = now\<rparr>"

fun insert_states :: "instant \<Rightarrow> string list \<Rightarrow> proxy_state \<Rightarrow> bool list \<times> proxy_state" where
  "insert_states now [] st = ([], st)"
| "insert_states now (s # ss) st =
     (let (ok, st') = pending_insert now s (claude_pending now) st; (oks, st'') = insert_states now ss st' in (ok # oks, st''))"

definition pending_authorizations_never_exceed_the_hard_cap :: "instant \<Rightarrow> bool" where
  "pending_authorizations_never_exceed_the_hard_cap now \<longleftrightarrow>
     (let (inserted, st) = insert_states now (numbered ''state-'' PENDING_CAP) claude_proxy;
          (overflow, st) = pending_insert now ''overflow'' (claude_pending now) st
      in list_all (\<lambda>ok. ok) inserted \<and> \<not> overflow \<and> hm_len (px_pending st) = PENDING_CAP)"

definition test_proxy :: proxy_state where
  "test_proxy = proxy_new ''https://login.example.test/oidc'' ''https://carddav-mcp.example.test''
     [''https://claude.ai/api/mcp/auth_callback''] ''https://carddav-mcp.example.test''"

definition authorize_rejects_unregistered_redirect_uri :: "instant \<Rightarrow> string \<Rightarrow> bool" where
  "authorize_rejects_unregistered_redirect_uri now rnd \<longleftrightarrow>
     rs_status (fst (authorize form_ops now rnd
       (Some ''client_id=abc&redirect_uri=https%3A%2F%2Fattacker.example%2Fcb&response_type=code'') test_proxy)) = 400"

definition authorize_forwards_only_allowed_redirect_uri_to_pending_state :: "instant \<Rightarrow> string \<Rightarrow> bool" where
  "authorize_forwards_only_allowed_redirect_uri_to_pending_state now rnd \<longleftrightarrow>
     (let (response, st) = authorize form_ops now rnd
            (Some (''client_id=abc&redirect_uri=https%3A%2F%2Fclaude.ai%2Fapi%2Fmcp%2Fauth_callback&state=client-state''
               @ ''&resource=https%3A%2F%2Fcarddav-mcp.example.test%2F'')) test_proxy
      in rs_status response = 303
       \<and> is_some_and (\<lambda>location. is_some_and (\<lambda>upstream. is_some_and (\<lambda>query.
           let params = form_parse query; resource = find_pair ''resource'' params in
           find_pair ''redirect_uri'' params = Some ''https://carddav-mcp.example.test/oauth/callback''
           \<and> resource = Some ''https://carddav-mcp.example.test''
           \<and> is_some_and (\<lambda>r. is_some_and (\<lambda>parsed. u_scheme parsed = ''https'' \<and> u_host parsed \<noteq> None) (plain_url r)) resource
           \<and> resource \<noteq> Some ''stalwart''
           \<and> is_some_and (\<lambda>proxy_state. is_some_and (\<lambda>pending.
                 pd_client_redirect_uri pending = ''https://claude.ai/api/mcp/auth_callback''
                 \<and> pd_client_state pending = Some ''client-state'') (fst (pending_take now proxy_state st)))
               (find_pair ''state'' params))
           (u_query upstream)) (plain_url location)) (header_of ''location'' response))"

definition token_rejects_unregistered_authorization_code_redirect_uri :: bool where
  "token_rejects_unregistered_authorization_code_redirect_uri \<longleftrightarrow>
     rs_status (fst (token form_ops (\<lambda>_. None)
       ''grant_type=authorization_code&code=abc&redirect_uri=https%3A%2F%2Fattacker.example%2Fcb&code_verifier=v'' test_proxy)) = 400"

definition token_rejects_missing_authorization_code_redirect_uri :: bool where
  "token_rejects_missing_authorization_code_redirect_uri \<longleftrightarrow>
     rs_status (fst (token form_ops (\<lambda>_. None) ''grant_type=authorization_code&code=abc&code_verifier=v'' test_proxy)) = 400"

text \<open>The mock server answers \<open>POST /token\<close> and is called once.\<close>

definition token_response_is_never_cacheable :: bool where
  "token_response_is_never_cacheable \<longleftrightarrow>
     (let server = (\<lambda>(url, body). if url = ''http://127.0.0.1:4444/token''
            then Some \<lparr>ur_status = 200, ur_content_type = Some ''application/json'',
                   ur_body = ''{'' @ [QUOT] @ ''access_token'' @ [QUOT] @ '':'' @ [QUOT] @ ''redacted'' @ [QUOT] @ ''}''\<rparr> else None);
          st = proxy_new ''http://127.0.0.1:4444'' ''https://carddav-mcp.example.test'' [''https://claude.ai/cb'']
            ''https://carddav-mcp.example.test'';
          (response, sent) = token form_ops server ''grant_type=refresh_token&refresh_token=opaque'' st
      in length sent = 1 \<and> rs_status response = 200 \<and> header_of ''cache-control'' response = Some ''no-store''
         \<and> header_of ''pragma'' response = Some ''no-cache'')"

text \<open>The query is what the serializer makes of the pairs; all it takes is that the parser reads it back.\<close>

definition authorize_rejects_oversized_client_state :: "oauth_ops \<Rightarrow> instant \<Rightarrow> string \<Rightarrow> bool" where
  "authorize_rejects_oversized_client_state W now rnd \<longleftrightarrow>
     (let st = proxy_new ''https://login.example.test/oidc'' ''https://carddav-mcp.example.test'' [''https://claude.ai/cb'']
            ''https://carddav-mcp.example.test'';
          state = replicate (MAX_CLIENT_STATE_BYTES + 1) (CHR ''x'');
          query = oo_form_serialize W [(''client_id'', ''abc''), (''redirect_uri'', ''https://claude.ai/cb''), (''state'', state)]
      in rs_status (fst (authorize W now rnd (Some query) st)) = 400)"

definition apply_dav_resource_rewrites_origin_and_mcp_path_to_absolute_uri :: bool where
  "apply_dav_resource_rewrites_origin_and_mcp_path_to_absolute_uri \<longleftrightarrow>
     (let URI = ''https://carddav-mcp.kampong.social'';
          ps = apply_dav_resource plain_url URI [(''resource'', ''https://carddav-mcp.kampong.social/mcp'')]
      in ps = [(''resource'', URI)] \<and> is_some_and (\<lambda>u. u_host u \<noteq> None) (plain_url (snd (hd ps)))
         \<and> apply_dav_resource plain_url URI [(''resource'', ''https://carddav-mcp.kampong.social/'')] = [(''resource'', URI)])"

definition apply_dav_resource_inserts_absolute_uri_when_missing :: bool where
  "apply_dav_resource_inserts_absolute_uri_when_missing \<longleftrightarrow>
     (let URI = ''https://carddav-mcp.kampong.social''; ps = apply_dav_resource plain_url URI [(''scope'', ''openid'')]
      in ps = [(''scope'', ''openid''), (''resource'', URI)] \<and> snd (ps ! 1) \<noteq> ''stalwart'' \<and> plain_url (snd (ps ! 1)) \<noteq> None)"

definition apply_dav_resource_never_sends_bare_stalwart :: bool where
  "apply_dav_resource_never_sends_bare_stalwart \<longleftrightarrow>
     (let resource = find_pair ''resource'' (apply_dav_resource plain_url ''stalwart''
            [(''resource'', ''https://carddav-mcp.kampong.social/mcp'')])
      in resource \<noteq> Some ''stalwart'' \<and> resource = Some ''https://carddav-mcp.kampong.social/mcp'')"

lemma proxy_tests:
  "callback_url_derived_from_resource" "token_rejects_unregistered_authorization_code_redirect_uri"
  "token_rejects_missing_authorization_code_redirect_uri" "token_response_is_never_cacheable"
  by code_simp+

lemma dav_resource_tests:
  "apply_dav_resource_rewrites_origin_and_mcp_path_to_absolute_uri" "apply_dav_resource_inserts_absolute_uri_when_missing"
  "apply_dav_resource_never_sends_bare_stalwart"
  by code_simp+

lemma pending_roundtrip_test: "pending_roundtrip_and_expiry_guard now"
  by (simp add: pending_roundtrip_and_expiry_guard_def pending_insert_def pending_take_def claude_proxy_def proxy_new_def
      PENDING_CAP_def PENDING_TTL_def secs_def)

text \<open>The state drawn for the flow is some text of 48 hexadecimal digits.\<close>

definition drawn_state :: string where
  "drawn_state = ''00112233445566778899aabbccddeeff0123456789abcdef''"

lemma authorize_tests:
  "authorize_rejects_unregistered_redirect_uri 0 drawn_state"
  "authorize_forwards_only_allowed_redirect_uri_to_pending_state 0 drawn_state"
  by code_simp+

lemma oversized_state_test:
  assumes "\<And>ps. oo_form_parse W (oo_form_serialize W ps) = ps" "oo_url W = plain_url"
  shows "authorize_rejects_oversized_client_state W now rnd"
proof -
  have a: "is_allowed_redirect_uri plain_url [''https://claude.ai/cb''] ''https://claude.ai/cb''" by code_simp
  show ?thesis
    by (simp add: authorize_rejects_oversized_client_state_def authorize_def assms find_pair_def proxy_new_def a
        plain_response_def)
qed

definition claude_only :: "instant \<Rightarrow> proxy_state \<Rightarrow> bool" where
  "claude_only now st \<longleftrightarrow> hm_wf (px_pending st) \<and> (\<forall>k p. hm_get (px_pending st) k = Some p \<longrightarrow> p = claude_pending now)"

lemma retain_claude:
  assumes "claude_only now st"
  shows "hm_retain (\<lambda>_ p. now - pd_created p < PENDING_TTL) (px_pending st) = px_pending st"
proof (rule hm_retain_all)
  show "hm_wf (px_pending st)" using assms by (simp add: claude_only_def)
  show "now - pd_created v < PENDING_TTL" if "hm_get (px_pending st) k = Some v" for k v
  proof -
    from that assms have "v = claude_pending now" by (simp add: claude_only_def)
    then show ?thesis by (simp add: claude_pending_def PENDING_TTL_def secs_def)
  qed
qed

lemma insert_claude:
  "claude_only now st \<Longrightarrow> pending_insert now s (claude_pending now) st
    = (if hm_len (px_pending st) < PENDING_CAP then (True, st\<lparr>px_pending := hm_insert s (claude_pending now) (px_pending st)\<rparr>)
       else (False, st))"
  using retain_claude [of now st] by (auto simp: pending_insert_def Let_def)

interpretation pending_churn: churned_map PENDING_CAP "\<lambda>s st. snd (pending_insert now s (claude_pending now) st)" px_pending
  "\<lambda>st. claude_only now st \<and> hm_len (px_pending st) \<le> PENDING_CAP" for now
proof unfold_locales
  fix st :: proxy_state and k k' :: string
  assume g: "claude_only now st \<and> hm_len (px_pending st) \<le> PENDING_CAP"
  let ?st = "snd (pending_insert now k (claude_pending now) st)"
  have wf: "hm_wf (px_pending st)" using g by (simp add: claude_only_def)
  have e: "?st = (if hm_len (px_pending st) < PENDING_CAP
      then st\<lparr>px_pending := hm_insert k (claude_pending now) (px_pending st)\<rparr> else st)"
    using g by (simp add: insert_claude)
  show "claude_only now ?st \<and> hm_len (px_pending ?st) \<le> PENDING_CAP"
    using g wf by (auto simp: e claude_only_def hm_len_insert split: if_splits)
  show "hm_len (px_pending ?st) = min PENDING_CAP (Suc (hm_len (px_pending st)))" if "\<not> hm_contains (px_pending st) k"
    using g that by (auto simp: e hm_len_insert)
  show "k' = k \<or> hm_contains (px_pending st) k'" if "hm_contains (px_pending ?st) k'"
    using that by (auto simp: e contains_get split: if_splits)
qed

lemma insert_states_fold:
  assumes "claude_only now st" "distinct ss" "\<forall>s \<in> set ss. \<not> hm_contains (px_pending st) s"
    "hm_len (px_pending st) + length ss \<le> PENDING_CAP"
  shows "list_all (\<lambda>ok. ok) (fst (insert_states now ss st))
    \<and> snd (insert_states now ss st) = fold (\<lambda>s st. snd (pending_insert now s (claude_pending now) st)) ss st"
  using assms
proof (induction ss arbitrary: st)
  case (Cons s ss)
  define st1 where "st1 = snd (pending_insert now s (claude_pending now) st)"
  have i: "fst (pending_insert now s (claude_pending now) st)" using insert_claude [of now st s] Cons.prems by simp
  have "claude_only now st1" "\<forall>j \<in> set ss. \<not> hm_contains (px_pending st1) j" "hm_len (px_pending st1) = Suc (hm_len (px_pending st))"
    using pending_churn.good_put [of now st s] pending_churn.put_fresh [of now st s ss] pending_churn.len_put [of now st s]
      Cons.prems by (auto simp: st1_def)
  then have "list_all (\<lambda>ok. ok) (fst (insert_states now ss st1))
      \<and> snd (insert_states now ss st1) = fold (\<lambda>s st. snd (pending_insert now s (claude_pending now) st)) ss st1"
    using Cons.prems by (intro Cons.IH) simp_all
  with i show ?case by (simp add: split_beta st1_def)
qed simp

lemma pending_cap_test: "pending_authorizations_never_exceed_the_hard_cap now"
proof -
  let ?ss = "numbered ''state-'' PENDING_CAP"
  have c: "claude_only now claude_proxy" "px_pending claude_proxy = []" by (simp_all add: claude_only_def claude_proxy_def proxy_new_def)
  define st where "st = snd (insert_states now ?ss claude_proxy)"
  have f: "list_all (\<lambda>ok. ok) (fst (insert_states now ?ss claude_proxy))"
    "st = fold (\<lambda>s st. snd (pending_insert now s (claude_pending now) st)) ?ss claude_proxy"
    using insert_states_fold [OF c(1) numbered_distinct [of "''state-''" PENDING_CAP]] by (auto simp: c(2) contains_get st_def)
  have len: "hm_len (px_pending st) = PENDING_CAP"
    using pending_churn.run_len [of now claude_proxy ?ss] c by (simp add: f(2) numbered_distinct contains_get)
  have "claude_only now st" using pending_churn.run_good [of now claude_proxy ?ss] c by (simp add: f(2))
  then have "pending_insert now ''overflow'' (claude_pending now) st = (False, st)" by (simp add: insert_claude len)
  with f(1) len show ?thesis
    by (simp add: pending_authorizations_never_exceed_the_hard_cap_def split_beta flip: st_def)
qed

text \<open>\<open>random_state\<close> fills 24 bytes; \<open>hex\<close> is \<open>hex::encode\<close>.\<close>

definition random_state :: "(char list \<Rightarrow> string) \<Rightarrow> (nat \<Rightarrow> char) \<Rightarrow> string" where
  "random_state hex rng = hex (map rng [0..<24])"

definition random_state_is_unique_and_hex :: "(char list \<Rightarrow> string) \<Rightarrow> (nat \<Rightarrow> char) \<Rightarrow> (nat \<Rightarrow> char) \<Rightarrow> bool" where
  "random_state_is_unique_and_hex hex rng rng' \<longleftrightarrow>
     (let a = random_state hex rng; b = random_state hex rng' in a \<noteq> b \<and> length a = 48 \<and> list_all is_ascii_hexdigit a)"

lemma random_state_test:
  assumes "inj hex" "\<And>b. length (hex b) = 2 * length b" "\<And>b. list_all is_ascii_hexdigit (hex b)" "i < 24" "rng i \<noteq> rng' i"
  shows "random_state_is_unique_and_hex hex rng rng'"
proof -
  have "map rng [0..<24] \<noteq> map rng' [0..<24]" using assms(4,5) by (auto simp: list_eq_iff_nth_eq)
  then show ?thesis by (simp add: random_state_is_unique_and_hex_def random_state_def assms(2,3) inj_eq [OF assms(1)])
qed

end
