(* ===== verification/Unit_Tests_Server.thy ===== *)
theory Unit_Tests_Server
  imports Unit_Tests_Net
begin

text \<open>
  The unit tests of \<open>logto_oidc.rs\<close>, \<open>carddav_client.rs\<close> and \<open>main.rs\<close>, as in \<open>Unit_Tests\<close>. A mock server is the answer the
  environment gives to a request, and what it expects is asserted of the requests sent.
\<close>

subsection \<open>\<open>logto_oidc.rs\<close>\<close>

definition aud_single_and_multi_membership :: bool where
  "aud_single_and_multi_membership \<longleftrightarrow>
     aud_matches (Single ''https://x'') ''https://x'' \<and> \<not> aud_matches (Single ''https://x'') ''https://y''
     \<and> (let m = Multi [''https://x'', ''https://y''] in aud_matches m ''https://y'' \<and> \<not> aud_matches m ''https://z'')"

definition jwks_url_derived_from_issuer :: bool where
  "jwks_url_derived_from_issuer \<longleftrightarrow> is_some_and (\<lambda>c :: (nat list, string) logto_client.
     lc_jwks_url c = ''https://login.example.test/oidc/jwks'' \<and> lc_expected_issuer c = ''https://login.example.test/oidc'')
     (logto_new ''https://login.example.test/oidc/'' [''https://res''])"

text \<open>\<open>decode_header\<close> fails for a text that is no JWT; no request is sent.\<close>

definition opaque_token_rejected :: "('h, 'k, 'j) jwt_ops \<Rightarrow> clocks \<Rightarrow> bool" where
  "opaque_token_rejected J ck \<longleftrightarrow> is_some_and (\<lambda>c.
     let (r, c', sent) = validate_token J ck TransportError ''opaque-abc123'' c in r = Ok None \<and> \<not> sent)
     (logto_new ''https://login.example.test/oidc'' [''https://res''])"

text \<open>
  The twenty futures are polled in turn: the first takes the gate, and the others pass it one after
  the other when its refresh is done. All of it takes less than the refresh interval.
\<close>

fun keys_in_turn ::
  "('h, 'k, 'j) jwt_ops \<Rightarrow> instant \<Rightarrow> 'j jwks_reply \<Rightarrow> string list \<Rightarrow> 'k jwks_cache
     \<Rightarrow> ((validation_error + 'k option) \<times> bool) list" where
  "keys_in_turn J now reply [] g = []"
| "keys_in_turn J now reply (kid # kids) g =
     (let (r, g', sent) = slow_key J now now reply kid g in (r, sent) # keys_in_turn J now reply kids g')"

definition unknown_kids_share_one_rate_limited_jwks_refresh :: "('h, 'k, 'j) jwt_ops \<Rightarrow> instant \<Rightarrow> bool" where
  "unknown_kids_share_one_rate_limited_jwks_refresh J now \<longleftrightarrow> is_some_and (\<lambda>client :: ('h, 'k) logto_client.
     let results = keys_in_turn J now (JwkSet []) (numbered ''attacker-kid-'' 20) (lc_jwks client)
     in list_all (\<lambda>(r, sent). r = Ok None) results \<and> length (filter snd results) = 1)
     (logto_new ''http://127.0.0.1:4444'' [''https://res''])"

definition refresh_cooldown_keeps_a_previously_known_key_usable :: "('h, string, 'j) jwt_ops \<Rightarrow> instant \<Rightarrow> bool" where
  "refresh_cooldown_keeps_a_previously_known_key_usable J now \<longleftrightarrow>
     is_some_and (\<lambda>client :: ('h, string) logto_client.
       let cache = (lc_jwks client)\<lparr>jk_keys := hm_insert ''known'' ''test-only-key'' (jk_keys (lc_jwks client)),
             jk_fetched_at := Some (now - (JWKS_TTL + secs 1)), jk_last_refresh_attempt := Some now\<rparr>
       in is_ok_and (\<lambda>key. key \<noteq> None) (fst (decoding_key_for J now now TransportError ''known'' cache)))
     (logto_new ''https://login.example.test/oidc'' [''https://res''])"

text \<open>A digest of 32 bytes whose first eight are the index, as the tests of the two caches make them.\<close>

definition index_key :: "nat \<Rightarrow> nat list" where
  "index_key index = map (\<lambda>j. index div 256 ^ (7 - j) mod 256) [0..<8] @ replicate 24 0"

definition test_identity :: authenticated_identity where
  "test_identity = \<lparr>ai_user_id = ''user'', ai_email = None, ai_name = None, ai_exp = None\<rparr>"

definition positive_validation_cache_never_exceeds_its_hard_cap :: "instant \<Rightarrow> int \<Rightarrow> bool" where
  "positive_validation_cache_never_exceeds_its_hard_cap now unix \<longleftrightarrow>
     is_some_and (\<lambda>client :: (nat list, string) logto_client.
       hm_len (fold (\<lambda>key. cache_insert now key (unix, test_identity, None)) (map index_key [0..<CACHE_CAP + 10]) (lc_cache client))
         = CACHE_CAP)
     (logto_new ''https://login.example.test/oidc'' [''https://res''])"

lemma logto_tests: "aud_single_and_multi_membership" "jwks_url_derived_from_issuer"
  by code_simp+

lemma opaque_token_test: "jw_decode_header J ''opaque-abc123'' = None \<Longrightarrow> opaque_token_rejected J ck"
  by (simp add: opaque_token_rejected_def logto_new_def validate_token_def cache_lookup_def Let_def)

lemma keys_in_turn_cooling:
  "jk_last_refresh_attempt g = Some now \<Longrightarrow> jk_keys g = [] \<Longrightarrow> keys_in_turn J now reply kids g = map (\<lambda>_. (Ok None, False)) kids"
  by (induction kids) (simp_all add: slow_key_def fresh_key_def JWKS_MIN_REFRESH_INTERVAL_def secs_def)

lemma unknown_kids_test: "unknown_kids_share_one_rate_limited_jwks_refresh J now"
proof -
  have "numbered ''attacker-kid-'' 20 = ''attacker-kid-0'' # tl (numbered ''attacker-kid-'' 20)" by code_simp
  then obtain kids where k: "numbered ''attacker-kid-'' 20 = ''attacker-kid-0'' # kids" by blast
  show ?thesis
    by (auto simp: unknown_kids_share_one_rate_limited_jwks_refresh_def k logto_new_def slow_key_def fresh_key_def
        jwks_fresh_def refresh_jwks_def and_then_def keys_in_turn_cooling list_all_iff Let_def)
qed

lemma cooldown_test: "JWKS_TTL + secs 1 \<le> now \<Longrightarrow> refresh_cooldown_keeps_a_previously_known_key_usable J now"
  by (simp add: refresh_cooldown_keeps_a_previously_known_key_usable_def logto_new_def decoding_key_for_def slow_key_def
      fresh_key_def jwks_fresh_def JWKS_MIN_REFRESH_INTERVAL_def JWKS_TTL_def secs_def Let_def)

lemma index_keys_distinct: "distinct (map index_key [0..<n])" if "n \<le> 65536"
proof -
  have "i = j" if "index_key i = index_key j" "i < 65536" "j < 65536" for i j
  proof -
    have "index_key i ! 7 = index_key j ! 7" "index_key i ! 6 = index_key j ! 6" by (simp_all only: that(1))
    then have m: "i mod 256 = j mod 256" "i div 256 mod 256 = j div 256 mod 256" by (simp_all add: index_key_def nth_append)
    have "i div 256 < 256" "j div 256 < 256" using that(2,3) by (simp_all add: less_mult_imp_div_less)
    with m have "i div 256 = j div 256" by simp
    with m(1) show ?thesis by (metis div_mult_mod_eq)
  qed
  with that show ?thesis by (auto simp: distinct_map inj_on_def)
qed

definition kept_until :: "nat \<Rightarrow> (instant \<Rightarrow> 'v \<Rightarrow> bool) \<Rightarrow> instant \<Rightarrow> ('k, 'v) hmap \<Rightarrow> bool" where
  "kept_until cap P now m \<longleftrightarrow> hm_wf m \<and> hm_len m \<le> cap \<and> (\<forall>k v. hm_get m k = Some v \<longrightarrow> P now v)"

lemma kept_put:
  assumes "0 < cap" "P now v" "kept_until cap P now m"
  shows "kept_until cap P now (capped_put cap (\<lambda>_. P now) f k v m)"
    and "\<not> hm_contains m k \<Longrightarrow> hm_len (capped_put cap (\<lambda>_. P now) f k v m) = min cap (Suc (hm_len m))"
    and "hm_contains (capped_put cap (\<lambda>_. P now) f k v m) k' \<Longrightarrow> k' = k \<or> hm_contains m k'"
proof -
  have m: "hm_wf m" "hm_len m \<le> cap" "\<And>k v. hm_get m k = Some v \<Longrightarrow> P now v" using assms(3) by (auto simp: kept_until_def)
  have g: "P now e" if "hm_get (capped_put cap (\<lambda>_. P now) f k v m) j = Some e" for j e
    using that m(3) hm_get_capped_put_other [OF m(1), of j k cap "\<lambda>_. P now" f v e] assms(2)
      hm_get_capped_put [of cap "\<lambda>_. P now" f k v m] by (cases "j = k") auto
  show "kept_until cap P now (capped_put cap (\<lambda>_. P now) f k v m)"
    using m g assms(1) by (simp add: kept_until_def hm_wf_capped_put hm_len_capped_put)
  show "hm_len (capped_put cap (\<lambda>_. P now) f k v m) = min cap (Suc (hm_len m))" if "\<not> hm_contains m k"
    by (rule capped_put_fresh) (use assms(1) m that in auto)
  show "k' = k \<or> hm_contains m k'" if "hm_contains (capped_put cap (\<lambda>_. P now) f k v m) k'"
    using that hm_get_capped_put_other [OF m(1), of k' k cap "\<lambda>_. P now" f v] by (auto simp: contains_get)
qed

interpretation token_churn: churned_map CACHE_CAP "\<lambda>key. cache_insert now key (unix, test_identity, None)" id
  "kept_until CACHE_CAP (\<lambda>now e. ce_expires_at e > now) now" for now unix
proof unfold_locales
  fix m :: "('k, cache_entry) hmap" and k k'
  assume g: "kept_until CACHE_CAP (\<lambda>now e. ce_expires_at e > now) now m"
  have fresh: "ce_expires_at (cache_entry_of now (unix, test_identity, None)) > now"
    by (simp add: cache_entry_of_def cache_ttl_def MAX_CACHE_TTL_def secs_def)
  note put = kept_put [OF CACHE_CAP_pos fresh g]
  show "kept_until CACHE_CAP (\<lambda>now e. ce_expires_at e > now) now (cache_insert now k (unix, test_identity, None) m)"
    using put(1) by (simp add: cache_insert_put)
  show "hm_len (id (cache_insert now k (unix, test_identity, None) m)) = min CACHE_CAP (Suc (hm_len (id m)))"
    if "\<not> hm_contains (id m) k" using put(2) that by (simp add: cache_insert_put)
  show "k' = k \<or> hm_contains (id m) k'" if "hm_contains (id (cache_insert now k (unix, test_identity, None) m)) k'"
    using put(3) that by (simp add: cache_insert_put)
qed

lemma validation_cache_test: "positive_validation_cache_never_exceeds_its_hard_cap now unix"
proof -
  have "kept_until CACHE_CAP (\<lambda>now e. ce_expires_at e > now) now ([] :: (nat list, cache_entry) hmap)" by (simp add: kept_until_def)
  moreover have "distinct (map index_key [0..<CACHE_CAP + 10])" by (rule index_keys_distinct) (simp add: CACHE_CAP_def)
  ultimately have "hm_len (id (fold (\<lambda>key. cache_insert now key (unix, test_identity, None)) (map index_key [0..<CACHE_CAP + 10]) []))
      = min CACHE_CAP (hm_len (id ([] :: (nat list, cache_entry) hmap)) + length (map index_key [0..<CACHE_CAP + 10]))"
    by (rule token_churn.run_len) (simp_all add: contains_get)
  then show ?thesis by (simp add: positive_validation_cache_never_exceeds_its_hard_cap_def logto_new_def Let_def)
qed

subsection \<open>\<open>carddav_client.rs\<close>\<close>

text \<open>
  \<open>plain_events\<close> reads a document into the events \<open>quick_xml\<close> yields for it: a tag under its local name, the text
  between tags, and a reference on its own. \<open>web_url\<close> is a URL with its port, \<open>web_join\<close> its resolution of a reference.
\<close>

definition local_name :: "string \<Rightarrow> string" where
  "local_name tag = (let name = takeWhile (\<lambda>c. c \<noteq> SPC \<and> c \<noteq> CHR ''/'') tag in last (split_on (CHR '':'') name))"

definition tag_event :: "string \<Rightarrow> xml_event" where
  "tag_event tag =
     (if starts_with ''?'' tag then OtherEvent
      else if starts_with ''/'' tag then End (local_name (drop 1 tag))
      else if ends_with ''/'' tag then Empty (local_name tag) else Start (local_name tag))"

definition ref_event :: "string \<Rightarrow> xml_event" where
  "ref_event name =
     GeneralRef (case name of
         h # n \<Rightarrow> if h = CHR ''#'' then \<lparr>gr_char_ref = Ok (Some [char_of (digits_val n)]), gr_decoded = Ok name\<rparr>
                else \<lparr>gr_char_ref = Ok None, gr_decoded = Ok name\<rparr>
       | [] \<Rightarrow> \<lparr>gr_char_ref = Ok None, gr_decoded = Ok name\<rparr>)"

fun cut_at :: "(char \<Rightarrow> bool) \<Rightarrow> string \<Rightarrow> string \<times> string" where
  "cut_at p [] = ([], [])"
| "cut_at p (c # s) = (if p c then ([], c # s) else (case cut_at p s of (a, b) \<Rightarrow> (c # a, b)))"

fun events_fuel :: "nat \<Rightarrow> string \<Rightarrow> xml_event list" where
  "events_fuel n [] = []"
| "events_fuel n (c # s) =
     (if n = 0 then []
      else if c = CHR ''<'' then
        (case cut_at (\<lambda>x. x = CHR ''>'') s of (tag, rest) \<Rightarrow> tag_event tag # events_fuel (n - 1) (drop 1 rest))
      else if c = CHR ''&'' then
        (case cut_at (\<lambda>x. x = CHR '';'') s of (name, rest) \<Rightarrow> ref_event name # events_fuel (n - 1) (drop 1 rest))
      else (case cut_at (\<lambda>x. x = CHR ''<'' \<or> x = CHR ''&'') s of (t, rest) \<Rightarrow> Text (Ok (c # t)) # events_fuel (n - 1) rest))"

definition plain_events :: "string \<Rightarrow> xml_event list" where
  "plain_events xml = events_fuel (length xml) xml"

type_synonym web_url = "url_view \<times> nat option"

definition web_parse :: "string \<Rightarrow> web_url option" where
  "web_parse s =
     (case plain_url s of
        None \<Rightarrow> None
      | Some v \<Rightarrow>
          (let authority = takeWhile (\<lambda>c. c \<noteq> CHR ''/'') (drop (length (u_scheme v) + 3) s) in
           Some (v, case cut (CHR '':'') authority of
               (_, Some p) \<Rightarrow> parse_uint 16 p
             | _ \<Rightarrow> if u_scheme v = ''https'' then Some 443 else if u_scheme v = ''http'' then Some 80 else None)))"

definition up_to_slash :: "string \<Rightarrow> string" where
  "up_to_slash p = rev (dropWhile (\<lambda>c. c \<noteq> CHR ''/'') (rev p))"

definition web_join :: "web_url \<Rightarrow> string \<Rightarrow> web_url option" where
  "web_join u href =
     (if plain_url href \<noteq> None then web_parse href
      else if starts_with ''//'' href then web_parse (u_scheme (fst u) @ '':'' @ href)
      else let path = (if starts_with ''/'' href then href else up_to_slash (u_path (fst u)) @ href)
           in Some ((fst u)\<lparr>u_path := path, u_query := None, u_fragment := None\<rparr>, snd u))"

definition segment_encode :: "string \<Rightarrow> string" where
  "segment_encode s = concat (map (\<lambda>c. if c = CHR ''/'' then ''%2F'' else if c = CHR ''%'' then ''%25'' else [c]) s)"

definition web_push :: "string \<Rightarrow> web_url \<Rightarrow> web_url option" where
  "web_push seg u = (let p = u_path (fst u) in
     Some ((fst u)\<lparr>u_path := (if ends_with ''/'' p then p else p @ ''/'') @ segment_encode seg\<rparr>, snd u))"

definition web_env :: "(web_url dav_request \<Rightarrow> exchange) \<Rightarrow> (web_url, string, ipv4) dav_env" where
  "web_env server =
     \<lparr>ev_parse = web_parse, ev_join = web_join, ev_scheme = (\<lambda>u. u_scheme (fst u)), ev_host = (\<lambda>u. u_host (fst u)),
      ev_port = snd, ev_username = (\<lambda>u. u_username (fst u)), ev_password = (\<lambda>u. u_password (fst u)),
      ev_fragment = (\<lambda>u. u_fragment (fst u)), ev_path = (\<lambda>u. u_path (fst u)),
      ev_set_path = (\<lambda>p u. ((fst u)\<lparr>u_path := p\<rparr>, snd u)), ev_clear_query = (\<lambda>u. ((fst u)\<lparr>u_query := None\<rparr>, snd u)),
      ev_clear_fragment = (\<lambda>u. ((fst u)\<lparr>u_fragment := None\<rparr>, snd u)), ev_push_segment = web_push, ev_sha = (\<lambda>t. t),
      ev_parse_ip = ipv4_from_str, ev_xml_events = plain_events, ev_xml_entity = predefined_entity,
      ev_utf8_error = (\<lambda>_. ''invalid utf-8''), ev_client_builds = True, ev_clock = (\<lambda>_. 0), ev_reply = (\<lambda>_. server)\<rparr>"

definition no_server :: "web_url dav_request \<Rightarrow> exchange" where
  "no_server q = SendFailed"

definition answer :: "nat \<Rightarrow> (string \<times> string) list \<Rightarrow> string \<Rightarrow> exchange" where
  "answer status headers body = Responded \<lparr>rw_status = status, rw_header = map_of headers, rw_chunks = [Some body]\<rparr>"

definition attr :: "string \<Rightarrow> string \<Rightarrow> string" where
  "attr name v = '' '' @ name @ ''='' @ [QUOT] @ v @ [QUOT]"

definition dav_ns :: string where "dav_ns = attr ''xmlns:d'' ''DAV:''"
definition card_ns :: string where "card_ns = attr ''xmlns:card'' ''urn:ietf:params:xml:ns:carddav''"

definition discovery_document :: string where
  "discovery_document = text_lines
     [''<?xml'' @ attr ''version'' ''1.0'' @ ''?>'',
      ''<d:multistatus'' @ dav_ns @ card_ns @ attr ''xmlns:cs'' ''http://calendarserver.org/ns/'' @ ''>'',
      ''  <d:response><d:href>/dav/card/u/</d:href><d:propstat><d:prop>'',
      ''    <d:current-user-principal><d:href>/principals/u/</d:href></d:current-user-principal>'',
      ''    <card:addressbook-home-set><d:href>/dav/card/u/</d:href></card:addressbook-home-set>'',
      ''  </d:prop></d:propstat></d:response>'',
      ''  <d:response><d:href>/dav/card/u/default/</d:href><d:propstat><d:prop>'',
      ''    <d:displayname>Personal &amp; Shared</d:displayname>'',
      ''    <d:resourcetype><d:collection/><card:addressbook/></d:resourcetype>'',
      ''    <cs:getctag>42</cs:getctag>'',
      ''  </d:prop></d:propstat></d:response>'',
      ''</d:multistatus>'']"

definition parses_discovery_and_addressbook_properties :: bool where
  "parses_discovery_and_addressbook_properties \<longleftrightarrow>
     is_ok_and (\<lambda>parsed. length parsed = 2
         \<and> pr_current_user_principal (parsed ! 0) = Some ''/principals/u/''
         \<and> pr_addressbook_home (parsed ! 0) = Some ''/dav/card/u/'' \<and> pr_is_addressbook (parsed ! 1)
         \<and> pr_display_name (parsed ! 1) = Some ''Personal & Shared'')
       (parse_multistatus predefined_entity (plain_events discovery_document))"

definition parses_vcard_from_multistatus :: bool where
  "parses_vcard_from_multistatus \<longleftrightarrow>
     (let xml = text_lines
        [''<d:multistatus'' @ dav_ns @ card_ns @ ''>'',
         ''<d:response><d:href>/dav/card/u/default/a.vcf</d:href><d:propstat><d:prop>'',
         ''<d:getetag>&quot;abc&quot;</d:getetag>'',
         ''<card:address-data>BEGIN:VCARD&#13;&#10;VERSION:4.0&#13;&#10;FN:Alice &amp; Bob&#13;&#10;END:VCARD&#13;&#10;</card:address-data>'',
         ''</d:prop></d:propstat></d:response></d:multistatus>'']
      in is_ok_and (\<lambda>parsed. pr_etag (parsed ! 0) = Some ([QUOT] @ ''abc'' @ [QUOT])
           \<and> is_some_and (\<lambda>vcard. str_contains ''FN:Alice & Bob'' vcard \<and> str_contains [CR, LF] vcard) (pr_address_data (parsed ! 0)))
         (parse_multistatus predefined_entity (plain_events xml)))"

definition confines_server_hrefs_to_dav_origin :: bool where
  "confines_server_hrefs_to_dav_origin \<longleftrightarrow> (let E = web_env no_server in is_ok_and (\<lambda>client.
     is_ok (resolve_href E client ''/dav/card/u/'') \<and> is_ok (resolve_href E client ''https://dav.example.test/dav/card/u/'')
     \<and> \<not> is_ok (resolve_href E client ''https://evil.example/dav/card/u/'')
     \<and> \<not> is_ok (resolve_href E client ''//evil.example/dav/card/u/''))
     (dav_client_new E ''https://dav.example.test'' None 1024))"

definition xml_escaping_handles_markup :: bool where
  "xml_escaping_handles_markup \<longleftrightarrow> escape_xml ''A&B <C>'' = ''A&amp;B &lt;C&gt;''"

lemma discovery_document_events:
  "plain_events discovery_document =
     [OtherEvent, Text (Ok [LF]), Start ''multistatus'', Text (Ok [LF, SPC, SPC]), Start
      ''response'', Start ''href'', Text (Ok ''/dav/card/u/''), End ''href'', Start ''propstat'',
      Start ''prop'', Text (Ok [LF, SPC, SPC, SPC, SPC]), Start ''current-user-principal'', Start
      ''href'', Text (Ok ''/principals/u/''), End ''href'', End ''current-user-principal'', Text (Ok
      [LF, SPC, SPC, SPC, SPC]), Start ''addressbook-home-set'', Start ''href'', Text (Ok
      ''/dav/card/u/''), End ''href'', End ''addressbook-home-set'', Text (Ok [LF, SPC, SPC]), End
      ''prop'', End ''propstat'', End ''response'', Text (Ok [LF, SPC, SPC]), Start ''response'',
      Start ''href'', Text (Ok ''/dav/card/u/default/''), End ''href'', Start ''propstat'', Start
      ''prop'', Text (Ok [LF, SPC, SPC, SPC, SPC]), Start ''displayname'', Text (Ok (''Personal'' @ [SPC])),
      GeneralRef \<lparr>gr_char_ref = Ok None, gr_decoded = Ok ''amp''\<rparr>, Text (Ok ([SPC] @ ''Shared'')), End ''displayname'', Text (Ok [LF, SPC, SPC, SPC, SPC]), Start ''resourcetype'',
      Empty ''collection'', Empty ''addressbook'', End ''resourcetype'', Text (Ok [LF, SPC, SPC,
      SPC, SPC]), Start ''getctag'', Text (Ok ''42''), End ''getctag'', Text (Ok [LF, SPC, SPC]),
      End ''prop'', End ''propstat'', End ''response'', Text (Ok [LF]), End ''multistatus'']"
  by code_simp

lemma multistatus_test: "parses_discovery_and_addressbook_properties"
  unfolding parses_discovery_and_addressbook_properties_def discovery_document_events
  by code_simp

lemma multistatus_vcard_test: "parses_vcard_from_multistatus"
  by code_simp

lemma escaping_test: "xml_escaping_handles_markup"
  by code_simp

lemma href_test: "confines_server_hrefs_to_dav_origin"
  by code_simp

text \<open>The mock answers a request of the given method, path and headers, and 404 to any other; each mock is called once.\<close>

definition asks :: "string \<Rightarrow> string \<Rightarrow> (string \<times> string) list \<Rightarrow> web_url dav_request \<Rightarrow> bool" where
  "asks m path headers q \<longleftrightarrow> rq_method q = m \<and> u_path (fst (rq_url q)) = path
     \<and> list_all (\<lambda>(n, v). map_of (rq_headers q) n = Some v) headers"

fun mock_server :: "((web_url dav_request \<Rightarrow> bool) \<times> exchange) list \<Rightarrow> web_url dav_request \<Rightarrow> exchange" where
  "mock_server [] q = answer 404 [] []"
| "mock_server ((m, reply) # ms) q = (if m q then reply else mock_server ms q)"

definition called_once :: "((web_url dav_request \<Rightarrow> bool) \<times> exchange) list \<Rightarrow> (web_url, string) dav_state \<Rightarrow> bool" where
  "called_once mocks s \<longleftrightarrow> list_all (\<lambda>(m, _). length (filter m (ds_sent s)) = 1) mocks"

definition one_response :: "string \<Rightarrow> string \<Rightarrow> string \<Rightarrow> string" where
  "one_response ns href body =
     ''<d:multistatus'' @ ns @ ''><d:response><d:href>'' @ href @ ''</d:href><d:propstat><d:prop>'' @ body
     @ ''</d:prop></d:propstat></d:response></d:multistatus>''"

definition listing_mocks :: "((web_url dav_request \<Rightarrow> bool) \<times> exchange) list" where
  "listing_mocks =
     [(asks ''PROPFIND'' ''/.well-known/carddav'' [(''authorization'', ''Bearer test-token''), (''depth'', ''0'')],
       answer 207 [] (one_response dav_ns ''/dav/card/''
         ''<d:current-user-principal><d:href>/principals/u/</d:href></d:current-user-principal>'')),
      (asks ''PROPFIND'' ''/principals/u/'' [(''authorization'', ''Bearer test-token'')],
       answer 207 [] (one_response (dav_ns @ card_ns) ''/principals/u/''
         ''<card:addressbook-home-set><d:href>/dav/card/u/</d:href></card:addressbook-home-set>'')),
      (asks ''PROPFIND'' ''/dav/card/u/'' [(''authorization'', ''Bearer test-token''), (''depth'', ''1'')],
       answer 207 [] (one_response (dav_ns @ card_ns) ''/dav/card/u/default/''
         ''<d:displayname>Contacts</d:displayname><d:resourcetype><d:collection/><card:addressbook/></d:resourcetype>''))]"

definition bearer_is_forwarded_through_discovery_and_addressbook_listing :: bool where
  "bearer_is_forwarded_through_discovery_and_addressbook_listing \<longleftrightarrow>
     (let E = web_env (mock_server listing_mocks) in is_ok_and (\<lambda>client.
        let (books, s) = list_address_books E client ''test-token'' dav_start in
        is_ok_and (\<lambda>books. length books = 1 \<and> ab_href (books ! 0) = ''/dav/card/u/default/''
          \<and> ab_display_name (books ! 0) = ''Contacts'') books
        \<and> called_once listing_mocks s)
      (dav_client_new E ''http://127.0.0.1:4444'' None (1024 * 1024)))"

definition creation_mocks :: "((web_url dav_request \<Rightarrow> bool) \<times> exchange) list" where
  "creation_mocks =
     [(\<lambda>q. asks ''PUT'' ''/dav/card/u/default/a%2Fb.vcf'' [(''authorization'', ''Bearer test-token''), (''if-none-match'', ''*'')] q
          \<and> is_some_and (str_contains ''UID:a/b'') (rq_body q),
       answer 201 [(''etag'', [QUOT] @ ''created'' @ [QUOT])] [])]"

definition create_uses_if_none_match_and_never_basic_auth :: bool where
  "create_uses_if_none_match_and_never_basic_auth \<longleftrightarrow>
     (let E = web_env (mock_server creation_mocks) in is_ok_and (\<lambda>client.
        let (result, s) = create_contact E client ''test-token'' ''/dav/card/u/default/'' ''a/b''
              (concat (map (\<lambda>l. l @ [CR, LF]) [''BEGIN:VCARD'', ''VERSION:4.0'', ''UID:a/b'', ''FN:Alice'', ''END:VCARD''])) dav_start
        in is_ok_and (\<lambda>r. wr_href r = ''/dav/card/u/default/a%2Fb.vcf'' \<and> wr_etag r = Some ([QUOT] @ ''created'' @ [QUOT])) result
           \<and> called_once creation_mocks s)
      (dav_client_new E ''http://127.0.0.1:4444'' None (1024 * 1024)))"

definition rejection_mocks :: "((web_url dav_request \<Rightarrow> bool) \<times> exchange) list" where
  "rejection_mocks =
     [(asks ''PROPFIND'' ''/.well-known/carddav'' [(''authorization'', ''Bearer rejected-token'')], answer 401 [] ''bearer rejected'')]"

definition rejected_bearer_is_not_retried_with_another_auth_scheme :: bool where
  "rejected_bearer_is_not_retried_with_another_auth_scheme \<longleftrightarrow>
     (let E = web_env (mock_server rejection_mocks) in is_ok_and (\<lambda>client.
        let (result, s) = discover E client ''rejected-token'' dav_start in
        (case result of Inl Unauthorized \<Rightarrow> True | _ \<Rightarrow> False) \<and> called_once rejection_mocks s)
      (dav_client_new E ''http://127.0.0.1:4444'' None (1024 * 1024)))"

definition test_discovery :: dav_discovery where
  "test_discovery = \<lparr>dd_principal_href = ''/principals/user/'', dd_addressbook_home_href = ''/dav/card/user/''\<rparr>"

definition discovery_cache_never_exceeds_its_hard_cap :: "instant \<Rightarrow> bool" where
  "discovery_cache_never_exceeds_its_hard_cap now \<longleftrightarrow>
     hm_len (fold (\<lambda>key. discovery_insert now key test_discovery) (map index_key [0..<DISCOVERY_CAP + 10]) []) = DISCOVERY_CAP"

lemma dav_server_tests:
  "create_uses_if_none_match_and_never_basic_auth" "rejected_bearer_is_not_retried_with_another_auth_scheme"
  by code_simp+

lemma listing_test: "bearer_is_forwarded_through_discovery_and_addressbook_listing"
  by code_simp

interpretation discovery_churn: churned_map DISCOVERY_CAP "\<lambda>key. discovery_insert now key test_discovery" id
  "kept_until DISCOVERY_CAP (\<lambda>now e. now - cd_cached_at e < DISCOVERY_TTL) now" for now
proof unfold_locales
  fix m :: "('k, cached_discovery) hmap" and k k'
  assume g: "kept_until DISCOVERY_CAP (\<lambda>now e. now - cd_cached_at e < DISCOVERY_TTL) now m"
  have fresh: "now - cd_cached_at \<lparr>cd_discovery = test_discovery, cd_cached_at = now\<rparr> < DISCOVERY_TTL"
    by (simp add: DISCOVERY_TTL_def secs_def)
  note put = kept_put [where P = "\<lambda>now e. now - cd_cached_at e < DISCOVERY_TTL", OF DISCOVERY_CAP_pos fresh g]
  show "kept_until DISCOVERY_CAP (\<lambda>now e. now - cd_cached_at e < DISCOVERY_TTL) now (discovery_insert now k test_discovery m)"
    using put(1) by (simp add: discovery_insert_put)
  show "hm_len (id (discovery_insert now k test_discovery m)) = min DISCOVERY_CAP (Suc (hm_len (id m)))"
    if "\<not> hm_contains (id m) k" using put(2) that by (simp add: discovery_insert_put)
  show "k' = k \<or> hm_contains (id m) k'" if "hm_contains (id (discovery_insert now k test_discovery m)) k'"
    using put(3) that by (simp add: discovery_insert_put)
qed

lemma discovery_cache_test: "discovery_cache_never_exceeds_its_hard_cap now"
proof -
  have "kept_until DISCOVERY_CAP (\<lambda>now e. now - cd_cached_at e < DISCOVERY_TTL) now ([] :: (nat list, cached_discovery) hmap)"
    by (simp add: kept_until_def)
  moreover have "distinct (map index_key [0..<DISCOVERY_CAP + 10])" by (rule index_keys_distinct) (simp add: DISCOVERY_CAP_def)
  ultimately have "hm_len (id (fold (\<lambda>key. discovery_insert now key test_discovery) (map index_key [0..<DISCOVERY_CAP + 10]) []))
      = min DISCOVERY_CAP (hm_len (id ([] :: (nat list, cached_discovery) hmap)) + length (map index_key [0..<DISCOVERY_CAP + 10]))"
    by (rule discovery_churn.run_len) (simp_all add: contains_get)
  then show ?thesis by (simp add: discovery_cache_never_exceeds_its_hard_cap_def)
qed

subsection \<open>\<open>main.rs\<close>\<close>

text \<open>The body-limit layer refuses a request by its \<open>Content-Length\<close>.\<close>

definition body_limit :: "nat \<Rightarrow> http_request \<Rightarrow> http_response option" where
  "body_limit limit req =
     (case Option.bind (hq_header req ''content-length'') (parse_uint 64) of
        Some n \<Rightarrow> if limit < n then Some (plain_response 413 ''length limit exceeded'') else None
      | None \<Rightarrow> None)"

definition router_env :: "(web_url, string, ipv4, string, string, gcra_quota, gcra_bucket, gdate) app_env" where
  "router_env = \<lparr>ap_auth = \<lparr>ae_jwt = sample_jwt, ae_sha = (\<lambda>t. t), ae_hex = (\<lambda>b. b), ae_parse_ip = ipv4_from_str,
       ae_header_valid = list_all (\<lambda>c. 32 \<le> code c \<and> code c < 127)\<rparr>,
     ap_dav = web_env no_server, ap_governor = gcra, ap_calendar = gregorian, ap_parse_date = (\<lambda>_. None),
     ap_format_date = (\<lambda>_. []), ap_http_text = [], ap_body_limit = body_limit, ap_rmcp = (\<lambda>_. None)\<rparr>"

definition router_config :: "anyhow + string config" where
  "router_config = config_new plain_url test_addrs ''https://carddav-mcp.example.test'' ''https://login.example.test/oidc''
     ''https://dav.example.test'' ''0.0.0.0:3000''"

definition test_request :: "string \<Rightarrow> string \<Rightarrow> (string \<times> string) list \<Rightarrow> http_request" where
  "test_request m path headers =
     \<lparr>hq_method = m, hq_path = path, hq_header = map_of headers, hq_has_header = (\<lambda>n. map_of headers n \<noteq> None),
      hq_identity = None, hq_token = None\<rparr>"

text \<open>The tests' \<open>router\<close> builds everything from the configuration but the limiter, which it gives quotas of its own.\<close>

definition oneshot :: "(string, gdate) app_io \<Rightarrow> http_request \<Rightarrow> (ipv4 answer \<Rightarrow> bool) \<Rightarrow> bool" where
  "oneshot io req f = is_ok_and (\<lambda>config. is_ok_and (\<lambda>(client, s).
     f (fst (router router_env form_ops False config client io sample_public req s)))
     (build_server router_env (config\<lparr>cf_rate_limit_reads_per_min := 100000, cf_rate_limit_writes_per_min := 100000\<rparr>))) router_config"

definition has_status :: "nat \<Rightarrow> ipv4 answer \<Rightarrow> bool" where
  "has_status n a = (case a of Plain r \<Rightarrow> rs_status r = n | Behind_layers (Answered r) \<Rightarrow> rs_status r = n
     | Behind_layers _ \<Rightarrow> False | _ \<Rightarrow> n = 200)"

definition health_is_public :: "(string, gdate) app_io \<Rightarrow> bool" where
  "health_is_public io \<longleftrightarrow> oneshot io (test_request ''GET'' ''/health'' []) (\<lambda>response. has_status 200 response
     \<and> (case response of Health payload \<Rightarrow> json_get payload ''status'' = Some (JString ''healthy'')
          \<and> json_get payload ''version'' = Some (JString CARGO_PKG_VERSION) | _ \<Rightarrow> False))"

definition mcp_without_token_returns_401 :: "(string, gdate) app_io \<Rightarrow> bool" where
  "mcp_without_token_returns_401 io \<longleftrightarrow> oneshot io (test_request ''POST'' ''/mcp'' []) (\<lambda>response.
     case response of Behind_layers (Answered r) \<Rightarrow>
       rs_status r = 401 \<and> is_some_and (str_contains ''oauth-protected-resource/mcp'') (header_of ''www-authenticate'' r)
     | _ \<Rightarrow> False)"

definition oversized_mcp_body_is_rejected_before_authentication :: "(string, gdate) app_io \<Rightarrow> bool" where
  "oversized_mcp_body_is_rejected_before_authentication io \<longleftrightarrow>
     oneshot io (test_request ''POST'' ''/mcp'' [(''content-length'', digits_of (MAX_MCP_REQUEST_BYTES + 1))]) (has_status 413)"

definition path_aware_metadata_endpoint_is_public :: "(string, gdate) app_io \<Rightarrow> bool" where
  "path_aware_metadata_endpoint_is_public io \<longleftrightarrow>
     oneshot io (test_request ''GET'' ''/.well-known/oauth-protected-resource/mcp'' []) (has_status 200)"

lemma health_test: "health_is_public io"
  by code_simp

lemma metadata_route_test: "path_aware_metadata_endpoint_is_public io"
  by code_simp

lemma no_token_test: "mcp_without_token_returns_401 io"
  by code_simp

lemma oversized_body_test: "oversized_mcp_body_is_rejected_before_authentication io"
  by code_simp

end
