(* ===== verification/Spec2Isabelle.thy ===== *)
theory Spec2Isabelle
  imports Vcard Vcard_Utf8 Last_Used Birthday Audit_Log Rate_Limit Limit_Tasks Oauth_Redirect Config_Env Oauth_Meta
    Oauth_Proxy Logto_Oidc Rust_Tasks Logto_Tasks Session_Cap Dav_Trace Dav_Tasks Bearer_Auth Mcp_Trace Mcp_Results Mcp_Tasks
    Server_Main Server_Router Server_Tasks Server_Pool Server_Concurrent Metrics Server_Metrics
    Process Unit_Tests Unit_Tests_Net Unit_Tests_Server
begin

text \<open>
  A verification development of \<open>carddav-mcp\<close>, an MCP server that gives a language-model client access to
  its user's CardDAV address books. This theory imports all others.

  \<^bold>\<open>The program.\<close> One process serves HTTP (\<open>src/src/main.rs\<close>). Behind a body limit, \<open>bearer_auth\<close> validates
  the caller's Logto access token and records its use; \<open>initialize_rate_limit\<close> limits new sessions; \<open>/mcp\<close>
  then runs one of eight tools, which passes the per-user limiter and speaks to one CardDAV server with
  the caller's own bearer, and \<open>/token/introspect\<close> reports on the token. Public routes serve OAuth
  metadata, a registration shim, and a proxy that rewrites the authorization flow to Logto. State is shared
  in memory: the key set, the validation cache, the last-used table, the discovery cache, the rate-limit
  buckets, the live sessions and the pending authorizations. Errors travel as values: a CardDAV 401 or
  403 becomes \<open>Unauthorized\<close>, makes the tool evict the bearer from both caches, and ends in the caller's
  error and an audit event.

  \<^bold>\<open>Theories\<close>, with the source they translate. Definitions keep the names of the functions; the fields of a
  state record keep the names of the fields behind a prefix.

  \<^item> \<open>Prelude\<close> (results, durations), \<open>Rust_Str\<close> (\<open>str\<close> as UTF-8 bytes: trimming, splitting,
    number parsing), \<open>Rust_Map\<close> (\<open>HashMap\<close> as an association list), \<open>Rust_Async\<close> (fallible code over a
    state) and \<open>Web_Types\<close> (URLs, responses) are shared.
  \<^item> \<open>Audit_Log\<close>: \<open>audit.rs\<close>. \<open>Metrics\<close>, \<open>Server_Metrics\<close>: \<open>metrics.rs\<close>, and what a run of the server counts.
  \<^item> \<open>Config_Env\<close>: \<open>config.rs\<close>. \<open>Oauth_Redirect\<close>: \<open>oauth_redirect.rs\<close>. \<open>Oauth_Meta\<close>: \<open>oauth_metadata.rs\<close>.
    \<open>Oauth_Proxy\<close>: \<open>oauth_proxy.rs\<close>.
  \<^item> \<open>Logto_Oidc\<close>: \<open>logto_oidc.rs\<close>. \<open>Bearer_Auth\<close>: \<open>auth.rs\<close> and \<open>token_introspect.rs\<close>. \<open>Last_Used\<close>:
    \<open>last_used.rs\<close>. \<open>Rate_Limit\<close>: \<open>rate_limit.rs\<close>. \<open>Session_Cap\<close>: \<open>session.rs\<close>.
  \<^item> \<open>Dav_Xml\<close> (queries and the multistatus parser), \<open>Dav_Client\<close> (the operations) and \<open>Dav_Trace\<close> (what
    they send and remember): \<open>carddav_client.rs\<close>.
  \<^item> \<open>Birthday\<close>: \<open>birthday.rs\<close>. \<open>Vcard\<close>, \<open>Vcard_Utf8\<close> (the vCard codec), \<open>Mcp_Tools\<close> (the tools),
    \<open>Mcp_Trace\<close> (what a call sends and changes), \<open>Mcp_Results\<close> (what it writes and answers): \<open>mcp.rs\<close>.
  \<^item> \<open>Server_Main\<close> (startup, the layers, the authenticated routes) and \<open>Server_Router\<close> (all routes, runs of the
    whole service, one request after the other): \<open>main.rs\<close>. \<open>Process\<close>: \<open>main\<close>, \<open>init_tracing\<close> and \<open>shutdown_signal\<close> of
    \<open>main.rs\<close>, and \<open>telemetry.rs\<close>.
  \<^item> The same code under concurrent requests: \<open>Rust_Tasks\<close> (an \<open>async fn\<close> cut into its atomic steps, pools of
    them), \<open>Logto_Tasks\<close>, \<open>Dav_Tasks\<close>, \<open>Limit_Tasks\<close> (the shared clients and buckets), \<open>Mcp_Tasks\<close> (the tools),
    \<open>Server_Tasks\<close> (the layers and the routes), \<open>Server_Pool\<close> (the invariant of the service) and \<open>Server_Concurrent\<close>.
  \<^item> \<open>Unit_Tests\<close>, \<open>Unit_Tests_Net\<close>, \<open>Unit_Tests_Server\<close>: the tests in the sources, one definition each, with the
    lemma that the model passes it. They check the definitions on the authors' own examples.

  \<^bold>\<open>What the theorems show\<close>, by group.

  \<^item> Confinement of the bearer: from the origin check on every resolved href (\<open>Dav_Trace\<close>) over the tools
    (\<open>Mcp_Trace\<close>) to any run of the service (\<open>Server_Router\<close>), every request the client builds carries the
    verified bearer of the very request served, and no other, to the configured origin; so it is when requests
    overlap and are dropped half way (\<open>Server_Concurrent\<close>). These theorems speak of the requests handed to
    \<open>reqwest\<close>. The code sets no redirect policy, so \<open>reqwest\<close> follows redirects by its default, also to other
    origins, where \<open>SECURITY.md\<close> counts redirects as untrusted and forbids leaving the configured origin; what is
    sent on a redirect is part of the answer here, and nothing is shown of it.
  \<^item> Concurrency: nothing but the refresh of the key set is waited for, every request in flight can be finished,
    refreshes keep their distance, and a request that is not disturbed ends as the sequential service says.
  \<^item> The process: nothing listens before the configuration was validated and the service built, and only a
    signal ends it without an error, though not gracefully (\<open>Process\<close>).
  \<^item> Authentication: an accepted identity goes back to an unexpired token whose signature was checked with
    a key that was served, for the configured issuer and audience (\<open>Logto_Oidc\<close>), and nothing passes
    the middleware without one (\<open>Bearer_Auth\<close>); a rejected bearer is forgotten everywhere.
  \<^item> The OAuth flow: codes go only to allowlisted redirect URIs, a state is used once and for ten
    minutes, and the metadata, authorize, token, registration and callback URLs it names are routes it serves
    (keys and user information are advertised on the provider).
  \<^item> Limits: the rate limiter enforces its quotas per user and per bearer under any traffic of at most 4096 keys a map
    (beyond that an evicted key starts afresh), sessions never exceed the cap
    under any interleaving, every table is bounded, metric labels are a fixed set.
  \<^item> Data: vCards cannot be injected into and are read back as written up to stated losses; updates replace
    the card that was read, conditionally on its tag; a multistatus document is read as the values of
    its tree, a search query reaches the server as data; the birthday
    window equals its definition on the calendar. Every tool call ends with an answer.

  \<^bold>\<open>Interfaces.\<close> \<open>capped_insert\<close> (\<open>Rust_Map\<close>) is the contract of a bounded map that evicts, interpreted on
  the last-used table, the validation cache, the discovery cache and the bucket maps; \<open>token_bucket\<close>
  (\<open>Rate_Limit\<close>) is what the limiter relies on of a bucket, interpreted on the generic cell rate algorithm;
  \<open>churned_map\<close> (\<open>Unit_Tests\<close>) is a table filled with new keys, interpreted on the tables the tests fill;
  \<open>civil_calendar\<close> (\<open>Birthday\<close>) is what it relies on of dates, interpreted on the proleptic Gregorian calendar.

  \<^bold>\<open>Third-party code\<close> is an argument: parsers of URLs, forms, addresses, dates and XML, signature and hash
  functions, governor's buckets, the CardDAV and Logto replies (any function of the requests so far), the
  MCP transport with its session manager, the body-limit layer, sockets, signals, the log subscriber, clocks
  and random strings. What is assumed of it is a named
  hypothesis (\<open>url_laws\<close>, \<open>token_bucket\<close>, \<open>civil_calendar\<close>), and samples satisfy each.

  \<^bold>\<open>Bounds.\<close> No definition that models the code uses fuel; the XML reader of the tests takes the length of the
  document, as every event consumes a byte. Integers are unbounded where the code's checks keep them in range, and
  parsed at the width of the code (\<open>parse_uint\<close>); times are nanoseconds. The one loop that is not
  structural, the folding of vCard lines, is a \<open>partial_function\<close>, and building a card is proved to return.

  \<^bold>\<open>Order of requests.\<close> The sequential theories read every handler as a function. In the concurrent ones
  validations, CardDAV operations, limiter checks, tool calls and whole requests are programs that
  interleave at every lock, clock read and network wait, and may be dropped at any of them; a program run
  without interruption equals the function (\<open>run_\<close> lemmas). Histories are kept beside the state to state what
  happened, and no step reads them: \<open>lw_cells\<close> and \<open>lw_checks\<close> (buckets made and checked), \<open>ow_events\<close> and
  \<open>ow_attempts\<close> (validations and refreshes), \<open>sw_log\<close> (what was logged, by whom). \<open>Session_Cap\<close> interleaves the
  creation of sessions in the same way, with a program counter for each task, and \<open>Process\<close> the two servers
  with the signals.

  \<^bold>\<open>Not modelled\<close>: log lines and tracing spans, the JSON encoding of answers, the \<open>Debug\<close> texts, the tool metadata
  macros, the boundaries of histogram buckets, and poisoned locks, as no code panics while it holds one. Of the
  tests one is left out, \<open>init_is_idempotent\<close>, which asserts nothing.
\<close>

end
